(* ===== verification/Vemory_Prelude.thy ===== *)
theory Vemory_Prelude
  imports Complex_Main "HOL-Library.Word" "HOL-Library.AList" "HOL-Library.Sublist"
begin

text \<open>
  Shared vocabulary of the development: byte strings, the parts of the C and C++ standard
  library that several components of Vemory call (character classes, decimal printing with
  \<^verbatim>\<open>snprintf\<close>, \<^verbatim>\<open>strtoll\<close> and \<^verbatim>\<open>strtoull\<close>, little-endian \<^verbatim>\<open>memcpy\<close> of unsigned integers,
  \<^verbatim>\<open>std::unordered_map\<close>), and the generic lemmas the component theories use.
\<close>

section \<open>State machines\<close>

text \<open>
  A component that runs beside others is a step relation on its states. Invariants are proved for one step
  and lifted to every reachable state here, once for all machines of the development.
\<close>

locale transition_system =
  fixes init :: "'s \<Rightarrow> bool"
    and step :: "'s \<Rightarrow> 's \<Rightarrow> bool"
begin

definition reachable :: "'s \<Rightarrow> bool" where
  "reachable t \<longleftrightarrow> (\<exists>s. init s \<and> step\<^sup>*\<^sup>* s t)"

lemma reachable_init: "init s \<Longrightarrow> reachable s"
  by (auto simp: reachable_def)

lemma reachable_step: "reachable s \<Longrightarrow> step s t \<Longrightarrow> reachable t"
  by (auto simp: reachable_def intro: rtranclp.rtrancl_into_rtrancl)

lemma steps_invariant:
  assumes "step\<^sup>*\<^sup>* s t" and "\<And>a b. P a \<Longrightarrow> step a b \<Longrightarrow> P b" and "P s"
  shows "P t"
  using assms(1) by (induction rule: rtranclp_induct) (auto intro: assms(2,3))

lemma reachable_invariant:
  assumes "reachable t" and "\<And>s. init s \<Longrightarrow> P s" and "\<And>a b. P a \<Longrightarrow> step a b \<Longrightarrow> P b"
  shows "P t"
proof -
  from assms(1) obtain s where "init s" "step\<^sup>*\<^sup>* s t" by (auto simp: reachable_def)
  show ?thesis
    using \<open>step\<^sup>*\<^sup>* s t\<close> assms(3) assms(2) [OF \<open>init s\<close>] by (rule steps_invariant)
qed

end

section \<open>Names and collections\<close>

text \<open>
  A \<^verbatim>\<open>std::string\<close> or a raw buffer is a list of 8-bit characters. Container sizes and byte
  offsets (\<^verbatim>\<open>size_t\<close>, \<^verbatim>\<open>uint64_t\<close> stream offsets) are natural numbers unless the code can make
  them wrap; node ids are \<^typ>\<open>16 word\<close>, stored vector components \<^typ>\<open>32 word\<close> bit patterns.
\<close>

type_synonym bytes = string
type_synonym u16 = "16 word"
type_synonym u64 = "64 word"

named_theorems umap_simps \<open>lookups in the unordered-map model\<close>
named_theorems wf_intros \<open>preservation of component invariants\<close>

abbreviation CR :: char where "CR \<equiv> CHR 0x0D"
abbreviation LF :: char where "LF \<equiv> CHR 0x0A"
abbreviation NUL :: char where "NUL \<equiv> CHR 0x00"

definition crlf :: bytes where
  "crlf = [CR, LF]"

lemma length_crlf [simp]: "length crlf = 2"
  by (simp add: crlf_def)

section \<open>Character classes of the C locale\<close>

definition ascii :: "char \<Rightarrow> nat" where
  "ascii c = of_char c"

definition isdigit :: "char \<Rightarrow> bool" where
  "isdigit c \<longleftrightarrow> 48 \<le> ascii c \<and> ascii c \<le> 57"

definition isspace :: "char \<Rightarrow> bool" where
  "isspace c \<longleftrightarrow> ascii c = 32 \<or> 9 \<le> ascii c \<and> ascii c \<le> 13"

definition tolower :: "char \<Rightarrow> char" where
  "tolower c = (if 65 \<le> ascii c \<and> ascii c \<le> 90 then char_of (ascii c + 32) else c)"

definition digit_val :: "char \<Rightarrow> nat" where
  "digit_val c = ascii c - 48"

definition digit_char :: "nat \<Rightarrow> char" where
  "digit_char d = char_of (48 + d)"

lemma ascii_lt_256: "ascii c < 256"
  by (simp add: ascii_def)

lemma ascii_char_of_mod [simp]: "ascii (char_of n) = n mod 256"
  by (simp add: ascii_def)

lemma ascii_char_of: "n < 256 \<Longrightarrow> ascii (char_of n) = n"
  by simp

lemma ascii_digit_char [simp]: "d < 10 \<Longrightarrow> ascii (digit_char d) = 48 + d"
  by (simp add: digit_char_def ascii_char_of)

lemma isdigit_digit_char [simp]: "d < 10 \<Longrightarrow> isdigit (digit_char d)"
  by (simp add: isdigit_def)

lemma digit_val_digit_char [simp]: "d < 10 \<Longrightarrow> digit_val (digit_char d) = d"
  by (simp add: digit_val_def)

lemma isdigit_neq:
  "isdigit c \<Longrightarrow> c \<noteq> CR" "isdigit c \<Longrightarrow> c \<noteq> LF" "isdigit c \<Longrightarrow> c \<noteq> CHR ''-''"
  "isdigit c \<Longrightarrow> c \<noteq> CHR ''+''" "isdigit c \<Longrightarrow> c \<noteq> NUL" "isdigit c \<Longrightarrow> c \<noteq> CHR '' ''"
  by (auto simp: isdigit_def ascii_def)

lemma isdigit_not_isspace: "isdigit c \<Longrightarrow> \<not> isspace c"
  by (auto simp: isdigit_def isspace_def)

section \<open>Decimal text\<close>

text \<open>\<^verbatim>\<open>snprintf\<close> with \<^verbatim>\<open>%zu\<close>, \<^verbatim>\<open>%u\<close> and \<^verbatim>\<open>%llu\<close>; the buffers the code passes are large enough.\<close>

fun dec_of_nat :: "nat \<Rightarrow> bytes" where
  "dec_of_nat n =
     (if n < 10 then [digit_char n] else dec_of_nat (n div 10) @ [digit_char (n mod 10)])"

declare dec_of_nat.simps [simp del]

text \<open>\<^verbatim>\<open>snprintf\<close> with \<^verbatim>\<open>%lld\<close>.\<close>

definition dec_of_int :: "int \<Rightarrow> bytes" where
  "dec_of_int i = (if i < 0 then CHR ''-'' # dec_of_nat (nat (- i)) else dec_of_nat (nat i))"

text \<open>The value of a digit string, accumulated from the left as the code's loops do.\<close>

definition dec_val :: "nat \<Rightarrow> bytes \<Rightarrow> nat" where
  "dec_val = foldl (\<lambda>v c. v * 10 + digit_val c)"

lemma dec_of_nat_not_Nil [simp]: "dec_of_nat n \<noteq> []"
  by (subst dec_of_nat.simps) simp

lemma dec_of_nat_digits: "\<forall>c \<in> set (dec_of_nat n). isdigit c"
proof (induction n rule: dec_of_nat.induct)
  case (1 n)
  then show ?case by (cases "n < 10") (auto simp: dec_of_nat.simps [of n])
qed

lemma dec_val_Nil [simp]: "dec_val v [] = v"
  by (simp add: dec_val_def)

lemma dec_val_Cons [simp]: "dec_val v (c # cs) = dec_val (v * 10 + digit_val c) cs"
  by (simp add: dec_val_def)

lemma dec_val_append [simp]: "dec_val v (xs @ ys) = dec_val (dec_val v xs) ys"
  by (simp add: dec_val_def)

lemma dec_val_dec_of_nat [simp]: "dec_val 0 (dec_of_nat n) = n"
proof (induction n rule: dec_of_nat.induct)
  case (1 n)
  then show ?case by (cases "n < 10") (auto simp: dec_of_nat.simps [of n])
qed

lemma dec_val_ge: "v \<le> dec_val v cs"
proof (induction cs arbitrary: v)
  case (Cons c cs)
  have "v \<le> v * 10 + digit_val c" by simp
  also have "\<dots> \<le> dec_val (v * 10 + digit_val c) cs" by (rule Cons.IH)
  finally show ?case by simp
qed simp

section \<open>Fixed-width integers\<close>

text \<open>The value an \<^verbatim>\<open>int64_t\<close> holds after two's complement wrap-around.\<close>

definition to_int64 :: "int \<Rightarrow> int" where
  "to_int64 x = (x + 2 ^ 63) mod 2 ^ 64 - 2 ^ 63"

lemma to_int64_id: "- (2 ^ 63) \<le> x \<Longrightarrow> x < 2 ^ 63 \<Longrightarrow> to_int64 x = x"
  by (simp add: to_int64_def)

lemma to_int64_range: "- (2 ^ 63) \<le> to_int64 x \<and> to_int64 x < 2 ^ 63"
proof -
  have "0 \<le> (x + 2 ^ 63) mod 2 ^ 64" "(x + 2 ^ 63) mod 2 ^ 64 < 2 ^ 64"
    by simp_all
  then show ?thesis by (simp add: to_int64_def)
qed

text \<open>\<^verbatim>\<open>memcpy\<close> / \<^verbatim>\<open>fwrite\<close> of an unsigned integer of \<open>k\<close> bytes on a little-endian machine.\<close>

fun le_bytes :: "nat \<Rightarrow> nat \<Rightarrow> bytes" where
  "le_bytes 0 n = []"
| "le_bytes (Suc k) n = char_of (n mod 256) # le_bytes k (n div 256)"

fun le_nat :: "bytes \<Rightarrow> nat" where
  "le_nat [] = 0"
| "le_nat (c # cs) = ascii c + 256 * le_nat cs"

lemma length_le_bytes [simp]: "length (le_bytes k n) = k"
  by (induction k arbitrary: n) auto

lemma le_nat_le_bytes: "le_nat (le_bytes k n) = n mod 256 ^ k"
proof (induction k arbitrary: n)
  case (Suc k)
  then show ?case by (simp add: ascii_char_of mod_mult2_eq)
qed simp

lemma le_nat_le_bytes_id [simp]: "n < 256 ^ k \<Longrightarrow> le_nat (le_bytes k n) = n"
  by (simp add: le_nat_le_bytes)

lemma le_nat_less: "le_nat cs < 256 ^ length cs"
proof (induction cs)
  case (Cons c cs)
  have "ascii c < 256" by (rule ascii_lt_256)
  with Cons.IH show ?case by simp
qed simp

section \<open>C string conversions\<close>

text \<open>\<^verbatim>\<open>s.c_str()\<close> seen through a C function: the bytes before the first NUL.\<close>

definition c_str :: "bytes \<Rightarrow> bytes" where
  "c_str s = takeWhile (\<lambda>c. c \<noteq> NUL) s"

text \<open>
  Common prefix of \<^verbatim>\<open>strtoll\<close> and \<^verbatim>\<open>strtoull\<close> in base 10: white space, an optional sign, digits.
  The result is the sign, the digits and the rest (what the end pointer points to); \<^term>\<open>None\<close>
  when there is no digit, in which case the end pointer is the start of the string.
\<close>

definition scan_decimal :: "bytes \<Rightarrow> (bool \<times> bytes \<times> bytes) option" where
  "scan_decimal s =
     (let t = dropWhile isspace s;
          neg = (case t of c # _ \<Rightarrow> c = CHR ''-'' | [] \<Rightarrow> False);
          u = (case t of c # r \<Rightarrow> if c = CHR ''-'' \<or> c = CHR ''+'' then r else t | [] \<Rightarrow> t);
          ds = takeWhile isdigit u
      in if ds = [] then None else Some (neg, ds, dropWhile isdigit u))"

text \<open>\<^verbatim>\<open>strtoll(s, &end, 10)\<close>: the value clamped to \<^verbatim>\<open>long long\<close>, and the rest.\<close>

definition strtoll :: "bytes \<Rightarrow> (int \<times> bytes) option" where
  "strtoll s = (case scan_decimal s of None \<Rightarrow> None
     | Some (neg, ds, rest) \<Rightarrow>
         (let v = (if neg then - int (dec_val 0 ds) else int (dec_val 0 ds))
          in Some (max (- (2 ^ 63)) (min v (2 ^ 63 - 1)), rest)))"

text \<open>\<^verbatim>\<open>strtoull(s, &end, 10)\<close>: clamped to \<^verbatim>\<open>unsigned long long\<close>; a minus sign negates modulo \<open>2^64\<close>.\<close>

definition strtoull :: "bytes \<Rightarrow> (nat \<times> bytes) option" where
  "strtoull s = (case scan_decimal s of None \<Rightarrow> None
     | Some (neg, ds, rest) \<Rightarrow>
         (let m = dec_val 0 ds
          in Some (if 2 ^ 64 \<le> m then 2 ^ 64 - 1
                   else if neg then (2 ^ 64 - m) mod 2 ^ 64 else m, rest)))"

lemma takeWhile_digits_append [simp]:
  "\<forall>c \<in> set ds. isdigit c \<Longrightarrow> takeWhile isdigit ds = ds"
  "\<forall>c \<in> set ds. isdigit c \<Longrightarrow> dropWhile isdigit ds = []"
  by (simp_all add: takeWhile_eq_all_conv)

lemma scan_decimal_dec_of_nat:
  "scan_decimal (dec_of_nat n) = Some (False, dec_of_nat n, [])"
proof -
  obtain c cs where eq: "dec_of_nat n = c # cs"
    by (cases "dec_of_nat n") simp_all
  have "isdigit c" using dec_of_nat_digits [of n] eq by simp
  then have "\<not> isspace c" "c \<noteq> CHR ''-''" "c \<noteq> CHR ''+''"
    by (auto dest: isdigit_not_isspace isdigit_neq)
  then have "dropWhile isspace (dec_of_nat n) = dec_of_nat n"
    using eq by simp
  moreover have "takeWhile isdigit (dec_of_nat n) = dec_of_nat n"
    "dropWhile isdigit (dec_of_nat n) = []"
    using dec_of_nat_digits [of n] by simp_all
  ultimately show ?thesis
    using eq \<open>c \<noteq> CHR ''-''\<close> \<open>c \<noteq> CHR ''+''\<close> by (simp add: scan_decimal_def)
qed

lemma strtoll_dec_of_nat: "n < 2 ^ 63 \<Longrightarrow> strtoll (dec_of_nat n) = Some (int n, [])"
  by (simp add: strtoll_def scan_decimal_dec_of_nat)

lemma strtoull_dec_of_nat: "n < 2 ^ 64 \<Longrightarrow> strtoull (dec_of_nat n) = Some (n, [])"
  by (simp add: strtoull_def scan_decimal_dec_of_nat)

section \<open>Unordered maps\<close>

text \<open>
  \<^verbatim>\<open>std::unordered_map\<close> as an association list with distinct keys, in the container's iteration
  order. C++ leaves that order unspecified: \<open>emplace\<close> here appends, and the theorems about code
  that iterates (dumps, snapshots) quantify over every list, hence over every order.
\<close>

type_synonym ('k, 'v) umap = "('k \<times> 'v) list"

definition um_wf :: "('k, 'v) umap \<Rightarrow> bool" where
  "um_wf m \<longleftrightarrow> distinct (map fst m)"

definition um_find :: "('k, 'v) umap \<Rightarrow> 'k \<Rightarrow> 'v option" where
  "um_find m k = map_of m k"

text \<open>\<^verbatim>\<open>m[k] = v\<close>\<close>

definition um_put :: "('k, 'v) umap \<Rightarrow> 'k \<Rightarrow> 'v \<Rightarrow> ('k, 'v) umap" where
  "um_put m k v = AList.update k v m"

text \<open>\<^verbatim>\<open>m.emplace(k, v)\<close>: an existing entry is kept.\<close>

definition um_emplace :: "('k, 'v) umap \<Rightarrow> 'k \<Rightarrow> 'v \<Rightarrow> ('k, 'v) umap" where
  "um_emplace m k v = (case um_find m k of None \<Rightarrow> m @ [(k, v)] | Some _ \<Rightarrow> m)"

definition um_erase :: "('k, 'v) umap \<Rightarrow> 'k \<Rightarrow> ('k, 'v) umap" where
  "um_erase m k = AList.delete k m"

lemma um_find_Nil [umap_simps]: "um_find [] k = None"
  by (simp add: um_find_def)

lemma um_find_put [umap_simps]: "um_find (um_put m k v) k' = (if k' = k then Some v else um_find m k')"
  by (simp add: um_find_def um_put_def update_conv')

lemma um_find_emplace [umap_simps]:
  "um_find (um_emplace m k v) k' =
     (if k' = k \<and> um_find m k = None then Some v else um_find m k')"
  by (auto simp: um_find_def um_emplace_def map_add_def split: option.splits)

lemma um_find_erase [umap_simps]: "um_find (um_erase m k) k' = (if k' = k then None else um_find m k')"
  by (simp add: um_find_def um_erase_def delete_conv')

lemma um_wf_Nil [simp, intro]: "um_wf []"
  by (simp add: um_wf_def)

lemma um_wf_put [wf_intros]: "um_wf m \<Longrightarrow> um_wf (um_put m k v)"
  by (simp add: um_wf_def um_put_def distinct_update)

lemma um_wf_emplace [wf_intros]: "um_wf m \<Longrightarrow> um_wf (um_emplace m k v)"
  by (auto simp: um_wf_def um_emplace_def um_find_def map_of_eq_None_iff split: option.splits)

lemma um_wf_erase [wf_intros]: "um_wf m \<Longrightarrow> um_wf (um_erase m k)"
  by (simp add: um_wf_def um_erase_def distinct_delete)

lemma um_find_mem: "um_wf m \<Longrightarrow> um_find m k = Some v \<longleftrightarrow> (k, v) \<in> set m"
  by (simp add: um_wf_def um_find_def)

lemma um_find_None_iff: "um_find m k = None \<longleftrightarrow> k \<notin> fst ` set m"
  by (simp add: um_find_def map_of_eq_None_iff)

lemma um_keys: "fst ` set m = {k. um_find m k \<noteq> None}"
  by (auto simp: um_find_None_iff)

lemma length_um_put:
  "length (um_put m k v) = (if um_find m k = None then Suc (length m) else length m)"
proof -
  have "length (AList.update k v m) = (if k \<in> fst ` set m then length m else Suc (length m))"
    by (induction m) auto
  then show ?thesis by (simp add: um_put_def um_find_None_iff)
qed

lemma length_um_erase:
  assumes "um_wf m"
  shows "length (um_erase m k) = (if um_find m k = None then length m else length m - 1)"
proof -
  from assms have "um_wf (um_erase m k)" by (rule um_wf_erase)
  then have "length (um_erase m k) = card (fst ` set (um_erase m k))"
    by (metis distinct_card length_map list.set_map um_wf_def)
  also have "\<dots> = card (fst ` set m - {k})"
    by (simp add: um_erase_def delete_keys flip: set_map)
  also have "\<dots> = (if um_find m k = None then card (fst ` set m) else card (fst ` set m) - 1)"
    by (auto simp: um_find_None_iff)
  also have "card (fst ` set m) = length m"
    by (metis assms distinct_card length_map list.set_map um_wf_def)
  finally show ?thesis .
qed

text \<open>Two well-formed maps that agree on every lookup hold the same number of entries.\<close>

lemma um_length_eq:
  assumes "um_wf m" "um_wf m'" "um_find m = um_find m'"
  shows "length m = length m'"
proof -
  have "length x = card (fst ` set x)" if "um_wf x" for x :: "('a, 'b) umap"
    using that by (metis distinct_card length_map list.set_map um_wf_def)
  with assms show ?thesis by (simp add: um_keys)
qed

section \<open>Byte slices\<close>

text \<open>\<^verbatim>\<open>std::string(p + pos, n)\<close> for a range inside the buffer.\<close>

definition slice :: "nat \<Rightarrow> nat \<Rightarrow> 'a list \<Rightarrow> 'a list" where
  "slice pos n xs = take n (drop pos xs)"

lemma length_slice [simp]: "pos + n \<le> length xs \<Longrightarrow> length (slice pos n xs) = n"
  by (simp add: slice_def)

lemma slice_append1: "pos + n \<le> length xs \<Longrightarrow> slice pos n (xs @ ys) = slice pos n xs"
  by (simp add: slice_def)

lemma slice_middle: "slice (length xs) (length ys) (xs @ ys @ zs) = ys"
  by (simp add: slice_def)

lemma nth_append_shift: "(xs @ ys) ! (length xs + i) = ys ! i"
  by simp

end
