(* ===== verification/Resp.thy ===== *)
theory Resp
  imports Vemory_Prelude
begin

text \<open>
  The RESP wire format: \<^verbatim>\<open>RespEncode\<close> (src/src/protocol/resp/RespEncode.cc) and \<^verbatim>\<open>RespDecode\<close>
  (src/src/protocol/resp/RespDecode.cc). The encoder's functions take the output buffer and return
  it extended; the decoder works on the buffer with the code's byte positions. The lemmas show that
  decoding inverts encoding, that a verdict of the decoder never changes when more bytes arrive,
  and that a proper prefix of a frame is always reported as incomplete.
\<close>

section \<open>RespEncode\<close>

definition AppendCRLF :: "bytes \<Rightarrow> bytes" where
  "AppendCRLF out = out @ crlf"

definition AppendSimpleString :: "bytes \<Rightarrow> bytes \<Rightarrow> bytes" where
  "AppendSimpleString out s = AppendCRLF ((out @ ''+'') @ s)"

definition AppendError :: "bytes \<Rightarrow> bytes \<Rightarrow> bytes" where
  "AppendError out s = AppendCRLF ((out @ ''-'') @ s)"

definition AppendInteger :: "bytes \<Rightarrow> int \<Rightarrow> bytes" where
  "AppendInteger out v = out @ (CHR '':'' # dec_of_int v @ crlf)"

definition AppendBulkString :: "bytes \<Rightarrow> bytes \<Rightarrow> bytes" where
  "AppendBulkString out s = AppendCRLF ((out @ (CHR ''$'' # dec_of_nat (length s) @ crlf)) @ s)"

definition AppendNullBulk :: "bytes \<Rightarrow> bytes" where
  "AppendNullBulk out = out @ ''$-1'' @ crlf"

definition AppendArrayHeader :: "bytes \<Rightarrow> int \<Rightarrow> bytes" where
  "AppendArrayHeader out n = out @ (CHR ''*'' # dec_of_int n @ crlf)"

definition AppendOk :: "bytes \<Rightarrow> bytes" where
  "AppendOk out = out @ ''+OK'' @ crlf"

section \<open>RespDecode\<close>

function FindCRLF :: "bytes \<Rightarrow> nat \<Rightarrow> nat option" where
  "FindCRLF data i =
     (if i + 1 < length data
      then if data ! i = CR \<and> data ! (i + 1) = LF then Some i else FindCRLF data (i + 1)
      else None)"
  by pat_completeness auto
termination
  by (relation "measure (\<lambda>(data, i). length data - i)") auto

declare FindCRLF.simps [simp del]

text \<open>The digit loop of \<^verbatim>\<open>ParseIntegerLine\<close>; the accumulator is an \<^verbatim>\<open>int64_t\<close>.\<close>

function parse_digits :: "bytes \<Rightarrow> nat \<Rightarrow> nat \<Rightarrow> int \<Rightarrow> int option" where
  "parse_digits data i crlf_pos value =
     (if i < crlf_pos
      then if \<not> isdigit (data ! i) then None
           else parse_digits data (i + 1) crlf_pos
                  (to_int64 (value * 10 + (int (ascii (data ! i)) - 48)))
      else Some value)"
  by pat_completeness auto
termination
  by (relation "measure (\<lambda>(data, i, crlf_pos, value). crlf_pos - i)") auto

declare parse_digits.simps [simp del]

text \<open>Some (new position, value) on success, None where the code returns \<^verbatim>\<open>false\<close>.\<close>

definition ParseIntegerLine :: "bytes \<Rightarrow> nat \<Rightarrow> (nat \<times> int) option" where
  "ParseIntegerLine data pos =
     (case FindCRLF data pos of
        None \<Rightarrow> None
      | Some crlf_pos \<Rightarrow>
          if crlf_pos = pos then None
          else let neg = (data ! pos = CHR ''-'');
                   i = (if neg then pos + 1 else pos)
               in if neg \<and> i = crlf_pos then None
                  else case parse_digits data i crlf_pos 0 of
                         None \<Rightarrow> None
                       | Some value \<Rightarrow>
                           Some (crlf_pos + 2, if neg then to_int64 (- value) else value))"

text \<open>
  Outcome of a decoder call. \<open>DLengthError\<close> is the \<^verbatim>\<open>std::length_error\<close> that
  \<^verbatim>\<open>tokens->reserve(count)\<close> throws when the announced count exceeds the vector's \<^verbatim>\<open>max_size()\<close>
  (the largest number of 16-byte views below \<open>2^63\<close> bytes); no caller catches it. Allocations
  below that limit are taken to succeed.
\<close>

datatype decode_result =
    DOk "bytes list" nat
  | DNeedMore
  | DError
  | DLengthError

definition vector_max_size :: nat where
  "vector_max_size = 2 ^ 59 - 1"

fun decode_bulks :: "bytes \<Rightarrow> nat \<Rightarrow> nat \<Rightarrow> bytes list \<Rightarrow> decode_result" where
  "decode_bulks data 0 pos tokens = DOk tokens pos"
| "decode_bulks data (Suc n) pos tokens =
     (if length data \<le> pos then DNeedMore
      else if data ! pos \<noteq> CHR ''$'' then DError
      else case ParseIntegerLine data (pos + 1) of
             None \<Rightarrow> (case FindCRLF data (pos + 1) of None \<Rightarrow> DNeedMore | Some _ \<Rightarrow> DError)
           | Some (pos', bulk_len) \<Rightarrow>
               if bulk_len < 0 then DError
               else let body_len = nat bulk_len
                    in if length data < pos' + body_len + 2 then DNeedMore
                       else if data ! (pos' + body_len) \<noteq> CR
                               \<or> data ! (pos' + body_len + 1) \<noteq> LF then DError
                       else decode_bulks data n (pos' + body_len + 2)
                              (tokens @ [slice pos' body_len data]))"

definition DecodeArrayOfBulk :: "bytes \<Rightarrow> decode_result" where
  "DecodeArrayOfBulk data =
     (if data = [] then DNeedMore
      else if data ! 0 \<noteq> CHR ''*'' then DError
      else case ParseIntegerLine data 1 of
             None \<Rightarrow> (case FindCRLF data 1 of None \<Rightarrow> DNeedMore | Some _ \<Rightarrow> DError)
           | Some (pos, count) \<Rightarrow>
               if count < 0 then DError
               else if vector_max_size < nat count then DLengthError
               else decode_bulks data (nat count) pos [])"

section \<open>Finding the line end\<close>

lemma FindCRLF_Some:
  "FindCRLF data i = Some j \<Longrightarrow>
     i \<le> j \<and> j + 1 < length data \<and> data ! j = CR \<and> data ! (j + 1) = LF"
proof (induction data i rule: FindCRLF.induct)
  case (1 data i)
  then show ?case
    by (subst (asm) (2) FindCRLF.simps) (auto split: if_splits)
qed

lemma FindCRLF_append:
  "FindCRLF data i = Some j \<Longrightarrow> FindCRLF (data @ more) i = Some j"
proof (induction data i rule: FindCRLF.induct)
  case (1 data i)
  then show ?case
    by (subst (asm) (2) FindCRLF.simps)
       (auto simp: FindCRLF.simps [of "data @ more" i] nth_append split: if_splits)
qed

lemma FindCRLF_at:
  "CR \<notin> set s \<Longrightarrow> FindCRLF (pre @ s @ CR # LF # rest) (length pre) = Some (length pre + length s)"
proof (induction s arbitrary: pre)
  case Nil
  then show ?case by (subst FindCRLF.simps) (simp add: nth_append)
next
  case (Cons c s)
  have "FindCRLF ((pre @ [c]) @ s @ CR # LF # rest) (length (pre @ [c])) =
      Some (length (pre @ [c]) + length s)"
    using Cons.prems by (intro Cons.IH) simp
  then show ?case
    using Cons.prems by (subst FindCRLF.simps) (auto simp: nth_append)
qed

section \<open>Integer lines\<close>

lemma parse_digits_append:
  "crlf_pos \<le> length data \<Longrightarrow> parse_digits (data @ more) i crlf_pos v = parse_digits data i crlf_pos v"
proof (induction data i crlf_pos v rule: parse_digits.induct)
  case (1 data i crlf_pos v)
  then show ?case
    by (simp add: parse_digits.simps [of "data @ more" i] parse_digits.simps [of data i] nth_append)
qed

lemma parse_digits_digits:
  assumes "\<forall>c \<in> set ds. isdigit c" and "dec_val v ds < 2 ^ 63"
  shows "parse_digits (pre @ ds @ rest) (length pre) (length pre + length ds) (int v) =
           Some (int (dec_val v ds))"
  using assms
proof (induction ds arbitrary: pre v)
  case Nil
  then show ?case by (subst parse_digits.simps) simp
next
  case (Cons c ds)
  let ?v = "v * 10 + digit_val c"
  have c: "isdigit c" using Cons.prems by simp
  then have val: "int v * 10 + (int (ascii c) - 48) = int ?v"
    by (simp add: isdigit_def digit_val_def)
  have "?v \<le> dec_val ?v ds" by (rule dec_val_ge)
  with Cons.prems have "?v < 2 ^ 63" by simp
  then have wrap: "to_int64 (int ?v) = int ?v" by (intro to_int64_id) auto
  have "parse_digits ((pre @ [c]) @ ds @ rest) (length (pre @ [c]))
      (length (pre @ [c]) + length ds) (int ?v) = Some (int (dec_val ?v ds))"
    using Cons.prems by (intro Cons.IH) auto
  then show ?case
    using c wrap by (subst parse_digits.simps) (simp add: nth_append val)
qed

lemma ParseIntegerLine_append:
  assumes "FindCRLF data pos = Some j"
  shows "ParseIntegerLine (data @ more) pos = ParseIntegerLine data pos"
proof -
  from FindCRLF_Some [OF assms] have j: "pos \<le> j" "j \<le> length data" "pos < length data"
    by simp_all
  with assms FindCRLF_append [OF assms, of more] show ?thesis
    by (simp add: ParseIntegerLine_def parse_digits_append nth_append Let_def)
qed

lemma ParseIntegerLine_Some:
  assumes "ParseIntegerLine data pos = Some (pos', v)"
  obtains j where "FindCRLF data pos = Some j" "pos' = j + 2" "pos < j"
proof -
  from assms obtain j where j: "FindCRLF data pos = Some j" "j \<noteq> pos" "pos' = j + 2"
    by (auto simp: ParseIntegerLine_def Let_def split: option.splits if_splits)
  with FindCRLF_Some [OF j(1)] that show ?thesis by auto
qed

lemma ParseIntegerLine_bounds:
  assumes "ParseIntegerLine data pos = Some (pos', v)"
  shows "pos + 3 \<le> pos' \<and> pos' \<le> length data"
  using assms by (rule ParseIntegerLine_Some) (auto dest: FindCRLF_Some)

lemma ParseIntegerLine_dec_of_nat:
  assumes "n < 2 ^ 63"
  shows "ParseIntegerLine (pre @ dec_of_nat n @ crlf @ rest) (length pre) =
           Some (length pre + length (dec_of_nat n) + 2, int n)"
proof -
  let ?data = "pre @ dec_of_nat n @ CR # LF # rest"
  have digits: "\<forall>c \<in> set (dec_of_nat n). isdigit c" by (rule dec_of_nat_digits)
  then have "CR \<notin> set (dec_of_nat n)" by (auto dest: isdigit_neq)
  then have find: "FindCRLF ?data (length pre) = Some (length pre + length (dec_of_nat n))"
    by (rule FindCRLF_at)
  have "?data ! length pre = hd (dec_of_nat n)"
    by (simp add: nth_append hd_conv_nth)
  also have "isdigit \<dots>" using digits by simp
  finally have not_minus: "?data ! length pre \<noteq> CHR ''-''"
    by (auto dest: isdigit_neq)
  have parse: "parse_digits ?data (length pre) (length pre + length (dec_of_nat n)) (int 0) =
      Some (int (dec_val 0 (dec_of_nat n)))"
    using digits assms by (intro parse_digits_digits) auto
  from find not_minus parse show ?thesis
    by (simp add: ParseIntegerLine_def crlf_def)
qed

section \<open>Stability under more input\<close>

lemma decode_bulks_append:
  "decode_bulks data n pos tokens \<noteq> DNeedMore \<Longrightarrow>
     decode_bulks (data @ more) n pos tokens = decode_bulks data n pos tokens"
proof (induction n arbitrary: pos tokens)
  case (Suc n)
  have pos: "pos < length data" using Suc.prems by (auto split: if_splits)
  show ?case
  proof (cases "data ! pos = CHR ''$''")
    case False
    then show ?thesis using pos by (simp add: nth_append)
  next
    case dollar: True
    show ?thesis
    proof (cases "FindCRLF data (pos + 1)")
      case None
      then have "ParseIntegerLine data (pos + 1) = None" by (simp add: ParseIntegerLine_def)
      with None Suc.prems pos dollar show ?thesis by simp
    next
      case (Some j)
      note line = ParseIntegerLine_append [OF Some, of more]
        and find = FindCRLF_append [OF Some, of more]
      show ?thesis
        using Suc.prems pos dollar Some line find Suc.IH
        by (auto simp: nth_append Let_def slice_append1 split: option.splits if_splits)
    qed
  qed
qed simp

lemma DecodeArrayOfBulk_append:
  assumes "DecodeArrayOfBulk data \<noteq> DNeedMore"
  shows "DecodeArrayOfBulk (data @ more) = DecodeArrayOfBulk data"
proof -
  have ne: "data \<noteq> []" using assms by (auto simp: DecodeArrayOfBulk_def)
  show ?thesis
  proof (cases "data ! 0 = CHR ''*''")
    case False
    then show ?thesis using ne by (simp add: DecodeArrayOfBulk_def nth_append)
  next
    case star: True
    obtain j where j: "FindCRLF data 1 = Some j"
      using assms ne star
      by (cases "FindCRLF data 1")
         (simp_all add: DecodeArrayOfBulk_def ParseIntegerLine_def del: One_nat_def)
    show ?thesis
      using assms ne star ParseIntegerLine_append [OF j, of more] FindCRLF_append [OF j, of more]
      by (auto simp: DecodeArrayOfBulk_def nth_append decode_bulks_append
               simp del: One_nat_def split: option.splits if_splits)
  qed
qed

section \<open>Decoding inverts encoding\<close>

text \<open>The frame of one token and of a command, as the append functions produce them.\<close>

definition resp_bulk :: "bytes \<Rightarrow> bytes" where
  "resp_bulk s = CHR ''$'' # dec_of_nat (length s) @ crlf @ s @ crlf"

definition resp_array :: "bytes list \<Rightarrow> bytes" where
  "resp_array toks = CHR ''*'' # dec_of_nat (length toks) @ crlf @ concat (map resp_bulk toks)"

text \<open>Tokens whose sizes fit the wire integers.\<close>

definition tokens_fit :: "bytes list \<Rightarrow> bool" where
  "tokens_fit toks \<longleftrightarrow> length toks \<le> vector_max_size \<and> (\<forall>t \<in> set toks. length t < 2 ^ 63)"

lemma AppendBulkString_eq: "AppendBulkString out s = out @ resp_bulk s"
  by (simp add: AppendBulkString_def AppendCRLF_def resp_bulk_def)

lemma AppendArrayHeader_eq:
  "AppendArrayHeader out (int n) = out @ CHR ''*'' # dec_of_nat n @ crlf"
  by (simp add: AppendArrayHeader_def dec_of_int_def)

lemma resp_array_not_Nil [simp]: "resp_array toks \<noteq> []"
  by (simp add: resp_array_def)

lemma decode_bulks_resp:
  assumes "\<forall>t \<in> set toks. length t < 2 ^ 63"
  shows "decode_bulks (pre @ concat (map resp_bulk toks) @ rest) (length toks) (length pre) acc =
           DOk (acc @ toks) (length pre + length (concat (map resp_bulk toks)))"
  using assms
proof (induction toks arbitrary: pre acc)
  case (Cons t toks)
  let ?tail = "concat (map resp_bulk toks) @ rest"
  let ?n = "dec_of_nat (length t)"
  let ?data = "pre @ concat (map resp_bulk (t # toks)) @ rest"
  let ?pos = "length pre + length ?n + 3"
  have len: "length t < 2 ^ 63" using Cons.prems by simp
  have data1: "?data = (pre @ ''$'') @ ?n @ crlf @ (t @ crlf @ ?tail)"
    by (simp add: resp_bulk_def)
  have data2: "?data = (pre @ ''$'' @ ?n @ crlf) @ t @ crlf @ ?tail"
    by (simp add: resp_bulk_def)
  have data3: "?data = (pre @ resp_bulk t) @ ?tail" by (simp add: resp_bulk_def)
  have line: "ParseIntegerLine ?data (length pre + 1) = Some (?pos, int (length t))"
    unfolding data1 using ParseIntegerLine_dec_of_nat [OF len, of "pre @ ''$''"] by simp
  have dollar: "?data ! length pre = CHR ''$''" "length pre < length ?data"
    unfolding data1 by (simp_all add: nth_append)
  have p2: "?pos = length (pre @ ''$'' @ ?n @ crlf)" by simp
  have body: "slice ?pos (length t) ?data = t"
    unfolding data2 p2 by (rule slice_middle)
  have cr: "?data ! (?pos + length t) = CR"
    unfolding data2 by (simp add: nth_append crlf_def)
  have lf: "?data ! (?pos + length t + 1) = LF"
    unfolding data2 by (simp add: nth_append crlf_def)
  have room: "?pos + length t + 2 \<le> length ?data" unfolding data2 by simp
  have IH: "decode_bulks ?data (length toks) (?pos + length t + 2) (acc @ [t]) =
      DOk ((acc @ [t]) @ toks) (length (pre @ resp_bulk t) + length (concat (map resp_bulk toks)))"
  proof -
    have pos: "?pos + length t + 2 = length (pre @ resp_bulk t)" by (simp add: resp_bulk_def)
    have fit: "\<forall>t \<in> set toks. length t < 2 ^ 63" using Cons.prems by simp
    show ?thesis unfolding pos data3 by (rule Cons.IH [OF fit])
  qed
  show ?case
    using dollar line body cr lf room IH by (simp add: Let_def)
qed simp

lemma DecodeArrayOfBulk_resp_array:
  assumes "tokens_fit toks"
  shows "DecodeArrayOfBulk (resp_array toks @ rest) = DOk toks (length (resp_array toks))"
proof -
  let ?n = "dec_of_nat (length toks)"
  let ?data = "resp_array toks @ rest"
  have n: "length toks < 2 ^ 63" "length toks \<le> vector_max_size"
    using assms by (auto simp: tokens_fit_def vector_max_size_def)
  have data1: "?data = ''*'' @ ?n @ crlf @ (concat (map resp_bulk toks) @ rest)"
    by (simp add: resp_array_def)
  have line: "ParseIntegerLine ?data 1 = Some (length ?n + 3, int (length toks))"
    unfolding data1 using ParseIntegerLine_dec_of_nat [OF n(1), of "''*''"] by simp
  have "decode_bulks ((''*'' @ ?n @ crlf) @ concat (map resp_bulk toks) @ rest) (length toks)
      (length (''*'' @ ?n @ crlf)) [] =
      DOk ([] @ toks) (length (''*'' @ ?n @ crlf) + length (concat (map resp_bulk toks)))"
    using assms by (intro decode_bulks_resp) (simp add: tokens_fit_def)
  then have bulks: "decode_bulks ?data (length toks) (length ?n + 3) [] =
      DOk toks (length (resp_array toks))"
    by (simp add: resp_array_def numeral_3_eq_3)
  have "?data ! 0 = CHR ''*''" "?data \<noteq> []" by (simp_all add: resp_array_def)
  with line bulks n(2) show ?thesis by (simp add: DecodeArrayOfBulk_def)
qed

section \<open>Progress and prefixes\<close>

lemma decode_bulks_pos:
  "decode_bulks data n pos tokens = DOk toks c \<Longrightarrow> pos \<le> length data \<Longrightarrow>
     pos + 6 * n \<le> c \<and> c \<le> length data \<and> length toks = length tokens + n"
proof (induction n arbitrary: pos tokens)
  case (Suc n)
  from Suc.prems obtain pos' bl where line: "ParseIntegerLine data (pos + 1) = Some (pos', bl)"
    and room: "pos' + nat bl + 2 \<le> length data"
    and rec: "decode_bulks data n (pos' + nat bl + 2) (tokens @ [slice pos' (nat bl) data]) = DOk toks c"
    by (auto simp: Let_def split: if_splits option.splits)
  from ParseIntegerLine_bounds [OF line] Suc.IH [OF rec room] show ?case by simp
qed simp

lemma DecodeArrayOfBulk_consumed:
  assumes "DecodeArrayOfBulk data = DOk toks c"
  shows "4 + 6 * length toks \<le> c \<and> c \<le> length data"
proof -
  from assms obtain pos count where line: "ParseIntegerLine data 1 = Some (pos, count)"
    and rec: "decode_bulks data (nat count) pos [] = DOk toks c"
    by (auto simp: DecodeArrayOfBulk_def split: if_splits option.splits)
  from ParseIntegerLine_bounds [OF line] decode_bulks_pos [OF rec] show ?thesis by simp
qed

lemma DecodeArrayOfBulk_take:
  assumes "DecodeArrayOfBulk data = DOk toks c"
  shows "c \<le> length data" "0 < c"
  using DecodeArrayOfBulk_consumed [OF assms] by simp_all

lemma DecodeArrayOfBulk_prefix:
  assumes "tokens_fit toks" and "strict_prefix p (resp_array toks)"
  shows "DecodeArrayOfBulk p = DNeedMore"
proof (rule ccontr)
  assume more: "DecodeArrayOfBulk p \<noteq> DNeedMore"
  from assms(2) obtain q where q: "resp_array toks = p @ q" "q \<noteq> []"
    by (auto simp: strict_prefix_def prefix_def)
  with DecodeArrayOfBulk_append [OF more, of q] DecodeArrayOfBulk_resp_array [OF assms(1), of "[]"]
  have "DecodeArrayOfBulk p = DOk toks (length (p @ q))" by simp
  from DecodeArrayOfBulk_take(1) [OF this] q(2) show False by simp
qed

section \<open>Properties\<close>

text \<open>
  C18. Encoding a command with the code's own append functions and decoding it, with any bytes behind
  it, gives back exactly the tokens and consumes exactly the frame.
\<close>

theorem resp_roundtrip:
  assumes "tokens_fit toks"
  shows "DecodeArrayOfBulk (foldl AppendBulkString (AppendArrayHeader [] (int (length toks))) toks @ rest) =
     DOk toks (length (foldl AppendBulkString (AppendArrayHeader [] (int (length toks))) toks))"
proof -
  have "foldl AppendBulkString out toks = out @ concat (map resp_bulk toks)" for out
    by (induction toks arbitrary: out) (simp_all add: AppendBulkString_eq)
  then have "foldl AppendBulkString (AppendArrayHeader [] (int (length toks))) toks = resp_array toks"
    by (simp add: AppendArrayHeader_eq resp_array_def)
  with DecodeArrayOfBulk_resp_array [OF assms, of rest] show ?thesis by simp
qed

theorem resp_roundtrip_witness:
  "tokens_fit [''GET'', ''k''] \<and>
   DecodeArrayOfBulk (foldl AppendBulkString (AppendArrayHeader [] 2) [''GET'', ''k''] @ ''*1'') =
     DOk [''GET'', ''k''] (length (foldl AppendBulkString (AppendArrayHeader [] 2) [''GET'', ''k'']))"
  using resp_roundtrip [of "[''GET'', ''k'']" "''*1''"] by (simp add: tokens_fit_def vector_max_size_def)

text \<open>
  A verdict of the decoder is final: once it has accepted or rejected a buffer, bytes that arrive
  later do not change the verdict, the tokens or the consumed length.
\<close>

lemma decode_verdict_final:
  "DecodeArrayOfBulk data \<noteq> DNeedMore \<Longrightarrow> DecodeArrayOfBulk (data @ later) = DecodeArrayOfBulk data"
  by (rule DecodeArrayOfBulk_append)

text \<open>
  A frame cut anywhere before its end is never accepted and never rejected: the decoder asks for
  more bytes.
\<close>

lemma decode_incomplete_waits:
  assumes "tokens_fit toks" and "strict_prefix p (resp_array toks)"
  shows "DecodeArrayOfBulk p = DNeedMore"
  using assms by (rule DecodeArrayOfBulk_prefix)

text \<open>
  A decoded frame lies inside the buffer, and it is long enough for its tokens: the parse loop
  always makes progress and never reads past the end.
\<close>

lemma decode_progress:
  assumes "DecodeArrayOfBulk data = DOk toks c"
  shows "4 + 6 * length toks \<le> c \<and> c \<le> length data"
  using assms by (rule DecodeArrayOfBulk_consumed)

end
