(* ===== verification/Float32.thy ===== *)
theory Float32
  imports Vemory_Prelude
begin

text \<open>
  The part of \<^verbatim>\<open>float\<close> that Vemory computes with: the text of a \<^verbatim>\<open>VGET\<close> threshold is converted by
  \<^verbatim>\<open>std::strtof\<close> (src/src/protocol/RequestContext.cc) and compared with a distance. A value is a
  binary32 number as an exact rational, an infinity or a NaN; the two zeros, which no comparison
  tells apart, are one value. Vector components are never computed with outside the vendored
  index and stay bit patterns.
\<close>

datatype f32 = F32_fin rat | F32_inf bool | F32_nan

text \<open>\<^verbatim>\<open>a > b\<close>; the flag of an infinity is its sign. Every comparison with NaN is false.\<close>

fun f32_gt :: "f32 \<Rightarrow> f32 \<Rightarrow> bool" where
  "f32_gt (F32_fin a) (F32_fin b) \<longleftrightarrow> b < a"
| "f32_gt (F32_fin a) (F32_inf neg) \<longleftrightarrow> neg"
| "f32_gt (F32_inf neg) (F32_fin b) \<longleftrightarrow> \<not> neg"
| "f32_gt (F32_inf neg) (F32_inf neg') \<longleftrightarrow> \<not> neg \<and> neg'"
| "f32_gt F32_nan _ \<longleftrightarrow> False"
| "f32_gt _ F32_nan \<longleftrightarrow> False"

section \<open>Rounding to binary32\<close>

function bitlen :: "int \<Rightarrow> int" where
  "bitlen n = (if n \<le> 0 then 0 else bitlen (n div 2) + 1)"
  by pat_completeness auto
termination
  by (relation "measure nat") auto

declare bitlen.simps [simp del]

definition rat_pow :: "rat \<Rightarrow> int \<Rightarrow> rat" where
  "rat_pow b e = (if 0 \<le> e then b ^ nat e else inverse (b ^ nat (- e)))"

text \<open>The exponent of the leading bit of a positive rational.\<close>

definition rat_ilog2 :: "rat \<Rightarrow> int" where
  "rat_ilog2 q = (if 1 \<le> q then bitlen \<lfloor>q\<rfloor> - 1 else - bitlen (\<lceil>inverse q\<rceil> - 1))"

definition round_half_even :: "rat \<Rightarrow> int" where
  "round_half_even x =
     (let f = \<lfloor>x\<rfloor>; d = x - of_int f
      in if d < 1 / 2 then f else if 1 / 2 < d then f + 1 else if even f then f else f + 1)"

text \<open>Round to nearest, ties to even, with subnormals and overflow to infinity.\<close>

definition round_f32 :: "bool \<Rightarrow> rat \<Rightarrow> f32" where
  "round_f32 neg q =
     (if q = 0 then F32_fin 0
      else let e = max (rat_ilog2 q - 23) (- 149);
               v = of_int (round_half_even (q / rat_pow 2 e)) * rat_pow 2 e
           in if 2 ^ 128 \<le> v then F32_inf neg else F32_fin (if neg then - v else v))"

section \<open>strtof\<close>

definition hex_val :: "char \<Rightarrow> nat option" where
  "hex_val c =
     (if isdigit c then Some (digit_val c)
      else let l = ascii (tolower c) in if 97 \<le> l \<and> l \<le> 102 then Some (l - 87) else None)"

definition isxdigit :: "char \<Rightarrow> bool" where
  "isxdigit c \<longleftrightarrow> hex_val c \<noteq> None"

definition num_val :: "int \<Rightarrow> bytes \<Rightarrow> int" where
  "num_val base = foldl (\<lambda>v c. v * base + int (the (hex_val c))) 0"

text \<open>Integer and fraction digits of a significand, and the rest.\<close>

definition scan_significand :: "(char \<Rightarrow> bool) \<Rightarrow> bytes \<Rightarrow> bytes \<times> bytes \<times> bytes" where
  "scan_significand dig s =
     (let ip = takeWhile dig s; r = dropWhile dig s
      in case r of
           c # r' \<Rightarrow> if c = CHR ''.'' then (ip, takeWhile dig r', dropWhile dig r') else (ip, [], r)
         | [] \<Rightarrow> (ip, [], []))"

text \<open>An optional exponent after the marker letter; it is ignored when it has no digit.\<close>

definition scan_exponent :: "char \<Rightarrow> bytes \<Rightarrow> int \<times> bytes" where
  "scan_exponent mark s =
     (case s of
        c # r \<Rightarrow>
          if tolower c = mark
          then let neg = (case r of d # _ \<Rightarrow> d = CHR ''-'' | [] \<Rightarrow> False);
                   u = (case r of d # r' \<Rightarrow> if d = CHR ''-'' \<or> d = CHR ''+'' then r' else r | [] \<Rightarrow> r);
                   ds = takeWhile isdigit u
               in if ds = [] then (0, s)
                  else (if neg then - int (dec_val 0 ds) else int (dec_val 0 ds), dropWhile isdigit u)
          else (0, s)
      | [] \<Rightarrow> (0, s))"

definition prefix_ci :: "bytes \<Rightarrow> bytes \<Rightarrow> bool" where
  "prefix_ci p s \<longleftrightarrow> map tolower (take (length p) s) = p"

definition is_nchar :: "char \<Rightarrow> bool" where
  "is_nchar c \<longleftrightarrow> isdigit c \<or> 97 \<le> ascii (tolower c) \<and> ascii (tolower c) \<le> 122 \<or> c = CHR ''_''"

text \<open>Length of a NaN with its optional parenthesised payload.\<close>

definition nan_len :: "bytes \<Rightarrow> nat" where
  "nan_len s =
     (case drop 3 s of
        c # r \<Rightarrow> (let k = length (takeWhile is_nchar r)
                  in if c = CHR ''('' \<and> take 1 (drop k r) = '')'' then k + 5 else 3)
      | [] \<Rightarrow> 3)"

text \<open>Value and rest, or None when no conversion is performed.\<close>

definition strtof :: "bytes \<Rightarrow> (f32 \<times> bytes) option" where
  "strtof s =
     (let t = dropWhile isspace s;
          neg = (case t of c # _ \<Rightarrow> c = CHR ''-'' | [] \<Rightarrow> False);
          u = (case t of c # r \<Rightarrow> if c = CHR ''-'' \<or> c = CHR ''+'' then r else t | [] \<Rightarrow> t)
      in if prefix_ci ''infinity'' u then Some (F32_inf neg, drop 8 u)
         else if prefix_ci ''inf'' u then Some (F32_inf neg, drop 3 u)
         else if prefix_ci ''nan'' u then Some (F32_nan, drop (nan_len u) u)
         else let (hi, hf, hr) = scan_significand isxdigit (drop 2 u);
                  (he, hrest) = scan_exponent (CHR ''p'') hr
              in if prefix_ci ''0x'' u \<and> hi @ hf \<noteq> []
                 then Some (round_f32 neg (of_int (num_val 16 (hi @ hf)) *
                              rat_pow 2 (he - 4 * int (length hf))), hrest)
                 else let (di, df, dr) = scan_significand isdigit u;
                          (de, drest) = scan_exponent (CHR ''e'') dr
                      in if di @ df = [] then None
                         else Some (round_f32 neg (of_int (num_val 10 (di @ df)) *
                                      rat_pow 10 (de - int (length df))), drest))"

end
