(* ===== verification/Request.thy ===== *)
theory Request
  imports Resp Float32
begin

text \<open>
  Requests: command names (src/src/protocol/CommandType.cc), the owned \<^verbatim>\<open>RequestContext\<close> built from
  RESP tokens (src/src/protocol/RequestContext.cc), and \<^verbatim>\<open>RespEncode::EncodeWriteCommand\<close>, which
  turns a write request back into the frame stored in the AOF and sent to replicas. The receive
  time stamp, which no code reads, is left out of the record.
\<close>

section \<open>CommandType\<close>

datatype CommandType =
    kVset | kVget | kVdel | kSet | kDel | kGet | kPing | kEcho | kSave | kPsync | kUnknown

definition EqualsIgnoreCase :: "bytes \<Rightarrow> bytes \<Rightarrow> bool" where
  "EqualsIgnoreCase a b \<longleftrightarrow>
     length a = length b \<and> (\<forall>i < length a. tolower (a ! i) = tolower (b ! i))"

definition ParseCommandType :: "bytes \<Rightarrow> CommandType" where
  "ParseCommandType name =
     (if EqualsIgnoreCase name ''VSET'' then kVset
      else if EqualsIgnoreCase name ''VGET'' then kVget
      else if EqualsIgnoreCase name ''VDEL'' then kVdel
      else if EqualsIgnoreCase name ''SET'' then kSet
      else if EqualsIgnoreCase name ''DEL'' then kDel
      else if EqualsIgnoreCase name ''GET'' then kGet
      else if EqualsIgnoreCase name ''PING'' then kPing
      else if EqualsIgnoreCase name ''ECHO'' then kEcho
      else if EqualsIgnoreCase name ''SAVE'' then kSave
      else if EqualsIgnoreCase name ''PSYNC'' then kPsync
      else kUnknown)"

lemma EqualsIgnoreCase_map: "EqualsIgnoreCase a b \<longleftrightarrow> map tolower a = map tolower b"
  unfolding EqualsIgnoreCase_def by (metis length_map nth_equalityI nth_map)

section \<open>RequestContext\<close>

record RequestContext =
  client_fd :: int
  cmd :: CommandType
  vector_blob :: bytes
  rc_user_key :: bytes
  rc_question :: bytes
  rc_answer :: bytes
  threshold :: f32
  key :: bytes
  element :: bytes
  psync_replid :: bytes
  psync_offset :: int

definition default_RequestContext :: RequestContext where
  "default_RequestContext =
     \<lparr>client_fd = - 1, cmd = kUnknown, vector_blob = [], rc_user_key = [], rc_question = [],
      rc_answer = [], threshold = F32_fin 0, key = [], element = [], psync_replid = [],
      psync_offset = - 1\<rparr>"

datatype RequestStatus = RcOk | RcEmpty | RcUnknownCommand | RcWrongArity | RcBadValue

text \<open>\<^verbatim>\<open>ClearOut\<close> overwrites every field, so its result does not depend on the old context.\<close>

definition ClearOut :: "int \<Rightarrow> CommandType \<Rightarrow> RequestContext" where
  "ClearOut fd c = default_RequestContext\<lparr>client_fd := fd, cmd := c\<rparr>"

definition ParseFloat :: "bytes \<Rightarrow> f32 option" where
  "ParseFloat s =
     (if s = [] then None
      else let tmp = dropWhile isspace s
           in if tmp = [] then None
              else case strtof (c_str tmp) of
                     None \<Rightarrow> None
                   | Some (v, rest) \<Rightarrow> if dropWhile isspace rest = [] then Some v else None)"

text \<open>Status and the context left in \<^verbatim>\<open>*out\<close>.\<close>

definition FromTokens :: "int \<Rightarrow> bytes list \<Rightarrow> RequestContext \<Rightarrow> RequestStatus \<times> RequestContext" where
  "FromTokens fd tokens out =
     (if tokens = [] then (RcEmpty, out)
      else let c = ParseCommandType (tokens ! 0);
               fail = (\<lambda>st. (st, ClearOut fd c));
               clear = ClearOut fd c
           in case c of
                kUnknown \<Rightarrow> fail RcUnknownCommand
              | kVset \<Rightarrow>
                  if length tokens \<noteq> 5 then fail RcWrongArity
                  else if tokens ! 2 = [] then fail RcBadValue
                  else (RcOk, clear\<lparr>vector_blob := tokens ! 1, rc_user_key := tokens ! 2,
                                    rc_question := tokens ! 3, rc_answer := tokens ! 4\<rparr>)
              | kVget \<Rightarrow>
                  if length tokens \<noteq> 3 then fail RcWrongArity
                  else (case ParseFloat (tokens ! 2) of
                          None \<Rightarrow> fail RcBadValue
                        | Some thr \<Rightarrow> (RcOk, clear\<lparr>vector_blob := tokens ! 1, threshold := thr\<rparr>))
              | kVdel \<Rightarrow>
                  if length tokens \<noteq> 2 then fail RcWrongArity
                  else if tokens ! 1 = [] then fail RcBadValue
                  else (RcOk, clear\<lparr>rc_user_key := tokens ! 1\<rparr>)
              | kSet \<Rightarrow>
                  if length tokens \<noteq> 3 then fail RcWrongArity
                  else if tokens ! 1 = [] then fail RcBadValue
                  else (RcOk, clear\<lparr>key := tokens ! 1, element := tokens ! 2\<rparr>)
              | kGet \<Rightarrow>
                  if length tokens \<noteq> 2 then fail RcWrongArity
                  else if tokens ! 1 = [] then fail RcBadValue
                  else (RcOk, clear\<lparr>key := tokens ! 1\<rparr>)
              | kDel \<Rightarrow>
                  if length tokens \<noteq> 2 then fail RcWrongArity
                  else if tokens ! 1 = [] then fail RcBadValue
                  else (RcOk, clear\<lparr>key := tokens ! 1\<rparr>)
              | kPing \<Rightarrow>
                  if 2 < length tokens then fail RcWrongArity
                  else (RcOk, if length tokens = 2 then clear\<lparr>element := tokens ! 1\<rparr> else clear)
              | kEcho \<Rightarrow>
                  if length tokens \<noteq> 2 then fail RcWrongArity
                  else (RcOk, clear\<lparr>element := tokens ! 1\<rparr>)
              | kSave \<Rightarrow> if length tokens \<noteq> 1 then fail RcWrongArity else (RcOk, clear)
              | kPsync \<Rightarrow>
                  if length tokens \<noteq> 1 \<and> length tokens \<noteq> 3 then fail RcWrongArity
                  else if length tokens = 3
                  then if tokens ! 1 = [] \<or> tokens ! 2 = [] then fail RcBadValue
                       else (case strtoll (c_str (tokens ! 2)) of
                               None \<Rightarrow> fail RcBadValue
                             | Some (v, rest) \<Rightarrow>
                                 if rest \<noteq> [] then fail RcBadValue
                                 else (RcOk, clear\<lparr>psync_replid := tokens ! 1, psync_offset := v\<rparr>))
                  else (RcOk, clear))"

section \<open>EncodeWriteCommand\<close>

definition EncodeWriteCommand :: "RequestContext \<Rightarrow> bytes option" where
  "EncodeWriteCommand ctx =
     (case cmd ctx of
        kSet \<Rightarrow> Some (AppendBulkString (AppendBulkString (AppendBulkString
                       (AppendArrayHeader [] 3) ''SET'') (key ctx)) (element ctx))
      | kDel \<Rightarrow> Some (AppendBulkString (AppendBulkString
                       (AppendArrayHeader [] 2) ''DEL'') (key ctx))
      | kVset \<Rightarrow> Some (AppendBulkString (AppendBulkString (AppendBulkString (AppendBulkString
                       (AppendBulkString (AppendArrayHeader [] 5) ''VSET'') (vector_blob ctx))
                         (rc_user_key ctx)) (rc_question ctx)) (rc_answer ctx))
      | kVdel \<Rightarrow> Some (AppendBulkString (AppendBulkString
                       (AppendArrayHeader [] 2) ''VDEL'') (rc_user_key ctx))
      | _ \<Rightarrow> None)"

section \<open>Frames carry the whole write\<close>

text \<open>The tokens of a write request, and the part of a request that a write frame carries.\<close>

fun write_tokens :: "RequestContext \<Rightarrow> bytes list" where
  "write_tokens ctx =
     (case cmd ctx of
        kSet \<Rightarrow> [''SET'', key ctx, element ctx]
      | kDel \<Rightarrow> [''DEL'', key ctx]
      | kVset \<Rightarrow> [''VSET'', vector_blob ctx, rc_user_key ctx, rc_question ctx, rc_answer ctx]
      | kVdel \<Rightarrow> [''VDEL'', rc_user_key ctx]
      | _ \<Rightarrow> [])"

declare write_tokens.simps [simp del]

definition write_part :: "int \<Rightarrow> RequestContext \<Rightarrow> RequestContext" where
  "write_part fd ctx =
     (case cmd ctx of
        kSet \<Rightarrow> (ClearOut fd kSet)\<lparr>key := key ctx, element := element ctx\<rparr>
      | kDel \<Rightarrow> (ClearOut fd kDel)\<lparr>key := key ctx\<rparr>
      | kVset \<Rightarrow> (ClearOut fd kVset)\<lparr>vector_blob := vector_blob ctx, rc_user_key := rc_user_key ctx,
                   rc_question := rc_question ctx, rc_answer := rc_answer ctx\<rparr>
      | kVdel \<Rightarrow> (ClearOut fd kVdel)\<lparr>rc_user_key := rc_user_key ctx\<rparr>
      | c \<Rightarrow> ClearOut fd c)"

text \<open>The write requests \<^verbatim>\<open>FromTokens\<close> accepts, with fields that fit a wire length.\<close>

definition is_write :: "CommandType \<Rightarrow> bool" where
  "is_write c \<longleftrightarrow> c \<in> {kSet, kDel, kVset, kVdel}"

definition write_ok :: "RequestContext \<Rightarrow> bool" where
  "write_ok ctx \<longleftrightarrow> is_write (cmd ctx)
     \<and> (cmd ctx \<in> {kSet, kDel} \<longrightarrow> key ctx \<noteq> [])
     \<and> (cmd ctx \<in> {kVset, kVdel} \<longrightarrow> rc_user_key ctx \<noteq> [])
     \<and> tokens_fit (write_tokens ctx)"

lemma is_write_cases [consumes 1, case_names Set Del Vset Vdel]:
  "is_write c \<Longrightarrow> (c = kSet \<Longrightarrow> P) \<Longrightarrow> (c = kDel \<Longrightarrow> P) \<Longrightarrow> (c = kVset \<Longrightarrow> P) \<Longrightarrow> (c = kVdel \<Longrightarrow> P) \<Longrightarrow> P"
  by (auto simp: is_write_def)

lemma ParseCommandType_names [simp]:
  "ParseCommandType ''SET'' = kSet" "ParseCommandType ''DEL'' = kDel"
  "ParseCommandType ''VSET'' = kVset" "ParseCommandType ''VDEL'' = kVdel"
  "ParseCommandType ''GET'' = kGet" "ParseCommandType ''VGET'' = kVget"
  "ParseCommandType ''PING'' = kPing" "ParseCommandType ''ECHO'' = kEcho"
  "ParseCommandType ''SAVE'' = kSave" "ParseCommandType ''PSYNC'' = kPsync"
  by (simp_all add: ParseCommandType_def EqualsIgnoreCase_map tolower_def ascii_def)

lemma cmd_ClearOut [simp]: "cmd (ClearOut fd c) = c"
  by (simp add: ClearOut_def)

lemma EncodeWriteCommand_tokens:
  "is_write (cmd ctx) \<Longrightarrow> EncodeWriteCommand ctx = Some (resp_array (write_tokens ctx))"
  using AppendArrayHeader_eq [of "[]" 2] AppendArrayHeader_eq [of "[]" 3]
    AppendArrayHeader_eq [of "[]" 5]
  by (auto elim!: is_write_cases
           simp: EncodeWriteCommand_def write_tokens.simps resp_array_def AppendBulkString_eq
             eval_nat_numeral)

lemma EncodeWriteCommand_None: "\<not> is_write (cmd ctx) \<Longrightarrow> EncodeWriteCommand ctx = None"
  by (cases "cmd ctx") (simp_all add: EncodeWriteCommand_def is_write_def)

lemma FromTokens_write_tokens:
  assumes "write_ok ctx"
  shows "FromTokens fd (write_tokens ctx) out = (RcOk, write_part fd ctx)"
  using assms
  by (auto elim!: is_write_cases
           simp: write_ok_def FromTokens_def write_tokens.simps write_part_def is_write_def)

lemma write_frame_decodes:
  assumes "write_ok ctx" and "EncodeWriteCommand ctx = Some frame"
  shows "DecodeArrayOfBulk (frame @ rest) = DOk (write_tokens ctx) (length frame)"
    and "FromTokens fd (write_tokens ctx) out = (RcOk, write_part fd ctx)"
proof -
  from assms have "frame = resp_array (write_tokens ctx)"
    by (simp add: write_ok_def EncodeWriteCommand_tokens)
  with assms show "DecodeArrayOfBulk (frame @ rest) = DOk (write_tokens ctx) (length frame)"
    by (simp add: write_ok_def DecodeArrayOfBulk_resp_array)
  from assms show "FromTokens fd (write_tokens ctx) out = (RcOk, write_part fd ctx)"
    by (simp add: FromTokens_write_tokens)
qed

text \<open>Every accepted write request is well formed when its tokens fit.\<close>

lemma FromTokens_cmd:
  "toks \<noteq> [] \<Longrightarrow> cmd (snd (FromTokens fd toks out)) = ParseCommandType (toks ! 0)"
  by (cases "ParseCommandType (toks ! 0)") (simp_all add: FromTokens_def Let_def split: option.split)

lemma FromTokens_write_ok:
  assumes ft: "FromTokens fd toks out = (RcOk, ctx)" and w: "is_write (cmd ctx)"
    and fit: "tokens_fit toks"
  shows "write_ok ctx"
proof -
  have ne: "toks \<noteq> []" using ft by (auto simp: FromTokens_def)
  have c: "ParseCommandType (toks ! 0) = cmd ctx"
    using FromTokens_cmd [OF ne, of fd out] ft by simp
  have len: "\<And>i. i < length toks \<Longrightarrow> length (toks ! i) < 2 ^ 63"
    using fit by (simp add: tokens_fit_def)
  note defs = write_ok_def tokens_fit_def vector_max_size_def is_write_def write_tokens.simps
    FromTokens_def Let_def
  from w show ?thesis
  proof (cases rule: is_write_cases)
    case Set
    with ft ne c len [of 1] len [of 2] show ?thesis by (auto simp: defs split: if_splits)
  next
    case Del
    with ft ne c len [of 1] show ?thesis by (auto simp: defs split: if_splits)
  next
    case Vset
    with ft ne c len [of 1] len [of 2] len [of 3] len [of 4] show ?thesis
      by (auto simp: defs split: if_splits)
  next
    case Vdel
    with ft ne c len [of 1] show ?thesis by (auto simp: defs split: if_splits)
  qed
qed

section \<open>Properties\<close>

text \<open>
  The frame the server writes for a SET, DEL, VSET or VDEL decodes, whatever follows it, and the
  request rebuilt from it is the original one in every field a write reads.
\<close>

lemma write_frame_roundtrip:
  assumes "write_ok ctx"
  shows "\<exists>frame toks. EncodeWriteCommand ctx = Some frame
     \<and> DecodeArrayOfBulk (frame @ rest) = DOk toks (length frame)
     \<and> FromTokens fd toks out = (RcOk, write_part fd ctx)"
proof -
  have "is_write (cmd ctx)" using assms by (simp add: write_ok_def)
  note enc = EncodeWriteCommand_tokens [OF this]
  from write_frame_decodes [OF assms enc] enc show ?thesis by blast
qed

definition sample_set :: RequestContext where
  "sample_set = default_RequestContext\<lparr>cmd := kSet, key := ''k'', element := ''v''\<rparr>"

end
