(* ===== verification/Stdio.thy ===== *)
theory Stdio
  imports Vemory_Prelude
begin

text \<open>
  The part of C stdio the persistence code uses: an open \<^verbatim>\<open>FILE*\<close> with its contents, its position
  and the number of bytes the device still accepts. A write beyond that stops short, which is what
  \<^verbatim>\<open>fwrite\<close> reports on a full disk; a read past the end fails. The helpers \<^verbatim>\<open>WriteExact\<close> and
  \<^verbatim>\<open>ReadExact\<close> are the ones at the top of KvStore.cc, VNodeIndex.cc and SnapshotManager.cc.
\<close>

record FILE =
  f_data :: bytes
  f_pos :: nat
  f_room :: nat

text \<open>Writing at the position; a gap left by seeking past the end reads as zero bytes.\<close>

definition f_store :: "FILE \<Rightarrow> bytes \<Rightarrow> FILE" where
  "f_store f bs =
     f\<lparr>f_data := take (f_pos f) (f_data f) @ replicate (f_pos f - length (f_data f)) NUL @ bs
                  @ drop (f_pos f + length bs) (f_data f),
       f_pos := f_pos f + length bs, f_room := f_room f - length bs\<rparr>"

definition fwrite :: "FILE \<Rightarrow> bytes \<Rightarrow> nat \<times> FILE" where
  "fwrite f bs = (let n = min (length bs) (f_room f) in (n, f_store f (take n bs)))"

definition WriteExact :: "FILE \<Rightarrow> bytes \<Rightarrow> bool \<times> FILE" where
  "WriteExact f bs = (let (n, f') = fwrite f bs in (n = length bs, f'))"

text \<open>A chain of \<^verbatim>\<open>WriteExact(...) && WriteExact(...)\<close>.\<close>

fun write_all :: "FILE \<Rightarrow> bytes list \<Rightarrow> bool \<times> FILE" where
  "write_all f [] = (True, f)"
| "write_all f (c # cs) =
     (case WriteExact f c of (ok, f') \<Rightarrow> if ok then write_all f' cs else (False, f'))"

definition ReadExact :: "FILE \<Rightarrow> nat \<Rightarrow> (bytes \<times> FILE) option" where
  "ReadExact f n =
     (if f_pos f + n \<le> length (f_data f)
      then Some (slice (f_pos f) n (f_data f), f\<lparr>f_pos := f_pos f + n\<rparr>) else None)"

definition fseek_set :: "FILE \<Rightarrow> nat \<Rightarrow> FILE" where
  "fseek_set f off = f\<lparr>f_pos := off\<rparr>"

text \<open>
  Reading from a memory span: the lambdas \<^verbatim>\<open>need\<close> and \<^verbatim>\<open>take\<close> of \<^verbatim>\<open>KvStore::LoadFrom\<close>, on the unread
  rest of the span.
\<close>

definition span_take :: "bytes \<Rightarrow> nat \<Rightarrow> (bytes \<times> bytes) option" where
  "span_take p n = (if length p < n then None else Some (take n p, drop n p))"

text \<open>Lengths are cast to \<^verbatim>\<open>uint32_t\<close> before they are written, and that many bytes follow.\<close>

definition u32_of :: "nat \<Rightarrow> nat" where
  "u32_of n = n mod 2 ^ 32"

section \<open>Writes that have room\<close>

lemma WriteExact_room:
  "length bs \<le> f_room f \<Longrightarrow> WriteExact f bs = (True, f_store f bs)"
  by (simp add: WriteExact_def fwrite_def)

lemma f_store_sel [simp]:
  "f_pos (f_store f bs) = f_pos f + length bs" "f_room (f_store f bs) = f_room f - length bs"
  by (simp_all add: f_store_def)

text \<open>At the end of the file a store appends.\<close>

lemma f_store_end:
  "f_pos f = length (f_data f) \<Longrightarrow> f_data (f_store f bs) = f_data f @ bs"
  by (simp add: f_store_def)

lemma f_store_at_end:
  "f_pos f = length (f_data f) \<Longrightarrow> f_pos (f_store f bs) = length (f_data (f_store f bs))"
  by (simp add: f_store_def)

lemma f_store_append:
  assumes "f_pos f = length (f_data f)"
  shows "f_store (f_store f xs) ys = f_store f (xs @ ys)"
  using assms by (simp add: f_store_def)

lemma f_store_Nil: "f_pos f = length (f_data f) \<Longrightarrow> f_store f [] = f"
  by (simp add: f_store_def)

lemma write_all_room:
  "f_pos f = length (f_data f) \<Longrightarrow> length (concat cs) \<le> f_room f \<Longrightarrow>
     write_all f cs = (True, f_store f (concat cs))"
proof (induction cs arbitrary: f)
  case Nil
  then show ?case by (simp add: f_store_Nil)
next
  case (Cons c cs)
  then have "write_all (f_store f c) cs = (True, f_store (f_store f c) (concat cs))"
    by (intro Cons.IH) (auto simp: f_store_end)
  with Cons.prems show ?case by (simp add: WriteExact_room f_store_append)
qed

section \<open>Reads inside the file\<close>

lemma ReadExact_at:
  assumes "f_data f = pre @ bs @ rest" and "f_pos f = length pre" and "n = length bs"
  shows "ReadExact f n = Some (bs, f\<lparr>f_pos := length pre + length bs\<rparr>)"
  using assms by (simp add: ReadExact_def slice_def)

lemma ReadExact_Some:
  "ReadExact f n = Some (bs, f') \<longleftrightarrow>
     f_pos f + n \<le> length (f_data f) \<and> bs = slice (f_pos f) n (f_data f)
     \<and> f' = f\<lparr>f_pos := f_pos f + n\<rparr>"
  by (auto simp: ReadExact_def)

text \<open>A file read is a span read at the file's position.\<close>

lemma ReadExact_span:
  assumes "f_pos f \<le> length (f_data f)"
  shows "ReadExact f n =
           map_option (\<lambda>(bs, p). (bs, f\<lparr>f_pos := length (f_data f) - length p\<rparr>))
             (span_take (drop (f_pos f) (f_data f)) n)"
  using assms by (auto simp: ReadExact_def span_take_def slice_def)

lemma span_take_append [simp]: "n = length xs \<Longrightarrow> span_take (xs @ p) n = Some (xs, p)"
  by (simp add: span_take_def)

lemma span_take_Some:
  "span_take p n = Some (bs, q) \<longleftrightarrow> n \<le> length p \<and> bs = take n p \<and> q = drop n p"
  by (auto simp: span_take_def)

section \<open>Writes inside the file and chains of reads\<close>

lemma f_store_over:
  assumes "f_pos f \<le> length (f_data f)"
  shows "f_store (f_store f xs) ys = f_store f (xs @ ys)"
  using assms by (simp add: f_store_def ac_simps)

text \<open>A write that succeeded has stored all its bytes.\<close>

lemma WriteExact_ok: "WriteExact f bs = (True, f') \<Longrightarrow> f' = f_store f bs"
  by (auto simp: WriteExact_def fwrite_def Let_def min_def split: if_splits)

lemma write_all_ok:
  assumes "write_all f cs = (True, f')" and "f_pos f \<le> length (f_data f)"
  shows "f' = f_store f (concat cs)"
  using assms
proof (induction cs arbitrary: f)
  case Nil
  then show ?case by (simp add: f_store_def)
next
  case (Cons c cs)
  then obtain f1 where w: "WriteExact f c = (True, f1)" "write_all f1 cs = (True, f')"
    by (auto split: prod.splits if_splits)
  then have f1: "f1 = f_store f c" by (simp add: WriteExact_ok)
  have "f' = f_store f1 (concat cs)"
    using w(2) Cons.prems(2) by (intro Cons.IH) (auto simp: f1 f_store_def)
  with Cons.prems(2) show ?case by (simp add: f1 f_store_over)
qed

lemma write_all_room_over:
  "f_pos f \<le> length (f_data f) \<Longrightarrow> length (concat cs) \<le> f_room f \<Longrightarrow>
     write_all f cs = (True, f_store f (concat cs))"
proof (induction cs arbitrary: f)
  case Nil
  then show ?case by (simp add: f_store_def)
next
  case (Cons c cs)
  then have "write_all (f_store f c) cs = (True, f_store (f_store f c) (concat cs))"
    by (intro Cons.IH) (auto simp: f_store_def)
  with Cons.prems show ?case by (simp add: WriteExact_room f_store_over)
qed

text \<open>Seeking past the end: the gap is filled when the next bytes are stored.\<close>

definition f_pad :: "FILE \<Rightarrow> FILE" where
  "f_pad f = f\<lparr>f_data := f_data f @ replicate (f_pos f - length (f_data f)) NUL\<rparr>"

lemma f_store_pad: "length (f_data f) \<le> f_pos f \<Longrightarrow> f_store (f_pad f) bs = f_store f bs"
  by (simp add: f_store_def f_pad_def)

lemma WriteExact_pad: "length (f_data f) \<le> f_pos f \<Longrightarrow> WriteExact (f_pad f) bs = WriteExact f bs"
  by (simp add: WriteExact_def fwrite_def f_store_pad) (simp add: f_pad_def)

text \<open>A chain of \<^verbatim>\<open>ReadExact(...) && ReadExact(...)\<close> is one cut of the bytes at the position.\<close>

fun read_all :: "FILE \<Rightarrow> nat list \<Rightarrow> bytes list option" where
  "read_all f [] = Some []"
| "read_all f (n # ns) =
     (case ReadExact f n of None \<Rightarrow> None | Some (bs, f') \<Rightarrow> map_option ((#) bs) (read_all f' ns))"

fun take_fields :: "nat list \<Rightarrow> bytes \<Rightarrow> bytes list" where
  "take_fields [] p = []"
| "take_fields (n # ns) p = take n p # take_fields ns (drop n p)"

lemma read_all_fields:
  "read_all f ns =
     (if f_pos f + sum_list ns \<le> length (f_data f) \<or> ns = [] then Some (take_fields ns (drop (f_pos f) (f_data f)))
      else None)"
proof (induction ns arbitrary: f)
  case (Cons n ns)
  then show ?case by (auto simp: ReadExact_def slice_def add.commute add.left_commute)
qed simp

lemma take_fields_concat:
  "map length cs = ns \<Longrightarrow> take_fields ns (concat cs @ rest) = cs"
proof (induction cs arbitrary: ns)
  case (Cons c cs)
  then show ?case by auto
qed simp

end
