(* ===== verification/KvStore.thy ===== *)
theory KvStore
  imports Stdio
begin

text \<open>
  The string key/value store \<^verbatim>\<open>KvStore\<close> (src/src/storage/KvStore.cc): \<^verbatim>\<open>Set\<close>, \<^verbatim>\<open>Get\<close>, \<^verbatim>\<open>Del\<close>, the
  binary \<^verbatim>\<open>Dump\<close>, and the two loaders \<^verbatim>\<open>Load\<close> (stdio) and \<^verbatim>\<open>LoadFrom\<close> (memory span). The store is
  refined to a finite map through the interface \<open>keyed_store\<close>; dumping and loading are inverse,
  and the two loaders accept the same images.
\<close>

section \<open>Model\<close>

datatype KvStatus = KvOk | KvNotFound | KvBadValue | KvIoError

type_synonym KvStore = "(bytes, bytes) umap"

definition KvStore_Set :: "KvStore \<Rightarrow> bytes \<Rightarrow> bytes \<Rightarrow> KvStatus \<times> KvStore" where
  "KvStore_Set m k v =
     (if k = [] then (KvBadValue, m)
      else case um_find m k of
             Some _ \<Rightarrow> (KvOk, um_put m k v)
           | None \<Rightarrow> (KvOk, um_emplace m k v))"

definition KvStore_Get :: "KvStore \<Rightarrow> bytes \<Rightarrow> KvStatus + bytes" where
  "KvStore_Get m k =
     (if k = [] then Inl KvBadValue
      else case um_find m k of None \<Rightarrow> Inl KvNotFound | Some v \<Rightarrow> Inr v)"

definition KvStore_Del :: "KvStore \<Rightarrow> bytes \<Rightarrow> KvStatus \<times> KvStore" where
  "KvStore_Del m k =
     (if k = [] then (KvBadValue, m)
      else case um_find m k of
             None \<Rightarrow> (KvNotFound, um_erase m k)
           | Some _ \<Rightarrow> (KvOk, um_erase m k))"

definition KvStore_size :: "KvStore \<Rightarrow> nat" where
  "KvStore_size m = length m"

definition KvStore_Clear :: "KvStore \<Rightarrow> KvStore" where
  "KvStore_Clear m = []"

fun kv_dump_entries :: "(bytes \<times> bytes) list \<Rightarrow> FILE \<Rightarrow> KvStatus \<times> FILE" where
  "kv_dump_entries [] f = (KvOk, f)"
| "kv_dump_entries ((k, v) # es) f =
     (let key_len = u32_of (length k); val_len = u32_of (length v)
      in case write_all f [le_bytes 4 key_len, take key_len k, le_bytes 4 val_len, take val_len v] of
           (ok, f') \<Rightarrow> if ok then kv_dump_entries es f' else (KvIoError, f'))"

definition KvStore_Dump :: "KvStore \<Rightarrow> FILE \<Rightarrow> KvStatus \<times> FILE" where
  "KvStore_Dump m f =
     (case WriteExact f (le_bytes 8 (length m)) of
        (ok, f') \<Rightarrow> if ok then kv_dump_entries m f' else (KvIoError, f'))"

fun kv_load_entries :: "nat \<Rightarrow> FILE \<Rightarrow> KvStore \<Rightarrow> KvStatus \<times> KvStore \<times> FILE" where
  "kv_load_entries 0 f m = (KvOk, m, f)"
| "kv_load_entries (Suc n) f m =
     (case ReadExact f 4 of
        None \<Rightarrow> (KvIoError, m, f)
      | Some (kl, f1) \<Rightarrow>
          (case ReadExact f1 (le_nat kl) of
             None \<Rightarrow> (KvIoError, m, f1)
           | Some (k, f2) \<Rightarrow>
               (case ReadExact f2 4 of
                  None \<Rightarrow> (KvIoError, m, f2)
                | Some (vl, f3) \<Rightarrow>
                    (case ReadExact f3 (le_nat vl) of
                       None \<Rightarrow> (KvIoError, m, f3)
                     | Some (v, f4) \<Rightarrow>
                         if k = [] then (KvBadValue, m, f4)
                         else kv_load_entries n f4 (um_emplace m k v)))))"

definition KvStore_Load :: "FILE \<Rightarrow> KvStore \<Rightarrow> KvStatus \<times> KvStore \<times> FILE" where
  "KvStore_Load f m =
     (case ReadExact f 8 of
        None \<Rightarrow> (KvIoError, m, f)
      | Some (c, f') \<Rightarrow> kv_load_entries (le_nat c) f' [])"

text \<open>
  The span loader: the third component is the unread rest \<open>[p, end)\<close>.
\<close>

fun kv_load_span :: "nat \<Rightarrow> bytes \<Rightarrow> KvStore \<Rightarrow> KvStatus \<times> KvStore \<times> bytes" where
  "kv_load_span 0 p m = (KvOk, m, p)"
| "kv_load_span (Suc n) p m =
     (case span_take p 4 of
        None \<Rightarrow> (KvIoError, m, p)
      | Some (kl, p1) \<Rightarrow>
          (case span_take p1 (le_nat kl) of
             None \<Rightarrow> (KvIoError, m, p1)
           | Some (k, p2) \<Rightarrow>
               (case span_take p2 4 of
                  None \<Rightarrow> (KvIoError, m, p2)
                | Some (vl, p3) \<Rightarrow>
                    (case span_take p3 (le_nat vl) of
                       None \<Rightarrow> (KvIoError, m, p3)
                     | Some (v, p4) \<Rightarrow>
                         if k = [] then (KvBadValue, m, p4)
                         else kv_load_span n p4 (um_emplace m k v)))))"

definition KvStore_LoadFrom :: "bytes \<Rightarrow> KvStore \<Rightarrow> KvStatus \<times> KvStore" where
  "KvStore_LoadFrom data m =
     (case span_take data 8 of
        None \<Rightarrow> (KvIoError, m)
      | Some (c, p) \<Rightarrow>
          (case kv_load_span (le_nat c) p [] of
             (st, m', rest) \<Rightarrow> if st \<noteq> KvOk then (st, m')
                              else if rest \<noteq> [] then (KvIoError, m') else (KvOk, m')))"

section \<open>The store as a map\<close>

text \<open>
  What a client of a keyed store relies on. A log of updates, replayed over a store, leaves for
  every key the value of the last update that names it; replaying a log over a store that already
  reflects a prefix of it gives the same contents as replaying it once.
\<close>

locale keyed_store =
  fixes find :: "'s \<Rightarrow> 'k \<Rightarrow> 'v option"
    and put :: "'s \<Rightarrow> 'k \<Rightarrow> 'v \<Rightarrow> 's"
    and del :: "'s \<Rightarrow> 'k \<Rightarrow> 's"
    and inv :: "'s \<Rightarrow> bool"
    and valid :: "'k \<Rightarrow> bool"
  assumes find_put: "inv s \<Longrightarrow> valid k \<Longrightarrow> find (put s k v) = (find s)(k \<mapsto> v)"
    and find_del: "inv s \<Longrightarrow> valid k \<Longrightarrow> find (del s k) = (find s)(k := None)"
    and inv_put: "inv s \<Longrightarrow> valid k \<Longrightarrow> inv (put s k v)"
    and inv_del: "inv s \<Longrightarrow> valid k \<Longrightarrow> inv (del s k)"
begin

primrec upd :: "'s \<Rightarrow> 'k \<times> 'v option \<Rightarrow> 's" where
  "upd s (k, w) = (case w of Some v \<Rightarrow> put s k v | None \<Rightarrow> del s k)"

lemma upd_find: "inv s \<Longrightarrow> valid (fst u) \<Longrightarrow> find (upd s u) = (find s)(fst u := snd u)"
  by (cases u) (auto simp: find_put find_del split: option.split)

lemma upd_inv: "inv s \<Longrightarrow> valid (fst u) \<Longrightarrow> inv (upd s u)"
  by (cases u) (auto simp: inv_put inv_del split: option.split)

lemma log_find:
  "inv s \<Longrightarrow> (\<forall>u \<in> set us. valid (fst u)) \<Longrightarrow>
     inv (foldl upd s us) \<and>
     find (foldl upd s us) = (\<lambda>k. case map_of (rev us) k of Some w \<Rightarrow> w | None \<Rightarrow> find s k)"
proof (induction us arbitrary: s)
  case (Cons u us)
  then have "inv (upd s u)" "\<forall>u \<in> set us. valid (fst u)" "valid (fst u)"
    by (auto intro: upd_inv)
  with Cons.IH [of "upd s u"] Cons.prems(1) show ?case
    by (cases u) (auto simp: upd_find map_add_def fun_eq_iff simp del: upd.simps split: option.split)
qed simp

lemma log_overlap:
  assumes "inv s" and "\<forall>u \<in> set (xs @ ys). valid (fst u)"
  shows "find (foldl upd (foldl upd s xs) (xs @ ys)) = find (foldl upd s (xs @ ys))"
proof -
  have xs: "\<forall>u \<in> set xs. valid (fst u)" using assms(2) by simp
  note 1 = log_find [OF assms(1) xs]
  note 2 = log_find [OF conjunct1 [OF 1] assms(2)] and 3 = log_find [OF assms]
  show ?thesis
    unfolding conjunct2 [OF 2] conjunct2 [OF 3] conjunct2 [OF 1]
    by (auto simp: fun_eq_iff map_add_def split: option.split)
qed

end

abbreviation kv_find :: "KvStore \<Rightarrow> bytes \<Rightarrow> bytes option" where
  "kv_find \<equiv> um_find"

abbreviation kv_put :: "KvStore \<Rightarrow> bytes \<Rightarrow> bytes \<Rightarrow> KvStore" where
  "kv_put m k v \<equiv> snd (KvStore_Set m k v)"

abbreviation kv_del :: "KvStore \<Rightarrow> bytes \<Rightarrow> KvStore" where
  "kv_del m k \<equiv> snd (KvStore_Del m k)"

text \<open>Invariant: distinct keys, and the empty key is never stored.\<close>

definition kv_wf :: "KvStore \<Rightarrow> bool" where
  "kv_wf m \<longleftrightarrow> um_wf m \<and> um_find m [] = None"

lemma KvStore_Set_find:
  "KvStore_Set m k v = (st, m') \<Longrightarrow> um_find m' = (if k = [] then um_find m else (um_find m)(k \<mapsto> v))"
  by (auto simp: KvStore_Set_def umap_simps fun_eq_iff split: if_splits option.splits)

lemma KvStore_Del_find:
  "KvStore_Del m k = (st, m') \<Longrightarrow> um_find m' = (if k = [] then um_find m else (um_find m)(k := None))"
  by (auto simp: KvStore_Del_def umap_simps fun_eq_iff split: if_splits option.splits)

lemma KvStore_Set_wf [wf_intros]: "kv_wf m \<Longrightarrow> kv_wf (snd (KvStore_Set m k v))"
  by (auto simp: kv_wf_def KvStore_Set_def umap_simps wf_intros split: option.split)

lemma KvStore_Del_wf [wf_intros]: "kv_wf m \<Longrightarrow> kv_wf (snd (KvStore_Del m k))"
  by (auto simp: kv_wf_def KvStore_Del_def umap_simps wf_intros split: option.split)

lemma kv_wf_Nil [simp]: "kv_wf []"
  by (simp add: kv_wf_def umap_simps)

interpretation kv: keyed_store kv_find kv_put kv_del kv_wf "\<lambda>k. k \<noteq> []"
proof
  fix m :: KvStore and k v :: bytes
  assume "k \<noteq> []"
  then show "kv_find (kv_put m k v) = (kv_find m)(k \<mapsto> v)"
    by (cases "KvStore_Set m k v") (auto dest: KvStore_Set_find)
next
  fix m :: KvStore and k :: bytes
  assume "k \<noteq> []"
  then show "kv_find (kv_del m k) = (kv_find m)(k := None)"
    by (cases "KvStore_Del m k") (auto dest: KvStore_Del_find)
qed (auto intro: wf_intros)

section \<open>Dump and load\<close>

definition kv_entry :: "bytes \<times> bytes \<Rightarrow> bytes" where
  "kv_entry = (\<lambda>(k, v). le_bytes 4 (length k) @ k @ le_bytes 4 (length v) @ v)"

definition kv_image :: "KvStore \<Rightarrow> bytes" where
  "kv_image m = le_bytes 8 (length m) @ concat (map kv_entry m)"

text \<open>Sizes that the 32-bit and 64-bit length fields can hold.\<close>

definition kv_fits :: "KvStore \<Rightarrow> bool" where
  "kv_fits m \<longleftrightarrow> length m < 2 ^ 64 \<and> (\<forall>(k, v) \<in> set m. length k < 2 ^ 32 \<and> length v < 2 ^ 32)"

lemma kv_dump_entries_room:
  assumes "\<forall>(k, v) \<in> set es. length k < 2 ^ 32 \<and> length v < 2 ^ 32"
    and "f_pos f = length (f_data f)" and "length (concat (map kv_entry es)) \<le> f_room f"
  shows "kv_dump_entries es f = (KvOk, f_store f (concat (map kv_entry es)))"
  using assms
proof (induction es arbitrary: f)
  case Nil
  then show ?case by (simp add: f_store_Nil)
next
  case (Cons e es)
  obtain k v where e: "e = (k, v)" by (cases e)
  let ?cs = "[le_bytes 4 (length k), k, le_bytes 4 (length v), v]"
  have cs: "concat ?cs = kv_entry e" by (simp add: e kv_entry_def)
  have len: "u32_of (length k) = length k" "u32_of (length v) = length v"
    using Cons.prems(1) by (simp_all add: e u32_of_def)
  have "length (concat ?cs) \<le> f_room f"
    using Cons.prems(3) unfolding cs by simp
  then have w: "write_all f ?cs = (True, f_store f (kv_entry e))"
    using write_all_room [OF Cons.prems(2), of ?cs] cs by simp
  have "kv_dump_entries es (f_store f (kv_entry e)) =
      (KvOk, f_store (f_store f (kv_entry e)) (concat (map kv_entry es)))"
    using Cons.prems by (intro Cons.IH) (auto simp: f_store_end)
  with w len Cons.prems(2) show ?case
    by (simp add: e f_store_append Let_def del: write_all.simps)
qed

lemma KvStore_Dump_room:
  assumes "kv_fits m" and "f_pos f = length (f_data f)" and "length (kv_image m) \<le> f_room f"
  shows "KvStore_Dump m f = (KvOk, f_store f (kv_image m))"
proof -
  have "WriteExact f (le_bytes 8 (length m)) = (True, f_store f (le_bytes 8 (length m)))"
    using assms(3) by (intro WriteExact_room) (simp add: kv_image_def)
  moreover have "kv_dump_entries m (f_store f (le_bytes 8 (length m))) =
      (KvOk, f_store (f_store f (le_bytes 8 (length m))) (concat (map kv_entry m)))"
    using assms by (intro kv_dump_entries_room) (auto simp: kv_fits_def kv_image_def f_store_end)
  ultimately show ?thesis
    using assms(2) by (simp add: KvStore_Dump_def kv_image_def f_store_append)
qed

text \<open>Entries with new keys load to themselves, in order.\<close>

lemma um_emplace_new: "k \<notin> fst ` set m \<Longrightarrow> um_emplace m k v = m @ [(k, v)]"
  by (simp add: um_emplace_def um_find_None_iff [THEN iffD2])

lemma kv_load_span_image:
  assumes "\<forall>(k, v) \<in> set es. length k < 2 ^ 32 \<and> length v < 2 ^ 32 \<and> k \<noteq> []"
    and "um_wf (m @ es)"
  shows "kv_load_span (length es) (concat (map kv_entry es) @ rest) m = (KvOk, m @ es, rest)"
  using assms
proof (induction es arbitrary: m)
  case (Cons e es)
  obtain k v where e: "e = (k, v)" by (cases e)
  have kv: "length k < 2 ^ 32" "length v < 2 ^ 32" "k \<noteq> []" using Cons.prems(1) by (auto simp: e)
  then have le: "le_nat (le_bytes 4 (length k)) = length k" "le_nat (le_bytes 4 (length v)) = length v"
    by simp_all
  have new: "k \<notin> fst ` set m" using Cons.prems(2) by (auto simp: um_wf_def e)
  have "kv_load_span (length es) (concat (map kv_entry es) @ rest) (m @ [(k, v)]) =
      (KvOk, (m @ [(k, v)]) @ es, rest)"
    using Cons.prems by (intro Cons.IH) (auto simp: e)
  then show ?case
    using kv le new by (simp add: e kv_entry_def Let_def um_emplace_new)
qed simp

lemma KvStore_LoadFrom_image:
  assumes "kv_wf m" and "kv_fits m"
  shows "KvStore_LoadFrom (kv_image m) m0 = (KvOk, m)"
proof -
  have keys: "[] \<notin> fst ` set m" using assms(1) by (simp add: kv_wf_def um_find_None_iff)
  have "\<forall>(k, v) \<in> set m. length k < 2 ^ 32 \<and> length v < 2 ^ 32 \<and> k \<noteq> []"
    using assms(2) keys by (force simp: kv_fits_def)
  then have "kv_load_span (length m) (concat (map kv_entry m) @ []) [] = (KvOk, [] @ m, [])"
    using assms(1) by (intro kv_load_span_image) (auto simp: kv_wf_def)
  moreover have "le_nat (le_bytes 8 (length m)) = length m"
    using assms(2) by (intro le_nat_le_bytes_id) (simp add: kv_fits_def)
  ultimately show ?thesis by (simp add: KvStore_LoadFrom_def kv_image_def)
qed

text \<open>Reading a span and reading a file from the same position do the same thing.\<close>

lemma kv_load_span_rest: "kv_load_span n p m = (st, m', q) \<Longrightarrow> length q \<le> length p"
proof (induction n arbitrary: p m)
  case (Suc n)
  from Suc.prems Suc.IH show ?case
    by (fastforce simp: span_take_Some split: option.splits if_splits)
qed simp

lemma kv_load_span_file:
  "f_pos f \<le> length (f_data f) \<Longrightarrow>
   kv_load_entries n f m =
     (case kv_load_span n (drop (f_pos f) (f_data f)) m of
        (st, m', p) \<Rightarrow> (st, m', f\<lparr>f_pos := length (f_data f) - length p\<rparr>))"
proof (induction n arbitrary: f m)
  case (Suc n)
  have drop_tail: "drop (length d - (length d - i)) d = drop i d" for d :: bytes and i
    by (cases "i \<le> length d") simp_all
  show ?case
    using Suc.prems
    by (simp add: ReadExact_span Suc.IH span_take_def drop_tail split: option.split)
qed simp

lemma KvStore_Load_LoadFrom:
  assumes "KvStore_Load \<lparr>f_data = data, f_pos = 0, f_room = r\<rparr> m = (st, m', f')"
  shows "KvStore_LoadFrom data m =
           (if st = KvOk \<and> f_pos f' \<noteq> length data then KvIoError else st, m')"
proof (cases "length data < 8")
  case True
  with assms show ?thesis
    by (auto simp: KvStore_Load_def KvStore_LoadFrom_def ReadExact_def span_take_def)
next
  case False
  obtain st2 m2 p where span: "kv_load_span (le_nat (take 8 data)) (drop 8 data) [] = (st2, m2, p)"
    by (cases "kv_load_span (le_nat (take 8 data)) (drop 8 data) []") auto
  from kv_load_span_rest [OF span] have "length p \<le> length data" by simp
  with False have "length data - length p = length data \<longleftrightarrow> p = []" by (cases p) auto
  with assms False span show ?thesis
    by (auto simp: KvStore_Load_def KvStore_LoadFrom_def ReadExact_def slice_def kv_load_span_file
                   span_take_def)
qed

subsection \<open>A section inside a larger file\<close>

text \<open>A dump that reported success has written the whole image.\<close>

lemma kv_dump_entries_ok:
  assumes "kv_dump_entries es f = (KvOk, f')"
    and "\<forall>(k, v) \<in> set es. length k < 2 ^ 32 \<and> length v < 2 ^ 32"
    and "f_pos f \<le> length (f_data f)"
  shows "f' = f_store f (concat (map kv_entry es))"
  using assms
proof (induction es arbitrary: f)
  case Nil
  then show ?case by (simp add: f_store_def)
next
  case (Cons e es)
  obtain k v where e: "e = (k, v)" by (cases e)
  let ?cs = "[le_bytes 4 (length k), k, le_bytes 4 (length v), v]"
  have len: "u32_of (length k) = length k" "u32_of (length v) = length v"
    using Cons.prems(2) by (simp_all add: e u32_of_def)
  obtain f1 where w: "write_all f ?cs = (True, f1)" "kv_dump_entries es f1 = (KvOk, f')"
    using Cons.prems(1) len by (auto simp: e Let_def simp del: write_all.simps split: prod.splits if_splits)
  have f1: "f1 = f_store f (kv_entry e)"
    using write_all_ok [OF w(1) Cons.prems(3)] by (simp add: e kv_entry_def)
  have "f' = f_store f1 (concat (map kv_entry es))"
    using w(2) Cons.prems by (intro Cons.IH) (auto simp: f1 f_store_def)
  with Cons.prems(3) show ?case by (simp add: f1 f_store_over)
qed

lemma KvStore_Dump_ok:
  assumes "KvStore_Dump m f = (KvOk, f')" and "kv_fits m" and "f_pos f \<le> length (f_data f)"
  shows "f' = f_store f (kv_image m)"
proof -
  obtain f1 where w: "WriteExact f (le_bytes 8 (length m)) = (True, f1)" "kv_dump_entries m f1 = (KvOk, f')"
    using assms(1) by (auto simp: KvStore_Dump_def split: prod.splits if_splits)
  then have f1: "f1 = f_store f (le_bytes 8 (length m))" by (simp add: WriteExact_ok)
  have "f' = f_store f1 (concat (map kv_entry m))"
    using w(2) assms(2,3) by (intro kv_dump_entries_ok) (auto simp: f1 kv_fits_def f_store_def)
  with assms(3) show ?thesis by (simp add: f1 kv_image_def f_store_over)
qed

lemma KvStore_Dump_pad: "length (f_data f) \<le> f_pos f \<Longrightarrow> KvStore_Dump m (f_pad f) = KvStore_Dump m f"
  by (simp add: KvStore_Dump_def WriteExact_pad)

text \<open>Bytes behind the ones that were needed do not matter.\<close>

lemma kv_load_span_append:
  "kv_load_span n p m = (KvOk, m', q) \<Longrightarrow> kv_load_span n (p @ r) m = (KvOk, m', q @ r)"
proof (induction n arbitrary: p m)
  case (Suc n)
  have ext: "span_take (xs @ r) k = Some (b, ys @ r)" if "span_take xs k = Some (b, ys)" for xs ys b k
    using that by (auto simp: span_take_def split: if_splits)
  show ?case
    using Suc.prems by (auto simp: ext Suc.IH split: option.splits if_splits prod.splits)
qed simp

lemma KvStore_Load_section:
  assumes "KvStore_LoadFrom (slice off len (f_data f)) m = (KvOk, m')"
    and "off + len \<le> length (f_data f)" and "f_pos f = off"
  shows "\<exists>f'. KvStore_Load f m = (KvOk, m', f')"
proof -
  let ?p = "slice off len (f_data f)"
  let ?r = "drop (off + len) (f_data f)"
  have split: "drop off (f_data f) = ?p @ ?r"
    by (simp add: slice_def) (metis add.commute append_take_drop_id drop_drop)
  from assms(1) have l: "8 \<le> length ?p" "kv_load_span (le_nat (take 8 ?p)) (drop 8 ?p) [] = (KvOk, m', [])"
    by (auto simp: KvStore_LoadFrom_def span_take_def split: if_splits prod.splits)
  from kv_load_span_append [OF l(2), of ?r] l(1)
  have s: "kv_load_span (le_nat (take 8 (?p @ ?r))) (drop 8 (?p @ ?r)) [] = (KvOk, m', ?r)" by simp
  have len8: "off + 8 \<le> length (f_data f)" using l(1) assms(2) by (simp add: slice_def)
  have "drop (off + 8) (f_data f) = drop 8 (?p @ ?r)" by (metis split add.commute drop_drop)
  then show ?thesis
    using s len8 assms(3)
    by (simp add: KvStore_Load_def ReadExact_def slice_def [of off 8] split kv_load_span_file)
qed

section \<open>Properties\<close>

text \<open>
  Last write wins: after any sequence of sets and deletes with non-empty keys, a lookup returns what
  the last update naming the key left, or the old value when no update names it; the store's invariant
  is kept.
\<close>

lemma kv_last_write_wins:
  assumes "kv_wf m" and "\<forall>u \<in> set us. fst u \<noteq> []"
  shows "kv_wf (foldl (\<lambda>m (k, w). case w of Some v \<Rightarrow> snd (KvStore_Set m k v)
                                           | None \<Rightarrow> snd (KvStore_Del m k)) m us) \<and>
    um_find (foldl (\<lambda>m (k, w). case w of Some v \<Rightarrow> snd (KvStore_Set m k v)
                                       | None \<Rightarrow> snd (KvStore_Del m k)) m us) =
      (\<lambda>k. case map_of (rev us) k of Some w \<Rightarrow> w | None \<Rightarrow> um_find m k)"
proof -
  have "kv.upd = (\<lambda>m (k, w). case w of Some v \<Rightarrow> snd (KvStore_Set m k v) | None \<Rightarrow> snd (KvStore_Del m k))"
    by (auto simp: fun_eq_iff)
  with kv.log_find [OF assms] show ?thesis by simp
qed

text \<open>
  Replaying a log over a store that already reflects a prefix of it is harmless: the contents are
  those of replaying the log once. This is what lets an AOF be replayed over a snapshot taken while the
  log was growing.
\<close>

lemma kv_replay_overlap:
  assumes "kv_wf m" and "\<forall>u \<in> set (xs @ ys). fst u \<noteq> []"
  defines "run \<equiv> foldl (\<lambda>m (k, w). case w of Some v \<Rightarrow> snd (KvStore_Set m k v)
                                            | None \<Rightarrow> snd (KvStore_Del m k))"
  shows "um_find (run (run m xs) (xs @ ys)) = um_find (run m (xs @ ys))"
proof -
  have "kv.upd = (\<lambda>m (k, w). case w of Some v \<Rightarrow> snd (KvStore_Set m k v) | None \<Rightarrow> snd (KvStore_Del m k))"
    by (auto simp: fun_eq_iff)
  with kv.log_overlap [OF assms(1,2)] show ?thesis by (simp add: run_def)
qed

end
