(* ===== verification/VNodeStorage.thy ===== *)
theory VNodeStorage
  imports Resp
begin

text \<open>
  Semantic-cache nodes: the record \<^verbatim>\<open>VNode\<close> (src/include/vemory/storage/VNode.h) and the id-keyed store
  \<^verbatim>\<open>VNodeStorage\<close> (src/src/storage/VNodeStorage.cc) with its secondary index by user key. Ids are
  16-bit and handed out by a wrapping counter; 0 means exhausted.
\<close>

section \<open>Model\<close>

record VNode =
  vn_id :: u16
  vn_user_key :: bytes
  vn_question :: bytes
  vn_answer :: bytes

record VNodeStorage =
  next_id :: u16
  by_id :: "(u16, VNode) umap"
  by_user_key :: "(bytes, u16) umap"

definition VNodeStorage_empty :: VNodeStorage where
  "VNodeStorage_empty = \<lparr>next_id = 1, by_id = [], by_user_key = []\<rparr>"

datatype VsStatus = VsOk | VsNotFound | VsFull | VsBadValue

text \<open>\<open>Inr id\<close> stands for \<^verbatim>\<open>kOk\<close> with \<^verbatim>\<open>*out_id = id\<close>.\<close>

definition VNodeStorage_Put :: "VNodeStorage \<Rightarrow> VNode \<Rightarrow> (VsStatus + u16) \<times> VNodeStorage" where
  "VNodeStorage_Put s node =
     (if vn_user_key node = [] then (Inl VsBadValue, s)
      else case um_find (by_user_key s) (vn_user_key node) of
             Some i \<Rightarrow> (Inr i, s\<lparr>by_id := um_put (by_id s) i (node\<lparr>vn_id := i\<rparr>)\<rparr>)
           | None \<Rightarrow>
               if next_id s = 0 then (Inl VsFull, s)
               else let i = next_id s
                    in (Inr i, s\<lparr>next_id := next_id s + 1,
                                 by_user_key := um_emplace (by_user_key s) (vn_user_key node) i,
                                 by_id := um_put (by_id s) i (node\<lparr>vn_id := i\<rparr>)\<rparr>))"

definition VNodeStorage_Restore :: "VNodeStorage \<Rightarrow> VNode \<Rightarrow> VsStatus \<times> VNodeStorage" where
  "VNodeStorage_Restore s node =
     (if vn_user_key node = [] \<or> vn_id node = 0 then (VsBadValue, s)
      else if um_find (by_id s) (vn_id node) \<noteq> None
              \<or> um_find (by_user_key s) (vn_user_key node) \<noteq> None then (VsBadValue, s)
      else (VsOk, s\<lparr>by_user_key := um_emplace (by_user_key s) (vn_user_key node) (vn_id node),
                    by_id := um_emplace (by_id s) (vn_id node) node\<rparr>))"

definition VNodeStorage_GetById :: "VNodeStorage \<Rightarrow> u16 \<Rightarrow> VsStatus + VNode" where
  "VNodeStorage_GetById s i =
     (case um_find (by_id s) i of None \<Rightarrow> Inl VsNotFound | Some n \<Rightarrow> Inr n)"

definition VNodeStorage_GetByUserKey :: "VNodeStorage \<Rightarrow> bytes \<Rightarrow> VsStatus + VNode" where
  "VNodeStorage_GetByUserKey s k =
     (case um_find (by_user_key s) k of
        None \<Rightarrow> Inl VsNotFound
      | Some i \<Rightarrow> VNodeStorage_GetById s i)"

definition VNodeStorage_DelByUserKey :: "VNodeStorage \<Rightarrow> bytes \<Rightarrow> VsStatus \<times> VNodeStorage" where
  "VNodeStorage_DelByUserKey s k =
     (case um_find (by_user_key s) k of
        None \<Rightarrow> (VsNotFound, s)
      | Some i \<Rightarrow> (VsOk, s\<lparr>by_id := um_erase (by_id s) i, by_user_key := um_erase (by_user_key s) k\<rparr>))"

definition VNodeStorage_Clear :: "VNodeStorage \<Rightarrow> VNodeStorage" where
  "VNodeStorage_Clear s = s\<lparr>by_id := [], by_user_key := [], next_id := 1\<rparr>"

definition VNodeStorage_SetNextId :: "VNodeStorage \<Rightarrow> u16 \<Rightarrow> VNodeStorage" where
  "VNodeStorage_SetNextId s i = s\<lparr>next_id := i\<rparr>"

definition VNodeStorage_size :: "VNodeStorage \<Rightarrow> nat" where
  "VNodeStorage_size s = length (by_id s)"

text \<open>
  \<^verbatim>\<open>ForEach\<close>: the callback transforms the state it captures and says whether to go on.
\<close>

fun foreach_entries :: "('a \<Rightarrow> u16 \<Rightarrow> VNode \<Rightarrow> bool \<times> 'a) \<Rightarrow> (u16 \<times> VNode) list \<Rightarrow> 'a \<Rightarrow> 'a" where
  "foreach_entries fn [] st = st"
| "foreach_entries fn ((i, n) # es) st =
     (case fn st i n of (go, st') \<Rightarrow> if go then foreach_entries fn es st' else st')"

definition VNodeStorage_ForEach :: "VNodeStorage \<Rightarrow> ('a \<Rightarrow> u16 \<Rightarrow> VNode \<Rightarrow> bool \<times> 'a) \<Rightarrow> 'a \<Rightarrow> 'a" where
  "VNodeStorage_ForEach s fn st = foreach_entries fn (by_id s) st"

section \<open>Invariant\<close>

text \<open>
  The two indexes are inverse to each other, stored ids are non-zero, and the next id is above
  every stored id unless the counter has wrapped to 0.
\<close>

definition st_maps :: "VNodeStorage \<Rightarrow> bool" where
  "st_maps s \<longleftrightarrow> um_wf (by_id s) \<and> um_wf (by_user_key s)
     \<and> (\<forall>k i. um_find (by_user_key s) k = Some i \<longleftrightarrow>
          (\<exists>n. um_find (by_id s) i = Some n \<and> vn_user_key n = k))
     \<and> (\<forall>i n. um_find (by_id s) i = Some n \<longrightarrow> vn_id n = i \<and> i \<noteq> 0 \<and> vn_user_key n \<noteq> [])"

definition st_fresh :: "VNodeStorage \<Rightarrow> bool" where
  "st_fresh s \<longleftrightarrow> (next_id s \<noteq> 0 \<longrightarrow> (\<forall>i. um_find (by_id s) i \<noteq> None \<longrightarrow> i < next_id s))"

definition st_wf :: "VNodeStorage \<Rightarrow> bool" where
  "st_wf s \<longleftrightarrow> st_maps s \<and> st_fresh s"

lemma st_maps_iff:
  "st_maps s \<Longrightarrow> um_find (by_user_key s) k = Some i \<longleftrightarrow>
     (\<exists>n. um_find (by_id s) i = Some n \<and> vn_user_key n = k)"
  by (simp add: st_maps_def)

lemma st_maps_id:
  "st_maps s \<Longrightarrow> um_find (by_id s) i = Some n \<Longrightarrow>
     vn_id n = i \<and> i \<noteq> 0 \<and> vn_user_key n \<noteq> [] \<and> um_find (by_user_key s) (vn_user_key n) = Some i"
  unfolding st_maps_def by blast

lemma st_maps_key:
  assumes "st_maps s" and "um_find (by_user_key s) k = Some i"
  obtains n where "um_find (by_id s) i = Some n" "vn_user_key n = k" "vn_id n = i" "i \<noteq> 0"
proof -
  from assms obtain n where n: "um_find (by_id s) i = Some n" "vn_user_key n = k"
    by (auto simp: st_maps_iff)
  with st_maps_id [OF assms(1) n(1)] that show ?thesis by blast
qed

lemma st_maps_uwf: "st_maps s \<Longrightarrow> um_wf (by_id s)" "st_maps s \<Longrightarrow> um_wf (by_user_key s)"
  by (simp_all add: st_maps_def)

lemma VNodeStorage_empty_wf [simp]: "st_wf VNodeStorage_empty"
  by (simp add: st_wf_def st_maps_def st_fresh_def VNodeStorage_empty_def umap_simps)

lemma Clear_empty [simp]: "VNodeStorage_Clear s = VNodeStorage_empty"
  by (simp add: VNodeStorage_Clear_def VNodeStorage_empty_def)

text \<open>The empty user key is never stored.\<close>

lemma st_no_empty_key: "st_maps s \<Longrightarrow> um_find (by_user_key s) [] = None"
  by (cases "um_find (by_user_key s) []") (auto simp: st_maps_iff dest: st_maps_id)

lemma GetByUserKey_iff:
  assumes "st_maps s"
  shows "VNodeStorage_GetByUserKey s k = Inr n \<longleftrightarrow>
     um_find (by_user_key s) k = Some (vn_id n) \<and> um_find (by_id s) (vn_id n) = Some n"
proof (cases "um_find (by_user_key s) k")
  case (Some i)
  obtain m where m: "um_find (by_id s) i = Some m" "vn_id m = i"
    using assms Some by (rule st_maps_key)
  with Some have get: "VNodeStorage_GetByUserKey s k = Inr m"
    by (simp add: VNodeStorage_GetByUserKey_def VNodeStorage_GetById_def)
  show ?thesis unfolding get using m Some by (metis option.inject sum.inject(2))
qed (simp add: VNodeStorage_GetByUserKey_def)

lemma GetByUserKey_none:
  assumes "st_maps s"
  shows "VNodeStorage_GetByUserKey s k = Inl e \<longleftrightarrow> e = VsNotFound \<and> um_find (by_user_key s) k = None"
proof (cases "um_find (by_user_key s) k")
  case (Some i)
  obtain m where "um_find (by_id s) i = Some m"
    using assms Some by (rule st_maps_key)
  with Some show ?thesis
    by (auto simp: VNodeStorage_GetByUserKey_def VNodeStorage_GetById_def)
qed (auto simp: VNodeStorage_GetByUserKey_def)

section \<open>Preservation\<close>

text \<open>Replacing the node behind an existing key keeps its id.\<close>

lemma Put_existing:
  assumes "vn_user_key node \<noteq> []" "um_find (by_user_key s) (vn_user_key node) = Some i"
  shows "VNodeStorage_Put s node = (Inr i, s\<lparr>by_id := um_put (by_id s) i (node\<lparr>vn_id := i\<rparr>)\<rparr>)"
  using assms by (simp add: VNodeStorage_Put_def)

lemma Put_new:
  assumes "vn_user_key node \<noteq> []" "um_find (by_user_key s) (vn_user_key node) = None" "next_id s \<noteq> 0"
  shows "VNodeStorage_Put s node =
     (Inr (next_id s), s\<lparr>next_id := next_id s + 1,
        by_user_key := um_emplace (by_user_key s) (vn_user_key node) (next_id s),
        by_id := um_put (by_id s) (next_id s) (node\<lparr>vn_id := next_id s\<rparr>)\<rparr>)"
  using assms by (simp add: VNodeStorage_Put_def Let_def)

lemma Put_full:
  assumes "vn_user_key node \<noteq> []" "um_find (by_user_key s) (vn_user_key node) = None" "next_id s = 0"
  shows "VNodeStorage_Put s node = (Inl VsFull, s)"
  using assms by (simp add: VNodeStorage_Put_def)

lemma Put_cases [consumes 1, case_names Existing New]:
  assumes "VNodeStorage_Put s node = (Inr i, s')"
  obtains "vn_user_key node \<noteq> []" "um_find (by_user_key s) (vn_user_key node) = Some i"
      "s' = s\<lparr>by_id := um_put (by_id s) i (node\<lparr>vn_id := i\<rparr>)\<rparr>"
    | "vn_user_key node \<noteq> []" "um_find (by_user_key s) (vn_user_key node) = None" "next_id s \<noteq> 0"
      "i = next_id s"
      "s' = s\<lparr>next_id := next_id s + 1,
              by_user_key := um_emplace (by_user_key s) (vn_user_key node) i,
              by_id := um_put (by_id s) i (node\<lparr>vn_id := i\<rparr>)\<rparr>"
  using assms by (auto simp: VNodeStorage_Put_def Let_def split: if_splits option.splits)

lemma Put_error_same: "VNodeStorage_Put s node = (Inl e, s') \<Longrightarrow> s' = s"
  by (auto simp: VNodeStorage_Put_def Let_def split: if_splits option.splits)

lemma st_fresh_new: "st_wf s \<Longrightarrow> next_id s \<noteq> 0 \<Longrightarrow> um_find (by_id s) (next_id s) = None"
  by (auto simp: st_wf_def st_fresh_def)

lemma word_succ_le:
  fixes i n :: u16
  assumes "i \<le> n" and "n + 1 \<noteq> 0"
  shows "i < n + 1"
proof -
  have "unat (n + 1) = Suc (unat n)"
    using assms(2) by (metis add.commute unatSuc)
  with assms(1) show ?thesis by (simp add: word_less_nat_alt word_le_nat_alt)
qed

lemma Put_maps:
  assumes wf: "st_wf s" and put: "VNodeStorage_Put s node = (Inr i, s')"
  shows "st_maps s'"
proof -
  have maps: "st_maps s" using wf by (simp add: st_wf_def)
  note iff = st_maps_iff [OF maps] and uwf = st_maps_uwf [OF maps]
  from put show ?thesis
  proof (cases rule: Put_cases)
    case Existing
    obtain old where old: "um_find (by_id s) i = Some old" "vn_user_key old = vn_user_key node" "i \<noteq> 0"
      using maps Existing(2) by (rule st_maps_key) blast
    have "um_find (by_user_key s') k = Some j \<longleftrightarrow>
        (\<exists>n. um_find (by_id s') j = Some n \<and> vn_user_key n = k)" for k j
      using Existing(3) old iff [of k j] by (cases "j = i") (auto simp: umap_simps)
    moreover have "vn_id n = j \<and> j \<noteq> 0 \<and> vn_user_key n \<noteq> []" if "um_find (by_id s') j = Some n" for j n
      using that Existing old st_maps_id [OF maps, of j n] by (cases "j = i") (auto simp: umap_simps)
    ultimately show ?thesis
      using Existing(3) uwf by (simp add: st_maps_def wf_intros)
  next
    case New
    note none = st_fresh_new [OF wf New(3)]
    have "um_find (by_user_key s') k = Some j \<longleftrightarrow>
        (\<exists>n. um_find (by_id s') j = Some n \<and> vn_user_key n = k)" for k j
      using New(2,4,5) none iff [of k j]
      by (cases "j = i"; cases "k = vn_user_key node") (auto simp: umap_simps)
    moreover have "vn_id n = j \<and> j \<noteq> 0 \<and> vn_user_key n \<noteq> []" if "um_find (by_id s') j = Some n" for j n
      using that New st_maps_id [OF maps, of j n] by (cases "j = i") (auto simp: umap_simps)
    ultimately show ?thesis
      using New(5) uwf by (simp add: st_maps_def wf_intros)
  qed
qed

lemma Put_fresh:
  assumes wf: "st_wf s" and put: "VNodeStorage_Put s node = (Inr i, s')"
  shows "st_fresh s'"
  using put
proof (cases rule: Put_cases)
  case Existing
  obtain old where "um_find (by_id s) i = Some old"
    using wf Existing(2) by (auto simp: st_wf_def elim: st_maps_key)
  with wf Existing show ?thesis by (auto simp: st_wf_def st_fresh_def umap_simps)
next
  case New
  have "j \<le> next_id s" if "um_find (by_id s') j \<noteq> None" for j
    using that wf New by (cases "j = i") (auto simp: st_wf_def st_fresh_def umap_simps)
  with New(5) show ?thesis by (simp add: st_fresh_def word_succ_le)
qed

lemma Put_wf [wf_intros]:
  assumes "st_wf s" and "VNodeStorage_Put s node = (r, s')"
  shows "st_wf s'"
  using assms Put_maps [of s node _ s'] Put_fresh [of s node _ s']
  by (cases r) (auto dest: Put_error_same simp: st_wf_def)

lemma Del_wf [wf_intros]:
  assumes wf: "st_wf s" and del: "VNodeStorage_DelByUserKey s k0 = (r, s')"
  shows "st_wf s'"
proof (cases "um_find (by_user_key s) k0")
  case None
  with del wf show ?thesis by (simp add: VNodeStorage_DelByUserKey_def)
next
  case (Some i)
  have maps: "st_maps s" using wf by (simp add: st_wf_def)
  note iff = st_maps_iff [OF maps] and uwf = st_maps_uwf [OF maps]
  obtain n0 where n0: "um_find (by_id s) i = Some n0" "vn_user_key n0 = k0"
    using maps Some by (rule st_maps_key)
  have s': "s' = s\<lparr>by_id := um_erase (by_id s) i, by_user_key := um_erase (by_user_key s) k0\<rparr>"
    using del Some by (simp add: VNodeStorage_DelByUserKey_def)
  have "um_find (by_user_key s') k = Some j \<longleftrightarrow>
      (\<exists>n. um_find (by_id s') j = Some n \<and> vn_user_key n = k)" for k j
    using n0 Some iff [of k j] by (cases "j = i"; cases "k = k0") (auto simp: s' umap_simps)
  moreover have "vn_id n = j \<and> j \<noteq> 0 \<and> vn_user_key n \<noteq> []" if "um_find (by_id s') j = Some n" for j n
    using that st_maps_id [OF maps, of j n] by (auto simp: s' umap_simps split: if_splits)
  ultimately have "st_maps s'" using uwf by (simp add: s' st_maps_def wf_intros)
  moreover have "st_fresh s'" using wf by (auto simp: s' st_wf_def st_fresh_def umap_simps)
  ultimately show ?thesis by (simp add: st_wf_def)
qed

lemma Restore_maps [wf_intros]:
  assumes maps: "st_maps s" and res: "VNodeStorage_Restore s node = (st, s')"
  shows "st_maps s'"
proof (cases "st = VsOk")
  case True
  let ?i = "vn_id node" and ?k = "vn_user_key node"
  from res True have new: "?k \<noteq> []" "?i \<noteq> 0" "um_find (by_id s) ?i = None"
      "um_find (by_user_key s) ?k = None"
    and s': "s' = s\<lparr>by_user_key := um_emplace (by_user_key s) ?k ?i, by_id := um_emplace (by_id s) ?i node\<rparr>"
    by (auto simp: VNodeStorage_Restore_def split: if_splits)
  note iff = st_maps_iff [OF maps] and uwf = st_maps_uwf [OF maps]
  have "um_find (by_user_key s') k = Some j \<longleftrightarrow>
      (\<exists>n. um_find (by_id s') j = Some n \<and> vn_user_key n = k)" for k j
    using new iff [of k j] by (cases "j = ?i"; cases "k = ?k") (auto simp: s' umap_simps)
  moreover have "vn_id n = j \<and> j \<noteq> 0 \<and> vn_user_key n \<noteq> []" if "um_find (by_id s') j = Some n" for j n
    using that new st_maps_id [OF maps, of j n] by (auto simp: s' umap_simps split: if_splits)
  moreover have "um_wf (by_id s')" "um_wf (by_user_key s')" using uwf by (simp_all add: s' wf_intros)
  ultimately show ?thesis unfolding st_maps_def by blast
next
  case False
  with res maps show ?thesis by (auto simp: VNodeStorage_Restore_def split: if_splits)
qed

section \<open>What the operations store and return\<close>

lemma Put_find:
  assumes "st_wf s" and put: "VNodeStorage_Put s node = (Inr i, s')"
  shows "um_find (by_id s') = (um_find (by_id s))(i \<mapsto> node\<lparr>vn_id := i\<rparr>)"
    and "um_find (by_user_key s') = (um_find (by_user_key s))(vn_user_key node \<mapsto> i)"
    and "i \<noteq> 0" and "vn_user_key node \<noteq> []"
proof -
  have maps: "st_maps s" using assms by (simp add: st_wf_def)
  from put have "um_find (by_id s') = (um_find (by_id s))(i \<mapsto> node\<lparr>vn_id := i\<rparr>)
    \<and> um_find (by_user_key s') = (um_find (by_user_key s))(vn_user_key node \<mapsto> i)
    \<and> i \<noteq> 0 \<and> vn_user_key node \<noteq> []"
  proof (cases rule: Put_cases)
    case Existing
    obtain n where "i \<noteq> 0" using maps Existing(2) by (rule st_maps_key)
    with Existing show ?thesis by (simp add: umap_simps fun_eq_iff)
  next
    case New
    then show ?thesis by (auto simp: umap_simps fun_eq_iff)
  qed
  then show "um_find (by_id s') = (um_find (by_id s))(i \<mapsto> node\<lparr>vn_id := i\<rparr>)"
    and "um_find (by_user_key s') = (um_find (by_user_key s))(vn_user_key node \<mapsto> i)"
    and "i \<noteq> 0" and "vn_user_key node \<noteq> []"
    by blast+
qed

text \<open>Another key's node keeps its place when a node is stored.\<close>

lemma Put_other_id:
  assumes wf: "st_wf s" and put: "VNodeStorage_Put s node = (Inr i, s')"
    and n: "um_find (by_id s) j = Some n" and k: "vn_user_key n \<noteq> vn_user_key node"
  shows "j \<noteq> i"
  using put
proof (cases rule: Put_cases)
  case Existing
  with wf n k show ?thesis by (auto simp: st_wf_def st_maps_iff)
next
  case New
  with st_fresh_new [OF wf New(3)] n show ?thesis by auto
qed

lemma Put_get:
  assumes wf: "st_wf s" and put: "VNodeStorage_Put s node = (Inr i, s')"
  shows "VNodeStorage_GetByUserKey s' k =
           (if k = vn_user_key node then Inr (node\<lparr>vn_id := i\<rparr>) else VNodeStorage_GetByUserKey s k)"
proof (cases "k = vn_user_key node")
  case True
  then show ?thesis
    by (simp add: VNodeStorage_GetByUserKey_def VNodeStorage_GetById_def Put_find [OF assms])
next
  case False
  have maps: "st_maps s" using wf by (simp add: st_wf_def)
  have "j \<noteq> i" if "um_find (by_user_key s) k = Some j" for j
    using maps that False by (auto elim: st_maps_key dest: Put_other_id [OF assms])
  with False show ?thesis
    by (auto simp: VNodeStorage_GetByUserKey_def VNodeStorage_GetById_def Put_find [OF assms]
             split: option.split)
qed

lemma Del_find:
  assumes "VNodeStorage_DelByUserKey s k = (VsOk, s')"
  obtains i where "um_find (by_user_key s) k = Some i"
    "um_find (by_id s') = (um_find (by_id s))(i := None)"
    "um_find (by_user_key s') = (um_find (by_user_key s))(k := None)"
    "next_id s' = next_id s"
  using assms
  by (auto simp: VNodeStorage_DelByUserKey_def umap_simps fun_eq_iff split: option.splits)

lemma Del_get:
  assumes wf: "st_wf s" and del: "VNodeStorage_DelByUserKey s k0 = (VsOk, s')"
  shows "VNodeStorage_GetByUserKey s' k =
           (if k = k0 then Inl VsNotFound else VNodeStorage_GetByUserKey s k)"
proof -
  have maps: "st_maps s" using wf by (simp add: st_wf_def)
  from del obtain i where i: "um_find (by_user_key s) k0 = Some i"
    and f: "um_find (by_id s') = (um_find (by_id s))(i := None)"
      "um_find (by_user_key s') = (um_find (by_user_key s))(k0 := None)"
    by (rule Del_find)
  have "j \<noteq> i" if "um_find (by_user_key s) k = Some j" "k \<noteq> k0" for j
    using that i maps by (auto simp: st_maps_iff)
  with f show ?thesis
    by (auto simp: VNodeStorage_GetByUserKey_def VNodeStorage_GetById_def split: option.split)
qed

lemma Put_size:
  assumes wf: "st_wf s" and put: "VNodeStorage_Put s node = (Inr i, s')"
  shows "VNodeStorage_size s' =
     (if um_find (by_user_key s) (vn_user_key node) = None then Suc (VNodeStorage_size s)
      else VNodeStorage_size s)"
  using put
proof (cases rule: Put_cases)
  case Existing
  obtain old where "um_find (by_id s) i = Some old"
    using wf Existing(2) by (auto simp: st_wf_def elim: st_maps_key)
  with Existing show ?thesis by (simp add: VNodeStorage_size_def length_um_put)
next
  case New
  with st_fresh_new [OF wf New(3)] show ?thesis by (simp add: VNodeStorage_size_def length_um_put)
qed

lemma Del_size:
  assumes wf: "st_wf s" and del: "VNodeStorage_DelByUserKey s k = (VsOk, s')"
  shows "VNodeStorage_size s = Suc (VNodeStorage_size s')"
proof -
  have maps: "st_maps s" using wf by (simp add: st_wf_def)
  from del obtain i where i: "um_find (by_user_key s) k = Some i"
    and s': "s' = s\<lparr>by_id := um_erase (by_id s) i, by_user_key := um_erase (by_user_key s) k\<rparr>"
    by (auto simp: VNodeStorage_DelByUserKey_def split: option.splits)
  obtain n where n: "um_find (by_id s) i = Some n" using maps i by (rule st_maps_key)
  then have "by_id s \<noteq> []" by (auto simp: umap_simps)
  with n st_maps_uwf(1) [OF maps] show ?thesis
    by (simp add: s' VNodeStorage_size_def length_um_erase)
qed

lemma size_bound:
  assumes "st_maps s"
  shows "VNodeStorage_size s \<le> 65535"
proof -
  have "fst ` set (by_id s) \<subseteq> UNIV - {0}"
    using st_maps_id [OF assms] by (auto simp: um_find_mem [OF st_maps_uwf(1) [OF assms]])
  then have "card (fst ` set (by_id s)) \<le> card (UNIV - {0 :: u16})"
    by (intro card_mono) auto
  also have "\<dots> = 65535" by (simp add: card_Diff_singleton card_word)
  finally show ?thesis
    using st_maps_uwf(1) [OF assms]
    by (metis VNodeStorage_size_def distinct_card length_map list.set_map um_wf_def)
qed

section \<open>The id counter\<close>

text \<open>Store and delete one key \<open>k\<close> times.\<close>

primrec churn :: "nat \<Rightarrow> VNode \<Rightarrow> VNodeStorage \<Rightarrow> VNodeStorage" where
  "churn 0 node s = s"
| "churn (Suc k) node s =
     snd (VNodeStorage_DelByUserKey (snd (VNodeStorage_Put (churn k node s) node)) (vn_user_key node))"

lemma churn_empty:
  assumes "vn_user_key node \<noteq> []"
  shows "k \<le> 65535 \<Longrightarrow>
     churn k node VNodeStorage_empty = \<lparr>next_id = 1 + of_nat k, by_id = [], by_user_key = []\<rparr>"
proof (induction k)
  case 0
  then show ?case by (simp add: VNodeStorage_empty_def)
next
  case (Suc k)
  have "(1 :: u16) + of_nat k = of_nat (Suc k)" by simp
  moreover have "of_nat (Suc k) \<noteq> (0 :: u16)"
    using Suc.prems by (simp only: word_of_nat_eq_0_iff) (simp add: nat_dvd_not_less)
  ultimately have "(1 :: u16) + of_nat k \<noteq> 0" by simp
  with assms Suc show ?case
    by (simp add: VNodeStorage_Put_def VNodeStorage_DelByUserKey_def um_find_def um_put_def
          um_emplace_def um_erase_def Let_def)
qed

section \<open>Properties\<close>

text \<open>
  The storage invariant (the two indexes mirror each other, ids are non-zero and below the counter)
  holds initially and is kept by Put and DelByUserKey, also when they fail, and bounds the number of
  nodes by 65535.
\<close>

lemma storage_invariant:
  assumes "st_wf s"
  shows "st_wf VNodeStorage_empty \<and> st_wf (snd (VNodeStorage_Put s node))
     \<and> st_wf (snd (VNodeStorage_DelByUserKey s k)) \<and> VNodeStorage_size s \<le> 65535"
proof -
  have "st_wf (snd (VNodeStorage_Put s node))"
    by (cases "VNodeStorage_Put s node") (simp add: Put_wf [OF assms])
  moreover have "st_wf (snd (VNodeStorage_DelByUserKey s k))"
    by (cases "VNodeStorage_DelByUserKey s k") (simp add: Del_wf [OF assms])
  moreover have "VNodeStorage_size s \<le> 65535" using assms by (simp add: st_wf_def size_bound)
  ultimately show ?thesis by simp
qed

definition sample_node :: VNode where
  "sample_node = \<lparr>vn_id = 0, vn_user_key = ''u'', vn_question = ''q'', vn_answer = ''a''\<rparr>"

text \<open>
  A successful Put is visible under its user key and changes no other key: a new key gets the
  counter's id and the counter advances, an existing key keeps its id. It fails only for an empty key or,
  for a new key, an exhausted counter, and then changes nothing.
\<close>

lemma storage_put_get:
  assumes "st_wf s" and "VNodeStorage_Put s node = (r, s')"
  shows "case r of
     Inl e \<Rightarrow> s' = s \<and> (vn_user_key node = [] \<or> next_id s = 0 \<and> um_find (by_user_key s) (vn_user_key node) = None)
   | Inr i \<Rightarrow> (\<forall>k. VNodeStorage_GetByUserKey s' k =
                  (if k = vn_user_key node then Inr (node\<lparr>vn_id := i\<rparr>) else VNodeStorage_GetByUserKey s k))
       \<and> i \<noteq> 0 \<and> (if um_find (by_user_key s) (vn_user_key node) = None
                   then i = next_id s \<and> next_id s' = next_id s + 1
                   else um_find (by_user_key s) (vn_user_key node) = Some i \<and> next_id s' = next_id s)"
proof (cases r)
  case (Inl e)
  with assms(2) show ?thesis
    by (auto simp: VNodeStorage_Put_def Let_def split: if_splits option.splits)
next
  case (Inr i)
  with assms(2) have put: "VNodeStorage_Put s node = (Inr i, s')" by simp
  from put have "if um_find (by_user_key s) (vn_user_key node) = None
                   then i = next_id s \<and> next_id s' = next_id s + 1
                   else um_find (by_user_key s) (vn_user_key node) = Some i \<and> next_id s' = next_id s"
    by (cases rule: Put_cases) simp_all
  with Put_get [OF assms(1) put] Put_find(3) [OF assms(1) put] Inr show ?thesis by simp
qed

text \<open>
  Ids are never reused: after 65535 store-and-delete rounds of one key the storage is empty, and
  yet every Put of a new key fails with kFull.
\<close>

lemma storage_ids_exhausted:
  assumes "vn_user_key node \<noteq> []" and "vn_user_key other \<noteq> []"
  shows "VNodeStorage_size (churn 65535 node VNodeStorage_empty) = 0
     \<and> fst (VNodeStorage_Put (churn 65535 node VNodeStorage_empty) other) = Inl VsFull"
proof -
  have "churn 65535 node VNodeStorage_empty = \<lparr>next_id = 1 + of_nat 65535, by_id = [], by_user_key = []\<rparr>"
    using churn_empty [OF assms(1), of 65535] by simp
  moreover have "(1 :: u16) + of_nat 65535 = 0" by simp
  ultimately show ?thesis
    using assms(2) by (simp add: VNodeStorage_size_def VNodeStorage_Put_def umap_simps)
qed

end
