(* ===== verification/VNodeCodec.thy ===== *)
theory VNodeCodec
  imports VNodeStorage
begin

text \<open>
  \<^verbatim>\<open>RespVNodeCodec\<close> (src/src/storage/RespVNodeCodec.cc): a node as a RESP array of four bulk strings,
  the id in decimal. Decoding inverts encoding.
\<close>

definition Codec_Encode :: "VNode \<Rightarrow> bytes" where
  "Codec_Encode node =
     AppendBulkString (AppendBulkString (AppendBulkString (AppendBulkString
       (AppendArrayHeader [] 4) (dec_of_nat (unat (vn_id node)))) (vn_user_key node))
       (vn_question node)) (vn_answer node)"

text \<open>\<open>CodecLengthError\<close>: the exception of \<^verbatim>\<open>DecodeArrayOfBulk\<close> escapes.\<close>

datatype codec_result = CodecOk VNode | CodecError | CodecLengthError

text \<open>The id loop: every character a digit, the value at most \<open>0xffff\<close> after each step.\<close>

fun decode_id :: "nat \<Rightarrow> bytes \<Rightarrow> nat option" where
  "decode_id i [] = Some i"
| "decode_id i (c # cs) =
     (if \<not> isdigit c then None
      else let i' = i * 10 + digit_val c in if 65535 < i' then None else decode_id i' cs)"

definition Codec_Decode :: "bytes \<Rightarrow> codec_result" where
  "Codec_Decode bs =
     (case DecodeArrayOfBulk bs of
        DLengthError \<Rightarrow> CodecLengthError
      | DOk tokens consumed \<Rightarrow>
          if consumed \<noteq> length bs \<or> length tokens \<noteq> 4 then CodecError
          else (case decode_id 0 (tokens ! 0) of
                  None \<Rightarrow> CodecError
                | Some i \<Rightarrow> CodecOk \<lparr>vn_id = of_nat i, vn_user_key = tokens ! 1,
                                    vn_question = tokens ! 2, vn_answer = tokens ! 3\<rparr>)
      | _ \<Rightarrow> CodecError)"

definition node_fits :: "VNode \<Rightarrow> bool" where
  "node_fits n \<longleftrightarrow> length (vn_user_key n) < 2 ^ 63 \<and> length (vn_question n) < 2 ^ 63
     \<and> length (vn_answer n) < 2 ^ 63"

lemma Codec_Encode_array:
  "Codec_Encode n =
     resp_array [dec_of_nat (unat (vn_id n)), vn_user_key n, vn_question n, vn_answer n]"
  using AppendArrayHeader_eq [of "[]" 4]
  by (simp add: Codec_Encode_def AppendBulkString_eq resp_array_def eval_nat_numeral)

lemma decode_id_digits:
  "\<forall>c \<in> set ds. isdigit c \<Longrightarrow> dec_val i ds \<le> 65535 \<Longrightarrow> decode_id i ds = Some (dec_val i ds)"
proof (induction ds arbitrary: i)
  case (Cons c ds)
  have "i * 10 + digit_val c \<le> dec_val (i * 10 + digit_val c) ds" by (rule dec_val_ge)
  with Cons show ?case by (simp add: Let_def)
qed simp

lemma length_dec_of_nat: "length (dec_of_nat n) \<le> Suc n"
proof (induction n rule: dec_of_nat.induct)
  case (1 n)
  then show ?case by (cases "n < 10") (auto simp: dec_of_nat.simps [of n])
qed

lemma Codec_roundtrip:
  assumes "node_fits n"
  shows "Codec_Decode (Codec_Encode n) = CodecOk n"
proof -
  let ?toks = "[dec_of_nat (unat (vn_id n)), vn_user_key n, vn_question n, vn_answer n]"
  have "unat (vn_id n) < 65536" using unsigned_less [of "vn_id n", where ?'a = nat] by simp
  then have i: "unat (vn_id n) \<le> 65535" by simp
  have "length (dec_of_nat (unat (vn_id n))) < 2 ^ 63"
    using length_dec_of_nat [of "unat (vn_id n)"] i by simp
  then have "tokens_fit ?toks" using assms by (simp add: tokens_fit_def node_fits_def vector_max_size_def)
  from DecodeArrayOfBulk_resp_array [OF this, of "[]"]
  have dec: "DecodeArrayOfBulk (Codec_Encode n) = DOk ?toks (length (Codec_Encode n))"
    by (simp add: Codec_Encode_array)
  have "decode_id 0 (dec_of_nat (unat (vn_id n))) = Some (unat (vn_id n))"
    using decode_id_digits [of "dec_of_nat (unat (vn_id n))" 0] i by (simp add: dec_of_nat_digits)
  then show ?thesis by (simp add: Codec_Decode_def dec)
qed

section \<open>Properties\<close>

text \<open>
  A node read back from its own encoding is the same node, its id, key, question and answer included.
\<close>

lemma codec_roundtrip:
  "node_fits n \<Longrightarrow> Codec_Decode (Codec_Encode n) = CodecOk n"
  by (rule Codec_roundtrip)

end
