(* ===== verification/LruOrder.thy ===== *)
theory LruOrder
  imports Vemory_Prelude
begin

text \<open>
  The access-order tracker \<^verbatim>\<open>LruOrder\<close> (src/include/vemory/util/LruOrder.h): a doubly linked list of
  ids, least recently used first, and a hash map from id to list iterator. A list node is modelled
  by its address, so that a stored iterator can dangle in principle; the invariant says it never
  does. The component refines a plain list of distinct ids.
\<close>

section \<open>Model\<close>

record LruOrder =
  lo_order :: "(nat \<times> u16) list"
  lo_map :: "(u16, nat) umap"
  lo_next :: nat \<comment> \<open>address of the next list node to be allocated\<close>

definition LruOrder_empty :: LruOrder where
  "LruOrder_empty = \<lparr>lo_order = [], lo_map = [], lo_next = 0\<rparr>"

text \<open>\<^verbatim>\<open>order_.erase(it)\<close>\<close>

definition erase_node :: "nat \<Rightarrow> (nat \<times> u16) list \<Rightarrow> (nat \<times> u16) list" where
  "erase_node a xs = filter (\<lambda>(b, _). b \<noteq> a) xs"

text \<open>\<^verbatim>\<open>order_.erase(it->second); it->second = order_.insert(order_.end(), id)\<close>\<close>

definition move_back :: "LruOrder \<Rightarrow> nat \<Rightarrow> u16 \<Rightarrow> LruOrder" where
  "move_back l a i =
     l\<lparr>lo_order := erase_node a (lo_order l) @ [(lo_next l, i)],
       lo_map := um_put (lo_map l) i (lo_next l), lo_next := Suc (lo_next l)\<rparr>"

definition LruOrder_Touch :: "LruOrder \<Rightarrow> u16 \<Rightarrow> LruOrder" where
  "LruOrder_Touch l i = (case um_find (lo_map l) i of None \<Rightarrow> l | Some a \<Rightarrow> move_back l a i)"

definition LruOrder_Push :: "LruOrder \<Rightarrow> u16 \<Rightarrow> LruOrder" where
  "LruOrder_Push l i =
     (case um_find (lo_map l) i of
        Some a \<Rightarrow> move_back l a i
      | None \<Rightarrow> l\<lparr>lo_order := lo_order l @ [(lo_next l, i)],
                  lo_map := um_emplace (lo_map l) i (lo_next l), lo_next := Suc (lo_next l)\<rparr>)"

definition LruOrder_Erase :: "LruOrder \<Rightarrow> u16 \<Rightarrow> bool \<times> LruOrder" where
  "LruOrder_Erase l i =
     (case um_find (lo_map l) i of
        None \<Rightarrow> (False, l)
      | Some a \<Rightarrow> (True, l\<lparr>lo_order := erase_node a (lo_order l), lo_map := um_erase (lo_map l) i\<rparr>))"

definition LruOrder_PeekLru :: "LruOrder \<Rightarrow> u16 option" where
  "LruOrder_PeekLru l = (case lo_order l of [] \<Rightarrow> None | (_, i) # _ \<Rightarrow> Some i)"

definition LruOrder_PopLru :: "LruOrder \<Rightarrow> (u16 \<times> LruOrder) option" where
  "LruOrder_PopLru l =
     (case lo_order l of
        [] \<Rightarrow> None
      | (_, i) # rest \<Rightarrow> Some (i, l\<lparr>lo_order := rest, lo_map := um_erase (lo_map l) i\<rparr>))"

definition LruOrder_Clear :: "LruOrder \<Rightarrow> LruOrder" where
  "LruOrder_Clear l = l\<lparr>lo_order := [], lo_map := []\<rparr>"

definition LruOrder_size :: "LruOrder \<Rightarrow> nat" where
  "LruOrder_size l = length (lo_order l)"

section \<open>Invariant and abstraction\<close>

definition lru_ids :: "LruOrder \<Rightarrow> u16 list" where
  "lru_ids l = map snd (lo_order l)"

text \<open>
  Every iterator in the map points to the one list node that holds its id, every list node is
  pointed to, and new nodes get fresh addresses.
\<close>

definition lru_wf :: "LruOrder \<Rightarrow> bool" where
  "lru_wf l \<longleftrightarrow> distinct (map fst (lo_order l)) \<and> um_wf (lo_map l)
     \<and> (\<forall>(a, i) \<in> set (lo_order l). a < lo_next l)
     \<and> (\<forall>a i. um_find (lo_map l) i = Some a \<longleftrightarrow> (a, i) \<in> set (lo_order l))"

lemma lru_wf_map: "lru_wf l \<Longrightarrow> um_find (lo_map l) i = Some a \<longleftrightarrow> (a, i) \<in> set (lo_order l)"
  by (simp add: lru_wf_def)

lemma lru_wf_fresh: "lru_wf l \<Longrightarrow> (a, i) \<in> set (lo_order l) \<Longrightarrow> a < lo_next l"
  by (auto simp: lru_wf_def)

lemma lru_wf_addr:
  "lru_wf l \<Longrightarrow> (a, i) \<in> set (lo_order l) \<Longrightarrow> (a, j) \<in> set (lo_order l) \<Longrightarrow> i = j"
  unfolding lru_wf_def using eq_key_imp_eq_value by metis

lemma lru_wf_id:
  "lru_wf l \<Longrightarrow> (a, i) \<in> set (lo_order l) \<Longrightarrow> (b, i) \<in> set (lo_order l) \<Longrightarrow> a = b"
  using lru_wf_map [of l i a] lru_wf_map [of l i b] by simp

lemma lru_wf_node:
  "lru_wf l \<Longrightarrow> (a, i) \<in> set (lo_order l) \<Longrightarrow> (b, j) \<in> set (lo_order l) \<Longrightarrow> b = a \<longleftrightarrow> j = i"
  by (metis lru_wf_addr lru_wf_id)

lemma lru_wf_distinct: "lru_wf l \<Longrightarrow> distinct (lru_ids l)"
proof -
  assume wf: "lru_wf l"
  have "inj_on snd (set (lo_order l))"
  proof (rule inj_onI)
    fix x y assume "x \<in> set (lo_order l)" "y \<in> set (lo_order l)" "snd x = snd y"
    with wf show "x = y" by (cases x; cases y) (auto dest: lru_wf_id)
  qed
  moreover have "distinct (lo_order l)" using wf by (simp add: lru_wf_def distinct_map)
  ultimately show ?thesis by (simp add: lru_ids_def distinct_map)
qed

lemma lru_wf_dom: "lru_wf l \<Longrightarrow> um_find (lo_map l) i \<noteq> None \<longleftrightarrow> i \<in> set (lru_ids l)"
  by (force simp: lru_wf_def lru_ids_def)

text \<open>Erasing through a valid iterator removes exactly its id.\<close>

lemma erase_node_ids:
  assumes "lru_wf l" and "um_find (lo_map l) i = Some a"
  shows "map snd (erase_node a (lo_order l)) = filter (\<lambda>j. j \<noteq> i) (lru_ids l)"
proof -
  have ai: "(a, i) \<in> set (lo_order l)" using assms by (simp add: lru_wf_map)
  have eq: "(case x of (b, j) \<Rightarrow> b \<noteq> a) \<longleftrightarrow> snd x \<noteq> i" if "x \<in> set (lo_order l)" for x
    using lru_wf_node [OF assms(1) ai, of "fst x" "snd x"] that by (cases x) simp
  have "erase_node a (lo_order l) = filter (\<lambda>x. snd x \<noteq> i) (lo_order l)"
    unfolding erase_node_def using eq by (rule filter_cong [OF refl])
  then show ?thesis by (simp add: lru_ids_def filter_map comp_def)
qed

lemma lru_ids_move_back:
  "lru_wf l \<Longrightarrow> um_find (lo_map l) i = Some a \<Longrightarrow>
     lru_ids (move_back l a i) = filter (\<lambda>j. j \<noteq> i) (lru_ids l) @ [i]"
  using erase_node_ids [of l i a] by (simp add: lru_ids_def move_back_def)

lemma set_erase_node [simp]: "set (erase_node a xs) = {x \<in> set xs. fst x \<noteq> a}"
  by (auto simp: erase_node_def)

lemma distinct_erase_node: "distinct (map fst xs) \<Longrightarrow> distinct (map fst (erase_node a xs))"
  by (simp add: erase_node_def distinct_map_filter)

lemma move_back_wf [wf_intros]:
  assumes wf: "lru_wf l" and a: "um_find (lo_map l) i = Some a"
  shows "lru_wf (move_back l a i)"
proof -
  note map = lru_wf_map [OF wf] and fresh = lru_wf_fresh [OF wf]
  have ai: "(a, i) \<in> set (lo_order l)" using a by (simp add: map)
  have "um_find (lo_map (move_back l a i)) j = Some b \<longleftrightarrow> (b, j) \<in> set (lo_order (move_back l a i))"
    for b j
    using lru_wf_node [OF wf ai, of b j]
    by (cases "j = i") (auto simp: move_back_def umap_simps map)
  moreover have "distinct (map fst (lo_order (move_back l a i)))"
    using wf by (auto simp: move_back_def lru_wf_def distinct_erase_node dest: fresh)
  moreover have "\<forall>(b, j) \<in> set (lo_order (move_back l a i)). b < lo_next (move_back l a i)"
    by (auto simp: move_back_def less_Suc_eq dest: fresh)
  moreover have "um_wf (lo_map (move_back l a i))"
    using wf by (simp add: move_back_def lru_wf_def wf_intros)
  ultimately show ?thesis by (simp add: lru_wf_def)
qed

lemma LruOrder_empty_wf [simp]: "lru_wf LruOrder_empty" "lru_ids LruOrder_empty = []"
  by (simp_all add: lru_wf_def LruOrder_empty_def umap_simps lru_ids_def)

lemma Touch_wf [wf_intros]: "lru_wf l \<Longrightarrow> lru_wf (LruOrder_Touch l i)"
  by (auto simp: LruOrder_Touch_def wf_intros split: option.split)

lemma Touch_ids:
  "lru_wf l \<Longrightarrow> lru_ids (LruOrder_Touch l i) =
     (if i \<in> set (lru_ids l) then filter (\<lambda>j. j \<noteq> i) (lru_ids l) @ [i] else lru_ids l)"
  using lru_wf_dom [of l i]
  by (auto simp: LruOrder_Touch_def lru_ids_move_back split: option.split)

lemma Push_wf [wf_intros]:
  assumes wf: "lru_wf l"
  shows "lru_wf (LruOrder_Push l i)"
proof (cases "um_find (lo_map l) i")
  case None
  note map = lru_wf_map [OF wf] and fresh = lru_wf_fresh [OF wf]
  have new: "(b, i) \<notin> set (lo_order l)" for b using None map [of i b] by simp
  have "um_find (lo_map (LruOrder_Push l i)) j = Some b \<longleftrightarrow> (b, j) \<in> set (lo_order (LruOrder_Push l i))"
    for b j
    using None new by (cases "j = i") (auto simp: LruOrder_Push_def umap_simps map)
  moreover have "distinct (map fst (lo_order (LruOrder_Push l i)))"
    using wf None by (auto simp: LruOrder_Push_def lru_wf_def dest: fresh)
  moreover have "\<forall>(b, j) \<in> set (lo_order (LruOrder_Push l i)). b < lo_next (LruOrder_Push l i)"
    using None by (auto simp: LruOrder_Push_def less_Suc_eq dest: fresh)
  moreover have "um_wf (lo_map (LruOrder_Push l i))"
    using wf None by (simp add: LruOrder_Push_def lru_wf_def wf_intros)
  ultimately show ?thesis by (simp add: lru_wf_def)
qed (auto simp: LruOrder_Push_def wf wf_intros)

lemma Push_ids:
  assumes "lru_wf l"
  shows "lru_ids (LruOrder_Push l i) = filter (\<lambda>j. j \<noteq> i) (lru_ids l) @ [i]"
proof (cases "um_find (lo_map l) i")
  case None
  then have "i \<notin> set (lru_ids l)" using lru_wf_dom [OF assms, of i] by simp
  then have "filter (\<lambda>j. j \<noteq> i) (lru_ids l) = lru_ids l" by (auto intro: filter_True)
  with None show ?thesis by (simp add: LruOrder_Push_def lru_ids_def)
qed (simp add: LruOrder_Push_def lru_ids_move_back assms)

lemma Erase_wf [wf_intros]:
  assumes wf: "lru_wf l"
  shows "lru_wf (snd (LruOrder_Erase l i))"
proof (cases "um_find (lo_map l) i")
  case (Some a)
  note map = lru_wf_map [OF wf]
  have ai: "(a, i) \<in> set (lo_order l)" using Some by (simp add: map)
  have "um_find (um_erase (lo_map l) i) j = Some b \<longleftrightarrow> (b, j) \<in> set (erase_node a (lo_order l))" for b j
    using lru_wf_node [OF wf ai, of b j] by (cases "j = i") (auto simp: umap_simps map)
  moreover have "snd (LruOrder_Erase l i) =
      l\<lparr>lo_order := erase_node a (lo_order l), lo_map := um_erase (lo_map l) i\<rparr>"
    using Some by (simp add: LruOrder_Erase_def)
  ultimately show ?thesis
    using wf by (auto simp: lru_wf_def wf_intros distinct_erase_node)
qed (simp add: LruOrder_Erase_def wf)

lemma Erase_ids:
  assumes "lru_wf l"
  shows "lru_ids (snd (LruOrder_Erase l i)) = filter (\<lambda>j. j \<noteq> i) (lru_ids l)"
    and "fst (LruOrder_Erase l i) \<longleftrightarrow> i \<in> set (lru_ids l)"
proof -
  show "fst (LruOrder_Erase l i) \<longleftrightarrow> i \<in> set (lru_ids l)"
    using lru_wf_dom [OF assms, of i] by (auto simp: LruOrder_Erase_def split: option.split)
  show "lru_ids (snd (LruOrder_Erase l i)) = filter (\<lambda>j. j \<noteq> i) (lru_ids l)"
  proof (cases "um_find (lo_map l) i")
    case None
    then have "i \<notin> set (lru_ids l)" using lru_wf_dom [OF assms, of i] by simp
    then have "filter (\<lambda>j. j \<noteq> i) (lru_ids l) = lru_ids l" by (auto intro: filter_True)
    with None show ?thesis by (simp add: LruOrder_Erase_def)
  next
    case (Some a)
    with erase_node_ids [OF assms Some] show ?thesis by (simp add: LruOrder_Erase_def lru_ids_def)
  qed
qed

lemma PeekLru_ids: "LruOrder_PeekLru l = (case lru_ids l of [] \<Rightarrow> None | i # _ \<Rightarrow> Some i)"
  by (auto simp: LruOrder_PeekLru_def lru_ids_def split: list.split)

lemma PopLru_wf:
  assumes wf: "lru_wf l" and pop: "LruOrder_PopLru l = Some (i, l')"
  shows "lru_wf l' \<and> lru_ids l = i # lru_ids l'"
proof -
  from pop obtain a rest where o: "lo_order l = (a, i) # rest"
    and l': "l' = l\<lparr>lo_order := rest, lo_map := um_erase (lo_map l) i\<rparr>"
    by (auto simp: LruOrder_PopLru_def split: list.splits)
  have "i \<notin> snd ` set rest"
    using lru_wf_distinct [OF wf] by (simp add: lru_ids_def o)
  then have "um_find (um_erase (lo_map l) i) j = Some b \<longleftrightarrow> (b, j) \<in> set rest" for b j
    using lru_wf_map [OF wf, of j b] by (cases "j = i") (auto simp: umap_simps o image_iff)
  with wf show ?thesis
    by (auto simp: l' lru_wf_def o wf_intros lru_ids_def)
qed

lemma Clear_wf [wf_intros]: "lru_wf (LruOrder_Clear l)"
  by (simp add: lru_wf_def LruOrder_Clear_def umap_simps)

lemma Clear_ids [simp]: "lru_ids (LruOrder_Clear l) = []"
  by (simp add: LruOrder_Clear_def lru_ids_def)

section \<open>The interface its client relies on\<close>

text \<open>
  An order of recency over ids. A client that pushes every access obtains the accesses without
  repetition, ordered by their last occurrence: exact LRU.
\<close>

locale recency_order =
  fixes ids :: "'o \<Rightarrow> 'i list"
    and push :: "'o \<Rightarrow> 'i \<Rightarrow> 'o"
    and touch :: "'o \<Rightarrow> 'i \<Rightarrow> 'o"
    and erase :: "'o \<Rightarrow> 'i \<Rightarrow> 'o"
    and peek :: "'o \<Rightarrow> 'i option"
    and inv :: "'o \<Rightarrow> bool"
  assumes ids_distinct: "inv s \<Longrightarrow> distinct (ids s)"
    and ids_push: "inv s \<Longrightarrow> ids (push s i) = filter (\<lambda>j. j \<noteq> i) (ids s) @ [i]"
    and ids_touch: "inv s \<Longrightarrow> ids (touch s i) =
          (if i \<in> set (ids s) then filter (\<lambda>j. j \<noteq> i) (ids s) @ [i] else ids s)"
    and ids_erase: "inv s \<Longrightarrow> ids (erase s i) = filter (\<lambda>j. j \<noteq> i) (ids s)"
    and peek_ids: "inv s \<Longrightarrow> peek s = (case ids s of [] \<Rightarrow> None | i # _ \<Rightarrow> Some i)"
    and inv_push: "inv s \<Longrightarrow> inv (push s i)"
    and inv_touch: "inv s \<Longrightarrow> inv (touch s i)"
    and inv_erase: "inv s \<Longrightarrow> inv (erase s i)"
begin

lemma push_all_inv: "inv s \<Longrightarrow> inv (foldl push s xs)"
  by (induction xs arbitrary: s) (auto intro: inv_push)

lemma push_all_ids:
  "inv s \<Longrightarrow> ids (foldl push s xs) = filter (\<lambda>i. i \<notin> set xs) (ids s) @ remdups xs"
proof (induction xs rule: rev_induct)
  case Nil
  then show ?case by simp
next
  case (snoc x xs)
  have "remdups (xs @ [x]) = filter (\<lambda>i. i \<noteq> x) (remdups xs) @ [x]"
    by (induction xs) auto
  with snoc push_all_inv [OF snoc.prems] show ?case
    by (simp add: ids_push) (metis (mono_tags, lifting) filter_cong)
qed

text \<open>The victim is the id whose last access is the oldest.\<close>

lemma push_all_peek:
  assumes "inv s" and "ids s = []"
  shows "peek (foldl push s xs) = (case remdups xs of [] \<Rightarrow> None | i # _ \<Rightarrow> Some i)"
  using push_all_ids [OF assms(1), of xs] push_all_inv [OF assms(1)] assms(2)
  by (simp add: peek_ids)

lemma touch_keeps_set: "inv s \<Longrightarrow> set (ids (touch s i)) = set (ids s)"
  by (auto simp: ids_touch)

lemma push_set: "inv s \<Longrightarrow> set (ids (push s i)) = insert i (set (ids s))"
  by (auto simp: ids_push)

lemma erase_set: "inv s \<Longrightarrow> set (ids (erase s i)) = set (ids s) - {i}"
  by (auto simp: ids_erase)

end

interpretation lru: recency_order lru_ids LruOrder_Push LruOrder_Touch
  "\<lambda>l i. snd (LruOrder_Erase l i)" LruOrder_PeekLru lru_wf
  by unfold_locales
     (simp_all add: lru_wf_distinct Push_ids Touch_ids Erase_ids PeekLru_ids wf_intros)

section \<open>Properties\<close>


text \<open>
  Every operation refines its effect on a plain list of ids and keeps the iterators valid: a touch
  moves a known id to the back and ignores an unknown one, an erase removes exactly the id, a pop removes
  the front.
\<close>

lemma lru_operations_refine:
  assumes "lru_wf l"
  shows "lru_wf (LruOrder_Touch l i) \<and> lru_ids (LruOrder_Touch l i) =
           (if i \<in> set (lru_ids l) then filter (\<lambda>j. j \<noteq> i) (lru_ids l) @ [i] else lru_ids l)
     \<and> lru_wf (snd (LruOrder_Erase l i)) \<and> lru_ids (snd (LruOrder_Erase l i)) = filter (\<lambda>j. j \<noteq> i) (lru_ids l)
     \<and> (fst (LruOrder_Erase l i) \<longleftrightarrow> i \<in> set (lru_ids l))
     \<and> (case LruOrder_PopLru l of
          None \<Rightarrow> lru_ids l = []
        | Some (j, l') \<Rightarrow> lru_wf l' \<and> lru_ids l = j # lru_ids l')"
proof -
  have "case LruOrder_PopLru l of None \<Rightarrow> lru_ids l = [] | Some (j, l') \<Rightarrow> lru_wf l' \<and> lru_ids l = j # lru_ids l'"
    using PopLru_wf [OF assms]
    by (cases "LruOrder_PopLru l") (auto simp: LruOrder_PopLru_def lru_ids_def split: list.splits)
  with Touch_wf [OF assms] Touch_ids [OF assms] Erase_wf [OF assms] Erase_ids [OF assms] show ?thesis by simp
qed

end
