(* ===== verification/UsearchIndex.thy ===== *)
theory UsearchIndex
  imports Float32 Stdio
begin

text \<open>
  The wrapper \<^verbatim>\<open>USearchEmbedIndex\<close> (src/src/index/USearchEmbedIndex.cc) around the third-party usearch
  index. The index itself is a parameter: a record of the operations of \<^verbatim>\<open>index_dense_t\<close> that the
  wrapper calls. Vectors are lists of 32-bit patterns.
\<close>

section \<open>The vendored index as a parameter\<close>

text \<open>
  \<open>us_make\<close> builds an empty cosine \<^verbatim>\<open>f32\<close> index of a dimension; operations that can fail return
  whether they succeeded and the index they leave; \<open>us_remove\<close> returns the number of entries removed,
  or None on error; \<open>us_search\<close> the keys and distances found; \<open>us_save\<close> the chunks passed to the
  output callback; \<open>us_load\<close> and \<open>us_view\<close> read an image and return the number of bytes used.
\<close>

type_synonym vec = "32 word list"

record 'ix usearch_api =
  us_make :: "nat \<Rightarrow> 'ix option"
  us_try_reserve :: "'ix \<Rightarrow> nat \<Rightarrow> bool \<times> 'ix"
  us_contains :: "'ix \<Rightarrow> nat \<Rightarrow> bool"
  us_remove :: "'ix \<Rightarrow> nat \<Rightarrow> nat option \<times> 'ix"
  us_size :: "'ix \<Rightarrow> nat"
  us_capacity :: "'ix \<Rightarrow> nat"
  us_add :: "'ix \<Rightarrow> nat \<Rightarrow> vec \<Rightarrow> bool \<times> 'ix"
  us_search :: "'ix \<Rightarrow> vec \<Rightarrow> nat \<Rightarrow> (nat \<times> f32) list option"
  us_save :: "'ix \<Rightarrow> bytes list option"
  us_load :: "'ix \<Rightarrow> bytes \<Rightarrow> (nat \<times> 'ix) option"
  us_view :: "'ix \<Rightarrow> bytes \<Rightarrow> (nat \<times> 'ix) option"
  us_dimensions :: "'ix \<Rightarrow> nat"

section \<open>Model of the wrapper\<close>

datatype UeStatus = UeOk | UeNotFound | UeBadValue | UeError

record 'ix USearchEmbedIndex =
  ue_impl :: "'ix option"
  ue_dimensions :: nat
  ue_capacity :: nat
  ue_viewed :: bool

definition USearchEmbedIndex_new :: "'ix usearch_api \<Rightarrow> nat \<Rightarrow> nat \<Rightarrow> 'ix USearchEmbedIndex" where
  "USearchEmbedIndex_new api dims cap =
     (let c = (if cap = 0 then 1 else cap);
          e = \<lparr>ue_impl = None, ue_dimensions = dims, ue_capacity = c, ue_viewed = False\<rparr>
      in if dims = 0 then e
         else case us_make api dims of
                None \<Rightarrow> e
              | Some ix \<Rightarrow> (case us_try_reserve api ix c of
                             (ok, ix') \<Rightarrow> if ok then e\<lparr>ue_impl := Some ix'\<rparr> else e))"

definition usearchAdd ::
  "'ix usearch_api \<Rightarrow> 'ix USearchEmbedIndex \<Rightarrow> 'ix \<Rightarrow> u16 \<Rightarrow> vec \<Rightarrow> UeStatus \<times> 'ix USearchEmbedIndex" where
  "usearchAdd api e ix i data =
     (let key = unat i;
          (removed, ix1) = (if us_contains api ix key then us_remove api ix key else (Some 0, ix))
      in case removed of
           None \<Rightarrow> (UeError, e\<lparr>ue_impl := Some ix1\<rparr>)
         | Some _ \<Rightarrow>
             (let (ok, ix2) =
                    (if us_capacity api ix1 \<le> us_size api ix1
                     then us_try_reserve api ix1
                            (if us_capacity api ix1 = 0 then ue_capacity e else us_capacity api ix1 * 2)
                     else (True, ix1))
              in if \<not> ok then (UeError, e\<lparr>ue_impl := Some ix2\<rparr>)
                 else let (added, ix3) = us_add api ix2 key data
                      in (if added then UeOk else UeError, e\<lparr>ue_impl := Some ix3\<rparr>)))"

definition USearchEmbedIndex_Add ::
  "'ix usearch_api \<Rightarrow> 'ix USearchEmbedIndex \<Rightarrow> u16 \<Rightarrow> vec \<Rightarrow> nat \<Rightarrow> UeStatus \<times> 'ix USearchEmbedIndex" where
  "USearchEmbedIndex_Add api e i data dm =
     (case ue_impl e of
        None \<Rightarrow> (UeError, e)
      | Some ix \<Rightarrow>
          if ue_dimensions e = 0 then (UeError, e)
          else if dm \<noteq> ue_dimensions e then (UeBadValue, e)
          else usearchAdd api e ix i data)"

definition usearchSearch ::
  "'ix usearch_api \<Rightarrow> 'ix \<Rightarrow> vec \<Rightarrow> nat \<Rightarrow> UeStatus \<times> (u16 \<times> f32) list" where
  "usearchSearch api ix q k =
     (case us_search api ix q k of
        None \<Rightarrow> (UeError, [])
      | Some rs \<Rightarrow> (UeOk, map (\<lambda>(key, d). (of_nat key, d)) rs))"

definition USearchEmbedIndex_Search ::
  "'ix usearch_api \<Rightarrow> 'ix USearchEmbedIndex \<Rightarrow> vec \<Rightarrow> nat \<Rightarrow> nat \<Rightarrow> UeStatus \<times> (u16 \<times> f32) list" where
  "USearchEmbedIndex_Search api e q dm k =
     (case ue_impl e of
        None \<Rightarrow> (UeError, [])
      | Some ix \<Rightarrow>
          if ue_dimensions e = 0 then (UeError, [])
          else if dm \<noteq> ue_dimensions e \<or> k = 0 then (UeBadValue, [])
          else usearchSearch api ix q k)"

definition usearchDel ::
  "'ix usearch_api \<Rightarrow> 'ix USearchEmbedIndex \<Rightarrow> 'ix \<Rightarrow> u16 \<Rightarrow> UeStatus \<times> 'ix USearchEmbedIndex" where
  "usearchDel api e ix i =
     (let key = unat i
      in if \<not> us_contains api ix key then (UeNotFound, e)
         else case us_remove api ix key of
                (None, ix') \<Rightarrow> (UeError, e\<lparr>ue_impl := Some ix'\<rparr>)
              | (Some completed, ix') \<Rightarrow>
                  (if completed = 0 then UeNotFound else UeOk, e\<lparr>ue_impl := Some ix'\<rparr>))"

definition USearchEmbedIndex_Del ::
  "'ix usearch_api \<Rightarrow> 'ix USearchEmbedIndex \<Rightarrow> u16 \<Rightarrow> UeStatus \<times> 'ix USearchEmbedIndex" where
  "USearchEmbedIndex_Del api e i =
     (case ue_impl e of
        None \<Rightarrow> (UeError, e)
      | Some ix \<Rightarrow> if ue_dimensions e = 0 then (UeError, e) else usearchDel api e ix i)"

definition USearchEmbedIndex_Save ::
  "'ix usearch_api \<Rightarrow> 'ix USearchEmbedIndex \<Rightarrow> FILE \<Rightarrow> UeStatus \<times> FILE" where
  "USearchEmbedIndex_Save api e f =
     (case ue_impl e of
        None \<Rightarrow> (UeBadValue, f)
      | Some ix \<Rightarrow>
          (case us_save api ix of
             None \<Rightarrow> (UeError, f)
           | Some chunks \<Rightarrow> (case write_all f chunks of
                              (ok, f') \<Rightarrow> (if ok then UeOk else UeError, f'))))"

text \<open>The common tail of the three loaders, on the index they start from.\<close>

definition ue_start :: "'ix usearch_api \<Rightarrow> 'ix USearchEmbedIndex \<Rightarrow> 'ix option" where
  "ue_start api e =
     (case ue_impl e of Some ix \<Rightarrow> Some ix | None \<Rightarrow> us_make api (ue_dimensions e))"

definition ue_loaded ::
  "'ix usearch_api \<Rightarrow> 'ix USearchEmbedIndex \<Rightarrow> 'ix \<Rightarrow> bool \<Rightarrow> 'ix USearchEmbedIndex" where
  "ue_loaded api e ix viewed =
     e\<lparr>ue_impl := Some ix, ue_dimensions := us_dimensions api ix,
       ue_capacity := (if us_capacity api ix = 0 then 1 else us_capacity api ix),
       ue_viewed := viewed\<rparr>"

definition USearchEmbedIndex_Load ::
  "'ix usearch_api \<Rightarrow> 'ix USearchEmbedIndex \<Rightarrow> FILE \<Rightarrow> UeStatus \<times> 'ix USearchEmbedIndex \<times> FILE" where
  "USearchEmbedIndex_Load api e f =
     (if ue_dimensions e = 0 then (UeBadValue, e, f)
      else case ue_start api e of
             None \<Rightarrow> (UeError, e, f)
           | Some ix \<Rightarrow>
               (case us_load api ix (drop (f_pos f) (f_data f)) of
                  None \<Rightarrow> (UeError, e\<lparr>ue_impl := Some ix\<rparr>, f)
                | Some (n, ix') \<Rightarrow> (UeOk, ue_loaded api e ix' False, f\<lparr>f_pos := f_pos f + n\<rparr>)))"

text \<open>
  Loading from a path: \<open>contents\<close> is what the file system has there, None when it cannot be mapped.
\<close>

definition USearchEmbedIndex_LoadMapped ::
  "'ix usearch_api \<Rightarrow> 'ix USearchEmbedIndex \<Rightarrow> bytes \<Rightarrow> bytes option \<Rightarrow> nat
     \<Rightarrow> UeStatus \<times> 'ix USearchEmbedIndex" where
  "USearchEmbedIndex_LoadMapped api e path contents offset =
     (if path = [] \<or> ue_dimensions e = 0 then (UeBadValue, e)
      else case ue_start api e of
             None \<Rightarrow> (UeError, e)
           | Some ix \<Rightarrow>
               (case Option.bind contents (\<lambda>d. us_load api ix (drop offset d)) of
                  None \<Rightarrow> (UeError, e\<lparr>ue_impl := Some ix\<rparr>)
                | Some (_, ix') \<Rightarrow> (UeOk, ue_loaded api e ix' False)))"

definition USearchEmbedIndex_ViewMapped ::
  "'ix usearch_api \<Rightarrow> 'ix USearchEmbedIndex \<Rightarrow> bytes \<Rightarrow> bytes option \<Rightarrow> nat
     \<Rightarrow> UeStatus \<times> 'ix USearchEmbedIndex" where
  "USearchEmbedIndex_ViewMapped api e path contents offset =
     (if path = [] \<or> ue_dimensions e = 0 then (UeBadValue, e)
      else case ue_start api e of
             None \<Rightarrow> (UeError, e)
           | Some ix \<Rightarrow>
               (case Option.bind contents (\<lambda>d. us_view api ix (drop offset d)) of
                  None \<Rightarrow> (UeError, e\<lparr>ue_impl := Some ix\<rparr>)
                | Some (_, ix') \<Rightarrow> (UeOk, ue_loaded api e ix' True)))"

section \<open>Frame facts\<close>

lemma Add_dimensions [simp]:
  "ue_dimensions (snd (USearchEmbedIndex_Add api e i v d)) = ue_dimensions e"
  by (simp add: USearchEmbedIndex_Add_def usearchAdd_def Let_def split: option.split prod.split)

lemma Del_dimensions [simp]:
  "ue_dimensions (snd (USearchEmbedIndex_Del api e i)) = ue_dimensions e"
  by (simp add: USearchEmbedIndex_Del_def usearchDel_def Let_def split: option.split prod.split)

lemma new_dimensions [simp]: "ue_dimensions (USearchEmbedIndex_new api d c) = d"
  by (simp add: USearchEmbedIndex_new_def Let_def split: option.split prod.split)

section \<open>A healthy index\<close>

text \<open>
  What the code relies on where a result depends on usearch succeeding: with memory available,
  reserving and adding never fail, and removing a key that is present succeeds.
\<close>

definition usearch_total :: "'ix usearch_api \<Rightarrow> bool" where
  "usearch_total api \<longleftrightarrow>
     (\<forall>ix n. fst (us_try_reserve api ix n)) \<and> (\<forall>ix k v. fst (us_add api ix k v))
     \<and> (\<forall>ix k. us_contains api ix k \<longrightarrow> fst (us_remove api ix k) \<noteq> None)"

lemma Add_total:
  assumes "usearch_total api" and "ue_impl e = Some ix" and "ue_dimensions e = d" and "d \<noteq> 0"
  shows "fst (USearchEmbedIndex_Add api e i v d) = UeOk"
proof -
  have res: "fst (us_try_reserve api x n)" and add: "fst (us_add api x k w)" for x n k w
    using assms(1) by (simp_all add: usearch_total_def)
  have rem: "us_contains api x k \<longrightarrow> fst (us_remove api x k) \<noteq> None" for x k
    using assms(1) by (simp add: usearch_total_def)
  show ?thesis
    using assms(2-4) res add rem [of ix "unat i"]
    by (cases "us_contains api ix (unat i)")
       (auto simp: USearchEmbedIndex_Add_def usearchAdd_def Let_def case_prod_beta split: option.split)
qed

lemma Add_impl:
  assumes "ue_impl e \<noteq> None"
  shows "ue_impl (snd (USearchEmbedIndex_Add api e i v d)) \<noteq> None"
  using assms
  by (auto simp: USearchEmbedIndex_Add_def usearchAdd_def Let_def split: option.split prod.split)

lemma Del_impl:
  assumes "ue_impl e \<noteq> None"
  shows "ue_impl (snd (USearchEmbedIndex_Del api e i)) \<noteq> None"
  using assms
  by (auto simp: USearchEmbedIndex_Del_def usearchDel_def Let_def split: option.split prod.split)

section \<open>An instance of the parameter\<close>

text \<open>
  A linear-scan index with the behaviour assumed of usearch, for concrete runs: the dimension and the
  entries, distance 0 for equal vectors and 1 otherwise.
\<close>

type_synonym flat_index = "nat \<times> (nat \<times> vec) list"

definition flat_search :: "flat_index \<Rightarrow> vec \<Rightarrow> nat \<Rightarrow> (nat \<times> f32) list option" where
  "flat_search ix q k =
     Some (take k (map (\<lambda>(i, v). (i, F32_fin 0)) (filter (\<lambda>(i, v). v = q) (snd ix))
                  @ map (\<lambda>(i, v). (i, F32_fin 1)) (filter (\<lambda>(i, v). v \<noteq> q) (snd ix))))"

definition flat_save :: "flat_index \<Rightarrow> bytes list option" where
  "flat_save ix =
     Some [le_bytes 8 (fst ix) @ le_bytes 8 (length (snd ix)) @
           concat (map (\<lambda>(i, v). le_bytes 8 i @ concat (map (\<lambda>w. le_bytes 4 (unat w)) v)) (snd ix))]"

definition flat_load :: "flat_index \<Rightarrow> bytes \<Rightarrow> (nat \<times> flat_index) option" where
  "flat_load _ bs =
     (let d = le_nat (take 8 bs); n = le_nat (slice 8 8 bs); used = 16 + n * (8 + 4 * d)
      in if length bs < used then None
         else Some (used, d, map (\<lambda>i. let b = drop (16 + i * (8 + 4 * d)) bs
                                     in (le_nat (take 8 b),
                                         map (\<lambda>j. of_nat (le_nat (slice (8 + 4 * j) 4 b))) [0..<d])) [0..<n]))"

definition flat_api :: "flat_index usearch_api" where
  "flat_api =
     \<lparr>us_make = (\<lambda>d. Some (d, [])), us_try_reserve = (\<lambda>ix n. (True, ix)),
      us_contains = (\<lambda>ix k. k \<in> fst ` set (snd ix)),
      us_remove = (\<lambda>ix k. (Some 1, fst ix, filter (\<lambda>e. fst e \<noteq> k) (snd ix))),
      us_size = (\<lambda>ix. length (snd ix)), us_capacity = (\<lambda>ix. Suc (length (snd ix))),
      us_add = (\<lambda>ix k v. (True, fst ix, (k, v) # snd ix)),
      us_search = flat_search, us_save = flat_save, us_load = flat_load, us_view = flat_load,
      us_dimensions = fst\<rparr>"

lemma flat_api_total: "usearch_total flat_api"
  by (simp add: usearch_total_def flat_api_def)

end
