(* ===== verification/VNodeIndex.thy ===== *)
theory VNodeIndex
  imports VNodeCodec LruOrder UsearchIndex
begin

text \<open>
  The semantic cache \<^verbatim>\<open>VNodeIndex\<close> (src/src/storage/VNodeIndex.cc): node storage, access order and
  embedding index behind \<^verbatim>\<open>Set\<close>, \<^verbatim>\<open>Get\<close>, \<^verbatim>\<open>Del\<close>, the eviction victim, and the dump and load of the
  nodes and of the index. The invariant ties the three parts together.
\<close>

section \<open>Model\<close>

datatype ViStatus = ViOk | ViNotFound | ViBadValue | ViBadVectorSize | ViDimMismatch
  | ViIndexInitFailed | ViIoError | ViError
  | ViLengthError \<comment> \<open>a \<^verbatim>\<open>std::length_error\<close> escapes\<close>

record 'ix VNodeIndex =
  vi_default_capacity :: nat
  vi_max_entries :: nat
  vi_dim :: nat
  vi_storage :: VNodeStorage
  vi_lru :: LruOrder
  vi_index :: "'ix USearchEmbedIndex option"

definition VNodeIndex_new :: "nat \<Rightarrow> nat \<Rightarrow> 'ix VNodeIndex" where
  "VNodeIndex_new default_capacity max_entries =
     \<lparr>vi_default_capacity = (if default_capacity = 0 then 1024 else default_capacity),
      vi_max_entries = max_entries, vi_dim = 0, vi_storage = VNodeStorage_empty,
      vi_lru = LruOrder_empty, vi_index = None\<rparr>"

text \<open>The dimension of a raw \<^verbatim>\<open>float\<close> blob.\<close>

definition ParseFloatBlob :: "bytes \<Rightarrow> nat option" where
  "ParseFloatBlob blob =
     (if blob = [] \<or> length blob mod 4 \<noteq> 0 then None
      else let d = length blob div 4 in if d = 0 then None else Some d)"

definition CopyFloats :: "bytes \<Rightarrow> nat \<Rightarrow> vec" where
  "CopyFloats blob d = map (\<lambda>i. of_nat (le_nat (slice (4 * i) 4 blob))) [0..<d]"

definition RebuildLruFromStorage :: "'ix VNodeIndex \<Rightarrow> 'ix VNodeIndex" where
  "RebuildLruFromStorage v =
     v\<lparr>vi_lru := VNodeStorage_ForEach (vi_storage v) (\<lambda>l i _. (True, LruOrder_Push l i))
                  (LruOrder_Clear (vi_lru v))\<rparr>"

definition EnsureIndex ::
  "'ix usearch_api \<Rightarrow> 'ix VNodeIndex \<Rightarrow> nat \<Rightarrow> ViStatus \<times> 'ix VNodeIndex" where
  "EnsureIndex api v d =
     (case vi_index v of
        Some _ \<Rightarrow> (if d \<noteq> vi_dim v then ViDimMismatch else ViOk, v)
      | None \<Rightarrow>
          let idx = USearchEmbedIndex_new api d (vi_default_capacity v)
          in if fst (USearchEmbedIndex_Search api idx (replicate d 0) d 1) = UeError
             then (ViIndexInitFailed, v)
             else (ViOk, v\<lparr>vi_dim := d, vi_index := Some idx\<rparr>))"

definition NeedsRoomFor :: "'ix VNodeIndex \<Rightarrow> bytes \<Rightarrow> bool" where
  "NeedsRoomFor v user_key =
     (if vi_max_entries v = 0 \<or> user_key = [] then False
      else case VNodeStorage_GetByUserKey (vi_storage v) user_key of
             Inr _ \<Rightarrow> False
           | Inl _ \<Rightarrow> vi_max_entries v \<le> VNodeStorage_size (vi_storage v))"

text \<open>The loop of \<^verbatim>\<open>PeekLruUserKey\<close>, from its counter \<^verbatim>\<open>i\<close> on.\<close>

function peek_from :: "int \<Rightarrow> 'ix VNodeIndex \<Rightarrow> (ViStatus + bytes) \<times> 'ix VNodeIndex" where
  "peek_from i v =
     (if i < 65535
      then case LruOrder_PeekLru (vi_lru v) of
             None \<Rightarrow> (Inl ViNotFound, v)
           | Some vid \<Rightarrow>
               (case VNodeStorage_GetById (vi_storage v) vid of
                  Inr node \<Rightarrow> (Inr (vn_user_key node), v)
                | Inl _ \<Rightarrow>
                    (case LruOrder_PopLru (vi_lru v) of
                       None \<Rightarrow> (Inl ViError, v)
                     | Some (dropped, l) \<Rightarrow>
                         if dropped \<noteq> vid then (Inl ViError, v\<lparr>vi_lru := l\<rparr>)
                         else peek_from (i + 1) (v\<lparr>vi_lru := l\<rparr>)))
      else (Inl ViNotFound, v))"
  by pat_completeness auto
termination by (relation "measure (\<lambda>(i, v). nat (65535 - i))") auto

declare peek_from.simps [simp del]

definition PeekLruUserKey :: "'ix VNodeIndex \<Rightarrow> (ViStatus + bytes) \<times> 'ix VNodeIndex" where
  "PeekLruUserKey v = peek_from 0 v"

definition VNodeIndex_Set ::
  "'ix usearch_api \<Rightarrow> 'ix VNodeIndex \<Rightarrow> bytes \<Rightarrow> bytes \<Rightarrow> bytes \<Rightarrow> bytes
     \<Rightarrow> ViStatus \<times> 'ix VNodeIndex" where
  "VNodeIndex_Set api v vector_blob user_key question answer =
     (if user_key = [] then (ViBadValue, v)
      else case ParseFloatBlob vector_blob of
        None \<Rightarrow> (ViBadVectorSize, v)
      | Some d \<Rightarrow>
          (case EnsureIndex api v d of (est, v1) \<Rightarrow>
             if est \<noteq> ViOk then (est, v1)
             else
               let node = \<lparr>vn_id = 0, vn_user_key = user_key, vn_question = question,
                           vn_answer = answer\<rparr>
               in case VNodeStorage_Put (vi_storage v1) node of
                    (Inl VsFull, s) \<Rightarrow> (ViError, v1\<lparr>vi_storage := s\<rparr>)
                  | (Inl _, s) \<Rightarrow> (ViBadValue, v1\<lparr>vi_storage := s\<rparr>)
                  | (Inr vid, s) \<Rightarrow>
                      (case vi_index v1 of
                         None \<Rightarrow> (ViError, v1\<lparr>vi_storage := s\<rparr>) \<comment> \<open>not reached: EnsureIndex succeeded\<close>
                       | Some e \<Rightarrow>
                           (case USearchEmbedIndex_Add api e vid (CopyFloats vector_blob d) d of
                              (ist, e') \<Rightarrow>
                                if ist \<noteq> UeOk
                                then (ViError,
                                      v1\<lparr>vi_storage := snd (VNodeStorage_DelByUserKey s user_key),
                                         vi_index := Some e',
                                         vi_lru := snd (LruOrder_Erase (vi_lru v1) vid)\<rparr>)
                                else (ViOk, v1\<lparr>vi_storage := s, vi_index := Some e',
                                               vi_lru := LruOrder_Push (vi_lru v1) vid\<rparr>)))))"

definition VNodeIndex_Get ::
  "'ix usearch_api \<Rightarrow> 'ix VNodeIndex \<Rightarrow> bytes \<Rightarrow> f32 \<Rightarrow> (ViStatus + bytes) \<times> 'ix VNodeIndex" where
  "VNodeIndex_Get api v query_blob distance_threshold =
     (case vi_index v of
        None \<Rightarrow> (Inl ViNotFound, v)
      | Some e \<Rightarrow>
          if vi_dim v = 0 then (Inl ViNotFound, v)
          else case ParseFloatBlob query_blob of
            None \<Rightarrow> (Inl ViBadVectorSize, v)
          | Some d \<Rightarrow>
              if d \<noteq> vi_dim v then (Inl ViDimMismatch, v)
              else case USearchEmbedIndex_Search api e (CopyFloats query_blob d) d 1 of
                (UeOk, (vid, score) # _) \<Rightarrow>
                  if f32_gt score distance_threshold then (Inl ViNotFound, v)
                  else (case VNodeStorage_GetById (vi_storage v) vid of
                          Inl _ \<Rightarrow> (Inl ViNotFound, v)
                        | Inr node \<Rightarrow>
                            (Inr (vn_answer node), v\<lparr>vi_lru := LruOrder_Touch (vi_lru v) vid\<rparr>))
              | _ \<Rightarrow> (Inl ViNotFound, v))"

definition VNodeIndex_Del ::
  "'ix usearch_api \<Rightarrow> 'ix VNodeIndex \<Rightarrow> bytes \<Rightarrow> ViStatus \<times> 'ix VNodeIndex" where
  "VNodeIndex_Del api v user_key =
     (if user_key = [] then (ViBadValue, v)
      else case VNodeStorage_GetByUserKey (vi_storage v) user_key of
        Inl _ \<Rightarrow> (ViNotFound, v)
      | Inr node \<Rightarrow>
          let v1 = v\<lparr>vi_lru := snd (LruOrder_Erase (vi_lru v) (vn_id node)),
                     vi_index := map_option (\<lambda>e. snd (USearchEmbedIndex_Del api e (vn_id node)))
                                  (vi_index v)\<rparr>
          in case VNodeStorage_DelByUserKey (vi_storage v1) user_key of
               (st, s) \<Rightarrow> (if st \<noteq> VsOk then ViNotFound else ViOk, v1\<lparr>vi_storage := s\<rparr>))"

definition VNodeIndex_Clear :: "'ix VNodeIndex \<Rightarrow> 'ix VNodeIndex" where
  "VNodeIndex_Clear v =
     v\<lparr>vi_storage := VNodeStorage_Clear (vi_storage v), vi_lru := LruOrder_Clear (vi_lru v),
       vi_index := None, vi_dim := 0\<rparr>"

subsection \<open>Dump and load\<close>

definition dump_node :: "ViStatus \<times> FILE \<Rightarrow> u16 \<Rightarrow> VNode \<Rightarrow> bool \<times> ViStatus \<times> FILE" where
  "dump_node = (\<lambda>(st, f) _ node.
     let bs = Codec_Encode node; len = u32_of (length bs)
     in case write_all f [le_bytes 4 len, take len bs] of
          (ok, f') \<Rightarrow> if ok then (True, (st, f')) else (False, (ViIoError, f')))"

definition DumpNodes :: "'ix VNodeIndex \<Rightarrow> FILE \<Rightarrow> ViStatus \<times> FILE" where
  "DumpNodes v f =
     VNodeStorage_ForEach (vi_storage v) dump_node (ViOk, f)"

text \<open>One decoded node into the storage: the common body of the two loaders.\<close>

definition restore_bytes :: "VNodeStorage \<Rightarrow> bytes \<Rightarrow> ViStatus \<times> VNodeStorage" where
  "restore_bytes s bs =
     (case Codec_Decode bs of
        CodecLengthError \<Rightarrow> (ViLengthError, s)
      | CodecError \<Rightarrow> (ViError, s)
      | CodecOk node \<Rightarrow>
          (case VNodeStorage_Restore s node of
             (st, s') \<Rightarrow> (if st \<noteq> VsOk then ViError else ViOk, s')))"

fun load_nodes_file :: "nat \<Rightarrow> FILE \<Rightarrow> VNodeStorage \<Rightarrow> ViStatus \<times> VNodeStorage \<times> FILE" where
  "load_nodes_file 0 f s = (ViOk, s, f)"
| "load_nodes_file (Suc n) f s =
     (case ReadExact f 4 of
        None \<Rightarrow> (ViIoError, s, f)
      | Some (l, f1) \<Rightarrow>
          (case ReadExact f1 (le_nat l) of
             None \<Rightarrow> (ViIoError, s, f1)
           | Some (bs, f2) \<Rightarrow>
               (case restore_bytes s bs of
                  (ViOk, s') \<Rightarrow> load_nodes_file n f2 s'
                | (st, s') \<Rightarrow> (st, s', f2))))"

definition LoadNodes ::
  "'ix VNodeIndex \<Rightarrow> FILE \<Rightarrow> nat \<Rightarrow> u16 \<Rightarrow> ViStatus \<times> 'ix VNodeIndex \<times> FILE" where
  "LoadNodes v f node_count nid =
     (let v1 = v\<lparr>vi_storage := VNodeStorage_Clear (vi_storage v), vi_lru := LruOrder_Clear (vi_lru v)\<rparr>
      in case load_nodes_file node_count f (vi_storage v1) of
           (st, s, f') \<Rightarrow>
             if st \<noteq> ViOk then (st, v1\<lparr>vi_storage := s\<rparr>, f')
             else (ViOk,
                   RebuildLruFromStorage
                     (v1\<lparr>vi_storage := VNodeStorage_SetNextId s (if nid = 0 then 1 else nid)\<rparr>), f'))"

fun load_nodes_span :: "nat \<Rightarrow> bytes \<Rightarrow> VNodeStorage \<Rightarrow> ViStatus \<times> VNodeStorage \<times> bytes" where
  "load_nodes_span 0 p s = (ViOk, s, p)"
| "load_nodes_span (Suc n) p s =
     (case span_take p 4 of
        None \<Rightarrow> (ViIoError, s, p)
      | Some (l, p1) \<Rightarrow>
          (case span_take p1 (le_nat l) of
             None \<Rightarrow> (ViIoError, s, p1)
           | Some (bs, p2) \<Rightarrow>
               (case restore_bytes s bs of
                  (ViOk, s') \<Rightarrow> load_nodes_span n p2 s'
                | (st, s') \<Rightarrow> (st, s', p2))))"

definition LoadNodesFrom ::
  "'ix VNodeIndex \<Rightarrow> bytes \<Rightarrow> nat \<Rightarrow> u16 \<Rightarrow> ViStatus \<times> 'ix VNodeIndex" where
  "LoadNodesFrom v data node_count nid =
     (let v1 = v\<lparr>vi_storage := VNodeStorage_Clear (vi_storage v), vi_lru := LruOrder_Clear (vi_lru v)\<rparr>
      in case load_nodes_span node_count data (vi_storage v1) of
           (st, s, p) \<Rightarrow>
             if st \<noteq> ViOk then (st, v1\<lparr>vi_storage := s\<rparr>)
             else if p \<noteq> [] then (ViIoError, v1\<lparr>vi_storage := s\<rparr>)
             else (ViOk,
                   RebuildLruFromStorage
                     (v1\<lparr>vi_storage := VNodeStorage_SetNextId s (if nid = 0 then 1 else nid)\<rparr>)))"

definition SaveIndex :: "'ix usearch_api \<Rightarrow> 'ix VNodeIndex \<Rightarrow> FILE \<Rightarrow> ViStatus \<times> FILE" where
  "SaveIndex api v f =
     (case vi_index v of
        None \<Rightarrow> (ViOk, f)
      | Some e \<Rightarrow>
          if vi_dim v = 0 then (ViOk, f)
          else case USearchEmbedIndex_Save api e f of
                 (st, f') \<Rightarrow> (if st = UeOk then ViOk else ViIoError, f'))"

text \<open>Adopting a freshly loaded index.\<close>

definition adopt_index ::
  "'ix VNodeIndex \<Rightarrow> nat \<Rightarrow> UeStatus \<Rightarrow> 'ix USearchEmbedIndex \<Rightarrow> ViStatus \<times> 'ix VNodeIndex" where
  "adopt_index v d st idx =
     (if st \<noteq> UeOk then (ViIoError, v)
      else if ue_dimensions idx \<noteq> d then (ViDimMismatch, v)
      else (ViOk, v\<lparr>vi_dim := d, vi_index := Some idx\<rparr>))"

definition LoadIndex ::
  "'ix usearch_api \<Rightarrow> 'ix VNodeIndex \<Rightarrow> FILE \<Rightarrow> nat \<Rightarrow> ViStatus \<times> 'ix VNodeIndex \<times> FILE" where
  "LoadIndex api v f d =
     (if d = 0 then (ViBadValue, v, f)
      else case USearchEmbedIndex_Load api (USearchEmbedIndex_new api d (vi_default_capacity v)) f of
             (st, idx, f') \<Rightarrow> (case adopt_index v d st idx of (r, v') \<Rightarrow> (r, v', f')))"

definition LoadIndexMapped ::
  "'ix usearch_api \<Rightarrow> 'ix VNodeIndex \<Rightarrow> bytes \<Rightarrow> bytes option \<Rightarrow> nat \<Rightarrow> nat \<Rightarrow> bool
     \<Rightarrow> ViStatus \<times> 'ix VNodeIndex" where
  "LoadIndexMapped api v path contents offset d view =
     (if path = [] \<or> d = 0 then (ViBadValue, v)
      else let idx = USearchEmbedIndex_new api d (vi_default_capacity v)
           in case (if view then USearchEmbedIndex_ViewMapped api idx path contents offset
                    else USearchEmbedIndex_LoadMapped api idx path contents offset) of
                (st, idx') \<Rightarrow> adopt_index v d st idx')"

section \<open>Invariant\<close>

text \<open>
  The index exists exactly when the dimension is locked, and has that dimension; the access order
  holds exactly the ids of the stored nodes.
\<close>

definition index_ok :: "nat \<Rightarrow> 'ix USearchEmbedIndex option \<Rightarrow> bool" where
  "index_ok d idx =
     (case idx of None \<Rightarrow> d = 0 | Some e \<Rightarrow> d \<noteq> 0 \<and> ue_dimensions e = d \<and> ue_impl e \<noteq> None)"

definition live_ids :: "VNodeStorage \<Rightarrow> u16 set" where
  "live_ids s = {i. um_find (by_id s) i \<noteq> None}"

definition vi_wf :: "'ix VNodeIndex \<Rightarrow> bool" where
  "vi_wf v \<longleftrightarrow> st_wf (vi_storage v) \<and> lru_wf (vi_lru v)
     \<and> set (lru_ids (vi_lru v)) = live_ids (vi_storage v) \<and> index_ok (vi_dim v) (vi_index v)"

abbreviation cache_node :: "bytes \<Rightarrow> bytes \<Rightarrow> bytes \<Rightarrow> VNode" where
  "cache_node k q a \<equiv> \<lparr>vn_id = 0, vn_user_key = k, vn_question = q, vn_answer = a\<rparr>"

lemma vi_wf_D:
  assumes "vi_wf v"
  shows "st_wf (vi_storage v)" "st_maps (vi_storage v)" "lru_wf (vi_lru v)"
    "set (lru_ids (vi_lru v)) = live_ids (vi_storage v)" "index_ok (vi_dim v) (vi_index v)"
  using assms by (auto simp: vi_wf_def st_wf_def)

lemma ParseFloatBlob_pos: "ParseFloatBlob b = Some d \<Longrightarrow> d \<noteq> 0 \<and> length b = 4 * d"
  by (auto simp: ParseFloatBlob_def Let_def split: if_splits)

lemma live_ids_empty [simp]: "live_ids VNodeStorage_empty = {}"
  by (simp add: live_ids_def VNodeStorage_empty_def umap_simps)

lemma VNodeIndex_new_wf [simp]: "vi_wf (VNodeIndex_new c m)"
  by (simp add: vi_wf_def VNodeIndex_new_def index_ok_def)

lemma new_index_ok:
  assumes "fst (USearchEmbedIndex_Search api (USearchEmbedIndex_new api d c) q d k) \<noteq> UeError"
  shows "index_ok d (Some (USearchEmbedIndex_new api d c))"
  using assms by (auto simp: index_ok_def USearchEmbedIndex_Search_def split: option.splits if_splits)

lemma EnsureIndex_frame:
  assumes "EnsureIndex api v d = (st, v1)" and "index_ok (vi_dim v) (vi_index v)"
  shows "v1 = v\<lparr>vi_dim := vi_dim v1, vi_index := vi_index v1\<rparr>"
    and "index_ok (vi_dim v1) (vi_index v1)"
    and "st = ViOk \<Longrightarrow> vi_dim v1 = d \<and> vi_index v1 \<noteq> None"
proof -
  from assms show "v1 = v\<lparr>vi_dim := vi_dim v1, vi_index := vi_index v1\<rparr>"
    by (auto simp: EnsureIndex_def Let_def split: option.splits if_splits)
  from assms show "index_ok (vi_dim v1) (vi_index v1)"
    by (auto simp: EnsureIndex_def Let_def new_index_ok split: option.splits if_splits)
  from assms show "st = ViOk \<Longrightarrow> vi_dim v1 = d \<and> vi_index v1 \<noteq> None"
    by (auto simp: EnsureIndex_def Let_def split: option.splits if_splits)
qed

lemma index_ok_Add:
  "index_ok d (Some e) \<Longrightarrow> index_ok d (Some (snd (USearchEmbedIndex_Add api e i x n)))"
  using Add_impl [of e api i x n] by (simp add: index_ok_def)

lemma index_ok_Del:
  "index_ok d idx \<Longrightarrow> index_ok d (map_option (\<lambda>e. snd (USearchEmbedIndex_Del api e i)) idx)"
  using Del_impl [of _ api i] by (auto simp: index_ok_def split: option.splits)

text \<open>The three ways a \<^verbatim>\<open>Set\<close> can end.\<close>

lemma Set_cases [consumes 2, case_names Rejected AddFailed Stored]:
  assumes set: "VNodeIndex_Set api v b k q a = (st, v')" and ix: "index_ok (vi_dim v) (vi_index v)"
  obtains "st \<noteq> ViOk" "vi_storage v' = vi_storage v" "vi_lru v' = vi_lru v"
      "index_ok (vi_dim v') (vi_index v')" "vi_max_entries v' = vi_max_entries v"
    | i s where "st = ViError" "VNodeStorage_Put (vi_storage v) (cache_node k q a) = (Inr i, s)"
      "vi_storage v' = snd (VNodeStorage_DelByUserKey s k)"
      "vi_lru v' = snd (LruOrder_Erase (vi_lru v) i)"
      "index_ok (vi_dim v') (vi_index v')" "vi_max_entries v' = vi_max_entries v"
    | i s where "st = ViOk" "VNodeStorage_Put (vi_storage v) (cache_node k q a) = (Inr i, s)"
      "vi_storage v' = s" "vi_lru v' = LruOrder_Push (vi_lru v) i"
      "index_ok (vi_dim v') (vi_index v')" "vi_max_entries v' = vi_max_entries v"
proof (cases "k = [] \<or> ParseFloatBlob b = None")
  case True
  with set ix show ?thesis by (intro that(1)) (auto simp: VNodeIndex_Set_def split: if_splits)
next
  case False
  then obtain d where k: "k \<noteq> []" and d: "ParseFloatBlob b = Some d" by auto
  obtain est v1 where ens: "EnsureIndex api v d = (est, v1)" by (cases "EnsureIndex api v d")
  note fr = EnsureIndex_frame [OF ens ix]
  have same: "vi_storage v1 = vi_storage v" "vi_lru v1 = vi_lru v" "vi_max_entries v1 = vi_max_entries v"
    by (subst fr(1), simp)+
  show ?thesis
  proof (cases "est = ViOk")
    case False
    with set k d ens same fr(2) show ?thesis by (intro that(1)) (auto simp: VNodeIndex_Set_def)
  next
    case True
    then obtain e where e: "vi_index v1 = Some e" "vi_dim v1 = d" using fr(3) by auto
    obtain r s where put: "VNodeStorage_Put (vi_storage v) (cache_node k q a) = (r, s)"
      by (cases "VNodeStorage_Put (vi_storage v) (cache_node k q a)")
    show ?thesis
    proof (cases r)
      case (Inl err)
      with put have "s = vi_storage v" by (auto dest: Put_error_same)
      with set k d ens True same put Inl fr(2) show ?thesis
        by (intro that(1)) (auto simp: VNodeIndex_Set_def split: VsStatus.splits)
    next
      case (Inr i)
      obtain ist e' where add: "USearchEmbedIndex_Add api e i (CopyFloats b d) d = (ist, e')"
        by (cases "USearchEmbedIndex_Add api e i (CopyFloats b d) d")
      have ok: "index_ok d (Some e')"
        using index_ok_Add [of d e api i "CopyFloats b d" d] fr(2) e add by simp
      have res: "(st, v') =
          (if ist \<noteq> UeOk
           then (ViError, v1\<lparr>vi_storage := snd (VNodeStorage_DelByUserKey s k), vi_index := Some e',
                             vi_lru := snd (LruOrder_Erase (vi_lru v1) i)\<rparr>)
           else (ViOk, v1\<lparr>vi_storage := s, vi_index := Some e', vi_lru := LruOrder_Push (vi_lru v1) i\<rparr>))"
        using set k d ens True put Inr e same add by (simp add: VNodeIndex_Set_def)
      show ?thesis
      proof (cases "ist = UeOk")
        case True
        with res put Inr same ok e show ?thesis by (intro that(3) [of i s]) auto
      next
        case False
        with res put Inr same ok e show ?thesis by (intro that(2) [of i s]) auto
      qed
    qed
  qed
qed

lemma Put_live: "st_wf s \<Longrightarrow> VNodeStorage_Put s node = (Inr i, s') \<Longrightarrow> live_ids s' = insert i (live_ids s)"
  by (auto simp: live_ids_def Put_find(1))

lemma Del_live:
  assumes "VNodeStorage_DelByUserKey s k = (VsOk, s')" and "um_find (by_user_key s) k = Some i"
  shows "live_ids s' = live_ids s - {i}"
proof -
  from assms(1) obtain j where "um_find (by_user_key s) k = Some j"
    "um_find (by_id s') = (um_find (by_id s))(j := None)"
    by (rule Del_find)
  with assms(2) show ?thesis by (auto simp: live_ids_def)
qed

lemma Del_ok: "um_find (by_user_key s) k = Some i \<Longrightarrow> fst (VNodeStorage_DelByUserKey s k) = VsOk"
  by (simp add: VNodeStorage_DelByUserKey_def)

lemma VNodeIndex_Set_wf [wf_intros]:
  assumes wf: "vi_wf v" and set: "VNodeIndex_Set api v b k q a = (st, v')"
  shows "vi_wf v'"
proof -
  note d = vi_wf_D [OF wf]
  from set d(5) show ?thesis
  proof (cases rule: Set_cases)
    case Rejected
    with d show ?thesis by (simp add: vi_wf_def)
  next
    case (AddFailed i s)
    have k: "um_find (by_user_key s) k = Some i" using Put_find(2) [OF d(1) AddFailed(2)] by simp
    obtain s2 where del: "VNodeStorage_DelByUserKey s k = (VsOk, s2)"
      using Del_ok [OF k] by (cases "VNodeStorage_DelByUserKey s k") auto
    have "st_wf s2" using Put_wf [OF d(1) AddFailed(2)] del by (rule Del_wf)
    moreover have "live_ids s2 = live_ids (vi_storage v) - {i}"
      using Del_live [OF del k] Put_live [OF d(1) AddFailed(2)] by auto
    ultimately show ?thesis
      using AddFailed d del by (simp add: vi_wf_def Erase_wf lru.erase_set)
  next
    case (Stored i s)
    then show ?thesis
      using d Put_wf [OF d(1) Stored(2)] Put_live [OF d(1) Stored(2)]
      by (simp add: vi_wf_def Push_wf lru.push_set)
  qed
qed

lemma Get_cases [consumes 1, case_names Miss Hit]:
  assumes "VNodeIndex_Get api v b t = (r, v')"
  obtains e where "r = Inl e" "v' = v"
    | i n where "r = Inr (vn_answer n)" "um_find (by_id (vi_storage v)) i = Some n"
      "v' = v\<lparr>vi_lru := LruOrder_Touch (vi_lru v) i\<rparr>"
proof (cases "\<exists>e. r = Inl e")
  case True
  then obtain e where "r = Inl e" ..
  with assms show ?thesis
    by (intro that(1) [of e])
       (auto simp: VNodeIndex_Get_def
             split: option.splits if_splits prod.splits UeStatus.splits list.splits sum.splits)
next
  case False
  with assms show ?thesis
    by (auto simp: VNodeIndex_Get_def VNodeStorage_GetById_def intro: that(2)
             split: option.splits if_splits prod.splits UeStatus.splits list.splits sum.splits)
qed

lemma VNodeIndex_Get_wf [wf_intros]:
  assumes "vi_wf v" and "VNodeIndex_Get api v b t = (r, v')"
  shows "vi_wf v'"
  using assms(2,1)
  by (cases rule: Get_cases) (simp_all add: vi_wf_def Touch_wf lru.touch_keeps_set)

text \<open>\<^verbatim>\<open>Del\<close> on a consistent cache: found or not, and nothing in between.\<close>

lemma Del_cases [consumes 2, case_names Same Deleted]:
  assumes del: "VNodeIndex_Del api v k = (st, v')" and maps: "st_maps (vi_storage v)"
  obtains "st = (if k = [] then ViBadValue else ViNotFound)" "v' = v"
      "um_find (by_user_key (vi_storage v)) k = None"
    | i where "st = ViOk" "um_find (by_user_key (vi_storage v)) k = Some i" "k \<noteq> []"
      "VNodeStorage_DelByUserKey (vi_storage v) k = (VsOk, vi_storage v')"
      "v' = v\<lparr>vi_lru := snd (LruOrder_Erase (vi_lru v) i),
              vi_index := map_option (\<lambda>e. snd (USearchEmbedIndex_Del api e i)) (vi_index v),
              vi_storage := vi_storage v'\<rparr>"
proof (cases "um_find (by_user_key (vi_storage v)) k")
  case None
  with del show ?thesis
    by (intro that(1)) (auto simp: VNodeIndex_Del_def VNodeStorage_GetByUserKey_def split: if_splits)
next
  case (Some i)
  then obtain n where n: "um_find (by_id (vi_storage v)) i = Some n" "vn_id n = i"
    using maps by (auto elim: st_maps_key)
  have k: "k \<noteq> []" using st_no_empty_key [OF maps] Some by auto
  obtain s where s: "VNodeStorage_DelByUserKey (vi_storage v) k = (VsOk, s)"
    using Del_ok [OF Some] by (cases "VNodeStorage_DelByUserKey (vi_storage v) k") auto
  show ?thesis
    using del k n s Some
    by (intro that(2) [of i]) (auto simp: VNodeIndex_Del_def VNodeStorage_GetByUserKey_def
          VNodeStorage_GetById_def Let_def)
qed

lemma VNodeIndex_Del_wf [wf_intros]:
  assumes wf: "vi_wf v" and del: "VNodeIndex_Del api v k = (st, v')"
  shows "vi_wf v'"
proof -
  note d = vi_wf_D [OF wf]
  from del d(2) show ?thesis
  proof (cases rule: Del_cases)
    case Same
    with wf show ?thesis by simp
  next
    case (Deleted i)
    have "vi_lru v' = snd (LruOrder_Erase (vi_lru v) i)" "vi_dim v' = vi_dim v"
      "vi_index v' = map_option (\<lambda>e. snd (USearchEmbedIndex_Del api e i)) (vi_index v)"
      by (subst Deleted(5), simp)+
    then show ?thesis
      using d Del_wf [OF d(1) Deleted(4)] Del_live [OF Deleted(4,2)]
      by (simp add: vi_wf_def Erase_wf lru.erase_set index_ok_Del)
  qed
qed

lemma VNodeIndex_Clear_wf [wf_intros]: "vi_wf (VNodeIndex_Clear v)"
  by (simp add: vi_wf_def VNodeIndex_Clear_def index_ok_def LruOrder.Clear_wf)

section \<open>The cache as a map from user keys\<close>

definition vi_view :: "'ix VNodeIndex \<Rightarrow> bytes \<Rightarrow> (bytes \<times> bytes) option" where
  "vi_view v k =
     (case VNodeStorage_GetByUserKey (vi_storage v) k of
        Inl _ \<Rightarrow> None
      | Inr n \<Rightarrow> Some (vn_question n, vn_answer n))"

lemma vi_view_new [simp]: "vi_view (VNodeIndex_new c m) k = None"
  by (simp add: vi_view_def VNodeIndex_new_def VNodeStorage_empty_def VNodeStorage_GetByUserKey_def
                umap_simps)

lemma vi_view_None:
  "st_maps (vi_storage v) \<Longrightarrow> vi_view v k = None \<longleftrightarrow> um_find (by_user_key (vi_storage v)) k = None"
  using GetByUserKey_none [of "vi_storage v" k] by (auto simp: vi_view_def split: sum.split)

lemma Set_view:
  assumes wf: "vi_wf v" and set: "VNodeIndex_Set api v b k q a = (st, v')"
  shows "vi_view v' =
     (if st = ViOk then (vi_view v)(k \<mapsto> (q, a))
      else if vi_storage v' = vi_storage v then vi_view v
      else (vi_view v)(k := None))"
proof -
  note d = vi_wf_D [OF wf]
  from set d(5) show ?thesis
  proof (cases rule: Set_cases)
    case Rejected
    then show ?thesis by (simp add: vi_view_def fun_eq_iff)
  next
    case (AddFailed i s)
    have k: "um_find (by_user_key s) k = Some i" using Put_find(2) [OF d(1) AddFailed(2)] by simp
    obtain s2 where del: "VNodeStorage_DelByUserKey s k = (VsOk, s2)"
      using Del_ok [OF k] by (cases "VNodeStorage_DelByUserKey s k") auto
    have "vi_view v' = (vi_view v)(k := None)"
      using Del_get [OF Put_wf [OF d(1) AddFailed(2)] del] Put_get [OF d(1) AddFailed(2)] AddFailed(3) del
      by (simp add: vi_view_def fun_eq_iff)
    moreover have "(vi_view v)(k := None) = vi_view v" if "vi_storage v' = vi_storage v"
      using that calculation by (simp add: vi_view_def fun_eq_iff)
    ultimately show ?thesis using AddFailed(1) by simp
  next
    case (Stored i s)
    then show ?thesis
      using Put_get [OF d(1) Stored(2)] by (simp add: vi_view_def fun_eq_iff)
  qed
qed

lemma Del_view:
  assumes wf: "vi_wf v" and del: "VNodeIndex_Del api v k = (st, v')"
  shows "vi_view v' = (vi_view v)(k := None)"
    and "st = (if k = [] then ViBadValue else if vi_view v k = None then ViNotFound else ViOk)"
proof -
  note d = vi_wf_D [OF wf]
  from del d(2) have "vi_view v' = (vi_view v)(k := None) \<and>
    st = (if k = [] then ViBadValue else if vi_view v k = None then ViNotFound else ViOk)"
  proof (cases rule: Del_cases)
    case Same
    then show ?thesis using vi_view_None [OF d(2), of k] by auto
  next
    case (Deleted i)
    then show ?thesis
      using Del_get [OF d(1) Deleted(4)] vi_view_None [OF d(2), of k]
      by (simp add: vi_view_def fun_eq_iff)
  qed
  then show "vi_view v' = (vi_view v)(k := None)"
    and "st = (if k = [] then ViBadValue else if vi_view v k = None then ViNotFound else ViOk)"
    by blast+
qed

text \<open>A hit returns a stored answer and leaves the stored nodes alone.\<close>

lemma Get_view:
  assumes wf: "vi_wf v" and get: "VNodeIndex_Get api v b t = (r, v')"
  shows "vi_view v' = vi_view v"
    and "r = Inr ans \<Longrightarrow> \<exists>k q. vi_view v k = Some (q, ans)"
proof -
  note d = vi_wf_D [OF wf]
  from get have "vi_view v' = vi_view v \<and> (r = Inr ans \<longrightarrow> (\<exists>k q. vi_view v k = Some (q, ans)))"
  proof (cases rule: Get_cases)
    case (Miss e)
    then show ?thesis by simp
  next
    case (Hit i n)
    then have "VNodeStorage_GetByUserKey (vi_storage v) (vn_user_key n) = Inr n"
      using st_maps_id [OF d(2) Hit(2)] by (simp add: GetByUserKey_iff [OF d(2)])
    then have "vi_view v (vn_user_key n) = Some (vn_question n, vn_answer n)"
      by (simp add: vi_view_def)
    with Hit show ?thesis by (auto simp: vi_view_def fun_eq_iff)
  qed
  then show "vi_view v' = vi_view v"
    and "r = Inr ans \<Longrightarrow> \<exists>k q. vi_view v k = Some (q, ans)"
    by blast+
qed

section \<open>The eviction victim\<close>

text \<open>On a consistent cache no id is stale: the victim is the head of the access order.\<close>

lemma PeekLruUserKey_wf:
  assumes wf: "vi_wf v"
  shows "PeekLruUserKey v =
     (case lru_ids (vi_lru v) of
        [] \<Rightarrow> (Inl ViNotFound, v)
      | i # _ \<Rightarrow> (Inr (vn_user_key (the (um_find (by_id (vi_storage v)) i))), v))"
proof (cases "lru_ids (vi_lru v)")
  case Nil
  then show ?thesis by (simp add: PeekLruUserKey_def peek_from.simps PeekLru_ids)
next
  case (Cons i js)
  then have "i \<in> live_ids (vi_storage v)" using vi_wf_D(4) [OF wf] by auto
  then obtain n where "um_find (by_id (vi_storage v)) i = Some n" by (auto simp: live_ids_def)
  with Cons show ?thesis
    by (simp add: PeekLruUserKey_def peek_from.simps PeekLru_ids VNodeStorage_GetById_def)
qed

lemma live_ids_size:
  assumes "um_wf (by_id s)"
  shows "VNodeStorage_size s = card (live_ids s)"
proof -
  have "live_ids s = fst ` set (by_id s)"
    unfolding live_ids_def um_find_None_iff by simp
  then show ?thesis
    using distinct_card [of "map fst (by_id s)"] assms by (simp add: VNodeStorage_size_def um_wf_def)
qed

lemma PeekLruUserKey_nonempty:
  assumes wf: "vi_wf v" and "VNodeStorage_size (vi_storage v) \<noteq> 0"
  obtains k where "PeekLruUserKey v = (Inr k, v)" "vi_view v k \<noteq> None" "k \<noteq> []"
proof -
  note d = vi_wf_D [OF wf]
  have "live_ids (vi_storage v) \<noteq> {}"
    using assms(2) live_ids_size [OF st_maps_uwf(1) [OF d(2)]] by auto
  with d(4) obtain i js where ids: "lru_ids (vi_lru v) = i # js" by (cases "lru_ids (vi_lru v)") auto
  with d(4) obtain n where n: "um_find (by_id (vi_storage v)) i = Some n" by (auto simp: live_ids_def)
  have "um_find (by_user_key (vi_storage v)) (vn_user_key n) = Some i" "vn_user_key n \<noteq> []"
    using st_maps_id [OF d(2) n] by auto
  with ids n that [of "vn_user_key n"] show ?thesis
    by (simp add: PeekLruUserKey_wf [OF wf] vi_view_None [OF d(2)])
qed

lemma Del_shrinks:
  assumes "vi_wf v" and "VNodeIndex_Del api v k = (ViOk, v')"
  shows "VNodeStorage_size (vi_storage v) = Suc (VNodeStorage_size (vi_storage v'))"
  using assms(2) vi_wf_D(2) [OF assms(1)]
proof (cases rule: Del_cases)
  case Same
  then show ?thesis by (simp split: if_splits)
next
  case (Deleted i)
  from Del_size [OF vi_wf_D(1) [OF assms(1)] Deleted(4)] show ?thesis .
qed

lemma NeedsRoomFor_iff:
  assumes "st_maps (vi_storage v)"
  shows "NeedsRoomFor v k \<longleftrightarrow> vi_max_entries v \<noteq> 0 \<and> k \<noteq> [] \<and> vi_view v k = None
     \<and> vi_max_entries v \<le> VNodeStorage_size (vi_storage v)"
  by (auto simp: NeedsRoomFor_def vi_view_def split: sum.split)

section \<open>Nodes on disk\<close>

definition node_image :: "VNode \<Rightarrow> bytes" where
  "node_image n = le_bytes 4 (length (Codec_Encode n)) @ Codec_Encode n"

definition nodes_image :: "VNodeStorage \<Rightarrow> bytes" where
  "nodes_image s = concat (map (node_image \<circ> snd) (by_id s))"

definition nodes_fit :: "VNodeStorage \<Rightarrow> bool" where
  "nodes_fit s \<longleftrightarrow> (\<forall>n \<in> snd ` set (by_id s). node_fits n \<and> length (Codec_Encode n) < 2 ^ 32)"

lemma foreach_dump:
  fixes es :: "(u16 \<times> VNode) list"
  assumes "\<forall>n \<in> snd ` set es. length (Codec_Encode n) < 2 ^ 32"
    and "f_pos f = length (f_data f)" and "length (concat (map (node_image \<circ> snd) es)) \<le> f_room f"
  shows "foreach_entries dump_node es (ViOk, f) = (ViOk, f_store f (concat (map (node_image \<circ> snd) es)))"
  using assms
proof (induction es arbitrary: f)
  case Nil
  then show ?case by (simp add: f_store_Nil)
next
  case (Cons e es)
  obtain i n where e: "e = (i, n)" by (cases e)
  let ?bs = "Codec_Encode n"
  have len: "u32_of (length ?bs) = length ?bs" using Cons.prems(1) by (simp add: e u32_of_def)
  have w: "write_all f [le_bytes 4 (length ?bs), ?bs] = (True, f_store f (node_image n))"
    using write_all_room [OF Cons.prems(2), of "[le_bytes 4 (length ?bs), ?bs]"] Cons.prems(3)
    by (simp add: e node_image_def)
  have "foreach_entries dump_node es (ViOk, f_store f (node_image n)) =
      (ViOk, f_store (f_store f (node_image n)) (concat (map (node_image \<circ> snd) es)))"
    using Cons.prems by (intro Cons.IH) (auto simp: e f_store_end)
  with w len Cons.prems(2) show ?case
    by (simp add: e dump_node_def f_store_append Let_def comp_def del: write_all.simps)
qed

lemma DumpNodes_room:
  assumes "nodes_fit (vi_storage v)" and "f_pos f = length (f_data f)"
    and "length (nodes_image (vi_storage v)) \<le> f_room f"
  shows "DumpNodes v f = (ViOk, f_store f (nodes_image (vi_storage v)))"
  unfolding DumpNodes_def VNodeStorage_ForEach_def nodes_image_def
  using assms by (intro foreach_dump) (auto simp: nodes_fit_def nodes_image_def)

text \<open>The storage after restoring a list of nodes with new ids and keys.\<close>

definition with_nodes :: "VNodeStorage \<Rightarrow> (u16 \<times> VNode) list \<Rightarrow> VNodeStorage" where
  "with_nodes s es =
     s\<lparr>by_id := by_id s @ es, by_user_key := by_user_key s @ map (\<lambda>(i, n). (vn_user_key n, i)) es\<rparr>"

lemma with_nodes_Nil [simp]: "with_nodes s [] = s"
  by (simp add: with_nodes_def)

lemma with_nodes_Cons: "with_nodes s (e # es) = with_nodes (with_nodes s [e]) es"
  by (simp add: with_nodes_def)

lemma restore_new:
  assumes "node_fits n" "vn_user_key n \<noteq> []" "vn_id n \<noteq> 0"
    and "um_wf (by_id s @ [(vn_id n, n)])" "um_wf (by_user_key s @ [(vn_user_key n, vn_id n)])"
  shows "restore_bytes s (Codec_Encode n) = (ViOk, with_nodes s [(vn_id n, n)])"
proof -
  have "vn_id n \<notin> fst ` set (by_id s)" "vn_user_key n \<notin> fst ` set (by_user_key s)"
    using assms(4,5) by (auto simp: um_wf_def)
  then have "um_find (by_id s) (vn_id n) = None" "um_find (by_user_key s) (vn_user_key n) = None"
    by (simp_all add: um_find_None_iff)
  with assms(1-3) show ?thesis
    by (simp add: restore_bytes_def Codec_roundtrip VNodeStorage_Restore_def with_nodes_def
                  um_emplace_def)
qed

lemma load_nodes_span_image:
  assumes "\<forall>(i, n) \<in> set es. node_fits n \<and> length (Codec_Encode n) < 2 ^ 32
       \<and> vn_user_key n \<noteq> [] \<and> vn_id n = i \<and> i \<noteq> 0"
    and "um_wf (by_id (with_nodes s es))" and "um_wf (by_user_key (with_nodes s es))"
  shows "load_nodes_span (length es) (concat (map (node_image \<circ> snd) es) @ rest) s =
           (ViOk, with_nodes s es, rest)"
  using assms
proof (induction es arbitrary: s)
  case (Cons e es)
  obtain i n where e: "e = (i, n)" by (cases e)
  have n: "node_fits n" "length (Codec_Encode n) < 2 ^ 32" "vn_user_key n \<noteq> []" "vn_id n = i" "i \<noteq> 0"
    using Cons.prems(1) by (auto simp: e)
  have le: "le_nat (le_bytes 4 (length (Codec_Encode n))) = length (Codec_Encode n)"
    using n(2) by simp
  have "restore_bytes s (Codec_Encode n) = (ViOk, with_nodes s [e])"
    using restore_new [of n s] n Cons.prems(2,3) by (auto simp: e with_nodes_def um_wf_def)
  moreover have "load_nodes_span (length es) (concat (map (node_image \<circ> snd) es) @ rest) (with_nodes s [e])
      = (ViOk, with_nodes (with_nodes s [e]) es, rest)"
    using Cons.prems unfolding with_nodes_Cons [of s e es] by (intro Cons.IH) auto
  ultimately have "load_nodes_span (Suc (length es))
      (node_image n @ concat (map (node_image \<circ> snd) es) @ rest) s = (ViOk, with_nodes s (e # es), rest)"
    unfolding with_nodes_Cons [of s e es] using le by (simp add: node_image_def)
  then show ?case by (simp add: e comp_def)
qed simp

lemma foreach_push:
  "foreach_entries (\<lambda>l i _. (True, LruOrder_Push l i)) es l = foldl LruOrder_Push l (map fst es)"
  by (induction es arbitrary: l) auto

lemma RebuildLru_ids:
  assumes "um_wf (by_id (vi_storage v))"
  shows "lru_wf (vi_lru (RebuildLruFromStorage v))"
    and "lru_ids (vi_lru (RebuildLruFromStorage v)) = map fst (by_id (vi_storage v))"
proof -
  have wf: "lru_wf (LruOrder_Clear (vi_lru v))" by (rule LruOrder.Clear_wf)
  have eq: "vi_lru (RebuildLruFromStorage v) =
      foldl LruOrder_Push (LruOrder_Clear (vi_lru v)) (map fst (by_id (vi_storage v)))"
    by (simp add: RebuildLruFromStorage_def VNodeStorage_ForEach_def foreach_push)
  show "lru_wf (vi_lru (RebuildLruFromStorage v))"
    unfolding eq by (rule lru.push_all_inv [OF wf])
  show "lru_ids (vi_lru (RebuildLruFromStorage v)) = map fst (by_id (vi_storage v))"
    unfolding eq lru.push_all_ids [OF wf] using assms by (simp add: um_wf_def remdups_id_iff_distinct)
qed

text \<open>The secondary index rebuilt from the nodes has the same entries.\<close>

lemma by_user_key_rebuilt:
  assumes "st_maps s"
  defines "ks \<equiv> map (\<lambda>(i, n). (vn_user_key n, i)) (by_id s)"
  shows "um_wf ks" and "um_find ks = um_find (by_user_key s)"
proof -
  note uwf = st_maps_uwf [OF assms(1)]
  have mem: "(i, n) \<in> set (by_id s) \<longleftrightarrow> um_find (by_id s) i = Some n" for i n
    using um_find_mem [OF uwf(1)] by blast
  have inj: "inj_on (\<lambda>(i, n). vn_user_key n) (set (by_id s))"
  proof (rule inj_onI)
    fix x y assume "x \<in> set (by_id s)" "y \<in> set (by_id s)"
      and "(\<lambda>(i, n). vn_user_key n) x = (\<lambda>(i, n). vn_user_key n) y"
    moreover obtain i n where "x = (i, n)" by (cases x)
    moreover obtain j m where "y = (j, m)" by (cases y)
    ultimately have x: "x = (i, n)" "um_find (by_id s) i = Some n"
      and y: "y = (j, m)" "um_find (by_id s) j = Some m" and k: "vn_user_key n = vn_user_key m"
      by (simp_all add: mem)
    from x y k have "i = j"
      using st_maps_id [OF assms(1) x(2)] st_maps_id [OF assms(1) y(2)] by simp
    with x y show "x = y" by simp
  qed
  have "distinct (by_id s)" using uwf(1) by (simp add: um_wf_def distinct_map)
  with inj show wf: "um_wf ks"
    by (simp add: ks_def um_wf_def comp_def case_prod_beta' distinct_map)
  have "um_find ks k = Some i \<longleftrightarrow> um_find (by_user_key s) k = Some i" for k i
  proof -
    have "um_find ks k = Some i \<longleftrightarrow> (k, i) \<in> set ks" by (rule um_find_mem [OF wf])
    also have "\<dots> \<longleftrightarrow> (\<exists>n. um_find (by_id s) i = Some n \<and> vn_user_key n = k)"
      unfolding mem [symmetric] ks_def by force
    finally show ?thesis using st_maps_iff [OF assms(1)] by simp
  qed
  then show "um_find ks = um_find (by_user_key s)"
    by (intro ext) (metis not_None_eq)
qed

lemma load_nodes_image:
  assumes "st_maps s" and "nodes_fit s"
  shows "load_nodes_span (VNodeStorage_size s) (nodes_image s) VNodeStorage_empty =
           (ViOk, with_nodes VNodeStorage_empty (by_id s), [])"
proof -
  have "\<forall>(i, n) \<in> set (by_id s). node_fits n \<and> length (Codec_Encode n) < 2 ^ 32
      \<and> vn_user_key n \<noteq> [] \<and> vn_id n = i \<and> i \<noteq> 0"
  proof clarify
    fix i n assume "(i, n) \<in> set (by_id s)"
    moreover from this have "um_find (by_id s) i = Some n"
      using um_find_mem [OF st_maps_uwf(1) [OF assms(1)]] by blast
    ultimately show "node_fits n \<and> length (Codec_Encode n) < 2 ^ 32
        \<and> vn_user_key n \<noteq> [] \<and> vn_id n = i \<and> i \<noteq> 0"
      using st_maps_id [OF assms(1)] assms(2) unfolding nodes_fit_def by (metis imageI snd_conv)
  qed
  moreover have "um_wf (by_id (with_nodes VNodeStorage_empty (by_id s)))"
    using st_maps_uwf(1) [OF assms(1)] by (simp add: with_nodes_def VNodeStorage_empty_def)
  moreover have "um_wf (by_user_key (with_nodes VNodeStorage_empty (by_id s)))"
    using by_user_key_rebuilt(1) [OF assms(1)] by (simp add: with_nodes_def VNodeStorage_empty_def)
  ultimately show ?thesis
    using load_nodes_span_image [of "by_id s" VNodeStorage_empty "[]"]
    by (simp add: nodes_image_def VNodeStorage_size_def)
qed

text \<open>The cache as loaded from a node image: same nodes, same lookups, a rebuilt access order.\<close>

lemma LoadNodesFrom_image:
  assumes wf: "st_wf s" and fit: "nodes_fit s" and nid: "next_id s \<noteq> 0"
    and ix: "index_ok (vi_dim v) (vi_index v)"
    and load: "LoadNodesFrom v (nodes_image s) (VNodeStorage_size s) (next_id s) = (st, v')"
  shows "st = ViOk" and "by_id (vi_storage v') = by_id s"
    and "um_find (by_user_key (vi_storage v')) = um_find (by_user_key s)"
    and "next_id (vi_storage v') = next_id s"
    and "lru_ids (vi_lru v') = map fst (by_id s)" and "vi_wf v'"
    and "vi_index v' = vi_index v" and "vi_dim v' = vi_dim v"
proof -
  have maps: "st_maps s" using wf by (simp add: st_wf_def)
  let ?s = "VNodeStorage_SetNextId (with_nodes VNodeStorage_empty (by_id s)) (next_id s)"
  let ?v = "v\<lparr>vi_lru := LruOrder_Clear (vi_lru v), vi_storage := ?s\<rparr>"
  from load have st: "st = ViOk" and v': "v' = RebuildLruFromStorage ?v"
    using nid by (auto simp: LoadNodesFrom_def load_nodes_image [OF maps fit])
  have sto: "vi_storage v' = ?s" "vi_dim v' = vi_dim v" "vi_index v' = vi_index v"
    by (simp_all add: v' RebuildLruFromStorage_def)
  have ids: "by_id ?s = by_id s" "next_id ?s = next_id s"
    "by_user_key ?s = map (\<lambda>(i, n). (vn_user_key n, i)) (by_id s)"
    by (simp_all add: VNodeStorage_SetNextId_def with_nodes_def VNodeStorage_empty_def)
  note uk = by_user_key_rebuilt [OF maps, folded ids(3)]
  have "st_wf ?s"
    using wf uk by (simp add: st_wf_def st_maps_def st_fresh_def ids(1,2))
  moreover have l: "lru_wf (vi_lru v')" "lru_ids (vi_lru v') = map fst (by_id s)"
    using RebuildLru_ids [of ?v] st_maps_uwf(1) [OF maps] ids(1) by (simp_all add: v')
  moreover have "live_ids ?s = set (map fst (by_id s))"
    unfolding live_ids_def um_find_None_iff ids(1) by simp
  ultimately show "vi_wf v'" using ix by (simp add: vi_wf_def sto)
  show "st = ViOk" "by_id (vi_storage v') = by_id s" "next_id (vi_storage v') = next_id s"
    "um_find (by_user_key (vi_storage v')) = um_find (by_user_key s)"
    "lru_ids (vi_lru v') = map fst (by_id s)" "vi_index v' = vi_index v" "vi_dim v' = vi_dim v"
    using st uk l by (simp_all add: sto ids)
qed

text \<open>The stdio loader and the span loader agree; the span loader also rejects trailing bytes.\<close>

lemma load_nodes_span_rest: "load_nodes_span n p s = (st, s', q) \<Longrightarrow> length q \<le> length p"
proof (induction n arbitrary: p s)
  case (Suc n)
  show ?case
  proof (cases "span_take p 4")
    case None
    with Suc.prems show ?thesis by simp
  next
    case (Some a)
    obtain l p1 where a: "a = (l, p1)" by (cases a)
    show ?thesis
    proof (cases "span_take p1 (le_nat l)")
      case None
      with Suc.prems Some a show ?thesis by (simp add: span_take_Some)
    next
      case (Some b)
      obtain bs p2 where b: "b = (bs, p2)" by (cases b)
      have len: "length p2 \<le> length p"
        using \<open>span_take p 4 = Some a\<close> Some by (simp add: a b span_take_Some)
      with Suc.prems \<open>span_take p 4 = Some a\<close> Some show ?thesis
        by (auto simp: a b split: prod.splits ViStatus.splits dest: Suc.IH)
    qed
  qed
qed simp

lemma load_nodes_file_span:
  "f_pos f \<le> length (f_data f) \<Longrightarrow>
   load_nodes_file n f s =
     (case load_nodes_span n (drop (f_pos f) (f_data f)) s of
        (st, s', p) \<Rightarrow> (st, s', f\<lparr>f_pos := length (f_data f) - length p\<rparr>))"
proof (induction n arbitrary: f s)
  case (Suc n)
  have drop_tail: "drop (length d - (length d - i)) d = drop i d" for d :: bytes and i
    by (cases "i \<le> length d") simp_all
  show ?case
    using Suc.prems
    by (simp add: ReadExact_span Suc.IH span_take_def drop_tail
             split: option.split prod.split ViStatus.split)
qed simp

lemma LoadNodes_LoadNodesFrom:
  assumes "LoadNodes v \<lparr>f_data = data, f_pos = 0, f_room = r\<rparr> n nid = (st, v', f')"
  shows "if st = ViOk \<and> f_pos f' \<noteq> length data then fst (LoadNodesFrom v data n nid) = ViIoError
         else LoadNodesFrom v data n nid = (st, v')"
proof -
  obtain st2 s p where span: "load_nodes_span n data VNodeStorage_empty = (st2, s, p)"
    by (cases "load_nodes_span n data VNodeStorage_empty") auto
  from load_nodes_span_rest [OF span] have "length data - length p = length data \<longleftrightarrow> p = []"
    by (cases p) auto
  with assms span show ?thesis
    by (auto simp: LoadNodes_def LoadNodesFrom_def load_nodes_file_span Let_def split: if_splits)
qed

subsection \<open>A section inside a larger file\<close>

lemma foreach_dump_ok:
  fixes es :: "(u16 \<times> VNode) list"
  assumes "foreach_entries dump_node es (ViOk, f) = (ViOk, f')"
    and "\<forall>n \<in> snd ` set es. length (Codec_Encode n) < 2 ^ 32" and "f_pos f \<le> length (f_data f)"
  shows "f' = f_store f (concat (map (node_image \<circ> snd) es))"
  using assms
proof (induction es arbitrary: f)
  case Nil
  then show ?case by (simp add: f_store_def)
next
  case (Cons e es)
  obtain i n where e: "e = (i, n)" by (cases e)
  let ?bs = "Codec_Encode n"
  have len: "u32_of (length ?bs) = length ?bs" using Cons.prems(2) by (simp add: e u32_of_def)
  obtain f1 where w: "write_all f [le_bytes 4 (length ?bs), ?bs] = (True, f1)"
      "foreach_entries dump_node es (ViOk, f1) = (ViOk, f')"
    using Cons.prems(1) len
    by (auto simp: e dump_node_def Let_def simp del: write_all.simps split: prod.splits if_splits)
  have f1: "f1 = f_store f (node_image n)"
    using write_all_ok [OF w(1) Cons.prems(3)] by (simp add: node_image_def)
  have "f' = f_store f1 (concat (map (node_image \<circ> snd) es))"
    using w(2) Cons.prems by (intro Cons.IH) (auto simp: f1 f_store_def)
  with Cons.prems(3) show ?case by (simp add: e f1 f_store_over comp_def)
qed

lemma DumpNodes_ok:
  assumes "DumpNodes v f = (ViOk, f')" and "nodes_fit (vi_storage v)" and "f_pos f \<le> length (f_data f)"
  shows "f' = f_store f (nodes_image (vi_storage v))"
  unfolding nodes_image_def
  using assms by (intro foreach_dump_ok) (auto simp: DumpNodes_def VNodeStorage_ForEach_def nodes_fit_def)

lemma load_nodes_span_append:
  "load_nodes_span n p s = (ViOk, s', q) \<Longrightarrow> load_nodes_span n (p @ r) s = (ViOk, s', q @ r)"
proof (induction n arbitrary: p s)
  case (Suc n)
  have ext: "span_take (xs @ r) k = Some (b, ys @ r)" if "span_take xs k = Some (b, ys)" for xs ys b k
    using that by (auto simp: span_take_def split: if_splits)
  obtain l p1 where 1: "span_take p 4 = Some (l, p1)"
    using Suc.prems by (auto split: option.splits)
  obtain bs p2 where 2: "span_take p1 (le_nat l) = Some (bs, p2)"
    using Suc.prems 1 by (auto split: option.splits)
  obtain s1 where 3: "restore_bytes s bs = (ViOk, s1)" "load_nodes_span n p2 s1 = (ViOk, s', q)"
    using Suc.prems 1 2 by (auto split: prod.splits ViStatus.splits)
  from Suc.IH [OF 3(2)] ext [OF 1] ext [OF 2] 3(1) show ?case by simp
qed simp

lemma LoadNodes_section:
  assumes "LoadNodesFrom v (slice off len (f_data f)) n nid = (ViOk, v')"
    and "off + len \<le> length (f_data f)" and "f_pos f = off"
  shows "\<exists>f'. LoadNodes v f n nid = (ViOk, v', f')"
proof -
  let ?p = "slice off len (f_data f)"
  let ?r = "drop (off + len) (f_data f)"
  have split: "drop off (f_data f) = ?p @ ?r"
    by (simp add: slice_def) (metis add.commute append_take_drop_id drop_drop)
  from assms(1) obtain s where l: "load_nodes_span n ?p VNodeStorage_empty = (ViOk, s, [])"
    by (auto simp: LoadNodesFrom_def Let_def split: if_splits prod.splits)
  from load_nodes_span_append [OF l, of ?r] assms(1,2,3) l show ?thesis
    by (simp add: LoadNodes_def LoadNodesFrom_def Let_def load_nodes_file_span split)
qed

lemma LoadNodes_none:
  "LoadNodesFrom v [] 0 nid = (ViOk, v') \<Longrightarrow> LoadNodes v f 0 nid = (ViOk, v', f)"
  by (simp add: LoadNodes_def LoadNodesFrom_def Let_def)

section \<open>Properties\<close>



text \<open>A cache with one entry, for concrete runs.\<close>

definition sample_entry :: VNode where
  "sample_entry = \<lparr>vn_id = 1, vn_user_key = ''u'', vn_question = ''q'', vn_answer = ''ans''\<rparr>"

definition sample_cache :: "flat_index VNodeIndex" where
  "sample_cache =
     \<lparr>vi_default_capacity = 4, vi_max_entries = 2, vi_dim = 1,
      vi_storage = \<lparr>next_id = 2, by_id = [(1, sample_entry)], by_user_key = [(''u'', 1)]\<rparr>,
      vi_lru = \<lparr>lo_order = [(0, 1)], lo_map = [(1, 0)], lo_next = 1\<rparr>,
      vi_index = Some \<lparr>ue_impl = Some (1, [(1, CopyFloats ''abcd'' 1)]), ue_dimensions = 1,
                       ue_capacity = 4, ue_viewed = False\<rparr>\<rparr>"

text \<open>
  What a Set means for the keyed contents: success stores question and answer under the key and
  changes no other key; a failure either leaves the contents alone or, when the embedding index refuses
  the vector, removes the key, whose earlier entry is lost.
\<close>

lemma cache_set_contents:
  assumes "vi_wf v" and "VNodeIndex_Set api v b k q a = (st, v')"
  shows "vi_view v' =
     (if st = ViOk then (vi_view v)(k \<mapsto> (q, a))
      else if vi_storage v' = vi_storage v then vi_view v
      else (vi_view v)(k := None))"
  using assms by (rule Set_view)

lemma sample_set_ok:
  "VNodeIndex_Set flat_api (VNodeIndex_new 4 2) ''abcd'' ''u'' ''q'' ''ans'' = (ViOk, sample_cache)"
  by (simp add: VNodeIndex_Set_def VNodeIndex_new_def ParseFloatBlob_def EnsureIndex_def
      USearchEmbedIndex_new_def USearchEmbedIndex_Search_def usearchSearch_def flat_api_def
      flat_search_def VNodeStorage_Put_def VNodeStorage_empty_def USearchEmbedIndex_Add_def usearchAdd_def
      LruOrder_Push_def LruOrder_empty_def um_find_def um_put_def um_emplace_def
      sample_cache_def sample_entry_def Let_def)

lemma sample_cache_wf: "vi_wf sample_cache"
  using VNodeIndex_Set_wf [OF VNodeIndex_new_wf sample_set_ok] .

text \<open>
  A Del removes exactly its key and reports whether it was there; the empty key is refused.
\<close>

lemma cache_del_contents:
  assumes "vi_wf v" and "VNodeIndex_Del api v k = (st, v')"
  shows "vi_view v' = (vi_view v)(k := None)
     \<and> st = (if k = [] then ViBadValue else if vi_view v k = None then ViNotFound else ViOk)"
  using Del_view [OF assms] by blast

text \<open>
  A Get never changes the keyed contents, and an answer it returns is the stored answer of some key;
  on a hit the node found becomes the most recently used one, and on a miss nothing changes.
\<close>

lemma cache_get_contents:
  assumes "vi_wf v" and "VNodeIndex_Get api v b t = (r, v')"
  shows "vi_view v' = vi_view v \<and>
    (case r of
       Inl _ \<Rightarrow> v' = v
     | Inr ans \<Rightarrow> (\<exists>i n. um_find (by_id (vi_storage v)) i = Some n \<and> vn_answer n = ans
                    \<and> vi_view v (vn_user_key n) = Some (vn_question n, ans)
                    \<and> lru_ids (vi_lru v') = filter (\<lambda>j. j \<noteq> i) (lru_ids (vi_lru v)) @ [i]))"
proof -
  note d = vi_wf_D [OF assms(1)]
  from assms(2) show ?thesis
  proof (cases rule: Get_cases)
    case (Miss e)
    then show ?thesis by simp
  next
    case (Hit i n)
    have "VNodeStorage_GetByUserKey (vi_storage v) (vn_user_key n) = Inr n"
      using st_maps_id [OF d(2) Hit(2)] Hit(2) by (simp add: GetByUserKey_iff [OF d(2)])
    moreover have "i \<in> set (lru_ids (vi_lru v))" using d(4) Hit(2) by (simp add: live_ids_def)
    ultimately show ?thesis
      using Hit Get_view(1) [OF assms] by (auto simp: vi_view_def lru.ids_touch [OF d(3)])
  qed
qed

text \<open>
  The eviction victim is the stored key at the front of the access order; it is reported without
  changing the cache, and a non-empty cache always has one.
\<close>

lemma cache_victim:
  assumes "vi_wf v" and "VNodeStorage_size (vi_storage v) \<noteq> 0"
  shows "\<exists>k i. PeekLruUserKey v = (Inr k, v) \<and> k \<noteq> [] \<and> vi_view v k \<noteq> None
     \<and> hd (lru_ids (vi_lru v)) = i \<and> um_find (by_user_key (vi_storage v)) k = Some i"
proof -
  note d = vi_wf_D [OF assms(1)]
  obtain k where k: "PeekLruUserKey v = (Inr k, v)" "vi_view v k \<noteq> None" "k \<noteq> []"
    using PeekLruUserKey_nonempty [OF assms] .
  then obtain i js where ids: "lru_ids (vi_lru v) = i # js"
    by (auto simp: PeekLruUserKey_wf [OF assms(1)] split: list.splits)
  then obtain n where n: "um_find (by_id (vi_storage v)) i = Some n" using d(4) by (auto simp: live_ids_def)
  with k(1) ids have "k = vn_user_key n" by (simp add: PeekLruUserKey_wf [OF assms(1)])
  with st_maps_id [OF d(2) n] k ids show ?thesis by auto
qed

end
