(* ===== verification/Wal.thy ===== *)
theory Wal
  imports Vemory_Prelude
begin

text \<open>
  The append-only file as its clients see it: the abstract class \<^verbatim>\<open>AofWriter\<close>
  (src/include/vemory/persist/AofWriter.h) as a table of operations on a writer's state, and
  \<^verbatim>\<open>WalManager\<close> (src/src/persist/WalManager.cc) on top of it. \<^verbatim>\<open>WalManager::Replay\<close>, which applies
  mutations, is in the theory Replay.
\<close>

section \<open>Model\<close>

text \<open>The virtual member functions of a writer.\<close>

record 'w AofWriter =
  aw_Enqueue :: "'w \<Rightarrow> bytes \<Rightarrow> bool \<times> 'w"
  aw_Flush :: "'w \<Rightarrow> bool \<times> 'w"
  aw_Stop :: "'w \<Rightarrow> 'w"
  aw_failed :: "'w \<Rightarrow> bool"
  aw_Poll :: "'w \<Rightarrow> 'w"

datatype WmStatus = WmOk | WmNotConfigured | WmIoError | WmError

record 'w WalManager =
  wm_enabled :: bool
  wm_path :: bytes
  wm_writer :: "'w option"

text \<open>The constructor; \<open>mk\<close> is \<^verbatim>\<open>MakeAofWriter\<close> with its policy arguments.\<close>

definition WalManager_new :: "(bytes \<Rightarrow> 'w) \<Rightarrow> bytes \<Rightarrow> bool \<Rightarrow> 'w WalManager" where
  "WalManager_new mk dir enable =
     (if enable \<and> dir \<noteq> []
      then let path = dir @ ''/'' @ ''appendonly.aof''
           in \<lparr>wm_enabled = True, wm_path = path, wm_writer = Some (mk path)\<rparr>
      else \<lparr>wm_enabled = False, wm_path = [], wm_writer = None\<rparr>)"

definition WalManager_AppendFrame ::
  "'w AofWriter \<Rightarrow> 'w WalManager \<Rightarrow> bytes \<Rightarrow> WmStatus \<times> 'w WalManager" where
  "WalManager_AppendFrame aw m frame =
     (case wm_writer m of
        None \<Rightarrow> (WmNotConfigured, m)
      | Some w \<Rightarrow>
          if \<not> wm_enabled m then (WmNotConfigured, m)
          else if aw_failed aw w then (WmIoError, m)
          else if frame = [] then (WmError, m)
          else case aw_Enqueue aw w frame of
                 (ok, w') \<Rightarrow>
                   (if ok then WmOk else if aw_failed aw w' then WmIoError else WmError,
                    m\<lparr>wm_writer := Some w'\<rparr>))"

definition WalManager_Poll :: "'w AofWriter \<Rightarrow> 'w WalManager \<Rightarrow> 'w WalManager" where
  "WalManager_Poll aw m = m\<lparr>wm_writer := map_option (aw_Poll aw) (wm_writer m)\<rparr>"

definition WalManager_Flush :: "'w AofWriter \<Rightarrow> 'w WalManager \<Rightarrow> WmStatus \<times> 'w WalManager" where
  "WalManager_Flush aw m =
     (case wm_writer m of
        None \<Rightarrow> (WmOk, m)
      | Some w \<Rightarrow>
          if \<not> wm_enabled m then (WmOk, m)
          else case aw_Flush aw w of
                 (ok, w') \<Rightarrow> (if ok then WmOk else WmIoError, m\<lparr>wm_writer := Some w'\<rparr>))"

section \<open>A writer that keeps a log\<close>

text \<open>
  What the header of \<^verbatim>\<open>AofWriter\<close> promises of \<^verbatim>\<open>Enqueue\<close>: an accepted frame joins the log behind the
  frames accepted before, a refused one does not. \<open>logged w\<close> are the bytes accepted so far.
\<close>

definition aof_logs :: "'w AofWriter \<Rightarrow> ('w \<Rightarrow> bytes) \<Rightarrow> bool" where
  "aof_logs aw logged \<longleftrightarrow>
     (\<forall>w frame. let (ok, w') = aw_Enqueue aw w frame in logged w' = (if ok then logged w @ frame else logged w))"

text \<open>A healthy writer accepts every frame.\<close>

definition aof_healthy :: "'w AofWriter \<Rightarrow> bool" where
  "aof_healthy aw \<longleftrightarrow> (\<forall>w. \<not> aw_failed aw w \<and> (\<forall>frame. frame \<noteq> [] \<longrightarrow> fst (aw_Enqueue aw w frame)))"

lemma AppendFrame_log:
  assumes "aof_logs aw logged" and "wm_writer m = Some w"
    and "WalManager_AppendFrame aw m frame = (st, m')"
  obtains w' where "wm_writer m' = Some w'" "logged w' = (if st = WmOk then logged w @ frame else logged w)"
    "wm_enabled m' = wm_enabled m" "wm_path m' = wm_path m"
proof -
  obtain ok w1 where enq: "aw_Enqueue aw w frame = (ok, w1)" by (cases "aw_Enqueue aw w frame")
  have "logged w1 = (if ok then logged w @ frame else logged w)"
    using assms(1) enq unfolding aof_logs_def by (metis (mono_tags, lifting) case_prod_conv)
  with assms(2,3) enq that [of w1] that [of w] show ?thesis
    by (auto simp: WalManager_AppendFrame_def split: if_splits)
qed

lemma AppendFrame_healthy:
  assumes "aof_healthy aw" and "wm_writer m = Some w" and "wm_enabled m" and "frame \<noteq> []"
  shows "fst (WalManager_AppendFrame aw m frame) = WmOk"
proof -
  have "\<not> aw_failed aw w" "fst (aw_Enqueue aw w frame)" using assms by (auto simp: aof_healthy_def)
  with assms show ?thesis
    by (cases "aw_Enqueue aw w frame") (simp add: WalManager_AppendFrame_def)
qed

section \<open>An instance of the writer table\<close>

text \<open>A writer that keeps the accepted bytes in memory, for concrete runs.\<close>

definition memory_writer :: "bytes AofWriter" where
  "memory_writer =
     \<lparr>aw_Enqueue = (\<lambda>w frame. (True, w @ frame)), aw_Flush = (\<lambda>w. (True, w)), aw_Stop = (\<lambda>w. w),
      aw_failed = (\<lambda>_. False), aw_Poll = (\<lambda>w. w)\<rparr>"

lemma memory_writer_logs: "aof_logs memory_writer (\<lambda>w. w)"
  by (simp add: aof_logs_def memory_writer_def)

lemma memory_writer_healthy: "aof_healthy memory_writer"
  by (simp add: aof_healthy_def memory_writer_def)

end
