(* ===== verification/Mutation.thy ===== *)
theory Mutation
  imports Request KvStore VNodeIndex Wal
begin

text \<open>
  \<^verbatim>\<open>ApplyMutation\<close> (src/src/mutate/MutationApply.cc): the one place where SET, DEL, VSET and VDEL change
  the stores, with capacity eviction for client writes and the encoding of the write for the AOF and
  the replicas. The eviction loop is a partial function into \<open>option\<close>; it is shown to return.
\<close>

section \<open>Model\<close>

datatype MutateSource = kClient | kAofReplay

record ApplyResult =
  ar_ok :: bool
  ar_err :: bytes
  ar_integer_reply :: int

definition ApplyResult_init :: ApplyResult where
  "ApplyResult_init = \<lparr>ar_ok = False, ar_err = [], ar_integer_reply = 0\<rparr>"

text \<open>The two members of \<^verbatim>\<open>ReplicationMaster\<close> that a mutation calls.\<close>

record 'r repl_ops =
  ro_has_slaves :: "'r \<Rightarrow> bool"
  ro_FeedEncodedFrame :: "'r \<Rightarrow> bytes \<Rightarrow> 'r"

text \<open>
  The objects behind the pointer arguments (None for a null pointer) and the operations of their
  classes.
\<close>

record ('ix, 'w, 'r) engine =
  en_index :: "'ix VNodeIndex option"
  en_kv :: "KvStore option"
  en_wal :: "'w WalManager option"
  en_repl :: "'r option"

record ('ix, 'w, 'r) classes =
  cl_usearch :: "'ix usearch_api"
  cl_aof :: "'w AofWriter"
  cl_repl :: "'r repl_ops"

definition mut_fail :: "ApplyResult \<Rightarrow> bytes \<Rightarrow> ApplyResult" where
  "mut_fail out msg = out\<lparr>ar_err := msg\<rparr>"

text \<open>The tail: encode the write once, append it to the AOF, feed the replicas.\<close>

definition log_mutation ::
  "('ix, 'w, 'r) classes \<Rightarrow> RequestContext \<Rightarrow> MutateSource \<Rightarrow> ApplyResult \<Rightarrow> ('ix, 'w, 'r) engine
     \<Rightarrow> ApplyResult \<times> ('ix, 'w, 'r) engine" where
  "log_mutation cl ctx src out en =
     (let ok = out\<lparr>ar_ok := True\<rparr>;
          wal_on = (case en_wal en of None \<Rightarrow> False | Some wal \<Rightarrow> wm_enabled wal);
          repl_on = (case en_repl en of None \<Rightarrow> False | Some r \<Rightarrow> ro_has_slaves (cl_repl cl) r)
      in if src = kClient \<and> (wal_on \<or> repl_on)
         then case EncodeWriteCommand ctx of
                None \<Rightarrow> (mut_fail out ''encode write command failed'', en)
              | Some frame \<Rightarrow>
                  let (st, en1) =
                        (case en_wal en of
                           Some wal \<Rightarrow>
                             if wal_on
                             then case WalManager_AppendFrame (cl_aof cl) wal frame of
                                    (st, wal') \<Rightarrow> (st, en\<lparr>en_wal := Some wal'\<rparr>)
                             else (WmOk, en)
                         | None \<Rightarrow> (WmOk, en))
                  in if st \<noteq> WmOk then (mut_fail out ''aof append failed'', en1)
                     else (ok, if repl_on
                               then en1\<lparr>en_repl := map_option
                                      (\<lambda>r. ro_FeedEncodedFrame (cl_repl cl) r frame) (en_repl en1)\<rparr>
                               else en1)
         else (ok, en))"

definition apply_set ::
  "('ix, 'w, 'r) classes \<Rightarrow> RequestContext \<Rightarrow> MutateSource \<Rightarrow> ('ix, 'w, 'r) engine
     \<Rightarrow> ApplyResult \<times> ('ix, 'w, 'r) engine" where
  "apply_set cl ctx src en =
     (let out = ApplyResult_init
      in case en_kv en of
           None \<Rightarrow> (mut_fail out ''kv not available'', en)
         | Some kv \<Rightarrow>
             if key ctx = [] then (mut_fail out ''empty key'', en)
             else case KvStore_Set kv (key ctx) (element ctx) of
                    (st, kv') \<Rightarrow>
                      if st \<noteq> KvOk then (mut_fail out ''set failed'', en\<lparr>en_kv := Some kv'\<rparr>)
                      else log_mutation cl ctx src out (en\<lparr>en_kv := Some kv'\<rparr>))"

definition apply_del ::
  "('ix, 'w, 'r) classes \<Rightarrow> RequestContext \<Rightarrow> MutateSource \<Rightarrow> ('ix, 'w, 'r) engine
     \<Rightarrow> ApplyResult \<times> ('ix, 'w, 'r) engine" where
  "apply_del cl ctx src en =
     (let out = ApplyResult_init
      in case en_kv en of
           None \<Rightarrow> (mut_fail out ''kv not available'', en)
         | Some kv \<Rightarrow>
             if key ctx = [] then (mut_fail out ''empty key'', en)
             else case KvStore_Del kv (key ctx) of
                    (st, kv') \<Rightarrow>
                      if st = KvNotFound
                      then (out\<lparr>ar_ok := True, ar_integer_reply := 0\<rparr>, en\<lparr>en_kv := Some kv'\<rparr>)
                      else if st \<noteq> KvOk then (mut_fail out ''del failed'', en\<lparr>en_kv := Some kv'\<rparr>)
                      else log_mutation cl ctx src (out\<lparr>ar_integer_reply := 1\<rparr>) (en\<lparr>en_kv := Some kv'\<rparr>))"

definition apply_vdel ::
  "('ix, 'w, 'r) classes \<Rightarrow> RequestContext \<Rightarrow> MutateSource \<Rightarrow> ('ix, 'w, 'r) engine
     \<Rightarrow> ApplyResult \<times> ('ix, 'w, 'r) engine" where
  "apply_vdel cl ctx src en =
     (let out = ApplyResult_init
      in case en_index en of
           None \<Rightarrow> (mut_fail out ''index not available'', en)
         | Some v \<Rightarrow>
             (case VNodeIndex_Del (cl_usearch cl) v (rc_user_key ctx) of
                (st, v') \<Rightarrow>
                  if st = ViNotFound
                  then (out\<lparr>ar_ok := True, ar_integer_reply := 0\<rparr>, en\<lparr>en_index := Some v'\<rparr>)
                  else if st \<noteq> ViOk then (mut_fail out ''vdel failed'', en\<lparr>en_index := Some v'\<rparr>)
                  else log_mutation cl ctx src (out\<lparr>ar_integer_reply := 1\<rparr>) (en\<lparr>en_index := Some v'\<rparr>)))"

definition del_ctx :: "bytes \<Rightarrow> RequestContext" where
  "del_ctx victim = default_RequestContext\<lparr>cmd := kVdel, rc_user_key := victim\<rparr>"

text \<open>
  The eviction loop. \<open>Inl\<close>: an early return of \<^verbatim>\<open>ApplyMutation\<close>; the recursive call with
  \<^verbatim>\<open>CommandType::kVdel\<close> is \<open>apply_vdel\<close>.
\<close>

partial_function (option) evict_loop ::
  "('ix, 'w, 'r) classes \<Rightarrow> bytes \<Rightarrow> MutateSource \<Rightarrow> ('ix, 'w, 'r) engine
     \<Rightarrow> ((ApplyResult \<times> ('ix, 'w, 'r) engine) + ('ix, 'w, 'r) engine) option" where
  "evict_loop cl user_key src en =
     (case en_index en of
        None \<Rightarrow> Some (Inr en)
      | Some v \<Rightarrow>
          if \<not> NeedsRoomFor v user_key then Some (Inr en)
          else case PeekLruUserKey v of
                 (Inl _, v1) \<Rightarrow>
                   Some (Inl (mut_fail ApplyResult_init ''eviction failed'', en\<lparr>en_index := Some v1\<rparr>))
               | (Inr victim, v1) \<Rightarrow>
                   if victim = []
                   then Some (Inl (mut_fail ApplyResult_init ''eviction failed'', en\<lparr>en_index := Some v1\<rparr>))
                   else case apply_vdel cl (del_ctx victim) src (en\<lparr>en_index := Some v1\<rparr>) of
                          (del_ar, en2) \<Rightarrow>
                            if \<not> ar_ok del_ar then Some (Inl (del_ar, en2))
                            else evict_loop cl user_key src en2)"

definition vset_error :: "ViStatus \<Rightarrow> bytes" where
  "vset_error st =
     (case st of
        ViBadValue \<Rightarrow> ''invalid VSET arguments''
      | ViBadVectorSize \<Rightarrow> ''invalid vector byte size''
      | ViDimMismatch \<Rightarrow> ''vector dimension mismatch''
      | ViIndexInitFailed \<Rightarrow> ''usearch init failed''
      | _ \<Rightarrow> ''vset failed'')"

definition store_vset ::
  "('ix, 'w, 'r) classes \<Rightarrow> RequestContext \<Rightarrow> MutateSource \<Rightarrow> ('ix, 'w, 'r) engine
     \<Rightarrow> ApplyResult \<times> ('ix, 'w, 'r) engine" where
  "store_vset cl ctx src en =
     (let out = ApplyResult_init
      in case en_index en of
           None \<Rightarrow> (mut_fail out ''index not available'', en)
         | Some v \<Rightarrow>
             (case VNodeIndex_Set (cl_usearch cl) v (vector_blob ctx) (rc_user_key ctx)
                     (rc_question ctx) (rc_answer ctx) of
                (st, v') \<Rightarrow>
                  if st \<noteq> ViOk then (mut_fail out (vset_error st), en\<lparr>en_index := Some v'\<rparr>)
                  else log_mutation cl ctx src out (en\<lparr>en_index := Some v'\<rparr>)))"

definition apply_vset ::
  "('ix, 'w, 'r) classes \<Rightarrow> RequestContext \<Rightarrow> MutateSource \<Rightarrow> ('ix, 'w, 'r) engine
     \<Rightarrow> (ApplyResult \<times> ('ix, 'w, 'r) engine) option" where
  "apply_vset cl ctx src en =
     (if en_index en = None then Some (mut_fail ApplyResult_init ''index not available'', en)
      else if src = kClient
      then Option.bind (evict_loop cl (rc_user_key ctx) src en)
             (\<lambda>r. case r of Inl res \<Rightarrow> Some res | Inr en' \<Rightarrow> Some (store_vset cl ctx src en'))
      else Some (store_vset cl ctx src en))"

definition ApplyMutation ::
  "('ix, 'w, 'r) classes \<Rightarrow> RequestContext \<Rightarrow> MutateSource \<Rightarrow> ('ix, 'w, 'r) engine
     \<Rightarrow> (ApplyResult \<times> ('ix, 'w, 'r) engine) option" where
  "ApplyMutation cl ctx src en =
     (case cmd ctx of
        kSet \<Rightarrow> Some (apply_set cl ctx src en)
      | kDel \<Rightarrow> Some (apply_del cl ctx src en)
      | kVset \<Rightarrow> apply_vset cl ctx src en
      | kVdel \<Rightarrow> Some (apply_vdel cl ctx src en)
      | _ \<Rightarrow> Some (mut_fail ApplyResult_init ''unknown write command'', en))"

section \<open>Invariant and frame facts\<close>

definition en_wf :: "('ix, 'w, 'r) engine \<Rightarrow> bool" where
  "en_wf en \<longleftrightarrow> pred_option vi_wf (en_index en) \<and> pred_option kv_wf (en_kv en)"

lemma mut_fail_sel [simp]:
  "ar_ok (mut_fail out m) = ar_ok out" "ar_err (mut_fail out m) = m" "ar_ok ApplyResult_init = False"
  by (simp_all add: mut_fail_def ApplyResult_init_def)

lemma log_mutation_frame:
  assumes "log_mutation cl ctx src out en = (r, en')"
  shows "en_index en' = en_index en" "en_kv en' = en_kv en"
  using assms
  by (auto simp: log_mutation_def Let_def split: if_splits option.splits prod.splits)

lemma log_mutation_replay [simp]:
  "log_mutation cl ctx kAofReplay out en = (out\<lparr>ar_ok := True\<rparr>, en)"
  by (simp add: log_mutation_def Let_def)

lemma log_mutation_same:
  "log_mutation cl ctx src out en = (r, en') \<Longrightarrow> en_index en' = en_index en \<and> en_kv en' = en_kv en"
  using log_mutation_frame by blast

section \<open>Eviction\<close>

text \<open>The cache after dropping the \<open>n\<close> least recently used nodes.\<close>

definition evicts :: "'ix VNodeIndex \<Rightarrow> nat \<Rightarrow> 'ix VNodeIndex \<Rightarrow> bool" where
  "evicts v n v' \<longleftrightarrow> vi_wf v'
     \<and> lru_ids (vi_lru v') = drop n (lru_ids (vi_lru v))
     \<and> um_find (by_id (vi_storage v')) =
         um_find (by_id (vi_storage v)) |` (- set (take n (lru_ids (vi_lru v))))
     \<and> next_id (vi_storage v') = next_id (vi_storage v)
     \<and> vi_max_entries v' = vi_max_entries v \<and> vi_dim v' = vi_dim v"

lemma evicts_0: "vi_wf v \<Longrightarrow> evicts v 0 v"
  by (simp add: evicts_def restrict_map_def)

lemma evicts_Suc:
  assumes "evicts v 1 v1" and "evicts v1 n v2"
  shows "evicts v (Suc n) v2"
proof -
  have ids: "lru_ids (vi_lru v1) = drop 1 (lru_ids (vi_lru v))" using assms(1) by (simp add: evicts_def)
  have "set (take (Suc n) xs) = set (take 1 xs) \<union> set (take n (drop 1 xs))" for xs :: "u16 list"
    by (cases xs) auto
  with assms ids show ?thesis
    by (auto simp: evicts_def restrict_map_def fun_eq_iff)
qed

lemma vi_size_ids: "vi_wf v \<Longrightarrow> VNodeStorage_size (vi_storage v) = length (lru_ids (vi_lru v))"
  using vi_wf_D [of v] live_ids_size [of "vi_storage v"] lru_wf_distinct [of "vi_lru v"]
  by (simp add: distinct_card st_maps_uwf flip: distinct_card)

lemma Del_lru_head:
  assumes wf: "vi_wf v" and size: "VNodeStorage_size (vi_storage v) \<noteq> 0"
  obtains k v' where "PeekLruUserKey v = (Inr k, v)" "k \<noteq> []" "vi_view v k \<noteq> None"
    "VNodeIndex_Del api v k = (ViOk, v')" "evicts v 1 v'"
proof -
  note d = vi_wf_D [OF wf]
  obtain k where k: "PeekLruUserKey v = (Inr k, v)" "vi_view v k \<noteq> None" "k \<noteq> []"
    using PeekLruUserKey_nonempty [OF wf size] .
  then obtain i js where ids: "lru_ids (vi_lru v) = i # js"
    by (auto simp: PeekLruUserKey_wf [OF wf] split: list.splits)
  then obtain n where n: "um_find (by_id (vi_storage v)) i = Some n"
    using d(4) by (auto simp: live_ids_def)
  with k(1) ids have kn: "k = vn_user_key n" by (simp add: PeekLruUserKey_wf [OF wf])
  have ki: "um_find (by_user_key (vi_storage v)) k = Some i" using st_maps_id [OF d(2) n] kn by simp
  obtain st v' where del: "VNodeIndex_Del api v k = (st, v')" by (cases "VNodeIndex_Del api v k")
  have dist: "i \<notin> set js" using lru_wf_distinct [OF d(3)] ids by simp
  from del d(2) have "st = ViOk \<and> evicts v 1 v'"
  proof (cases rule: Del_cases)
    case Same
    with ki show ?thesis by simp
  next
    case (Deleted j)
    have ji: "j = i" using Deleted(2) ki by simp
    have sel: "vi_lru v' = snd (LruOrder_Erase (vi_lru v) i)" "vi_dim v' = vi_dim v"
      "vi_max_entries v' = vi_max_entries v"
      by (subst Deleted(5), simp add: ji)+
    from Deleted(4) obtain j' where "um_find (by_user_key (vi_storage v)) k = Some j'"
      "um_find (by_id (vi_storage v')) = (um_find (by_id (vi_storage v)))(j' := None)"
      "next_id (vi_storage v') = next_id (vi_storage v)"
      by (rule Del_find)
    with ki ids dist sel Deleted(1) VNodeIndex_Del_wf [OF wf del] show ?thesis
      by (auto simp: evicts_def lru.ids_erase [OF d(3)] restrict_map_def fun_eq_iff
               intro: filter_True)
  qed
  with that [OF k(1,3,2)] del show ?thesis by blast
qed

text \<open>The number of nodes a new key pushes out.\<close>

definition evict_count :: "'ix VNodeIndex \<Rightarrow> bytes \<Rightarrow> nat" where
  "evict_count v k =
     (if NeedsRoomFor v k then Suc (VNodeStorage_size (vi_storage v)) - vi_max_entries v else 0)"

lemma evicts_view_None:
  assumes wf: "vi_wf v" and ev: "evicts v n v'" and none: "vi_view v k = None"
  shows "vi_view v' k = None"
proof -
  have maps: "st_maps (vi_storage v)" "st_maps (vi_storage v')"
    using vi_wf_D(2) [OF wf] ev by (auto simp: evicts_def dest: vi_wf_D(2))
  have "um_find (by_user_key (vi_storage v')) k \<noteq> Some i" for i
  proof
    assume "um_find (by_user_key (vi_storage v')) k = Some i"
    then obtain n where "um_find (by_id (vi_storage v')) i = Some n" "vn_user_key n = k"
      using maps(2) by (auto elim: st_maps_key)
    then have "um_find (by_id (vi_storage v)) i = Some n" "vn_user_key n = k"
      using ev by (auto simp: evicts_def restrict_map_def split: if_splits)
    then have "um_find (by_user_key (vi_storage v)) k = Some i"
      using st_maps_id [OF maps(1)] by blast
    with none show False by (simp add: vi_view_None [OF maps(1)])
  qed
  then show ?thesis by (simp add: vi_view_None [OF maps(2)]) (metis not_None_eq)
qed

lemma evict_count_step:
  assumes wf: "vi_wf v" and room: "NeedsRoomFor v k" and ev: "evicts v 1 v1"
  shows "evict_count v k = Suc (evict_count v1 k)"
    and "VNodeStorage_size (vi_storage v) = Suc (VNodeStorage_size (vi_storage v1))"
proof -
  note n = NeedsRoomFor_iff [OF vi_wf_D(2) [OF wf], THEN iffD1, OF room]
  have wf1: "vi_wf v1" and m: "vi_max_entries v1 = vi_max_entries v" using ev by (auto simp: evicts_def)
  have "0 < VNodeStorage_size (vi_storage v)" using n by simp
  then show sz: "VNodeStorage_size (vi_storage v) = Suc (VNodeStorage_size (vi_storage v1))"
    using ev by (simp add: vi_size_ids [OF wf] vi_size_ids [OF wf1] evicts_def)
  have "vi_view v1 k = None" using evicts_view_None [OF wf ev] n by simp
  then have n1: "NeedsRoomFor v1 k \<longleftrightarrow> vi_max_entries v \<le> VNodeStorage_size (vi_storage v1)"
    using n m by (simp add: NeedsRoomFor_iff [OF vi_wf_D(2) [OF wf1]])
  show "evict_count v k = Suc (evict_count v1 k)"
    using room n n1 sz m by (auto simp: evict_count_def)
qed

text \<open>A deletion of an evicted key, logged or refused by the AOF.\<close>

lemma apply_vdel_ok:
  assumes "en_index en = Some v" and "VNodeIndex_Del (cl_usearch cl) v k = (ViOk, v1)"
  obtains r en1 where "apply_vdel cl (del_ctx k) src en = (r, en1)"
    "log_mutation cl (del_ctx k) src (ApplyResult_init\<lparr>ar_integer_reply := 1\<rparr>) (en\<lparr>en_index := Some v1\<rparr>)
       = (r, en1)"
    "en_index en1 = Some v1" "en_kv en1 = en_kv en"
proof -
  obtain r en1 where log: "log_mutation cl (del_ctx k) src (ApplyResult_init\<lparr>ar_integer_reply := 1\<rparr>)
      (en\<lparr>en_index := Some v1\<rparr>) = (r, en1)"
    by (cases "log_mutation cl (del_ctx k) src (ApplyResult_init\<lparr>ar_integer_reply := 1\<rparr>)
      (en\<lparr>en_index := Some v1\<rparr>)")
  have "apply_vdel cl (del_ctx k) src en = (r, en1)"
    using assms log by (simp add: apply_vdel_def del_ctx_def)
  then show ?thesis using that log log_mutation_frame [OF log] by simp
qed

lemma evict_loop_done:
  "en_index en = Some v \<Longrightarrow> \<not> NeedsRoomFor v k \<Longrightarrow> evict_loop cl k src en = Some (Inr en)"
  by (subst evict_loop.simps) simp

lemma evict_loop_step:
  assumes "en_index en = Some v" and "NeedsRoomFor v k" and "PeekLruUserKey v = (Inr victim, v)"
    and "victim \<noteq> []" and "apply_vdel cl (del_ctx victim) src en = (r, en1)"
  shows "evict_loop cl k src en = (if ar_ok r then evict_loop cl k src en1 else Some (Inl (r, en1)))"
proof -
  have same: "en\<lparr>en_index := Some v\<rparr> = en" using assms(1) by simp
  show ?thesis using assms by (subst evict_loop.simps) (simp add: same)
qed

text \<open>
  The loop returns. It ends with room for the key, having dropped exactly the \<open>evict_count\<close> least
  recently used nodes, or early with an error, having dropped a prefix of them.
\<close>

lemma evict_loop_returns:
  assumes "vi_wf v" and "en_index en = Some v"
  shows "\<exists>r. evict_loop cl k src en = Some r
     \<and> (case r of
          Inl (ar, en') \<Rightarrow> \<not> ar_ok ar \<and> en_kv en' = en_kv en
            \<and> (\<exists>v' n. en_index en' = Some v' \<and> evicts v (Suc n) v')
        | Inr en' \<Rightarrow> en_kv en' = en_kv en
            \<and> (\<exists>v'. en_index en' = Some v' \<and> \<not> NeedsRoomFor v' k \<and> evicts v (evict_count v k) v'))"
  using assms
proof (induction "VNodeStorage_size (vi_storage v)" arbitrary: v en rule: less_induct)
  case less
  show ?case
  proof (cases "NeedsRoomFor v k")
    case False
    with less.prems show ?thesis
      by (simp add: evict_loop_done evict_count_def evicts_0)
  next
    case True
    then have "VNodeStorage_size (vi_storage v) \<noteq> 0"
      using NeedsRoomFor_iff [OF vi_wf_D(2) [OF less.prems(1)]] by auto
    then obtain victim v1 where peek: "PeekLruUserKey v = (Inr victim, v)" "victim \<noteq> []"
      and del: "VNodeIndex_Del (cl_usearch cl) v victim = (ViOk, v1)" and ev: "evicts v 1 v1"
      using Del_lru_head [OF less.prems(1)] by metis
    obtain r en1 where vdel: "apply_vdel cl (del_ctx victim) src en = (r, en1)"
      and en1: "en_index en1 = Some v1" "en_kv en1 = en_kv en"
      using apply_vdel_ok [OF less.prems(2) del] by metis
    note step = evict_loop_step [OF less.prems(2) True peek vdel]
    note count = evict_count_step [OF less.prems(1) True ev]
    show ?thesis
    proof (cases "ar_ok r")
      case False
      have "evicts v (Suc 0) v1" using ev by simp
      with False step en1 show ?thesis by auto
    next
      case ok: True
      have wf1: "vi_wf v1" using ev by (simp add: evicts_def)
      have "VNodeStorage_size (vi_storage v1) < VNodeStorage_size (vi_storage v)" using count(2) by simp
      from less.hyps [OF this wf1 en1(1)] obtain res where
        res: "evict_loop cl k src en1 = Some res"
          "case res of
             Inl (ar, en') \<Rightarrow> \<not> ar_ok ar \<and> en_kv en' = en_kv en1
               \<and> (\<exists>v' n. en_index en' = Some v' \<and> evicts v1 (Suc n) v')
           | Inr en' \<Rightarrow> en_kv en' = en_kv en1
               \<and> (\<exists>v'. en_index en' = Some v' \<and> \<not> NeedsRoomFor v' k \<and> evicts v1 (evict_count v1 k) v')"
        by blast
      have "evict_loop cl k src en = Some res" using step ok res(1) by simp
      moreover from res(2) have "case res of
             Inl (ar, en') \<Rightarrow> \<not> ar_ok ar \<and> en_kv en' = en_kv en
               \<and> (\<exists>v' n. en_index en' = Some v' \<and> evicts v (Suc n) v')
           | Inr en' \<Rightarrow> en_kv en' = en_kv en
               \<and> (\<exists>v'. en_index en' = Some v' \<and> \<not> NeedsRoomFor v' k \<and> evicts v (evict_count v k) v')"
        using en1(2) evicts_Suc [OF ev] count(1) by (auto split: sum.splits)
      ultimately show ?thesis by blast
    qed
  qed
qed

section \<open>Every mutation returns and keeps the invariant\<close>

lemma store_vset_wf:
  assumes "vi_wf v" and "en_index en = Some v" and "store_vset cl ctx src en = (r, en')"
  shows "en_kv en' = en_kv en" and "\<exists>v'. en_index en' = Some v' \<and> vi_wf v'"
proof -
  obtain st v' where set: "VNodeIndex_Set (cl_usearch cl) v (vector_blob ctx) (rc_user_key ctx)
      (rc_question ctx) (rc_answer ctx) = (st, v')" by (metis surj_pair)
  note wf' = VNodeIndex_Set_wf [OF assms(1) set]
  have "en_kv en' = en_kv en \<and> en_index en' = Some v'"
  proof (cases "st = ViOk")
    case True
    with assms set have "log_mutation cl ctx src ApplyResult_init (en\<lparr>en_index := Some v'\<rparr>) = (r, en')"
      by (simp add: store_vset_def)
    from log_mutation_frame [OF this] show ?thesis by simp
  next
    case False
    with assms set show ?thesis by (auto simp: store_vset_def)
  qed
  with wf' show "en_kv en' = en_kv en" "\<exists>v'. en_index en' = Some v' \<and> vi_wf v'" by auto
qed

lemma apply_set_wf:
  assumes "en_wf en" and "apply_set cl ctx src en = (r, en')"
  shows "en_wf en'"
proof (cases "en_kv en")
  case (Some m)
  then have "kv_wf (snd (KvStore_Set m (key ctx) (element ctx)))"
    using assms(1) by (simp add: en_wf_def KvStore_Set_wf)
  with Some assms show ?thesis
    by (auto simp: apply_set_def Let_def en_wf_def split: if_splits prod.splits
             dest!: log_mutation_same)
qed (use assms in \<open>auto simp: apply_set_def Let_def\<close>)

lemma apply_del_wf:
  assumes "en_wf en" and "apply_del cl ctx src en = (r, en')"
  shows "en_wf en'"
proof (cases "en_kv en")
  case (Some m)
  then have "kv_wf (snd (KvStore_Del m (key ctx)))"
    using assms(1) by (simp add: en_wf_def KvStore_Del_wf)
  with Some assms show ?thesis
    by (auto simp: apply_del_def Let_def en_wf_def split: if_splits prod.splits
             dest!: log_mutation_same)
qed (use assms in \<open>auto simp: apply_del_def Let_def\<close>)

lemma apply_vdel_wf:
  assumes "en_wf en" and "apply_vdel cl ctx src en = (r, en')"
  shows "en_wf en'"
proof (cases "en_index en")
  case (Some v)
  obtain st v' where del: "VNodeIndex_Del (cl_usearch cl) v (rc_user_key ctx) = (st, v')"
    by (metis surj_pair)
  have "vi_wf v'" using VNodeIndex_Del_wf [OF _ del] assms(1) Some by (simp add: en_wf_def)
  with Some del assms show ?thesis
    by (auto simp: apply_vdel_def Let_def en_wf_def split: if_splits dest!: log_mutation_same)
qed (use assms in \<open>auto simp: apply_vdel_def Let_def\<close>)

lemma apply_vset_wf:
  assumes "en_wf en"
  shows "\<exists>r en'. apply_vset cl ctx src en = Some (r, en') \<and> en_wf en'"
proof (cases "en_index en")
  case None
  with assms show ?thesis by (simp add: apply_vset_def)
next
  case (Some v)
  then have wf: "vi_wf v" using assms by (simp add: en_wf_def)
  have store: "\<exists>r en'. store_vset cl ctx src en1 = (r, en') \<and> en_wf en'"
    if "vi_wf v1" "en_index en1 = Some v1" "en_kv en1 = en_kv en" for v1 en1
  proof -
    obtain r en' where st: "store_vset cl ctx src en1 = (r, en')" by (cases "store_vset cl ctx src en1")
    from store_vset_wf [OF that(1,2) this] that(3) assms have "en_wf en'" by (auto simp: en_wf_def)
    with st show ?thesis by blast
  qed
  show ?thesis
  proof (cases "src = kClient")
    case False
    with Some store [OF wf Some refl] show ?thesis by (auto simp: apply_vset_def)
  next
    case True
    from evict_loop_returns [OF wf Some, of cl "rc_user_key ctx" src] obtain res where
      loop: "evict_loop cl (rc_user_key ctx) src en = Some res" and
      res: "case res of
          Inl (ar, en') \<Rightarrow> \<not> ar_ok ar \<and> en_kv en' = en_kv en
            \<and> (\<exists>v' n. en_index en' = Some v' \<and> evicts v (Suc n) v')
        | Inr en' \<Rightarrow> en_kv en' = en_kv en
            \<and> (\<exists>v'. en_index en' = Some v' \<and> \<not> NeedsRoomFor v' (rc_user_key ctx)
                  \<and> evicts v (evict_count v (rc_user_key ctx)) v')"
      by blast
    show ?thesis
    proof (cases res)
      case (Inl p)
      with res assms have "en_wf (snd p)" by (auto simp: en_wf_def evicts_def)
      with True Some loop Inl show ?thesis by (cases p) (simp add: apply_vset_def)
    next
      case (Inr en1)
      with res obtain v1 where "vi_wf v1" "en_index en1 = Some v1" "en_kv en1 = en_kv en"
        by (auto simp: evicts_def)
      from store [OF this] True Some loop Inr show ?thesis by (auto simp: apply_vset_def)
    qed
  qed
qed

lemma ApplyMutation_wf:
  assumes "en_wf en"
  shows "\<exists>r en'. ApplyMutation cl ctx src en = Some (r, en') \<and> en_wf en'"
proof -
  have "en_wf (snd (apply_set cl ctx src en))" "en_wf (snd (apply_del cl ctx src en))"
    "en_wf (snd (apply_vdel cl ctx src en))"
    using apply_set_wf [OF assms] apply_del_wf [OF assms] apply_vdel_wf [OF assms]
    by (metis prod.collapse)+
  with apply_vset_wf [OF assms, of cl ctx src] assms show ?thesis
    by (cases "cmd ctx") (auto simp: ApplyMutation_def intro: prod.collapse [symmetric])
qed

section \<open>What a successful client VSET does\<close>

lemma store_vset_ok:
  assumes "en_index en = Some v" and "store_vset cl ctx src en = (r, en')" and "ar_ok r"
  obtains v' where "VNodeIndex_Set (cl_usearch cl) v (vector_blob ctx) (rc_user_key ctx)
      (rc_question ctx) (rc_answer ctx) = (ViOk, v')" "en_index en' = Some v'" "en_kv en' = en_kv en"
proof -
  obtain st v' where set: "VNodeIndex_Set (cl_usearch cl) v (vector_blob ctx) (rc_user_key ctx)
      (rc_question ctx) (rc_answer ctx) = (st, v')" by (metis surj_pair)
  with assms have "st = ViOk" by (auto simp: store_vset_def split: if_splits)
  with set assms have "log_mutation cl ctx src ApplyResult_init (en\<lparr>en_index := Some v'\<rparr>) = (r, en')"
    by (simp add: store_vset_def)
  from log_mutation_frame [OF this] set \<open>st = ViOk\<close> that [of v'] show ?thesis by simp
qed

lemma client_vset_ok:
  assumes wf: "vi_wf v" and ix: "en_index en = Some v" and c: "cmd ctx = kVset"
    and app: "ApplyMutation cl ctx kClient en = Some (r, en')" and ok: "ar_ok r"
  obtains v1 v' where "evicts v (evict_count v (rc_user_key ctx)) v1"
    "\<not> NeedsRoomFor v1 (rc_user_key ctx)"
    "VNodeIndex_Set (cl_usearch cl) v1 (vector_blob ctx) (rc_user_key ctx)
      (rc_question ctx) (rc_answer ctx) = (ViOk, v')"
    "en_index en' = Some v'" "en_kv en' = en_kv en"
proof -
  from evict_loop_returns [OF wf ix, of cl "rc_user_key ctx" kClient] obtain res where
    loop: "evict_loop cl (rc_user_key ctx) kClient en = Some res" and
    res: "case res of
        Inl (ar, en') \<Rightarrow> \<not> ar_ok ar \<and> en_kv en' = en_kv en
          \<and> (\<exists>v' n. en_index en' = Some v' \<and> evicts v (Suc n) v')
      | Inr en' \<Rightarrow> en_kv en' = en_kv en
          \<and> (\<exists>v'. en_index en' = Some v' \<and> \<not> NeedsRoomFor v' (rc_user_key ctx)
                \<and> evicts v (evict_count v (rc_user_key ctx)) v')"
    by blast
  show ?thesis
  proof (cases res)
    case (Inl p)
    with res app c ix loop ok show ?thesis by (auto simp: ApplyMutation_def apply_vset_def)
  next
    case (Inr en1)
    with res obtain v1 where v1: "en_kv en1 = en_kv en" "en_index en1 = Some v1"
      "\<not> NeedsRoomFor v1 (rc_user_key ctx)" "evicts v (evict_count v (rc_user_key ctx)) v1"
      by auto
    have "store_vset cl ctx kClient en1 = (r, en')"
      using app c ix loop Inr by (simp add: ApplyMutation_def apply_vset_def)
    from store_vset_ok [OF v1(2) this ok] obtain v' where
      "VNodeIndex_Set (cl_usearch cl) v1 (vector_blob ctx) (rc_user_key ctx)
         (rc_question ctx) (rc_answer ctx) = (ViOk, v')"
      "en_index en' = Some v'" "en_kv en' = en_kv en1" .
    with v1 that show ?thesis by simp
  qed
qed

lemma Set_ok_size:
  assumes wf: "vi_wf v" and set: "VNodeIndex_Set api v b k q a = (ViOk, v')"
  shows "VNodeStorage_size (vi_storage v') =
     (if vi_view v k = None then Suc (VNodeStorage_size (vi_storage v)) else VNodeStorage_size (vi_storage v))"
    and "vi_max_entries v' = vi_max_entries v" and "k \<noteq> []"
proof -
  note d = vi_wf_D [OF wf]
  from set d(5) have "VNodeStorage_size (vi_storage v') =
     (if vi_view v k = None then Suc (VNodeStorage_size (vi_storage v)) else VNodeStorage_size (vi_storage v))
     \<and> vi_max_entries v' = vi_max_entries v"
  proof (cases rule: Set_cases)
    case (Stored i s)
    then show ?thesis using Put_size [OF d(1) Stored(2)] by (simp add: vi_view_None [OF d(2)])
  qed auto
  then show "VNodeStorage_size (vi_storage v') =
     (if vi_view v k = None then Suc (VNodeStorage_size (vi_storage v)) else VNodeStorage_size (vi_storage v))"
    "vi_max_entries v' = vi_max_entries v" by blast+
  show "k \<noteq> []" using set by (auto simp: VNodeIndex_Set_def)
qed

lemma evicts_size:
  "vi_wf v \<Longrightarrow> evicts v n v' \<Longrightarrow> VNodeStorage_size (vi_storage v') = VNodeStorage_size (vi_storage v) - n"
  by (simp add: vi_size_ids evicts_def)

lemma client_vset_capacity:
  assumes wf: "vi_wf v" and ix: "en_index en = Some v" and c: "cmd ctx = kVset"
    and app: "ApplyMutation cl ctx kClient en = Some (r, en')" and ok: "ar_ok r"
    and cap: "vi_max_entries v \<noteq> 0"
  shows "\<exists>v'. en_index en' = Some v' \<and> vi_max_entries v' = vi_max_entries v
     \<and> VNodeStorage_size (vi_storage v') \<le> max (vi_max_entries v) (VNodeStorage_size (vi_storage v))"
proof -
  from client_vset_ok [OF wf ix c app ok] obtain v1 v' where
    ev: "evicts v (evict_count v (rc_user_key ctx)) v1" and room: "\<not> NeedsRoomFor v1 (rc_user_key ctx)"
    and set: "VNodeIndex_Set (cl_usearch cl) v1 (vector_blob ctx) (rc_user_key ctx)
      (rc_question ctx) (rc_answer ctx) = (ViOk, v')" and en': "en_index en' = Some v'" .
  have wf1: "vi_wf v1" and m: "vi_max_entries v1 = vi_max_entries v" using ev by (auto simp: evicts_def)
  note sz = Set_ok_size [OF wf1 set]
  have "VNodeStorage_size (vi_storage v') \<le> max (vi_max_entries v) (VNodeStorage_size (vi_storage v))"
  proof (cases "vi_view v1 (rc_user_key ctx) = None")
    case True
    with room sz(3) m cap have "VNodeStorage_size (vi_storage v1) < vi_max_entries v"
      by (simp add: NeedsRoomFor_iff [OF vi_wf_D(2) [OF wf1]])
    with True sz(1) show ?thesis by simp
  next
    case False
    with sz(1) evicts_size [OF wf ev] show ?thesis by simp
  qed
  with en' sz(2) m show ?thesis by simp
qed

text \<open>
  Exact LRU: a new key pushes out the least recently used nodes that exceed the capacity, no others,
  and becomes the most recently used one.
\<close>

lemma client_vset_lru:
  assumes wf: "vi_wf v" and ix: "en_index en = Some v" and c: "cmd ctx = kVset"
    and app: "ApplyMutation cl ctx kClient en = Some (r, en')" and ok: "ar_ok r"
    and new: "vi_view v (rc_user_key ctx) = None"
  shows "\<exists>v'. en_index en' = Some v'
     \<and> lru_ids (vi_lru v') =
         drop (evict_count v (rc_user_key ctx)) (lru_ids (vi_lru v)) @ [next_id (vi_storage v)]
     \<and> um_find (by_id (vi_storage v')) =
         (um_find (by_id (vi_storage v)) |`
            (- set (take (evict_count v (rc_user_key ctx)) (lru_ids (vi_lru v)))))
           (next_id (vi_storage v) \<mapsto>
              \<lparr>vn_id = next_id (vi_storage v), vn_user_key = rc_user_key ctx,
               vn_question = rc_question ctx, vn_answer = rc_answer ctx\<rparr>)"
proof -
  from client_vset_ok [OF wf ix c app ok] obtain v1 v' where
    ev: "evicts v (evict_count v (rc_user_key ctx)) v1"
    and set: "VNodeIndex_Set (cl_usearch cl) v1 (vector_blob ctx) (rc_user_key ctx)
      (rc_question ctx) (rc_answer ctx) = (ViOk, v')" and en': "en_index en' = Some v'" .
  have wf1: "vi_wf v1" and nid: "next_id (vi_storage v1) = next_id (vi_storage v)"
    using ev by (auto simp: evicts_def)
  note d = vi_wf_D [OF wf1]
  have new1: "um_find (by_user_key (vi_storage v1)) (rc_user_key ctx) = None"
    using evicts_view_None [OF wf ev new] by (simp add: vi_view_None [OF d(2)])
  from set d(5) show ?thesis
  proof (cases rule: Set_cases)
    case (Stored i s)
    have i: "i = next_id (vi_storage v)" "next_id (vi_storage v1) \<noteq> 0"
      using Stored(2) new1 nid by (auto elim!: Put_cases)
    then have "i \<notin> set (lru_ids (vi_lru v1))"
      using st_fresh_new [OF d(1) i(2)] d(4) nid by (simp add: live_ids_def)
    then have "filter (\<lambda>j. j \<noteq> i) (lru_ids (vi_lru v1)) = lru_ids (vi_lru v1)"
      by (auto intro: filter_True)
    with Stored i en' ev d(3) Put_find(1) [OF d(1) Stored(2)] show ?thesis
      by (simp add: lru.ids_push evicts_def)
  qed auto
qed

section \<open>Concrete runs\<close>

text \<open>A cache of capacity one that holds one entry, and a request for a second one.\<close>

definition sample_classes :: "(flat_index, bytes, unit) classes" where
  "sample_classes = \<lparr>cl_usearch = flat_api, cl_aof = memory_writer,
     cl_repl = \<lparr>ro_has_slaves = (\<lambda>_. False), ro_FeedEncodedFrame = (\<lambda>r _. r)\<rparr>\<rparr>"

definition sample_full :: "flat_index VNodeIndex" where
  "sample_full = sample_cache\<lparr>vi_max_entries := 1\<rparr>"

definition sample_engine :: "(flat_index, bytes, unit) engine" where
  "sample_engine = \<lparr>en_index = Some sample_full, en_kv = Some [], en_wal = None, en_repl = None\<rparr>"

definition sample_vset :: RequestContext where
  "sample_vset = default_RequestContext\<lparr>cmd := kVset, vector_blob := ''abcd'', rc_user_key := ''w'',
     rc_question := ''q2'', rc_answer := ''a2''\<rparr>"

lemma sample_full_wf: "vi_wf sample_full"
  using sample_cache_wf by (simp add: vi_wf_def sample_full_def)

lemma sample_engine_wf: "en_wf sample_engine"
  using sample_full_wf by (simp add: en_wf_def sample_engine_def)

lemma sample_room: "NeedsRoomFor sample_full ''w''" "vi_view sample_full ''w'' = None"
  by (simp_all add: NeedsRoomFor_def vi_view_def sample_full_def sample_cache_def VNodeStorage_size_def
      VNodeStorage_GetByUserKey_def um_find_def)

lemma sample_peek: "PeekLruUserKey sample_full = (Inr ''u'', sample_full)"
  by (simp add: PeekLruUserKey_wf [OF sample_full_wf])
     (simp add: sample_full_def sample_cache_def sample_entry_def lru_ids_def um_find_def)

definition sample_evicted :: "flat_index VNodeIndex" where
  "sample_evicted = sample_full\<lparr>vi_storage := \<lparr>next_id = 2, by_id = [], by_user_key = []\<rparr>,
     vi_lru := \<lparr>lo_order = [], lo_map = [], lo_next = 1\<rparr>,
     vi_index := Some \<lparr>ue_impl = Some (1, []), ue_dimensions = 1, ue_capacity = 4, ue_viewed = False\<rparr>\<rparr>"

lemma sample_del: "VNodeIndex_Del flat_api sample_full ''u'' = (ViOk, sample_evicted)"
  by (simp add: VNodeIndex_Del_def sample_full_def sample_evicted_def sample_cache_def sample_entry_def
      VNodeStorage_GetByUserKey_def VNodeStorage_GetById_def VNodeStorage_DelByUserKey_def um_find_def
      um_erase_def LruOrder_Erase_def erase_node_def USearchEmbedIndex_Del_def usearchDel_def flat_api_def Let_def)

lemma sample_no_room: "\<not> NeedsRoomFor sample_evicted ''w''"
  by (simp add: NeedsRoomFor_def sample_evicted_def sample_full_def sample_cache_def VNodeStorage_size_def
      VNodeStorage_GetByUserKey_def um_find_def)

lemma sample_evict_loop:
  "evict_loop sample_classes ''w'' kClient sample_engine =
     Some (Inr (sample_engine\<lparr>en_index := Some sample_evicted\<rparr>))"
proof -
  have ix: "en_index sample_engine = Some sample_full" by (simp add: sample_engine_def)
  have del: "apply_vdel sample_classes (del_ctx ''u'') kClient sample_engine =
      (ApplyResult_init\<lparr>ar_integer_reply := 1, ar_ok := True\<rparr>, sample_engine\<lparr>en_index := Some sample_evicted\<rparr>)"
    by (simp add: apply_vdel_def sample_engine_def sample_classes_def del_ctx_def sample_del log_mutation_def Let_def)
  have "evict_loop sample_classes ''w'' kClient (sample_engine\<lparr>en_index := Some sample_evicted\<rparr>) =
      Some (Inr (sample_engine\<lparr>en_index := Some sample_evicted\<rparr>))"
    by (rule evict_loop_done [OF _ sample_no_room]) simp
  with evict_loop_step [OF ix sample_room(1) sample_peek _ del] show ?thesis by simp
qed

lemma sample_vset_ok:
  obtains r en' where "ApplyMutation sample_classes sample_vset kClient sample_engine = Some (r, en')" "ar_ok r"
proof -
  have "fst (VNodeIndex_Set flat_api sample_evicted ''abcd'' ''w'' ''q2'' ''a2'') = ViOk"
    by (simp add: sample_evicted_def sample_full_def sample_cache_def VNodeIndex_Set_def ParseFloatBlob_def
        EnsureIndex_def VNodeStorage_Put_def um_find_def USearchEmbedIndex_Add_def usearchAdd_def flat_api_def Let_def)
  then have "ar_ok (fst (store_vset sample_classes sample_vset kClient
      (sample_engine\<lparr>en_index := Some sample_evicted\<rparr>)))"
    by (cases "VNodeIndex_Set flat_api sample_evicted ''abcd'' ''w'' ''q2'' ''a2''")
       (simp add: store_vset_def sample_classes_def sample_vset_def sample_engine_def log_mutation_def Let_def)
  moreover have "ApplyMutation sample_classes sample_vset kClient sample_engine =
      Some (store_vset sample_classes sample_vset kClient (sample_engine\<lparr>en_index := Some sample_evicted\<rparr>))"
    using sample_evict_loop
    by (simp add: ApplyMutation_def apply_vset_def sample_vset_def) (simp add: sample_engine_def)
  ultimately show ?thesis using that by (metis prod.collapse)
qed

section \<open>Properties\<close>

text \<open>
  C20. Every mutation returns, its eviction loop included, and keeps the invariants of both stores,
  whatever the embedding index, the AOF and the replicas answer.
\<close>

theorem mutation_returns:
  assumes "en_wf en"
  shows "\<exists>r en'. ApplyMutation cl ctx src en = Some (r, en') \<and> en_wf en'"
  using assms by (rule ApplyMutation_wf)

theorem mutation_returns_witness:
  "en_wf sample_engine \<and>
   (\<exists>r en'. ApplyMutation sample_classes sample_vset kClient sample_engine = Some (r, en') \<and> en_wf en')"
  using mutation_returns [OF sample_engine_wf] sample_engine_wf by blast

text \<open>
  Capacity: a successful client VSET never grows the cache beyond its configured maximum; a cache
  that was already larger, as after loading, does not grow.
\<close>

lemma vset_respects_capacity:
  assumes "vi_wf v" and "en_index en = Some v" and "cmd ctx = kVset"
    and "ApplyMutation cl ctx kClient en = Some (r, en')" and "ar_ok r" and "vi_max_entries v \<noteq> 0"
  shows "\<exists>v'. en_index en' = Some v' \<and> vi_max_entries v' = vi_max_entries v
     \<and> VNodeStorage_size (vi_storage v') \<le> max (vi_max_entries v) (VNodeStorage_size (vi_storage v))"
  using assms by (rule client_vset_capacity)

text \<open>
  C10. Exact LRU eviction: a successful client VSET of a new key removes exactly the least recently used
  nodes in excess of the capacity, keeps every other node as it was, and makes the new node the most
  recently used one.
\<close>

theorem vset_evicts_exactly_lru:
  assumes "vi_wf v" and "en_index en = Some v" and "cmd ctx = kVset"
    and "ApplyMutation cl ctx kClient en = Some (r, en')" and "ar_ok r"
    and "vi_view v (rc_user_key ctx) = None"
  shows "\<exists>v'. en_index en' = Some v'
     \<and> lru_ids (vi_lru v') =
         drop (evict_count v (rc_user_key ctx)) (lru_ids (vi_lru v)) @ [next_id (vi_storage v)]
     \<and> um_find (by_id (vi_storage v')) =
         (um_find (by_id (vi_storage v)) |`
            (- set (take (evict_count v (rc_user_key ctx)) (lru_ids (vi_lru v)))))
           (next_id (vi_storage v) \<mapsto>
              \<lparr>vn_id = next_id (vi_storage v), vn_user_key = rc_user_key ctx,
               vn_question = rc_question ctx, vn_answer = rc_answer ctx\<rparr>)"
  using assms by (rule client_vset_lru)

theorem vset_evicts_exactly_lru_witness:
  "\<exists>r en' v'. ApplyMutation sample_classes sample_vset kClient sample_engine = Some (r, en')
     \<and> ar_ok r \<and> en_index en' = Some v' \<and> lru_ids (vi_lru sample_full) = [1] \<and> lru_ids (vi_lru v') = [2]"
proof -
  obtain r en' where app: "ApplyMutation sample_classes sample_vset kClient sample_engine = Some (r, en')"
    and ok: "ar_ok r" by (rule sample_vset_ok)
  have s: "en_index sample_engine = Some sample_full" "cmd sample_vset = kVset" "rc_user_key sample_vset = ''w''"
    "lru_ids (vi_lru sample_full) = [1]" "next_id (vi_storage sample_full) = 2"
    by (simp_all add: sample_engine_def sample_vset_def sample_full_def sample_cache_def lru_ids_def)
  have "evict_count sample_full ''w'' = 1"
    using sample_room by (simp add: evict_count_def) (simp add: sample_full_def sample_cache_def VNodeStorage_size_def)
  with vset_evicts_exactly_lru [OF sample_full_wf s(1,2) app ok] s(3-5) sample_room(2) app ok
  show ?thesis by fastforce
qed

text \<open>
  A client VSET whose vector blob is malformed is refused, yet on a full cache it has already evicted
  a node by then: the cache shrinks although nothing is stored.
\<close>

lemma refused_vset_still_evicts:
  assumes "vi_wf v" and "en_index en = Some v" and "cmd ctx = kVset"
    and "NeedsRoomFor v (rc_user_key ctx)" and "ParseFloatBlob (vector_blob ctx) = None"
  shows "\<exists>r en' v'. ApplyMutation cl ctx kClient en = Some (r, en') \<and> \<not> ar_ok r
     \<and> en_index en' = Some v' \<and> VNodeStorage_size (vi_storage v') < VNodeStorage_size (vi_storage v)"
proof -
  let ?k = "rc_user_key ctx"
  have k: "?k \<noteq> []" "VNodeStorage_size (vi_storage v) \<noteq> 0" "evict_count v ?k \<noteq> 0"
    using assms(4) NeedsRoomFor_iff [OF vi_wf_D(2) [OF assms(1)]] by (auto simp: evict_count_def)
  have shrinks: "VNodeStorage_size (vi_storage v') < VNodeStorage_size (vi_storage v)"
    if "evicts v n v'" "n \<noteq> 0" for n v'
    using evicts_size [OF assms(1) that(1)] that(2) k(2) by simp
  obtain res where loop: "evict_loop cl ?k kClient en = Some res" and
    res: "case res of
        Inl (ar, en') \<Rightarrow> \<not> ar_ok ar \<and> en_kv en' = en_kv en
          \<and> (\<exists>v' n. en_index en' = Some v' \<and> evicts v (Suc n) v')
      | Inr en' \<Rightarrow> en_kv en' = en_kv en
          \<and> (\<exists>v'. en_index en' = Some v' \<and> \<not> NeedsRoomFor v' ?k \<and> evicts v (evict_count v ?k) v')"
    using evict_loop_returns [OF assms(1,2), of cl ?k kClient] by blast
  show ?thesis
  proof (cases res)
    case (Inl p)
    with loop res assms(2,3) shrinks show ?thesis
      by (cases p) (fastforce simp: ApplyMutation_def apply_vset_def)
  next
    case (Inr en1)
    with res obtain v1 where v1: "en_index en1 = Some v1" "evicts v (evict_count v ?k) v1" by auto
    have "store_vset cl ctx kClient en1 =
        (mut_fail ApplyResult_init (vset_error ViBadVectorSize), en1\<lparr>en_index := Some v1\<rparr>)"
      using v1(1) k(1) assms(5) by (simp add: store_vset_def VNodeIndex_Set_def)
    with loop Inr assms(2,3) shrinks [OF v1(2) k(3)] show ?thesis
      by (simp add: ApplyMutation_def apply_vset_def)
  qed
qed

end
