(* ===== verification/Replay.thy ===== *)
theory Replay
  imports Mutation
begin

text \<open>
  \<^verbatim>\<open>WalManager::Replay\<close> (src/src/persist/WalManager.cc): at start-up the AOF is decoded frame by frame and
  every write is applied again, without logging. The theory relates the frames a client mutation logs
  to the state that replaying them reaches.
\<close>

section \<open>Model\<close>

datatype replay_result = RpStatus WmStatus | RpLengthError

text \<open>The loop over the file contents, from the current offset on.\<close>

function replay_loop ::
  "('ix, 'w, 'r) classes \<Rightarrow> bytes \<Rightarrow> ('ix, 'w, 'r) engine
     \<Rightarrow> (replay_result \<times> ('ix, 'w, 'r) engine) option" where
  "replay_loop cl buf en =
     (if buf = [] then Some (RpStatus WmOk, en)
      else case DecodeArrayOfBulk buf of
        DNeedMore \<Rightarrow> Some (RpStatus WmOk, en)
      | DError \<Rightarrow> Some (RpStatus WmOk, en)
      | DLengthError \<Rightarrow> Some (RpLengthError, en)
      | DOk tokens consumed \<Rightarrow>
          (case FromTokens (- 1) tokens default_RequestContext of
             (fs, ctx) \<Rightarrow>
               if fs \<noteq> RcOk then Some (RpStatus WmOk, en)
               else case ApplyMutation cl ctx kAofReplay (en\<lparr>en_wal := None, en_repl := None\<rparr>) of
                 None \<Rightarrow> None
               | Some (ar, en1) \<Rightarrow>
                   let en2 = en1\<lparr>en_wal := en_wal en, en_repl := en_repl en\<rparr>
                   in if \<not> ar_ok ar then Some (RpStatus WmError, en2)
                      else replay_loop cl (drop consumed buf) en2))"
  by pat_completeness auto
termination
  by (relation "measure (\<lambda>(cl, buf, en). length buf)") (auto dest: DecodeArrayOfBulk_take)

declare replay_loop.simps [simp del]

text \<open>\<open>file\<close>: the contents of the AOF, None when it cannot be opened.\<close>

definition WalManager_Replay ::
  "('ix, 'w, 'r) classes \<Rightarrow> 'w WalManager \<Rightarrow> bytes option \<Rightarrow> ('ix, 'w, 'r) engine
     \<Rightarrow> (replay_result \<times> ('ix, 'w, 'r) engine) option" where
  "WalManager_Replay cl m file en =
     (if \<not> wm_enabled m then Some (RpStatus WmNotConfigured, en)
      else if en_index en = None \<or> en_kv en = None then Some (RpStatus WmError, en)
      else case file of
             None \<Rightarrow> Some (RpStatus WmOk, en)
           | Some buf \<Rightarrow> replay_loop cl buf en)"

section \<open>Replay looks only at the data\<close>

definition vi_core :: "'ix VNodeIndex \<Rightarrow> nat \<times> nat \<times> VNodeStorage \<times> 'ix USearchEmbedIndex option" where
  "vi_core v = (vi_default_capacity v, vi_dim v, vi_storage v, vi_index v)"

text \<open>The same stored data: everything but access order, capacity limit, AOF and replicas.\<close>

definition same_data :: "('ix, 'w, 'r) engine \<Rightarrow> ('ix, 'w, 'r) engine \<Rightarrow> bool" where
  "same_data en e \<longleftrightarrow> map_option vi_core (en_index en) = map_option vi_core (en_index e) \<and> en_kv en = en_kv e"

lemma EnsureIndex_core:
  assumes "vi_core u = vi_core v"
  shows "fst (EnsureIndex api u d) = fst (EnsureIndex api v d)"
    and "vi_core (snd (EnsureIndex api u d)) = vi_core (snd (EnsureIndex api v d))"
  using assms by (auto simp: EnsureIndex_def vi_core_def Let_def split: option.split)

lemma Set_core:
  assumes core: "vi_core u = vi_core v"
  shows "fst (VNodeIndex_Set api u b k q a) = fst (VNodeIndex_Set api v b k q a)"
    and "vi_core (snd (VNodeIndex_Set api u b k q a)) = vi_core (snd (VNodeIndex_Set api v b k q a))"
proof -
  have "fst (VNodeIndex_Set api u b k q a) = fst (VNodeIndex_Set api v b k q a) \<and>
    vi_core (snd (VNodeIndex_Set api u b k q a)) = vi_core (snd (VNodeIndex_Set api v b k q a))"
  proof (cases "k = [] \<or> ParseFloatBlob b = None")
    case True
    with core show ?thesis by (auto simp: VNodeIndex_Set_def)
  next
    case False
    then obtain d where d: "k \<noteq> []" "ParseFloatBlob b = Some d" by auto
    obtain s1 u1 where u1: "EnsureIndex api u d = (s1, u1)" by (cases "EnsureIndex api u d")
    obtain s2 v1 where v1: "EnsureIndex api v d = (s2, v1)" by (cases "EnsureIndex api v d")
    have eq: "s1 = s2" "vi_core u1 = vi_core v1" using EnsureIndex_core [OF core, of api d] u1 v1 by simp_all
    obtain r s where put: "VNodeStorage_Put (vi_storage v1) (cache_node k q a) = (r, s)"
      by (cases "VNodeStorage_Put (vi_storage v1) (cache_node k q a)")
    from eq put show ?thesis
      by (cases r) (auto simp: VNodeIndex_Set_def d u1 v1 vi_core_def split: VsStatus.split option.split prod.split)
  qed
  then show "fst (VNodeIndex_Set api u b k q a) = fst (VNodeIndex_Set api v b k q a)"
    "vi_core (snd (VNodeIndex_Set api u b k q a)) = vi_core (snd (VNodeIndex_Set api v b k q a))"
    by blast+
qed

lemma Del_core:
  assumes "vi_core u = vi_core v"
  shows "fst (VNodeIndex_Del api u k) = fst (VNodeIndex_Del api v k)"
    and "vi_core (snd (VNodeIndex_Del api u k)) = vi_core (snd (VNodeIndex_Del api v k))"
  using assms by (auto simp: VNodeIndex_Del_def vi_core_def Let_def split: sum.split prod.split)

text \<open>A replayed write on the data it changes.\<close>

lemma replay_vset:
  assumes "cmd ctx = kVset" and "en_index e = Some v"
  shows "ApplyMutation cl ctx kAofReplay e =
    (case VNodeIndex_Set (cl_usearch cl) v (vector_blob ctx) (rc_user_key ctx) (rc_question ctx)
            (rc_answer ctx) of
       (st, v') \<Rightarrow> Some (if st = ViOk then ApplyResult_init\<lparr>ar_ok := True\<rparr>
                         else mut_fail ApplyResult_init (vset_error st), e\<lparr>en_index := Some v'\<rparr>))"
  using assms by (simp add: ApplyMutation_def apply_vset_def store_vset_def split: prod.split)

lemma replay_vdel:
  assumes "cmd ctx = kVdel" and "en_index e = Some v"
    and "VNodeIndex_Del (cl_usearch cl) v (rc_user_key ctx) = (ViOk, v')"
  shows "ApplyMutation cl ctx kAofReplay e =
    Some (ApplyResult_init\<lparr>ar_integer_reply := 1, ar_ok := True\<rparr>, e\<lparr>en_index := Some v'\<rparr>)"
  using assms by (simp add: ApplyMutation_def apply_vdel_def)

lemma replay_set:
  assumes "cmd ctx = kSet" and "en_kv e = Some m" and "key ctx \<noteq> []"
    and "KvStore_Set m (key ctx) (element ctx) = (KvOk, m')"
  shows "ApplyMutation cl ctx kAofReplay e =
    Some (ApplyResult_init\<lparr>ar_ok := True\<rparr>, e\<lparr>en_kv := Some m'\<rparr>)"
  using assms by (simp add: ApplyMutation_def apply_set_def)

lemma replay_del:
  assumes "cmd ctx = kDel" and "en_kv e = Some m" and "key ctx \<noteq> []"
    and "KvStore_Del m (key ctx) = (KvOk, m')"
  shows "ApplyMutation cl ctx kAofReplay e =
    Some (ApplyResult_init\<lparr>ar_integer_reply := 1, ar_ok := True\<rparr>, e\<lparr>en_kv := Some m'\<rparr>)"
  using assms by (simp add: ApplyMutation_def apply_del_def)

section \<open>Replaying frames\<close>

abbreviation write_frame :: "RequestContext \<Rightarrow> bytes" where
  "write_frame ctx \<equiv> resp_array (write_tokens ctx)"

fun replay_ctxs ::
  "('ix, 'w, 'r) classes \<Rightarrow> RequestContext list \<Rightarrow> ('ix, 'w, 'r) engine \<Rightarrow> ('ix, 'w, 'r) engine option" where
  "replay_ctxs cl [] e = Some e"
| "replay_ctxs cl (c # cs) e =
     (case ApplyMutation cl c kAofReplay e of
        Some (ar, e') \<Rightarrow> if ar_ok ar then replay_ctxs cl cs e' else None
      | None \<Rightarrow> None)"

lemma replay_ctxs_append:
  "replay_ctxs cl (xs @ ys) e = Option.bind (replay_ctxs cl xs e) (replay_ctxs cl ys)"
  by (induction xs arbitrary: e) (auto split: option.split)

text \<open>The wire form of a write loses nothing that a mutation reads.\<close>

lemma ApplyMutation_write_part:
  assumes "is_write (cmd ctx)"
  shows "ApplyMutation cl (write_part fd ctx) kAofReplay e = ApplyMutation cl ctx kAofReplay e"
  using assms
  by (auto elim!: is_write_cases
      simp: ApplyMutation_def write_part_def ClearOut_def apply_set_def apply_del_def apply_vset_def
        apply_vdel_def store_vset_def Let_def split: option.split prod.split)

text \<open>Replay neither reads nor changes the AOF and the replicas.\<close>

lemma replay_sinks:
  assumes "ApplyMutation cl c kAofReplay e = Some (ar, e')"
  shows "ApplyMutation cl c kAofReplay (e\<lparr>en_wal := x, en_repl := y\<rparr>) =
           Some (ar, e'\<lparr>en_wal := x, en_repl := y\<rparr>)"
    and "en_wal e' = en_wal e" and "en_repl e' = en_repl e"
proof -
  have "ApplyMutation cl c kAofReplay (e\<lparr>en_wal := x, en_repl := y\<rparr>) =
           Some (ar, e'\<lparr>en_wal := x, en_repl := y\<rparr>) \<and> en_wal e' = en_wal e \<and> en_repl e' = en_repl e"
    using assms
    by (cases "cmd c")
       (auto simp: ApplyMutation_def apply_set_def apply_del_def apply_vset_def apply_vdel_def
          store_vset_def Let_def split: option.splits prod.splits if_splits)
  then show "ApplyMutation cl c kAofReplay (e\<lparr>en_wal := x, en_repl := y\<rparr>) =
           Some (ar, e'\<lparr>en_wal := x, en_repl := y\<rparr>)"
    "en_wal e' = en_wal e" "en_repl e' = en_repl e" by blast+
qed

lemma replay_loop_frames:
  assumes "\<forall>c \<in> set cs. write_ok c" and "replay_ctxs cl cs e = Some e'"
  shows "replay_loop cl (concat (map write_frame cs) @ rest) e = replay_loop cl rest e'"
  using assms
proof (induction cs arbitrary: e)
  case (Cons c cs)
  then have ok: "write_ok c" by simp
  from Cons.prems(2) obtain ar e1 where app: "ApplyMutation cl c kAofReplay e = Some (ar, e1)"
    and ar: "ar_ok ar" and rest: "replay_ctxs cl cs e1 = Some e'"
    by (auto split: option.splits if_splits)
  let ?buf = "write_frame c @ concat (map write_frame cs) @ rest"
  have w: "is_write (cmd c)" using ok by (simp add: write_ok_def)
  note dec = write_frame_decodes [OF ok EncodeWriteCommand_tokens [OF w]]
  note sinks = replay_sinks [OF app]
  have "e1\<lparr>en_wal := None, en_repl := None, en_wal := en_wal e, en_repl := en_repl e\<rparr> = e1"
    using sinks(2,3) by simp
  then have "replay_loop cl ?buf e = replay_loop cl (concat (map write_frame cs) @ rest) e1"
    using dec(1) [of "concat (map write_frame cs) @ rest"] dec(2) [of "- 1" default_RequestContext] ar
    by (subst replay_loop.simps)
       (simp add: Let_def ApplyMutation_write_part [OF w] sinks(1) [of None None])
  with Cons.IH [OF _ rest] Cons.prems(1) show ?case by simp
qed simp

section \<open>Every client mutation is replayable from what it logs\<close>

text \<open>The AOF is on and holds the bytes \<open>bs\<close>.\<close>

definition wal_at :: "('w \<Rightarrow> bytes) \<Rightarrow> ('ix, 'w, 'r) engine \<Rightarrow> bytes \<Rightarrow> bool" where
  "wal_at logged en bs \<longleftrightarrow>
     (\<exists>m w. en_wal en = Some m \<and> wm_enabled m \<and> wm_writer m = Some w \<and> logged w = bs)"

lemma wal_at_index [simp]:
  "wal_at logged (en\<lparr>en_index := x\<rparr>) bs = wal_at logged en bs"
  "wal_at logged (en\<lparr>en_kv := y\<rparr>) bs = wal_at logged en bs"
  by (simp_all add: wal_at_def)

lemma log_mutation_logs:
  assumes logs: "aof_logs (cl_aof cl) logged" and healthy: "aof_healthy (cl_aof cl)"
    and wal: "wal_at logged en bs" and w: "is_write (cmd ctx)"
    and log: "log_mutation cl ctx kClient out en = (r, en')"
  shows "ar_ok r" and "wal_at logged en' (bs @ write_frame ctx)"
proof -
  from wal obtain m wr where m: "en_wal en = Some m" "wm_enabled m" "wm_writer m = Some wr" "logged wr = bs"
    by (auto simp: wal_at_def)
  obtain st m' where app: "WalManager_AppendFrame (cl_aof cl) m (write_frame ctx) = (st, m')"
    by (cases "WalManager_AppendFrame (cl_aof cl) m (write_frame ctx)")
  have st: "st = WmOk"
    using AppendFrame_healthy [OF healthy m(3,2), of "write_frame ctx"] app by simp
  obtain wr' where wr': "wm_writer m' = Some wr'" "logged wr' = bs @ write_frame ctx" "wm_enabled m'"
    using AppendFrame_log [OF logs m(3) app] m(2,4) st by metis
  have "ar_ok r \<and> en_wal en' = Some m'"
    using log m(1,2) app st EncodeWriteCommand_tokens [OF w]
    by (auto simp: log_mutation_def Let_def split: if_splits option.splits)
  with wr' show "ar_ok r" "wal_at logged en' (bs @ write_frame ctx)"
    by (auto simp: wal_at_def)
qed

text \<open>Replaying \<open>cs\<close> takes any engine with the data of \<open>en\<close> to one with the data of \<open>en'\<close>.\<close>

definition replays ::
  "('ix, 'w, 'r) classes \<Rightarrow> ('ix, 'w, 'r) engine \<Rightarrow> RequestContext list \<Rightarrow> ('ix, 'w, 'r) engine \<Rightarrow> bool" where
  "replays cl en cs en' \<longleftrightarrow>
     (\<forall>e. same_data en e \<longrightarrow> (\<exists>e'. replay_ctxs cl cs e = Some e' \<and> same_data en' e'))"

lemma replays_Nil: "same_data en en' \<Longrightarrow> replays cl en [] en'"
  by (auto simp: replays_def same_data_def)

lemma replays_append: "replays cl en xs en1 \<Longrightarrow> replays cl en1 ys en2 \<Longrightarrow> replays cl en (xs @ ys) en2"
  unfolding replays_def replay_ctxs_append by (metis Option.bind.bind_lunit)

lemma same_data_cong:
  assumes "same_data en e" and "en_index en1 = en_index en" and "en_kv en1 = en_kv en"
  shows "same_data en1 e"
  using assms by (simp add: same_data_def)

lemma replays_vset:
  assumes c: "cmd ctx = kVset" and ix: "en_index en = Some v"
    and set: "VNodeIndex_Set (cl_usearch cl) v (vector_blob ctx) (rc_user_key ctx) (rc_question ctx)
            (rc_answer ctx) = (ViOk, v')"
    and en': "en_index en' = Some v'" "en_kv en' = en_kv en"
  shows "replays cl en [ctx] en'"
  unfolding replays_def
proof (intro allI impI)
  fix e assume same: "same_data en e"
  then obtain u where u: "en_index e = Some u" "vi_core u = vi_core v"
    using ix by (cases "en_index e") (auto simp: same_data_def)
  obtain st u' where su: "VNodeIndex_Set (cl_usearch cl) u (vector_blob ctx) (rc_user_key ctx)
      (rc_question ctx) (rc_answer ctx) = (st, u')" by (metis surj_pair)
  have "st = ViOk" "vi_core u' = vi_core v'"
    using Set_core [OF u(2), of "cl_usearch cl" "vector_blob ctx" "rc_user_key ctx" "rc_question ctx" "rc_answer ctx"]
      su set by simp_all
  then show "\<exists>e'. replay_ctxs cl [ctx] e = Some e' \<and> same_data en' e'"
    using same en' by (auto simp: replay_vset [OF c u(1)] su same_data_def)
qed

lemma replays_vdel:
  assumes c: "cmd ctx = kVdel" and ix: "en_index en = Some v"
    and del: "VNodeIndex_Del (cl_usearch cl) v (rc_user_key ctx) = (ViOk, v')"
    and en': "en_index en' = Some v'" "en_kv en' = en_kv en"
  shows "replays cl en [ctx] en'"
  unfolding replays_def
proof (intro allI impI)
  fix e assume same: "same_data en e"
  then obtain u where u: "en_index e = Some u" "vi_core u = vi_core v"
    using ix by (cases "en_index e") (auto simp: same_data_def)
  obtain st u' where su: "VNodeIndex_Del (cl_usearch cl) u (rc_user_key ctx) = (st, u')" by (metis surj_pair)
  have st: "st = ViOk" "vi_core u' = vi_core v'"
    using Del_core [OF u(2), of "cl_usearch cl" "rc_user_key ctx"] su del by simp_all
  then show "\<exists>e'. replay_ctxs cl [ctx] e = Some e' \<and> same_data en' e'"
    using same en' su by (auto simp: replay_vdel [OF c u(1), of cl u'] same_data_def)
qed

text \<open>A cache that has never locked a dimension is empty.\<close>

definition vi_fresh :: "'ix VNodeIndex \<Rightarrow> bool" where
  "vi_fresh v \<longleftrightarrow> (vi_index v = None \<longrightarrow> vi_storage v = VNodeStorage_empty)"

definition keys_fit :: "'ix VNodeIndex \<Rightarrow> bool" where
  "keys_fit v \<longleftrightarrow> (\<forall>i n. um_find (by_id (vi_storage v)) i = Some n \<longrightarrow> length (vn_user_key n) < 2 ^ 63)"

definition vi_log_wf :: "'ix VNodeIndex \<Rightarrow> bool" where
  "vi_log_wf v \<longleftrightarrow> vi_wf v \<and> vi_fresh v \<and> keys_fit v"

text \<open>With a healthy index a VSET either stores the node or leaves the data alone.\<close>

lemma Set_total:
  assumes total: "usearch_total api" and wf: "vi_wf v" and fresh: "vi_fresh v"
    and set: "VNodeIndex_Set api v b k q a = (st, v')"
  shows "(st = ViOk \<and> vi_index v' \<noteq> None) \<or> (st \<noteq> ViOk \<and> vi_core v' = vi_core v)"
proof (cases "k = [] \<or> ParseFloatBlob b = None")
  case True
  with set show ?thesis by (auto simp: VNodeIndex_Set_def split: if_splits)
next
  case False
  then obtain d where d: "k \<noteq> []" "ParseFloatBlob b = Some d" by auto
  obtain est v1 where ens: "EnsureIndex api v d = (est, v1)" by (cases "EnsureIndex api v d")
  note fr = EnsureIndex_frame [OF ens vi_wf_D(5) [OF wf]]
  show ?thesis
  proof (cases "est = ViOk")
    case False
    then have "v1 = v" using ens by (auto simp: EnsureIndex_def Let_def split: option.splits if_splits)
    with False set d ens show ?thesis by (auto simp: VNodeIndex_Set_def)
  next
    case True
    then obtain e where e: "vi_index v1 = Some e" "vi_dim v1 = d" using fr(3) by auto
    have sto: "vi_storage v1 = vi_storage v" by (subst fr(1)) simp
    obtain r s where put: "VNodeStorage_Put (vi_storage v) (cache_node k q a) = (r, s)"
      by (cases "VNodeStorage_Put (vi_storage v) (cache_node k q a)")
    show ?thesis
    proof (cases r)
      case (Inl err)
      have "vi_index v \<noteq> None"
      proof
        assume "vi_index v = None"
        then have "vi_storage v = VNodeStorage_empty" using fresh by (simp add: vi_fresh_def)
        with put Inl d(1) show False
          by (simp add: VNodeStorage_Put_def VNodeStorage_empty_def umap_simps Let_def)
      qed
      then have "v1 = v" using ens by (auto simp: EnsureIndex_def)
      with put Inl set d ens True show ?thesis
        by (auto simp: VNodeIndex_Set_def vi_core_def dest: Put_error_same split: VsStatus.splits)
    next
      case (Inr i)
      obtain x where "ue_impl e = Some x" "ue_dimensions e = d" "d \<noteq> 0"
        using fr(2) e by (auto simp: index_ok_def)
      then have "fst (USearchEmbedIndex_Add api e i (CopyFloats b d) d) = UeOk"
        by (rule Add_total [OF total])
      with put Inr set d ens True e sto show ?thesis
        by (cases "USearchEmbedIndex_Add api e i (CopyFloats b d) d") (auto simp: VNodeIndex_Set_def)
    qed
  qed
qed

lemma vi_log_wf_Set:
  assumes total: "usearch_total api" and wf: "vi_log_wf v" and k: "length k < 2 ^ 63"
    and set: "VNodeIndex_Set api v b k q a = (st, v')"
  shows "vi_log_wf v'"
proof -
  have v: "vi_wf v" "vi_fresh v" "keys_fit v" using wf by (auto simp: vi_log_wf_def)
  note d = vi_wf_D [OF v(1)]
  have "keys_fit v' \<and> vi_fresh v'"
  proof (cases "st = ViOk")
    case False
    with Set_total [OF total v(1,2) set] have "vi_core v' = vi_core v" by simp
    with v show ?thesis by (simp add: vi_core_def keys_fit_def vi_fresh_def)
  next
    case True
    have "vi_fresh v'" using Set_total [OF total v(1,2) set] True by (auto simp: vi_fresh_def)
    moreover from set d(5) have "keys_fit v'"
    proof (cases rule: Set_cases)
      case (Stored i s)
      with v(3) k Put_find(1) [OF d(1) Stored(2)] show ?thesis by (auto simp: keys_fit_def)
    qed (use True in auto)
    ultimately show ?thesis by simp
  qed
  with VNodeIndex_Set_wf [OF v(1) set] show ?thesis by (simp add: vi_log_wf_def)
qed

lemma vi_log_wf_Del:
  assumes wf: "vi_log_wf v" and del: "VNodeIndex_Del api v k = (st, v')"
  shows "vi_log_wf v'"
proof -
  have v: "vi_wf v" "vi_fresh v" "keys_fit v" using wf by (auto simp: vi_log_wf_def)
  note d = vi_wf_D [OF v(1)]
  from del d(2) show ?thesis
  proof (cases rule: Del_cases)
    case Same
    with wf show ?thesis by simp
  next
    case (Deleted i)
    have ix: "vi_index v' = map_option (\<lambda>e. snd (USearchEmbedIndex_Del api e i)) (vi_index v)"
      by (subst Deleted(5)) simp
    have "vi_index v \<noteq> None"
      using v(2) Deleted(2) by (auto simp: vi_fresh_def VNodeStorage_empty_def umap_simps)
    then have "vi_fresh v'" using ix by (auto simp: vi_fresh_def)
    moreover from Deleted(4) obtain j where
      "um_find (by_id (vi_storage v')) = (um_find (by_id (vi_storage v)))(j := None)"
      by (rule Del_find)
    with v(3) have "keys_fit v'" by (auto simp: keys_fit_def)
    ultimately show ?thesis using VNodeIndex_Del_wf [OF v(1) del] by (simp add: vi_log_wf_def)
  qed
qed

lemma write_ok_del_ctx: "k \<noteq> [] \<Longrightarrow> length k < 2 ^ 63 \<Longrightarrow> write_ok (del_ctx k)"
  by (simp add: write_ok_def del_ctx_def is_write_def write_tokens.simps tokens_fit_def vector_max_size_def)

lemma vi_view_key_fits:
  assumes "st_maps (vi_storage v)" and "keys_fit v" and "vi_view v k \<noteq> None"
  shows "length k < 2 ^ 63"
proof -
  obtain i where "um_find (by_user_key (vi_storage v)) k = Some i"
    using assms(1,3) by (auto simp: vi_view_None)
  then obtain n where "um_find (by_id (vi_storage v)) i = Some n" "vn_user_key n = k"
    using assms(1) by (auto elim: st_maps_key)
  with assms(2) show ?thesis by (auto simp: keys_fit_def)
qed

text \<open>
  What holds of a step from \<open>en\<close> to \<open>en'\<close> that logs faithfully: the AOF grows by the frames of
  well-formed writes whose replay follows the step.
\<close>

definition logs_step ::
  "('ix, 'w, 'r) classes \<Rightarrow> ('w \<Rightarrow> bytes) \<Rightarrow> ('ix, 'w, 'r) engine \<Rightarrow> ('ix, 'w, 'r) engine \<Rightarrow> bool" where
  "logs_step cl logged en en' \<longleftrightarrow>
     (\<forall>bs. wal_at logged en bs \<longrightarrow>
        (\<exists>cs. (\<forall>c \<in> set cs. write_ok c) \<and> wal_at logged en' (bs @ concat (map write_frame cs))
              \<and> replays cl en cs en'))"

definition en_log_wf :: "('ix, 'w, 'r) engine \<Rightarrow> bool" where
  "en_log_wf en \<longleftrightarrow> pred_option vi_log_wf (en_index en) \<and> pred_option kv_wf (en_kv en)"

lemma logs_step_same:
  assumes "same_data en en'" and "en_wal en' = en_wal en"
  shows "logs_step cl logged en en'"
  unfolding logs_step_def
proof (intro allI impI)
  fix bs assume "wal_at logged en bs"
  then have "wal_at logged en' (bs @ concat (map write_frame []))" using assms(2) by (simp add: wal_at_def)
  with replays_Nil [OF assms(1), of cl] show "\<exists>cs. (\<forall>c \<in> set cs. write_ok c)
      \<and> wal_at logged en' (bs @ concat (map write_frame cs)) \<and> replays cl en cs en'"
    by (intro exI [of _ "[]"]) simp
qed

lemma logs_step_trans:
  assumes "logs_step cl logged en en1" and "logs_step cl logged en1 en2"
  shows "logs_step cl logged en en2"
  unfolding logs_step_def
proof (intro allI impI)
  fix bs assume "wal_at logged en bs"
  with assms(1) obtain cs where cs: "\<forall>c \<in> set cs. write_ok c" "replays cl en cs en1"
    "wal_at logged en1 (bs @ concat (map write_frame cs))" unfolding logs_step_def by blast
  with assms(2) obtain ds where ds: "\<forall>c \<in> set ds. write_ok c" "replays cl en1 ds en2"
    "wal_at logged en2 ((bs @ concat (map write_frame cs)) @ concat (map write_frame ds))"
    unfolding logs_step_def by blast
  show "\<exists>cs. (\<forall>c \<in> set cs. write_ok c) \<and> wal_at logged en2 (bs @ concat (map write_frame cs))
      \<and> replays cl en cs en2"
    using cs ds replays_append [OF cs(2) ds(2)] by (intro exI [of _ "cs @ ds"]) auto
qed

lemma logs_step_one:
  assumes logs: "aof_logs (cl_aof cl) logged" and healthy: "aof_healthy (cl_aof cl)"
    and ok: "write_ok ctx" and step: "replays cl en [ctx] en'"
    and log: "log_mutation cl ctx kClient out en1 = (r, en')" and wal: "en_wal en1 = en_wal en"
  shows "logs_step cl logged en en'"
  unfolding logs_step_def
proof (intro allI impI)
  fix bs assume "wal_at logged en bs"
  then have "wal_at logged en1 bs" using wal by (simp add: wal_at_def)
  from log_mutation_logs(2) [OF logs healthy this _ log] ok
  have "wal_at logged en' (bs @ write_frame ctx)" by (simp add: write_ok_def)
  with ok step show "\<exists>cs. (\<forall>c \<in> set cs. write_ok c)
      \<and> wal_at logged en' (bs @ concat (map write_frame cs)) \<and> replays cl en cs en'"
    by (intro exI [of _ "[ctx]"]) simp
qed

lemma evict_loop_logs:
  assumes logs: "aof_logs (cl_aof cl) logged" and healthy: "aof_healthy (cl_aof cl)"
    and wf: "vi_log_wf v" and ix: "en_index en = Some v" and wal: "wal_at logged en bs"
  shows "\<exists>en' v'. evict_loop cl k kClient en = Some (Inr en') \<and> logs_step cl logged en en'
     \<and> en_index en' = Some v' \<and> vi_log_wf v' \<and> en_kv en' = en_kv en"
  using wf ix wal
proof (induction "VNodeStorage_size (vi_storage v)" arbitrary: v en bs rule: less_induct)
  case less
  have v: "vi_wf v" "keys_fit v" using less.prems(1) by (auto simp: vi_log_wf_def)
  show ?case
  proof (cases "NeedsRoomFor v k")
    case False
    with less.prems show ?thesis
      by (auto simp: evict_loop_done same_data_def intro!: logs_step_same)
  next
    case True
    then have "VNodeStorage_size (vi_storage v) \<noteq> 0"
      using NeedsRoomFor_iff [OF vi_wf_D(2) [OF v(1)]] by auto
    then obtain victim v1 where peek: "PeekLruUserKey v = (Inr victim, v)" "victim \<noteq> []"
      and view: "vi_view v victim \<noteq> None"
      and del: "VNodeIndex_Del (cl_usearch cl) v victim = (ViOk, v1)"
      using Del_lru_head [OF v(1)] by metis
    obtain r en1 where vdel: "apply_vdel cl (del_ctx victim) kClient en = (r, en1)"
      and log: "log_mutation cl (del_ctx victim) kClient (ApplyResult_init\<lparr>ar_integer_reply := 1\<rparr>)
         (en\<lparr>en_index := Some v1\<rparr>) = (r, en1)"
      and en1: "en_index en1 = Some v1" "en_kv en1 = en_kv en"
      using apply_vdel_ok [OF less.prems(2) del] by metis
    have ok: "write_ok (del_ctx victim)"
      using peek(2) vi_view_key_fits [OF vi_wf_D(2) [OF v(1)] v(2) view] by (rule write_ok_del_ctx)
    have w: "is_write (cmd (del_ctx victim))" using ok by (simp add: write_ok_def)
    have "wal_at logged (en\<lparr>en_index := Some v1\<rparr>) bs" using less.prems(3) by simp
    note lg = log_mutation_logs [OF logs healthy this w log]
    have "replays cl en [del_ctx victim] en1"
      using del en1 by (intro replays_vdel [OF _ less.prems(2)]) (simp_all add: del_ctx_def)
    then have step1: "logs_step cl logged en en1"
      using logs_step_one [OF logs healthy ok _ log] by simp
    have "VNodeStorage_size (vi_storage v1) < VNodeStorage_size (vi_storage v)"
      using Del_shrinks [OF v(1) del] by simp
    from less.hyps [OF this vi_log_wf_Del [OF less.prems(1) del] en1(1) lg(2)] obtain en' v' where
      "evict_loop cl k kClient en1 = Some (Inr en')" "logs_step cl logged en1 en'"
      "en_index en' = Some v'" "vi_log_wf v'" "en_kv en' = en_kv en1" by blast
    with evict_loop_step [OF less.prems(2) True peek vdel] lg(1) logs_step_trans [OF step1] en1(2)
    show ?thesis by auto
  qed
qed

lemma um_erase_absent: "um_find m k = None \<Longrightarrow> um_erase m k = m"
  by (auto simp: um_find_None_iff um_erase_def intro!: filter_True)

lemma vset_logs:
  assumes total: "usearch_total (cl_usearch cl)"
    and logs: "aof_logs (cl_aof cl) logged" and healthy: "aof_healthy (cl_aof cl)"
    and wf: "vi_log_wf v" and ix: "en_index en = Some v" and wal: "wal_at logged en bs"
    and ok: "write_ok ctx" and c: "cmd ctx = kVset"
  shows "\<exists>r en' v'. apply_vset cl ctx kClient en = Some (r, en') \<and> logs_step cl logged en en'
     \<and> en_index en' = Some v' \<and> vi_log_wf v' \<and> en_kv en' = en_kv en"
proof -
  from evict_loop_logs [OF logs healthy wf ix wal, of "rc_user_key ctx"] obtain en1 v1 where
    loop: "evict_loop cl (rc_user_key ctx) kClient en = Some (Inr en1)" and
    step1: "logs_step cl logged en en1" and v1: "en_index en1 = Some v1" "vi_log_wf v1" "en_kv en1 = en_kv en"
    by blast
  obtain r en' where store: "store_vset cl ctx kClient en1 = (r, en')" by (cases "store_vset cl ctx kClient en1")
  obtain st v' where set: "VNodeIndex_Set (cl_usearch cl) v1 (vector_blob ctx) (rc_user_key ctx)
      (rc_question ctx) (rc_answer ctx) = (st, v')" by (metis surj_pair)
  have "length (rc_user_key ctx) < 2 ^ 63"
    using ok c by (simp add: write_ok_def tokens_fit_def write_tokens.simps)
  note wf' = vi_log_wf_Set [OF total v1(2) this set]
  have "logs_step cl logged en1 en' \<and> en_index en' = Some v' \<and> en_kv en' = en_kv en1"
  proof (cases "st = ViOk")
    case False
    then have "vi_core v' = vi_core v1"
      using Set_total [OF total _ _ set] v1(2) by (auto simp: vi_log_wf_def)
    with False store set v1 show ?thesis
      by (auto simp: store_vset_def same_data_def intro!: logs_step_same)
  next
    case True
    with store set v1(1) have log: "log_mutation cl ctx kClient ApplyResult_init (en1\<lparr>en_index := Some v'\<rparr>) = (r, en')"
      by (simp add: store_vset_def)
    from log_mutation_frame [OF this] have en': "en_index en' = Some v'" "en_kv en' = en_kv en1" by simp_all
    have "replays cl en1 [ctx] en'"
      using replays_vset [OF c v1(1) _ en', of cl] set True by simp
    with logs_step_one [OF logs healthy ok _ log] en' show ?thesis by simp
  qed
  with loop store ix logs_step_trans [OF step1] wf' v1(3) show ?thesis
    by (auto simp: apply_vset_def)
qed

lemma set_logs:
  assumes logs: "aof_logs (cl_aof cl) logged" and healthy: "aof_healthy (cl_aof cl)"
    and ok: "write_ok ctx" and c: "cmd ctx = kSet" and app: "apply_set cl ctx kClient en = (r, en')"
  shows "logs_step cl logged en en' \<and> en_index en' = en_index en"
proof (cases "en_kv en")
  case None
  with app show ?thesis by (auto simp: apply_set_def same_data_def intro!: logs_step_same)
next
  case (Some m)
  have k: "key ctx \<noteq> []" using ok c by (simp add: write_ok_def)
  obtain m' where set: "KvStore_Set m (key ctx) (element ctx) = (KvOk, m')"
    using k by (cases "um_find m (key ctx)") (auto simp: KvStore_Set_def)
  have log: "log_mutation cl ctx kClient ApplyResult_init (en\<lparr>en_kv := Some m'\<rparr>) = (r, en')"
    using app Some k set by (simp add: apply_set_def)
  note en' = log_mutation_frame [OF log]
  have "replays cl en [ctx] en'"
    unfolding replays_def
  proof (intro allI impI)
    fix e assume "same_data en e"
    with Some en' show "\<exists>e'. replay_ctxs cl [ctx] e = Some e' \<and> same_data en' e'"
      by (auto simp: replay_set [OF c _ k set] same_data_def)
  qed
  with logs_step_one [OF logs healthy ok _ log] en' show ?thesis by simp
qed

lemma del_logs:
  assumes logs: "aof_logs (cl_aof cl) logged" and healthy: "aof_healthy (cl_aof cl)"
    and ok: "write_ok ctx" and c: "cmd ctx = kDel" and app: "apply_del cl ctx kClient en = (r, en')"
  shows "logs_step cl logged en en' \<and> en_index en' = en_index en"
proof (cases "en_kv en")
  case None
  with app show ?thesis by (auto simp: apply_del_def same_data_def intro!: logs_step_same)
next
  case (Some m)
  have k: "key ctx \<noteq> []" using ok c by (simp add: write_ok_def)
  show ?thesis
  proof (cases "um_find m (key ctx)")
    case None
    with app Some k have "en' = en"
      by (auto simp: apply_del_def KvStore_Del_def um_erase_absent)
    then show ?thesis by (auto simp: same_data_def intro!: logs_step_same)
  next
    case (Some x)
    then obtain m' where del: "KvStore_Del m (key ctx) = (KvOk, m')" using k by (simp add: KvStore_Del_def)
    have log: "log_mutation cl ctx kClient (ApplyResult_init\<lparr>ar_integer_reply := 1\<rparr>)
        (en\<lparr>en_kv := Some m'\<rparr>) = (r, en')"
      using app \<open>en_kv en = Some m\<close> k del by (simp add: apply_del_def)
    note en' = log_mutation_frame [OF log]
    have "replays cl en [ctx] en'"
      unfolding replays_def
    proof (intro allI impI)
      fix e assume "same_data en e"
      with \<open>en_kv en = Some m\<close> en' show "\<exists>e'. replay_ctxs cl [ctx] e = Some e' \<and> same_data en' e'"
        by (auto simp: replay_del [OF c _ k del] same_data_def)
    qed
    with logs_step_one [OF logs healthy ok _ log] en' show ?thesis by simp
  qed
qed

lemma vdel_logs:
  assumes logs: "aof_logs (cl_aof cl) logged" and healthy: "aof_healthy (cl_aof cl)"
    and wf: "pred_option vi_log_wf (en_index en)"
    and ok: "write_ok ctx" and c: "cmd ctx = kVdel" and app: "apply_vdel cl ctx kClient en = (r, en')"
  shows "logs_step cl logged en en' \<and> pred_option vi_log_wf (en_index en') \<and> en_kv en' = en_kv en"
proof (cases "en_index en")
  case None
  with app wf show ?thesis by (auto simp: apply_vdel_def same_data_def intro!: logs_step_same)
next
  case (Some v)
  then have v: "vi_log_wf v" using wf by simp
  obtain st v' where del: "VNodeIndex_Del (cl_usearch cl) v (rc_user_key ctx) = (st, v')" by (metis surj_pair)
  note v' = vi_log_wf_Del [OF v del]
  show ?thesis
  proof (cases "st = ViOk")
    case True
    with app Some del have log: "log_mutation cl ctx kClient (ApplyResult_init\<lparr>ar_integer_reply := 1\<rparr>)
        (en\<lparr>en_index := Some v'\<rparr>) = (r, en')"
      by (simp add: apply_vdel_def)
    from log_mutation_frame [OF this] have en': "en_index en' = Some v'" "en_kv en' = en_kv en" by simp_all
    have "replays cl en [ctx] en'" using replays_vdel [OF c Some _ en', of cl] del True by simp
    with logs_step_one [OF logs healthy ok _ log] en' v' show ?thesis by simp
  next
    case False
    from del vi_wf_D(2) [of v] v have "v' = v"
      by (cases rule: Del_cases) (use False in \<open>auto simp: vi_log_wf_def\<close>)
    with False app Some del v' show ?thesis
      by (auto simp: apply_vdel_def same_data_def intro!: logs_step_same split: if_splits)
  qed
qed

lemma ApplyMutation_logs:
  assumes total: "usearch_total (cl_usearch cl)"
    and logs: "aof_logs (cl_aof cl) logged" and healthy: "aof_healthy (cl_aof cl)"
    and wf: "en_log_wf en" and wal: "wal_at logged en bs" and ok: "write_ok ctx"
  shows "\<exists>r en'. ApplyMutation cl ctx kClient en = Some (r, en') \<and> logs_step cl logged en en' \<and> en_log_wf en'"
proof -
  have en: "pred_option vi_log_wf (en_index en)" "en_wf en"
    using wf by (cases "en_index en"; simp add: en_log_wf_def en_wf_def vi_log_wf_def)+
  from ok have "is_write (cmd ctx)" by (simp add: write_ok_def)
  then show ?thesis
  proof (cases rule: is_write_cases)
    case Set
    obtain r en' where app: "apply_set cl ctx kClient en = (r, en')" by (cases "apply_set cl ctx kClient en")
    from set_logs [OF logs healthy ok Set app] apply_set_wf [OF en(2) app] en(1) Set app show ?thesis
      by (auto simp: ApplyMutation_def en_log_wf_def en_wf_def)
  next
    case Del
    obtain r en' where app: "apply_del cl ctx kClient en = (r, en')" by (cases "apply_del cl ctx kClient en")
    from del_logs [OF logs healthy ok Del app] apply_del_wf [OF en(2) app] en(1) Del app show ?thesis
      by (auto simp: ApplyMutation_def en_log_wf_def en_wf_def)
  next
    case Vset
    show ?thesis
    proof (cases "en_index en")
      case None
      with Vset wf show ?thesis
        by (auto simp: ApplyMutation_def apply_vset_def same_data_def intro!: logs_step_same)
    next
      case (Some v)
      then have "vi_log_wf v" using en(1) by simp
      from vset_logs [OF total logs healthy this Some wal ok Vset] Vset wf show ?thesis
        by (auto simp: ApplyMutation_def en_log_wf_def)
    qed
  next
    case Vdel
    obtain r en' where app: "apply_vdel cl ctx kClient en = (r, en')" by (cases "apply_vdel cl ctx kClient en")
    from vdel_logs [OF logs healthy en(1) ok Vdel app] wf Vdel app show ?thesis
      by (auto simp: ApplyMutation_def en_log_wf_def)
  qed
qed

section \<open>A truncated log\<close>

text \<open>An incomplete last frame is dropped.\<close>

lemma replay_loop_truncated:
  assumes "\<forall>c \<in> set cs. write_ok c" and "replay_ctxs cl cs e = Some e'"
    and "write_ok c" and "strict_prefix p (write_frame c)"
  shows "replay_loop cl (concat (map write_frame cs) @ p) e = Some (RpStatus WmOk, e')"
proof -
  have "replay_loop cl p e' = Some (RpStatus WmOk, e')"
    using DecodeArrayOfBulk_prefix [of "write_tokens c" p] assms(3,4)
    by (subst replay_loop.simps) (simp add: write_ok_def)
  with replay_loop_frames [OF assms(1,2)] show ?thesis by simp
qed

lemma replay_loop_Nil [simp]: "replay_loop cl [] e = Some (RpStatus WmOk, e)"
  by (subst replay_loop.simps) simp

end
