(* ===== verification/Snapshot.thy ===== *)
theory Snapshot
  imports KvStore VNodeIndex
begin

text \<open>
  RDB snapshots: the header layout of src/include/vemory/persist/RdbFormat.h, \<^verbatim>\<open>MappedFile\<close>
  (src/src/util/MappedFile.cc), saving and the two loaders of \<^verbatim>\<open>SnapshotManager\<close>
  (src/src/persist/SnapshotManager.cc), and the background save as a state machine over a forked child.
  A save is atomic, a saved image loads back through either loader, and the two loaders agree.
\<close>

unbundle bit_operations_syntax

section \<open>The host\<close>

text \<open>
  Files by path, and how the system calls behave while an operation runs: which directories and files
  can be created, how many bytes the device still takes, and whether \<^verbatim>\<open>fflush\<close>, \<^verbatim>\<open>fsync\<close>, \<^verbatim>\<open>rename\<close>,
  \<^verbatim>\<open>fstat\<close> and \<^verbatim>\<open>mmap\<close> succeed. Opening for reading succeeds when the file exists. Positions are non-negative
  \<^verbatim>\<open>long\<close>s; \<^verbatim>\<open>fseek\<close> to a larger offset fails.
\<close>

type_synonym files = "bytes \<Rightarrow> bytes option"

record host =
  ho_create_directories :: "bytes \<Rightarrow> bool"
  ho_create :: "bytes \<Rightarrow> bool"
  ho_room :: nat
  ho_fflush :: bool
  ho_fsync :: bool
  ho_rename :: bool
  ho_fstat :: bool
  ho_mmap :: bool

definition fseek_ok :: "nat \<Rightarrow> bool" where
  "fseek_ok off \<longleftrightarrow> off < 2 ^ 63"

text \<open>\<^verbatim>\<open>std::filesystem::path\<close>: the parent of a path and joining a relative name.\<close>

definition parent_path :: "bytes \<Rightarrow> bytes" where
  "parent_path p =
     (let pre = rev (dropWhile (\<lambda>c. c \<noteq> CHR ''/'') (rev p));
          stem = rev (dropWhile (\<lambda>c. c = CHR ''/'') (rev pre))
      in if pre = [] then [] else if stem = [] then ''/'' else stem)"

definition path_join :: "bytes \<Rightarrow> bytes \<Rightarrow> bytes" where
  "path_join dir name =
     (if dir = [] \<or> last dir = CHR ''/'' then dir @ name else dir @ ''/'' @ name)"

section \<open>MappedFile\<close>

datatype MfStatus = MfOk | MfBadValue | MfIoError

text \<open>\<open>mf_data\<close> is None for a null pointer; the descriptor is open or not.\<close>

record MappedFile =
  mf_path :: bytes
  mf_data :: "bytes option"
  mf_open :: bool

definition MappedFile_new :: MappedFile where
  "MappedFile_new = \<lparr>mf_path = [], mf_data = None, mf_open = False\<rparr>"

definition mf_size :: "MappedFile \<Rightarrow> nat" where
  "mf_size mf = (case mf_data mf of None \<Rightarrow> 0 | Some d \<Rightarrow> length d)"

definition MappedFile_Close :: "MappedFile \<Rightarrow> MappedFile" where
  "MappedFile_Close mf = mf\<lparr>mf_data := None, mf_open := False, mf_path := []\<rparr>"

definition MappedFile_Open :: "host \<Rightarrow> files \<Rightarrow> bytes \<Rightarrow> MappedFile \<Rightarrow> MfStatus \<times> MappedFile" where
  "MappedFile_Open ho fs path mf =
     (if path = [] then (MfBadValue, mf)
      else let mf1 = (MappedFile_Close mf)\<lparr>mf_path := path\<rparr>
           in case fs path of
                None \<Rightarrow> (MfIoError, mf1\<lparr>mf_path := []\<rparr>)
              | Some contents \<Rightarrow>
                  let mf2 = mf1\<lparr>mf_open := True\<rparr>
                  in if \<not> ho_fstat ho then (MfIoError, MappedFile_Close mf2)
                     else if contents = [] then (MfOk, mf2\<lparr>mf_data := None\<rparr>)
                     else if \<not> ho_mmap ho then (MfIoError, MappedFile_Close mf2)
                     else (MfOk, mf2\<lparr>mf_data := Some contents\<rparr>))"

section \<open>The RDB header\<close>

definition kMagic :: bytes where
  "kMagic = ''VEMORYDB''"

definition kVersion :: nat where
  "kVersion = 3"

definition kHeaderBytes :: nat where
  "kHeaderBytes = 96"

definition kFlagHasUsearch :: nat where
  "kFlagHasUsearch = 1"

definition kRdbName :: bytes where
  "kRdbName = ''dump.rdb''"

record TocEntry =
  toc_offset :: nat
  toc_length :: nat

text \<open>
  \<^verbatim>\<open>rdb::Header\<close> and \<^verbatim>\<open>SnapshotManager::Header\<close> have the same fields; the fields are unsigned and are cut to
  their width when they are written.
\<close>

record Header =
  h_version :: nat
  h_flags :: nat
  h_dim :: nat
  h_next_id :: nat
  h_pad :: nat
  h_kv_count :: nat
  h_node_count :: nat
  h_toc :: "TocEntry list"

definition TocEntry_init :: TocEntry where
  "TocEntry_init = \<lparr>toc_offset = 0, toc_length = 0\<rparr>"

definition Header_init :: Header where
  "Header_init = \<lparr>h_version = 3, h_flags = 0, h_dim = 0, h_next_id = 1, h_pad = 0, h_kv_count = 0,
     h_node_count = 0, h_toc = [TocEntry_init, TocEntry_init, TocEntry_init]\<rparr>"

datatype SmStatus = SmOk | SmBadValue | SmNotConfigured | SmInProgress | SmIoError | SmError

datatype ParseStatus = PsOk | PsBadValue | PsIoError | PsError

definition toc_bytes :: "TocEntry \<Rightarrow> bytes" where
  "toc_bytes e = le_bytes 8 (toc_offset e) @ le_bytes 8 (toc_length e)"

definition header_chunks :: "Header \<Rightarrow> bytes list" where
  "header_chunks h =
     [kMagic, le_bytes 4 (h_version h), le_bytes 4 (h_flags h), le_bytes 8 (h_dim h), le_bytes 4 (h_next_id h),
      le_bytes 4 (h_pad h), le_bytes 8 (h_kv_count h), le_bytes 8 (h_node_count h),
      concat (map toc_bytes (h_toc h))]"

definition header_sizes :: "nat list" where
  "header_sizes = [8, 4, 4, 8, 4, 4, 8, 8, 48]"

definition toc_of :: "bytes \<Rightarrow> nat \<Rightarrow> TocEntry" where
  "toc_of bs i = \<lparr>toc_offset = le_nat (slice (16 * i) 8 bs), toc_length = le_nat (slice (16 * i + 8) 8 bs)\<rparr>"

text \<open>The fields behind the magic, from the pieces read.\<close>

definition header_of :: "bytes list \<Rightarrow> Header" where
  "header_of cs =
     \<lparr>h_version = le_nat (cs ! 1), h_flags = le_nat (cs ! 2), h_dim = le_nat (cs ! 3),
      h_next_id = le_nat (cs ! 4), h_pad = le_nat (cs ! 5), h_kv_count = le_nat (cs ! 6),
      h_node_count = le_nat (cs ! 7), h_toc = map (toc_of (cs ! 8)) [0, 1, 2]\<rparr>"

definition WriteHeader :: "FILE \<Rightarrow> Header \<Rightarrow> SmStatus \<times> FILE" where
  "WriteHeader f h =
     (case write_all (fseek_set f 0) (header_chunks h) of
        (ok, f') \<Rightarrow> (if ok then SmOk else SmIoError, f'))"

definition ReadHeader :: "FILE \<Rightarrow> SmStatus + Header" where
  "ReadHeader f =
     (case read_all (fseek_set f 0) header_sizes of
        None \<Rightarrow> Inl SmIoError
      | Some cs \<Rightarrow>
          if cs ! 0 \<noteq> kMagic \<or> h_version (header_of cs) \<noteq> kVersion then Inl SmError
          else Inr (header_of cs))"

definition toc_in_bounds :: "nat \<Rightarrow> TocEntry \<Rightarrow> bool" where
  "toc_in_bounds sz e \<longleftrightarrow>
     toc_length e = 0 \<or> \<not> (sz < toc_offset e \<or> sz - toc_offset e < toc_length e)"

definition ParseHeader :: "bytes option \<Rightarrow> nat \<Rightarrow> ParseStatus + Header" where
  "ParseHeader data sz =
     (case data of
        None \<Rightarrow> Inl PsBadValue
      | Some d \<Rightarrow>
          if sz < kHeaderBytes then Inl PsIoError
          else let cs = take_fields header_sizes d; h = header_of cs
               in if cs ! 0 \<noteq> kMagic \<or> h_version h \<noteq> kVersion then Inl PsError
                  else if \<exists>e \<in> set (h_toc h). \<not> toc_in_bounds sz e then Inl PsError
                  else Inr h)"

section \<open>Saving\<close>

definition FsyncFile :: "host \<Rightarrow> SmStatus" where
  "FsyncFile ho = (if \<not> ho_fflush ho then SmIoError else if \<not> ho_fsync ho then SmIoError else SmOk)"

definition AtomicRename :: "host \<Rightarrow> bytes \<Rightarrow> bytes \<Rightarrow> files \<Rightarrow> SmStatus \<times> files" where
  "AtomicRename ho tmp final_path fs =
     (if \<not> ho_rename ho then (SmIoError, fs)
      else (SmOk, (fs(tmp := None))(final_path := fs tmp)))"

text \<open>One section: the position before and after the writer has run becomes its TOC entry.\<close>

definition save_section :: "(FILE \<Rightarrow> bool \<times> FILE) \<Rightarrow> FILE \<Rightarrow> TocEntry option \<times> FILE" where
  "save_section wr f =
     (case wr f of
        (ok, f') \<Rightarrow>
          if \<not> ok \<or> f_pos f' < f_pos f then (None, f')
          else (Some \<lparr>toc_offset = f_pos f, toc_length = f_pos f' - f_pos f\<rparr>, f'))"

definition save_header :: "'ix VNodeIndex \<Rightarrow> KvStore \<Rightarrow> Header" where
  "save_header v m =
     Header_init\<lparr>h_version := kVersion, h_dim := vi_dim v, h_next_id := unat (next_id (vi_storage v)),
                 h_kv_count := KvStore_size m, h_node_count := VNodeStorage_size (vi_storage v)\<rparr>"

text \<open>The part of \<^verbatim>\<open>SaveToPath\<close> between opening and closing the temporary file.\<close>

definition save_file :: "'ix usearch_api \<Rightarrow> 'ix VNodeIndex \<Rightarrow> KvStore \<Rightarrow> FILE \<Rightarrow> SmStatus \<times> FILE" where
  "save_file api v m f0 =
     (let h = save_header v m
      in case save_section (\<lambda>f. apfst (\<lambda>st. st = KvOk) (KvStore_Dump m f)) (fseek_set f0 kHeaderBytes) of
           (None, f1) \<Rightarrow> (SmIoError, f1)
         | (Some e0, f1) \<Rightarrow>
             (case save_section (\<lambda>f. apfst (\<lambda>st. st = ViOk) (DumpNodes v f)) f1 of
                (None, f2) \<Rightarrow> (SmIoError, f2)
              | (Some e1, f2) \<Rightarrow>
                  (case (if 0 < h_dim h
                         then save_section (\<lambda>f. apfst (\<lambda>st. st = ViOk) (SaveIndex api v f)) f2
                         else (Some TocEntry_init, f2)) of
                     (None, f3) \<Rightarrow> (SmIoError, f3)
                   | (Some e2, f3) \<Rightarrow>
                       (case WriteHeader f3
                               (h\<lparr>h_toc := [e0, e1, e2],
                                  h_flags := (if 0 < h_dim h \<and> 0 < toc_length e2
                                              then h_flags h OR kFlagHasUsearch else h_flags h)\<rparr>) of
                          (st, f4) \<Rightarrow> (if st \<noteq> SmOk then SmIoError else SmOk, f4)))))"

definition SaveToPath ::
  "'ix usearch_api \<Rightarrow> host \<Rightarrow> 'ix VNodeIndex option \<Rightarrow> KvStore option \<Rightarrow> files \<Rightarrow> bytes \<Rightarrow> SmStatus \<times> files" where
  "SaveToPath api ho index kv fs final_path =
     (if final_path = [] then (SmBadValue, fs)
      else case index of
             None \<Rightarrow> (SmBadValue, fs)
           | Some v \<Rightarrow>
               (case kv of
                  None \<Rightarrow> (SmBadValue, fs)
                | Some m \<Rightarrow>
                    if parent_path final_path \<noteq> [] \<and> \<not> ho_create_directories ho (parent_path final_path)
                    then (SmIoError, fs)
                    else let tmp = final_path @ ''.tmp''
                         in if \<not> ho_create ho tmp then (SmIoError, fs)
                            else case save_file api v m \<lparr>f_data = [], f_pos = 0, f_room = ho_room ho\<rparr> of
                                   (st, f) \<Rightarrow>
                                     let fs1 = fs(tmp \<mapsto> f_data f)
                                     in if st \<noteq> SmOk then (st, fs1)
                                        else if FsyncFile ho \<noteq> SmOk then (FsyncFile ho, fs1)
                                        else case AtomicRename ho tmp final_path fs1 of
                                               (st', fs2) \<Rightarrow> (if st' \<noteq> SmOk then SmIoError else SmOk, fs2)))"

section \<open>Loading\<close>

text \<open>\<open>LoadThrow\<close>: a \<^verbatim>\<open>std::length_error\<close> from the node decoder escapes.\<close>

datatype load_result = LoadStatus SmStatus | LoadThrow

definition vi_failed :: "ViStatus \<Rightarrow> load_result" where
  "vi_failed st = (if st = ViLengthError then LoadThrow else LoadStatus SmIoError)"

definition LoadFromFile ::
  "'ix usearch_api \<Rightarrow> FILE \<Rightarrow> 'ix VNodeIndex \<Rightarrow> KvStore \<Rightarrow> load_result \<times> 'ix VNodeIndex \<times> KvStore" where
  "LoadFromFile api f v m =
     (case ReadHeader f of
        Inl st \<Rightarrow> (LoadStatus st, v, m)
      | Inr h \<Rightarrow>
          if \<not> fseek_ok (toc_offset (h_toc h ! 0)) then (LoadStatus SmIoError, v, m)
          else case KvStore_Load (fseek_set f (toc_offset (h_toc h ! 0))) (KvStore_Clear m) of
                 (kst, m1, f1) \<Rightarrow>
                   if kst \<noteq> KvOk then (LoadStatus SmIoError, v, m1)
                   else if KvStore_size m1 \<noteq> h_kv_count h then (LoadStatus SmError, v, m1)
                   else if \<not> fseek_ok (toc_offset (h_toc h ! 1)) then (LoadStatus SmIoError, v, m1)
                   else case LoadNodes (VNodeIndex_Clear v) (fseek_set f1 (toc_offset (h_toc h ! 1)))
                               (h_node_count h) (of_nat (h_next_id h)) of
                          (nst, v1, f2) \<Rightarrow>
                            if nst \<noteq> ViOk then (vi_failed nst, v1, m1)
                            else if VNodeStorage_size (vi_storage v1) \<noteq> h_node_count h
                            then (LoadStatus SmError, v1, m1)
                            else if 0 < h_dim h
                            then if toc_length (h_toc h ! 2) = 0 then (LoadStatus SmError, v1, m1)
                                 else if \<not> fseek_ok (toc_offset (h_toc h ! 2)) then (LoadStatus SmIoError, v1, m1)
                                 else case LoadIndex api v1 (fseek_set f2 (toc_offset (h_toc h ! 2))) (h_dim h) of
                                        (ist, v2, f3) \<Rightarrow>
                                          (LoadStatus (if ist \<noteq> ViOk then SmIoError else SmOk), v2, m1)
                            else (LoadStatus SmOk, v1, m1))"

text \<open>A section of the mapped bytes; an empty section reads no byte, whatever its offset.\<close>

definition toc_slice :: "bytes \<Rightarrow> TocEntry \<Rightarrow> bytes" where
  "toc_slice d e = slice (toc_offset e) (toc_length e) d"

definition LoadFromMapped ::
  "'ix usearch_api \<Rightarrow> host \<Rightarrow> files \<Rightarrow> bool \<Rightarrow> bytes \<Rightarrow> 'ix VNodeIndex \<Rightarrow> KvStore
     \<Rightarrow> load_result \<times> 'ix VNodeIndex \<times> KvStore" where
  "LoadFromMapped api ho fs view path v m =
     (if path = [] then (LoadStatus SmBadValue, v, m)
      else case MappedFile_Open ho fs path MappedFile_new of
             (mst, mapped) \<Rightarrow>
               if mst \<noteq> MfOk then (LoadStatus SmIoError, v, m)
               else case ParseHeader (mf_data mapped) (mf_size mapped) of
                      Inl pst \<Rightarrow> (LoadStatus (if pst = PsIoError then SmIoError else SmError), v, m)
                    | Inr h \<Rightarrow>
                        let d = (case mf_data mapped of None \<Rightarrow> [] | Some d \<Rightarrow> d)
                        in case KvStore_LoadFrom (toc_slice d (h_toc h ! 0)) (KvStore_Clear m) of
                             (kst, m1) \<Rightarrow>
                               if kst \<noteq> KvOk then (LoadStatus SmIoError, v, m1)
                               else if KvStore_size m1 \<noteq> h_kv_count h then (LoadStatus SmError, v, m1)
                               else case LoadNodesFrom (VNodeIndex_Clear v) (toc_slice d (h_toc h ! 1))
                                           (h_node_count h) (of_nat (h_next_id h)) of
                                      (nst, v1) \<Rightarrow>
                                        if nst \<noteq> ViOk then (vi_failed nst, v1, m1)
                                        else if VNodeStorage_size (vi_storage v1) \<noteq> h_node_count h
                                        then (LoadStatus SmError, v1, m1)
                                        else if 0 < h_dim h
                                        then if toc_length (h_toc h ! 2) = 0 then (LoadStatus SmError, v1, m1)
                                             else case LoadIndexMapped api v1 path (fs path)
                                                         (toc_offset (h_toc h ! 2)) (h_dim h) view of
                                                    (ist, v2) \<Rightarrow>
                                                      (LoadStatus (if ist \<noteq> ViOk then SmIoError else SmOk), v2, m1)
                                        else (LoadStatus SmOk, v1, m1))"

text \<open>\<^verbatim>\<open>LoadFromPath\<close> in the default build (mapped, then stdio) and with \<^verbatim>\<open>VEMORY_RDB_MMAP=0\<close>.\<close>

definition load_stdio ::
  "'ix usearch_api \<Rightarrow> files \<Rightarrow> bytes \<Rightarrow> 'ix VNodeIndex \<Rightarrow> KvStore \<Rightarrow> load_result \<times> 'ix VNodeIndex \<times> KvStore" where
  "load_stdio api fs path v m =
     (case fs path of
        None \<Rightarrow> (LoadStatus SmIoError, v, m)
      | Some d \<Rightarrow> LoadFromFile api \<lparr>f_data = d, f_pos = 0, f_room = 0\<rparr> v m)"

definition LoadFromPath ::
  "'ix usearch_api \<Rightarrow> host \<Rightarrow> files \<Rightarrow> bool \<Rightarrow> bytes \<Rightarrow> 'ix VNodeIndex \<Rightarrow> KvStore
     \<Rightarrow> load_result \<times> 'ix VNodeIndex \<times> KvStore" where
  "LoadFromPath api ho fs view path v m =
     (if path = [] then (LoadStatus SmBadValue, v, m)
      else case LoadFromMapped api ho fs view path v m of
             (st, v1, m1) \<Rightarrow>
               if st = LoadStatus SmOk \<or> st = LoadThrow then (st, v1, m1)
               else load_stdio api fs path v1 m1)"

definition Snapshot_Load ::
  "'ix usearch_api \<Rightarrow> host \<Rightarrow> files \<Rightarrow> bool \<Rightarrow> bytes \<Rightarrow> 'ix VNodeIndex \<Rightarrow> KvStore
     \<Rightarrow> load_result \<times> 'ix VNodeIndex \<times> KvStore" where
  "Snapshot_Load api ho fs view dir v m =
     (if dir = [] then (LoadStatus SmNotConfigured, v, m)
      else LoadFromPath api ho fs view (path_join dir kRdbName) v m)"

section \<open>Background saves\<close>

text \<open>
  The manager's own state. \<open>sm_reap_timer\<close> says whether a reap timer is pending. The result of \<^verbatim>\<open>fork\<close> and
  of \<^verbatim>\<open>waitpid\<close> are arguments; the done callback is returned as an event, as it is called last.
\<close>

record SnapshotManager =
  sm_dir :: bytes
  sm_child_pid :: int
  sm_pending_save_path :: bytes
  sm_reap_timer :: bool
  sm_usearch_mmap_view :: bool

datatype wait_result =
    WaitRunning             \<comment> \<open>0: still running\<close>
  | WaitError bool          \<comment> \<open>negative; whether \<^verbatim>\<open>errno\<close> is \<^verbatim>\<open>ECHILD\<close>\<close>
  | WaitExited bool         \<comment> \<open>reaped; whether it exited with status 0\<close>

type_synonym save_done = "(bool \<times> bytes) option"

definition SnapshotManager_new :: "bytes \<Rightarrow> SnapshotManager" where
  "SnapshotManager_new dir =
     \<lparr>sm_dir = dir, sm_child_pid = -1, sm_pending_save_path = [], sm_reap_timer = False, sm_usearch_mmap_view = False\<rparr>"

definition save_in_progress :: "SnapshotManager \<Rightarrow> bool" where
  "save_in_progress sm \<longleftrightarrow> 0 < sm_child_pid sm"

definition SnapshotManager_destroy :: "SnapshotManager \<Rightarrow> SnapshotManager" where
  "SnapshotManager_destroy sm =
     (let sm1 = sm\<lparr>sm_reap_timer := False\<rparr>
      in if 0 < sm_child_pid sm1 then sm1\<lparr>sm_child_pid := -1\<rparr> else sm1)"

definition legacy_names :: "bytes list" where
  "legacy_names =
     [''dump.meta'', ''dump.kv'', ''dump.nodes'', ''dump.usearch'', ''dump.meta.tmp'', ''dump.kv.tmp'',
      ''dump.nodes.tmp'', ''dump.usearch.tmp'']"

definition RemoveLegacyDumpFiles :: "bytes \<Rightarrow> files \<Rightarrow> files" where
  "RemoveLegacyDumpFiles dir fs =
     (if dir = [] then fs else foldl (\<lambda>fs name. fs(path_join dir name := None)) fs legacy_names)"

definition EnsureReapTimer :: "SnapshotManager \<Rightarrow> SnapshotManager" where
  "EnsureReapTimer sm = (if sm_reap_timer sm then sm else sm\<lparr>sm_reap_timer := True\<rparr>)"

definition BackgroundSaveToPath :: "int \<Rightarrow> bool \<Rightarrow> SnapshotManager \<Rightarrow> bytes \<Rightarrow> SmStatus \<times> SnapshotManager" where
  "BackgroundSaveToPath pid stores sm path =
     (if path = [] \<or> \<not> stores then (SmBadValue, sm)
      else if 0 < sm_child_pid sm then (SmInProgress, sm)
      else let sm1 = sm\<lparr>sm_pending_save_path := path\<rparr>
           in if pid < 0 then (SmError, sm1\<lparr>sm_pending_save_path := []\<rparr>)
              else (SmOk, EnsureReapTimer (sm1\<lparr>sm_child_pid := pid\<rparr>)))"

text \<open>The child: what it does to the files and whether it exits with status 0.\<close>

definition save_child ::
  "'ix usearch_api \<Rightarrow> host \<Rightarrow> 'ix VNodeIndex \<Rightarrow> KvStore \<Rightarrow> files \<Rightarrow> bytes \<Rightarrow> bool \<times> files" where
  "save_child api ho v m fs path =
     (case SaveToPath api ho (Some v) (Some m) fs path of (st, fs') \<Rightarrow> (st = SmOk, fs'))"

definition BackgroundSave :: "int \<Rightarrow> bool \<Rightarrow> SnapshotManager \<Rightarrow> SmStatus \<times> SnapshotManager" where
  "BackgroundSave pid stores sm =
     (if sm_dir sm = [] then (SmNotConfigured, sm)
      else BackgroundSaveToPath pid stores sm (path_join (sm_dir sm) kRdbName))"

definition ReapSaveChild :: "wait_result \<Rightarrow> files \<Rightarrow> SnapshotManager \<Rightarrow> SnapshotManager \<times> files \<times> save_done" where
  "ReapSaveChild r fs sm =
     (if sm_child_pid sm \<le> 0 then (sm, fs, None)
      else case r of
             WaitRunning \<Rightarrow> (sm, fs, None)
           | WaitError echild \<Rightarrow> (if echild then sm\<lparr>sm_child_pid := -1\<rparr> else sm, fs, None)
           | WaitExited ok \<Rightarrow>
               let fs1 = (if ok \<and> sm_dir sm \<noteq> [] \<and> sm_pending_save_path sm = path_join (sm_dir sm) kRdbName
                          then RemoveLegacyDumpFiles (sm_dir sm) fs else fs)
               in (sm\<lparr>sm_pending_save_path := [], sm_child_pid := -1\<rparr>, fs1, Some (ok, sm_pending_save_path sm)))"

text \<open>The lambda of the reap timer.\<close>

definition reap_timer_fired :: "wait_result \<Rightarrow> files \<Rightarrow> SnapshotManager \<Rightarrow> SnapshotManager \<times> files \<times> save_done" where
  "reap_timer_fired r fs sm =
     (case ReapSaveChild r fs (sm\<lparr>sm_reap_timer := False\<rparr>) of
        (sm1, fs1, ev) \<Rightarrow> (if 0 < sm_child_pid sm1 then EnsureReapTimer sm1 else sm1, fs1, ev))"

subsection \<open>The server and its saving child\<close>

text \<open>
  The parent's stores go on changing while a child writes the copy it was forked with. \<open>sw_image\<close> records
  the stores at the last fork.
\<close>

datatype 'ix save_process = Running "'ix VNodeIndex" KvStore bytes | Exited bool

record 'ix save_world =
  sw_sm :: SnapshotManager
  sw_index :: "'ix VNodeIndex"
  sw_kv :: KvStore
  sw_files :: files
  sw_child :: "'ix save_process option"
  sw_image :: "'ix VNodeIndex \<times> KvStore"

definition wait_of :: "'ix save_process option \<Rightarrow> wait_result" where
  "wait_of c = (case c of None \<Rightarrow> WaitError True | Some (Running _ _ _) \<Rightarrow> WaitRunning | Some (Exited ok) \<Rightarrow> WaitExited ok)"

definition save_init :: "'ix save_world \<Rightarrow> bool" where
  "save_init w \<longleftrightarrow> (\<exists>dir. sw_sm w = SnapshotManager_new dir) \<and> sw_child w = None"

text \<open>
  Steps: the parent serves requests, a save is asked for (and accepted or refused), the child runs or is
  killed half way, the reap timer fires.
\<close>

inductive save_step :: "'ix usearch_api \<Rightarrow> 'ix save_world \<Rightarrow> 'ix save_world \<Rightarrow> bool" for api where
  serve: "save_step api w (w\<lparr>sw_index := v, sw_kv := m\<rparr>)"
| accepted: "BackgroundSaveToPath pid True (sw_sm w) p = (SmOk, sm) \<Longrightarrow> 0 < pid \<Longrightarrow>
     save_step api w (w\<lparr>sw_sm := sm, sw_child := Some (Running (sw_index w) (sw_kv w) p),
                        sw_image := (sw_index w, sw_kv w)\<rparr>)"
| refused: "BackgroundSaveToPath pid True (sw_sm w) p = (st, sm) \<Longrightarrow> st \<noteq> SmOk \<Longrightarrow>
     save_step api w (w\<lparr>sw_sm := sm\<rparr>)"
| child: "sw_child w = Some (Running v m p) \<Longrightarrow> save_child api ho v m (sw_files w) p = (ok, fs) \<Longrightarrow>
     save_step api w (w\<lparr>sw_child := Some (Exited ok), sw_files := fs\<rparr>)"
| killed: "sw_child w = Some (Running v m p) \<Longrightarrow>
     save_step api w (w\<lparr>sw_child := Some (Exited False), sw_files := (sw_files w)(p @ ''.tmp'' := c)\<rparr>)"
| timer: "sm_reap_timer (sw_sm w) \<Longrightarrow>
     reap_timer_fired (wait_of (sw_child w)) (sw_files w) (sw_sm w) = (sm, fs, ev) \<Longrightarrow>
     save_step api w (w\<lparr>sw_sm := sm, sw_files := fs, sw_child := (if ev = None then sw_child w else None)\<rparr>)"

section \<open>The header on disk\<close>

definition toc_fits :: "TocEntry \<Rightarrow> bool" where
  "toc_fits e \<longleftrightarrow> toc_offset e < 2 ^ 64 \<and> toc_length e < 2 ^ 64"

definition header_fits :: "Header \<Rightarrow> bool" where
  "header_fits h \<longleftrightarrow> h_version h < 2 ^ 32 \<and> h_flags h < 2 ^ 32 \<and> h_dim h < 2 ^ 64 \<and> h_next_id h < 2 ^ 32
     \<and> h_pad h < 2 ^ 32 \<and> h_kv_count h < 2 ^ 64 \<and> h_node_count h < 2 ^ 64
     \<and> length (h_toc h) = 3 \<and> (\<forall>e \<in> set (h_toc h). toc_fits e)"

lemma toc_of_bytes:
  assumes "toc_fits e" and "length pre = 16 * i"
  shows "toc_of (pre @ toc_bytes e @ rest) i = e"
proof -
  have "slice (16 * i) 8 (pre @ toc_bytes e @ rest) = le_bytes 8 (toc_offset e)"
    "slice (16 * i + 8) 8 (pre @ toc_bytes e @ rest) = le_bytes 8 (toc_length e)"
    using assms(2) by (simp_all add: slice_def toc_bytes_def)
  with assms(1) show ?thesis by (simp add: toc_of_def toc_fits_def)
qed

lemma header_sizes_chunks: "length (h_toc h) = 3 \<Longrightarrow> map length (header_chunks h) = header_sizes"
  by (auto simp: header_chunks_def header_sizes_def kMagic_def toc_bytes_def numeral_3_eq_3 length_Suc_conv)

lemma header_of_chunks: "header_fits h \<Longrightarrow> header_of (header_chunks h) = h"
proof -
  assume fits: "header_fits h"
  then obtain a b c where toc: "h_toc h = [a, b, c]"
    by (auto simp: header_fits_def numeral_3_eq_3 length_Suc_conv)
  let ?bs = "toc_bytes a @ toc_bytes b @ toc_bytes c"
  have len: "length (toc_bytes e) = 16" for e by (simp add: toc_bytes_def)
  have f: "toc_fits a" "toc_fits b" "toc_fits c" using fits by (simp_all add: header_fits_def toc)
  have "toc_of ?bs 0 = a" "toc_of ?bs 1 = b" "toc_of ?bs 2 = c"
    using toc_of_bytes [OF f(1), of "[]" 0 "toc_bytes b @ toc_bytes c"]
      toc_of_bytes [OF f(2), of "toc_bytes a" 1 "toc_bytes c"]
      toc_of_bytes [OF f(3), of "toc_bytes a @ toc_bytes b" 2 "[]"] by (simp_all add: len)
  with fits toc show ?thesis
    by (simp add: header_of_def header_chunks_def header_fits_def)
qed

lemma length_header: "length (h_toc h) = 3 \<Longrightarrow> length (concat (header_chunks h)) = kHeaderBytes"
  using header_sizes_chunks [of h] by (simp add: length_concat header_sizes_def kHeaderBytes_def)

lemma take_fields_header:
  "length (h_toc h) = 3 \<Longrightarrow> take_fields header_sizes (concat (header_chunks h) @ rest) = header_chunks h"
  by (rule take_fields_concat) (rule header_sizes_chunks)

lemma ReadHeader_written:
  assumes "header_fits h" and "h_version h = kVersion" and "f_data f = concat (header_chunks h) @ rest"
  shows "ReadHeader f = Inr h"
proof -
  have toc: "length (h_toc h) = 3" using assms(1) by (simp add: header_fits_def)
  have "read_all (fseek_set f 0) header_sizes = Some (header_chunks h)"
    using length_header [OF toc]
    by (simp add: read_all_fields fseek_set_def assms(3) take_fields_header [OF toc])
       (simp add: header_sizes_def kHeaderBytes_def)
  moreover have "header_chunks h ! 0 = kMagic" by (simp add: header_chunks_def)
  ultimately show ?thesis using assms by (simp add: ReadHeader_def header_of_chunks)
qed

lemma ParseHeader_written:
  assumes "header_fits h" and "h_version h = kVersion" and "d = concat (header_chunks h) @ rest"
    and "\<forall>e \<in> set (h_toc h). toc_in_bounds (length d) e"
  shows "ParseHeader (Some d) (length d) = Inr h"
proof -
  have toc: "length (h_toc h) = 3" using assms(1) by (simp add: header_fits_def)
  have "take_fields header_sizes d = header_chunks h" using take_fields_header [OF toc] assms(3) by simp
  moreover have "header_chunks h ! 0 = kMagic" by (simp add: header_chunks_def)
  moreover have "kHeaderBytes \<le> length d" using length_header [OF toc] by (simp add: assms(3))
  ultimately show ?thesis using assms by (simp add: ParseHeader_def header_of_chunks)
qed

text \<open>On the same bytes the mapped parser accepts what the stdio reader accepts, up to the bounds check.\<close>

lemma ParseHeader_ReadHeader:
  assumes "ParseHeader (Some d) (length d) = Inr h"
  shows "ReadHeader \<lparr>f_data = d, f_pos = p, f_room = r\<rparr> = Inr h"
proof -
  have "96 \<le> length d" "take_fields header_sizes d ! 0 = kMagic"
    "h = header_of (take_fields header_sizes d)" "h_version h = kVersion"
    using assms by (auto simp: ParseHeader_def kHeaderBytes_def Let_def split: if_splits)
  moreover have "sum_list header_sizes = 96" by (simp add: header_sizes_def)
  ultimately show ?thesis by (simp add: ReadHeader_def read_all_fields fseek_set_def)
qed

section \<open>The image a save writes\<close>

definition index_image :: "'ix usearch_api \<Rightarrow> 'ix VNodeIndex \<Rightarrow> bytes" where
  "index_image api v =
     (if vi_dim v = 0 then []
      else case Option.bind (vi_index v) ue_impl of
             None \<Rightarrow> []
           | Some ix \<Rightarrow> (case us_save api ix of None \<Rightarrow> [] | Some cs \<Rightarrow> concat cs))"

definition saved_header :: "'ix usearch_api \<Rightarrow> 'ix VNodeIndex \<Rightarrow> KvStore \<Rightarrow> Header" where
  "saved_header api v m =
     (let lk = length (kv_image m); ln = length (nodes_image (vi_storage v)); li = length (index_image api v)
      in (save_header v m)\<lparr>
           h_toc := [\<lparr>toc_offset = 96, toc_length = lk\<rparr>, \<lparr>toc_offset = 96 + lk, toc_length = ln\<rparr>,
                     if 0 < vi_dim v then \<lparr>toc_offset = 96 + lk + ln, toc_length = li\<rparr> else TocEntry_init],
           h_flags := (if 0 < vi_dim v \<and> 0 < li then 1 else 0)\<rparr>)"

definition rdb_image :: "'ix usearch_api \<Rightarrow> 'ix VNodeIndex \<Rightarrow> KvStore \<Rightarrow> bytes" where
  "rdb_image api v m =
     concat (header_chunks (saved_header api v m)) @ kv_image m @ nodes_image (vi_storage v) @ index_image api v"

lemma saved_header_toc: "length (h_toc (saved_header api v m)) = 3"
  by (simp add: saved_header_def Let_def)

lemma length_rdb_image:
  "length (rdb_image api v m) =
     96 + length (kv_image m) + length (nodes_image (vi_storage v)) + length (index_image api v)"
  using length_header [OF saved_header_toc] by (simp add: rdb_image_def kHeaderBytes_def del: length_concat)

lemma SaveIndex_ok:
  assumes "SaveIndex api v f = (ViOk, f')" and "f_pos f = length (f_data f)"
  shows "f' = f_store f (index_image api v)"
  using assms write_all_ok [of f _ f']
  by (auto simp: SaveIndex_def index_image_def USearchEmbedIndex_Save_def f_store_Nil
           split: option.splits if_splits prod.splits)

lemma save_section_ok:
  assumes "save_section (\<lambda>f. apfst (\<lambda>st. st = ok) (wr f)) f = (Some e, f')"
    and "\<And>g. wr f = (ok, g) \<Longrightarrow> g = f_store f bs"
  shows "f' = f_store f bs" and "e = \<lparr>toc_offset = f_pos f, toc_length = length bs\<rparr>"
proof -
  obtain g where g: "wr f = (ok, g)" "f' = g" "e = \<lparr>toc_offset = f_pos f, toc_length = f_pos g - f_pos f\<rparr>"
    using assms(1) by (cases "wr f") (auto simp: save_section_def split: if_splits)
  from assms(2) [OF g(1)] g show "f' = f_store f bs" "e = \<lparr>toc_offset = f_pos f, toc_length = length bs\<rparr>"
    by simp_all
qed

lemma save_section_run:
  assumes "wr f = (ok, f_store f bs)"
  shows "save_section (\<lambda>f. apfst (\<lambda>st. st = ok) (wr f)) f =
           (Some \<lparr>toc_offset = f_pos f, toc_length = length bs\<rparr>, f_store f bs)"
  using assms by (simp add: save_section_def)

text \<open>The file after the three sections, before the header is written over the gap.\<close>

definition sections_file :: "nat \<Rightarrow> bytes \<Rightarrow> FILE" where
  "sections_file room bs =
     \<lparr>f_data = replicate kHeaderBytes NUL @ bs, f_pos = kHeaderBytes + length bs, f_room = room - length bs\<rparr>"

lemma sections_first:
  "f_store (fseek_set \<lparr>f_data = [], f_pos = 0, f_room = room\<rparr> kHeaderBytes) bs = sections_file room bs"
  by (simp add: f_store_def fseek_set_def sections_file_def)

lemma sections_next: "f_store (sections_file room xs) ys = sections_file room (xs @ ys)"
  by (simp add: f_store_def sections_file_def)

lemma sections_end: "f_pos (sections_file room bs) = length (f_data (sections_file room bs))"
  by (simp add: sections_file_def)

lemma sections_sel [simp]:
  "f_pos (sections_file room bs) = 96 + length bs" "f_room (sections_file room bs) = room - length bs"
  "length (f_data (sections_file room bs)) = 96 + length bs"
  by (simp_all add: sections_file_def kHeaderBytes_def)

lemma sections_header:
  assumes "length hb = kHeaderBytes"
  shows "f_data (f_store (fseek_set (sections_file room bs) 0) hb) = hb @ bs"
  using assms by (simp add: f_store_def fseek_set_def sections_file_def)

lemma gap_dump:
  fixes room :: nat
  defines "f \<equiv> fseek_set \<lparr>f_data = [], f_pos = 0, f_room = room\<rparr> kHeaderBytes"
  assumes "kv_fits m"
  shows "KvStore_Dump m f = (KvOk, g) \<Longrightarrow> g = f_store f (kv_image m)"
    and "length (kv_image m) \<le> room \<Longrightarrow> KvStore_Dump m f = (KvOk, f_store f (kv_image m))"
proof -
  have gap: "length (f_data f) \<le> f_pos f" and room: "f_room (f_pad f) = room"
    and at: "f_pos (f_pad f) = length (f_data (f_pad f))"
    by (simp_all add: f_def fseek_set_def f_pad_def)
  show "g = f_store f (kv_image m)" if "KvStore_Dump m f = (KvOk, g)"
    using KvStore_Dump_ok [of m "f_pad f" g] that assms(2) at
    by (simp add: KvStore_Dump_pad [OF gap] f_store_pad [OF gap])
  show "KvStore_Dump m f = (KvOk, f_store f (kv_image m))" if "length (kv_image m) \<le> room"
    using KvStore_Dump_room [OF assms(2) at] that
    by (simp add: KvStore_Dump_pad [OF gap] f_store_pad [OF gap] room)
qed

lemma saved_header_flags:
  "0 < vi_dim v \<and> 0 < n \<Longrightarrow> h_flags (save_header v m) OR kFlagHasUsearch = 1"
  "h_flags (save_header v m) = 0"
  by (simp_all add: save_header_def Header_init_def kFlagHasUsearch_def)

lemma saved_header_eq:
  assumes "e0 = \<lparr>toc_offset = 96, toc_length = length (kv_image m)\<rparr>"
    and "e1 = \<lparr>toc_offset = 96 + length (kv_image m), toc_length = length (nodes_image (vi_storage v))\<rparr>"
    and "e2 = (if 0 < vi_dim v
               then \<lparr>toc_offset = 96 + length (kv_image m) + length (nodes_image (vi_storage v)),
                     toc_length = length (index_image api v)\<rparr> else TocEntry_init)"
  shows "(save_header v m)\<lparr>h_toc := [e0, e1, e2],
            h_flags := (if 0 < h_dim (save_header v m) \<and> 0 < toc_length e2
                        then h_flags (save_header v m) OR kFlagHasUsearch else h_flags (save_header v m))\<rparr>
         = saved_header api v m"
  using assms by (simp add: saved_header_def Let_def save_header_def Header_init_def kFlagHasUsearch_def)

lemma save_file_ok:
  assumes "save_file api v m \<lparr>f_data = [], f_pos = 0, f_room = room\<rparr> = (SmOk, f)"
    and "kv_fits m" and "nodes_fit (vi_storage v)"
  shows "f_data f = rdb_image api v m"
proof -
  let ?f0 = "fseek_set \<lparr>f_data = [], f_pos = 0, f_room = room\<rparr> kHeaderBytes"
  let ?K = "kv_image m" and ?N = "nodes_image (vi_storage v)" and ?I = "index_image api v"
  let ?dump = "\<lambda>f. apfst (\<lambda>st. st = KvOk) (KvStore_Dump m f)"
  let ?nodes = "\<lambda>f. apfst (\<lambda>st. st = ViOk) (DumpNodes v f)"
  let ?index = "\<lambda>f. apfst (\<lambda>st. st = ViOk) (SaveIndex api v f)"
  from assms(1) obtain e0 f1 e1 f2 e2 f3 where
    s0: "save_section ?dump ?f0 = (Some e0, f1)" and s1: "save_section ?nodes f1 = (Some e1, f2)"
    and s2: "(if 0 < h_dim (save_header v m) then save_section ?index f2 else (Some TocEntry_init, f2)) = (Some e2, f3)"
    and wh: "WriteHeader f3 ((save_header v m)\<lparr>h_toc := [e0, e1, e2],
            h_flags := (if 0 < h_dim (save_header v m) \<and> 0 < toc_length e2
                        then h_flags (save_header v m) OR kFlagHasUsearch else h_flags (save_header v m))\<rparr>) = (SmOk, f)"
    unfolding save_file_def Let_def by (auto split: prod.splits option.splits if_splits)
  note 1 = save_section_ok [OF s0 gap_dump(1) [OF assms(2)]]
  then have f1: "f1 = sections_file room ?K" and e0: "e0 = \<lparr>toc_offset = 96, toc_length = length ?K\<rparr>"
    by (simp_all add: sections_first) (simp add: fseek_set_def kHeaderBytes_def)
  have "g = f_store f1 ?N" if "DumpNodes v f1 = (ViOk, g)" for g
    using DumpNodes_ok [OF that assms(3)] by (simp add: f1 sections_end)
  from save_section_ok [OF s1 this] have f2: "f2 = sections_file room (?K @ ?N)"
    and e1: "e1 = \<lparr>toc_offset = 96 + length ?K, toc_length = length ?N\<rparr>"
    by (simp_all add: f1 sections_next)
  have "f3 = f_store f2 ?I \<and> e2 = \<lparr>toc_offset = f_pos f2, toc_length = length ?I\<rparr>" if "0 < vi_dim v"
    using save_section_ok [of ViOk "SaveIndex api v" f2 e2 f3 ?I] SaveIndex_ok [of api v f2] s2 that
    by (simp add: f2 sections_end save_header_def)
  then have f3: "f3 = sections_file room (?K @ ?N @ ?I)"
    and e2: "e2 = (if 0 < vi_dim v then \<lparr>toc_offset = 96 + length ?K + length ?N, toc_length = length ?I\<rparr>
                   else TocEntry_init)"
    using s2 by (auto simp: f2 sections_next save_header_def index_image_def [of api v])
  from wh have "write_all (fseek_set f3 0) (header_chunks (saved_header api v m)) = (True, f)"
    unfolding saved_header_eq [OF e0 e1 e2]
    by (auto simp: WriteHeader_def split: prod.splits if_splits)
  then have "f = f_store (fseek_set f3 0) (concat (header_chunks (saved_header api v m)))"
    by (rule write_all_ok) (simp add: fseek_set_def)
  then show ?thesis
    by (simp add: f3 rdb_image_def sections_header [OF length_header [OF saved_header_toc]])
qed

text \<open>With room for the image the save goes through.\<close>

definition index_saveable :: "'ix usearch_api \<Rightarrow> 'ix VNodeIndex \<Rightarrow> bool" where
  "index_saveable api v \<longleftrightarrow>
     vi_dim v = 0 \<or> (\<exists>e ix cs. vi_index v = Some e \<and> ue_impl e = Some ix \<and> us_save api ix = Some cs)"

lemma SaveIndex_room:
  assumes "index_saveable api v" and "f_pos f = length (f_data f)" and "length (index_image api v) \<le> f_room f"
  shows "SaveIndex api v f = (ViOk, f_store f (index_image api v))"
proof (cases "vi_dim v = 0")
  case True
  then show ?thesis using assms(2) by (simp add: SaveIndex_def index_image_def f_store_Nil split: option.split)
next
  case False
  then obtain e ix cs where "vi_index v = Some e" "ue_impl e = Some ix" "us_save api ix = Some cs"
    using assms(1) by (auto simp: index_saveable_def)
  with False assms(2,3) write_all_room [of f cs] show ?thesis
    by (simp add: SaveIndex_def index_image_def USearchEmbedIndex_Save_def)
qed

lemma save_file_room:
  assumes "kv_fits m" and "nodes_fit (vi_storage v)" and "index_saveable api v"
    and "length (rdb_image api v m) \<le> room"
  shows "fst (save_file api v m \<lparr>f_data = [], f_pos = 0, f_room = room\<rparr>) = SmOk"
proof -
  let ?f0 = "fseek_set \<lparr>f_data = [], f_pos = 0, f_room = room\<rparr> kHeaderBytes"
  let ?K = "kv_image m" and ?N = "nodes_image (vi_storage v)" and ?I = "index_image api v"
  note len = assms(4) [unfolded length_rdb_image]
  have s0: "save_section (\<lambda>f. apfst (\<lambda>st. st = KvOk) (KvStore_Dump m f)) ?f0 =
      (Some \<lparr>toc_offset = 96, toc_length = length ?K\<rparr>, sections_file room ?K)"
    using save_section_run [where wr = "KvStore_Dump m" and f = ?f0, OF gap_dump(2) [OF assms(1)]] len
    by (simp add: sections_first) (simp add: fseek_set_def kHeaderBytes_def)
  have "DumpNodes v (sections_file room ?K) = (ViOk, f_store (sections_file room ?K) ?N)"
    using len by (intro DumpNodes_room [OF assms(2)]) simp_all
  note s1 = save_section_run [where wr = "DumpNodes v", OF this, unfolded sections_next]
  have "SaveIndex api v (sections_file room (?K @ ?N)) = (ViOk, f_store (sections_file room (?K @ ?N)) ?I)"
    using len by (intro SaveIndex_room [OF assms(3)]) simp_all
  note s2 = save_section_run [where wr = "SaveIndex api v", OF this, unfolded sections_next]
  have I0: "vi_dim v = 0 \<Longrightarrow> ?I = []" by (simp add: index_image_def)
  have wh: "write_all (fseek_set (sections_file room (?K @ ?N @ ?I)) 0) (header_chunks h) =
      (True, f_store (fseek_set (sections_file room (?K @ ?N @ ?I)) 0) (concat (header_chunks h)))"
    if "length (h_toc h) = 3" for h
    using len length_header [OF that] by (intro write_all_room_over) (simp_all add: fseek_set_def kHeaderBytes_def)
  show ?thesis
    using s1 s2 wh I0
    by (cases "vi_dim v = 0") (simp_all add: save_file_def s0 save_header_def WriteHeader_def Let_def)
qed

section \<open>Atomicity\<close>

text \<open>What a save does to the files, on success and on failure.\<close>

lemma tmp_neq: "p @ ''.tmp'' \<noteq> p"
  by simp

lemma SaveToPath_ok:
  assumes "SaveToPath api ho index kv fs p = (SmOk, fs')"
  obtains v m f where "index = Some v" "kv = Some m" "p \<noteq> []"
    "save_file api v m \<lparr>f_data = [], f_pos = 0, f_room = ho_room ho\<rparr> = (SmOk, f)"
    "fs' = (fs(p @ ''.tmp'' := None))(p \<mapsto> f_data f)"
  using assms
  by (auto simp: SaveToPath_def AtomicRename_def Let_def split: if_splits option.splits prod.splits)

lemma SaveToPath_failed:
  assumes "SaveToPath api ho index kv fs p = (st, fs')" and "st \<noteq> SmOk" and "q \<noteq> p @ ''.tmp''"
  shows "fs' q = fs q"
  using assms
  by (auto simp: SaveToPath_def AtomicRename_def Let_def split: if_splits option.splits prod.splits)

section \<open>Loading a saved image\<close>

text \<open>
  What the code relies on of usearch streams: an index that was saved loads back, into any index of the
  wrapper, as one that is the same in the sense of \<open>same\<close> and has the same dimension.
\<close>

definition usearch_saved :: "'ix usearch_api \<Rightarrow> ('ix \<Rightarrow> 'ix \<Rightarrow> bool) \<Rightarrow> 'ix \<Rightarrow> bool" where
  "usearch_saved api same ix \<longleftrightarrow>
     (\<exists>cs. us_save api ix = Some cs \<and> concat cs \<noteq> []
        \<and> (\<forall>ix0. \<exists>n ix'. us_load api ix0 (concat cs) = Some (n, ix') \<and> same ix ix'
                  \<and> us_dimensions api ix' = us_dimensions api ix)
        \<and> (\<forall>ix0. \<exists>n ix'. us_view api ix0 (concat cs) = Some (n, ix') \<and> same ix ix'
                  \<and> us_dimensions api ix' = us_dimensions api ix))"

definition index_saved :: "'ix usearch_api \<Rightarrow> ('ix \<Rightarrow> 'ix \<Rightarrow> bool) \<Rightarrow> 'ix VNodeIndex \<Rightarrow> bool" where
  "index_saved api same v \<longleftrightarrow>
     vi_dim v = 0 \<or> (\<exists>e ix. vi_index v = Some e \<and> ue_impl e = Some ix \<and> us_dimensions api ix = vi_dim v
        \<and> us_make api (vi_dim v) \<noteq> None \<and> usearch_saved api same ix)"

definition index_same :: "('ix \<Rightarrow> 'ix \<Rightarrow> bool) \<Rightarrow> 'ix VNodeIndex \<Rightarrow> 'ix VNodeIndex \<Rightarrow> bool" where
  "index_same same v v' \<longleftrightarrow>
     vi_dim v' = vi_dim v \<and>
     (if vi_dim v = 0 then vi_index v' = None
      else \<exists>e ix e' ix'. vi_index v = Some e \<and> ue_impl e = Some ix \<and> vi_index v' = Some e'
             \<and> ue_impl e' = Some ix' \<and> same ix ix')"

text \<open>The cache \<open>v'\<close> restored from one that was \<open>v\<close>.\<close>

definition cache_restored :: "('ix \<Rightarrow> 'ix \<Rightarrow> bool) \<Rightarrow> 'ix VNodeIndex \<Rightarrow> 'ix VNodeIndex \<Rightarrow> bool" where
  "cache_restored same v v' \<longleftrightarrow>
     vi_wf v' \<and> vi_view v' = vi_view v \<and> by_id (vi_storage v') = by_id (vi_storage v)
     \<and> next_id (vi_storage v') = next_id (vi_storage v) \<and> index_same same v v'"

lemma index_saved_saveable: "index_saved api same v \<Longrightarrow> index_saveable api v"
  by (auto simp: index_saved_def index_saveable_def usearch_saved_def)

lemma LoadIndexMapped_image:
  assumes "index_saved api same v" and "vi_dim v \<noteq> 0" and "path \<noteq> []"
    and "drop off d = index_image api v"
  obtains e' ix' where "LoadIndexMapped api u path (Some d) off (vi_dim v) view =
      (ViOk, u\<lparr>vi_dim := vi_dim v, vi_index := Some e'\<rparr>)"
    and "ue_impl e' = Some ix'" and "ue_dimensions e' = vi_dim v"
    and "\<forall>e ix. vi_index v = Some e \<longrightarrow> ue_impl e = Some ix \<longrightarrow> same ix ix'"
proof -
  from assms(1,2) obtain e ix cs where e: "vi_index v = Some e" "ue_impl e = Some ix"
      "us_dimensions api ix = vi_dim v" "us_make api (vi_dim v) \<noteq> None" "us_save api ix = Some cs"
    and load: "\<And>ix0. \<exists>n ix'. us_load api ix0 (concat cs) = Some (n, ix') \<and> same ix ix'
                  \<and> us_dimensions api ix' = us_dimensions api ix"
    and view: "\<And>ix0. \<exists>n ix'. us_view api ix0 (concat cs) = Some (n, ix') \<and> same ix ix'
                  \<and> us_dimensions api ix' = us_dimensions api ix"
    by (auto simp: index_saved_def usearch_saved_def)
  let ?idx = "USearchEmbedIndex_new api (vi_dim v) (vi_default_capacity u)"
  obtain ix0 where start: "ue_start api ?idx = Some ix0"
    using e(4) by (cases "ue_impl ?idx") (auto simp: ue_start_def)
  have img: "drop off d = concat cs" using assms(2,4) e by (simp add: index_image_def)
  from load [of ix0] view [of ix0] obtain n ix1 n2 ix2 where
    l: "us_load api ix0 (concat cs) = Some (n, ix1)" "same ix ix1" "us_dimensions api ix1 = us_dimensions api ix"
    and w: "us_view api ix0 (concat cs) = Some (n2, ix2)" "same ix ix2" "us_dimensions api ix2 = us_dimensions api ix"
    by blast
  show thesis
  proof (cases view)
    case True
    show thesis
      by (rule that [of "ue_loaded api ?idx ix2 True" ix2])
         (use True assms(2,3) e w start img in \<open>simp_all add: LoadIndexMapped_def Let_def
            USearchEmbedIndex_ViewMapped_def adopt_index_def ue_loaded_def\<close>)
  next
    case False
    show thesis
      by (rule that [of "ue_loaded api ?idx ix1 False" ix1])
         (use False assms(2,3) e l start img in \<open>simp_all add: LoadIndexMapped_def Let_def
            USearchEmbedIndex_LoadMapped_def adopt_index_def ue_loaded_def\<close>)
  qed
qed

lemma saved_header_fits:
  assumes "kv_fits m" and "length (rdb_image api v m) < 2 ^ 63" and "vi_dim v < 2 ^ 64"
    and "VNodeStorage_size (vi_storage v) < 2 ^ 64"
  shows "header_fits (saved_header api v m)"
proof -
  have "unat (next_id (vi_storage v)) < 2 ^ LENGTH(16)" by (rule unsigned_less)
  then have "unat (next_id (vi_storage v)) < 2 ^ 32" by simp
  with assms show ?thesis
    unfolding length_rdb_image
    by (auto simp: header_fits_def saved_header_def Let_def save_header_def Header_init_def kVersion_def
        TocEntry_init_def toc_fits_def KvStore_size_def kv_fits_def)
qed

lemma saved_header_bounds:
  "\<forall>e \<in> set (h_toc (saved_header api v m)). toc_in_bounds (length (rdb_image api v m)) e"
  unfolding length_rdb_image by (auto simp: saved_header_def Let_def toc_in_bounds_def TocEntry_init_def)

lemma saved_header_sel:
  "h_version (saved_header api v m) = kVersion" "h_kv_count (saved_header api v m) = length m"
  "h_node_count (saved_header api v m) = VNodeStorage_size (vi_storage v)"
  "h_dim (saved_header api v m) = vi_dim v" "h_next_id (saved_header api v m) = unat (next_id (vi_storage v))"
  by (simp_all add: saved_header_def Let_def save_header_def Header_init_def KvStore_size_def)

lemma rdb_sections:
  fixes api :: "'ix usearch_api" and v :: "'ix VNodeIndex" and m :: KvStore
  defines "h \<equiv> saved_header api v m" and "d \<equiv> rdb_image api v m"
  shows "toc_slice d (h_toc h ! 0) = kv_image m"
    and "toc_slice d (h_toc h ! 1) = nodes_image (vi_storage v)"
    and "0 < vi_dim v \<Longrightarrow> drop (toc_offset (h_toc h ! 2)) d = index_image api v"
proof -
  obtain hb where hb: "d = hb @ kv_image m @ nodes_image (vi_storage v) @ index_image api v" "length hb = 96"
    using length_header [OF saved_header_toc] unfolding d_def rdb_image_def kHeaderBytes_def by blast
  show "toc_slice d (h_toc h ! 0) = kv_image m" "toc_slice d (h_toc h ! 1) = nodes_image (vi_storage v)"
    "0 < vi_dim v \<Longrightarrow> drop (toc_offset (h_toc h ! 2)) d = index_image api v"
    using hb(2) by (simp_all add: hb(1) h_def saved_header_def Let_def toc_slice_def slice_def)
qed

text \<open>The stores a snapshot can hold: consistent, with sizes inside the length fields.\<close>

definition snapshot_fits :: "'ix usearch_api \<Rightarrow> 'ix VNodeIndex \<Rightarrow> KvStore \<Rightarrow> bool" where
  "snapshot_fits api v m \<longleftrightarrow> kv_wf m \<and> kv_fits m \<and> vi_wf v \<and> nodes_fit (vi_storage v)
     \<and> next_id (vi_storage v) \<noteq> 0 \<and> vi_dim v < 2 ^ 64 \<and> length (rdb_image api v m) < 2 ^ 63"

lemma snapshot_fits_size:
  assumes "snapshot_fits api v m"
  shows "VNodeStorage_size (vi_storage v) < 2 ^ 64"
proof -
  have "um_wf (by_id (vi_storage v))"
    using vi_wf_D(2) assms st_maps_uwf(1) by (auto simp: snapshot_fits_def)
  then have "VNodeStorage_size (vi_storage v) = card (live_ids (vi_storage v))" by (rule live_ids_size)
  also have "\<dots> \<le> card (UNIV :: u16 set)" by (rule card_mono) simp_all
  also have "\<dots> < 2 ^ 64" by (simp add: card_word)
  finally show ?thesis .
qed

lemma Clear_index_ok: "index_ok (vi_dim (VNodeIndex_Clear u)) (vi_index (VNodeIndex_Clear u))"
  by (simp add: VNodeIndex_Clear_def index_ok_def)

lemma LoadFromMapped_image:
  assumes fits: "snapshot_fits api v m" and saved: "index_saved api same v"
    and fs: "fs path = Some (rdb_image api v m)" and "path \<noteq> []" and ho: "ho_fstat ho" "ho_mmap ho"
  shows "\<exists>v'. LoadFromMapped api ho fs view path u w = (LoadStatus SmOk, v', m) \<and> cache_restored same v v'"
proof -
  let ?d = "rdb_image api v m" and ?h = "saved_header api v m" and ?s = "vi_storage v"
  have f: "kv_wf m" "kv_fits m" "vi_wf v" "nodes_fit ?s" "next_id ?s \<noteq> 0" "vi_dim v < 2 ^ 64"
    "length ?d < 2 ^ 63"
    using fits by (simp_all add: snapshot_fits_def)
  have ne: "?d \<noteq> []" using length_rdb_image [of api v m] by auto
  have op: "MappedFile_Open ho fs path MappedFile_new =
      (MfOk, \<lparr>mf_path = path, mf_data = Some ?d, mf_open = True\<rparr>)"
    using ne assms(3-6) by (simp add: MappedFile_Open_def MappedFile_Close_def MappedFile_new_def Let_def)
  have ph: "ParseHeader (Some ?d) (length ?d) = Inr ?h"
    using saved_header_fits [OF f(2,7,6) snapshot_fits_size [OF fits]] saved_header_sel(1) _ saved_header_bounds
    by (rule ParseHeader_written) (rule rdb_image_def)
  have kv: "KvStore_LoadFrom (toc_slice ?d (h_toc ?h ! 0)) (KvStore_Clear w) = (KvOk, m)"
    unfolding rdb_sections using KvStore_LoadFrom_image [OF f(1,2)] .
  obtain nst v1 where n: "LoadNodesFrom (VNodeIndex_Clear u) (nodes_image ?s) (VNodeStorage_size ?s) (next_id ?s)
      = (nst, v1)" by (metis surj_pair)
  note l = LoadNodesFrom_image [OF vi_wf_D(1) [OF f(3)] f(4,5) Clear_index_ok n]
  have v1: "VNodeStorage_size (vi_storage v1) = VNodeStorage_size ?s" "vi_dim v1 = 0" "vi_index v1 = None"
    using l by (simp_all add: VNodeStorage_size_def VNodeIndex_Clear_def)
  have view1: "vi_view v1 = vi_view v"
    unfolding vi_view_def VNodeStorage_GetByUserKey_def VNodeStorage_GetById_def l(2,3) by (rule refl)
  note run = LoadFromMapped_def op ph kv rdb_sections(2) [unfolded One_nat_def] n l(1) v1 saved_header_sel mf_size_def
  show ?thesis
  proof (cases "vi_dim v = 0")
    case True
    with l v1 view1 have "cache_restored same v v1"
      by (simp add: cache_restored_def index_same_def)
    with True assms(4) show ?thesis by (simp add: run KvStore_size_def)
  next
    case False
    then obtain e' ix' where li: "LoadIndexMapped api v1 path (Some ?d) (toc_offset (h_toc ?h ! 2)) (vi_dim v) view
        = (ViOk, v1\<lparr>vi_dim := vi_dim v, vi_index := Some e'\<rparr>)"
      and e': "ue_impl e' = Some ix'" "ue_dimensions e' = vi_dim v"
        "\<forall>e ix. vi_index v = Some e \<longrightarrow> ue_impl e = Some ix \<longrightarrow> same ix ix'"
      using LoadIndexMapped_image [OF saved False assms(4) rdb_sections(3), of v1 m view] by auto
    let ?v2 = "v1\<lparr>vi_dim := vi_dim v, vi_index := Some e'\<rparr>"
    have "toc_length (h_toc ?h ! 2) \<noteq> 0"
      using False saved by (auto simp: saved_header_def Let_def index_saved_def usearch_saved_def index_image_def)
    moreover have "vi_wf ?v2" using l(6) False e' by (simp add: vi_wf_def index_ok_def)
    moreover have "vi_view ?v2 = vi_view v" unfolding view1 [symmetric] by (simp add: vi_view_def fun_eq_iff)
    moreover have "index_same same v ?v2"
      using False saved e' by (auto simp: index_same_def index_saved_def)
    ultimately show ?thesis using False assms(3,4) li l by (simp add: run KvStore_size_def cache_restored_def)
  qed
qed

section \<open>The two loaders agree\<close>

lemma ParseHeader_toc:
  assumes "ParseHeader (Some d) n = Inr h"
  shows "length (h_toc h) = 3" and "\<forall>e \<in> set (h_toc h). toc_in_bounds n e"
  using assms by (auto simp: ParseHeader_def Let_def header_of_def split: if_splits)

lemma LoadIndex_mapped:
  assumes "LoadIndexMapped api v path (Some d) off dd False = (ViOk, v')"
  shows "\<exists>f'. LoadIndex api v \<lparr>f_data = d, f_pos = off, f_room = r\<rparr> dd = (ViOk, v', f')"
  using assms
  by (auto simp: LoadIndexMapped_def LoadIndex_def USearchEmbedIndex_LoadMapped_def USearchEmbedIndex_Load_def
      Let_def adopt_index_def split: if_splits option.splits prod.splits)

lemma toc_slice_bounds:
  assumes "toc_in_bounds (length d) e" and "toc_length e \<noteq> 0"
  shows "toc_offset e + toc_length e \<le> length d"
  using assms by (auto simp: toc_in_bounds_def)

lemma KvStore_LoadFrom_nonempty: "KvStore_LoadFrom [] m \<noteq> (KvOk, m')"
  by (simp add: KvStore_LoadFrom_def span_take_def)

lemma LoadNodes_toc:
  assumes "LoadNodesFrom v (toc_slice d e) n nid = (ViOk, v')" and "toc_in_bounds (length d) e"
  shows "\<exists>f'. LoadNodes v \<lparr>f_data = d, f_pos = toc_offset e, f_room = r\<rparr> n nid = (ViOk, v', f')"
proof (cases "toc_length e = 0")
  case True
  then have sl: "toc_slice d e = []" by (simp add: toc_slice_def slice_def)
  with assms(1) have "n = 0"
    by (cases n) (auto simp: LoadNodesFrom_def Let_def span_take_def)
  with sl assms(1) LoadNodes_none [of v nid v'] show ?thesis by simp
next
  case False
  let ?f = "\<lparr>f_data = d, f_pos = toc_offset e, f_room = r\<rparr>"
  show ?thesis
    using LoadNodes_section [of v "toc_offset e" "toc_length e" ?f n nid v'] assms(1)
      toc_slice_bounds [OF assms(2) False] by (simp add: toc_slice_def)
qed

lemma KvStore_Load_data: "KvStore_Load f m = (st, m', f') \<Longrightarrow> f_pos f \<le> length (f_data f) \<Longrightarrow> f_data f' = f_data f"
  by (auto simp: KvStore_Load_def ReadExact_def kv_load_span_file split: if_splits option.splits prod.splits)

lemma KvStore_Load_room: "KvStore_Load f m = (st, m', f') \<Longrightarrow> f_pos f \<le> length (f_data f) \<Longrightarrow> f_room f' = f_room f"
  by (auto simp: KvStore_Load_def ReadExact_def kv_load_span_file split: if_splits option.splits prod.splits)

lemma LoadNodes_data:
  "LoadNodes v f n nid = (st, v', f') \<Longrightarrow> f_pos f \<le> length (f_data f) \<or> n = 0 \<Longrightarrow> f_data f' = f_data f \<and> f_room f' = f_room f"
  by (auto simp: LoadNodes_def Let_def load_nodes_file_span split: if_splits prod.splits)

lemma fseek_record:
  "f_data f = d \<Longrightarrow> f_room f = r \<Longrightarrow> fseek_set f p = \<lparr>f_data = d, f_pos = p, f_room = r\<rparr>"
  by (simp add: fseek_set_def)

lemma LoadFromFile_mapped:
  assumes ok: "LoadFromMapped api ho fs False path v m = (LoadStatus SmOk, v', m')"
    and fs: "fs path = Some d" and small: "length d < 2 ^ 63"
    and off: "\<And>h. ParseHeader (Some d) (length d) = Inr h \<Longrightarrow> fseek_ok (toc_offset (h_toc h ! 1))"
  shows "LoadFromFile api \<lparr>f_data = d, f_pos = 0, f_room = 0\<rparr> v m = (LoadStatus SmOk, v', m')"
proof -
  let ?f = "\<lambda>p. \<lparr>f_data = d, f_pos = p, f_room = 0\<rparr>"
  from ok fs obtain h where ph: "ParseHeader (Some d) (length d) = Inr h"
    by (auto simp: LoadFromMapped_def MappedFile_Open_def ParseHeader_def MappedFile_new_def MappedFile_Close_def
        mf_size_def Let_def split: if_splits)
  then have d: "d \<noteq> []" by (auto simp: ParseHeader_def kHeaderBytes_def split: if_splits)
  have rh: "ReadHeader (?f 0) = Inr h" using ParseHeader_ReadHeader [OF ph] .
  note toc = ParseHeader_toc [OF ph]
  let ?e0 = "h_toc h ! 0" and ?e1 = "h_toc h ! 1" and ?e2 = "h_toc h ! 2"
  have inb: "toc_in_bounds (length d) ?e0" "toc_in_bounds (length d) ?e1" "toc_in_bounds (length d) ?e2"
    using toc by (simp_all add: nth_mem)
  have step: "path \<noteq> []" "ho_fstat ho" "ho_mmap ho"
    using ok fs d by (auto simp: LoadFromMapped_def MappedFile_Open_def MappedFile_new_def MappedFile_Close_def Let_def
        split: if_splits)
  obtain v1 where
    k: "KvStore_LoadFrom (toc_slice d ?e0) (KvStore_Clear m) = (KvOk, m')" and kc: "KvStore_size m' = h_kv_count h"
    and n: "LoadNodesFrom (VNodeIndex_Clear v) (toc_slice d ?e1) (h_node_count h) (of_nat (h_next_id h)) = (ViOk, v1)"
    and nc: "VNodeStorage_size (vi_storage v1) = h_node_count h"
    and i: "if 0 < h_dim h then toc_length ?e2 \<noteq> 0 \<and>
        LoadIndexMapped api v1 path (Some d) (toc_offset ?e2) (h_dim h) False = (ViOk, v') else v' = v1"
    using ok fs d step ph
    by (auto simp: LoadFromMapped_def MappedFile_Open_def MappedFile_new_def MappedFile_Close_def Let_def mf_size_def
        vi_failed_def split: if_splits prod.splits)
  have l0: "toc_length ?e0 \<noteq> 0"
    using k KvStore_LoadFrom_nonempty by (cases "toc_length ?e0 = 0") (simp_all add: toc_slice_def slice_def)
  note b0 = toc_slice_bounds [OF inb(1) l0]
  obtain f1 where kf: "KvStore_Load (?f (toc_offset ?e0)) (KvStore_Clear m) = (KvOk, m', f1)"
    using KvStore_Load_section [of "toc_offset ?e0" "toc_length ?e0" "?f (toc_offset ?e0)"] k b0
    by (auto simp: toc_slice_def)
  have f1: "f_data f1 = d" "f_room f1 = 0"
    using KvStore_Load_data [OF kf] KvStore_Load_room [OF kf] b0 by simp_all
  obtain f2 where nf: "LoadNodes (VNodeIndex_Clear v) (?f (toc_offset ?e1)) (h_node_count h) (of_nat (h_next_id h))
      = (ViOk, v1, f2)" using LoadNodes_toc [OF n inb(2)] by blast
  have "toc_offset ?e1 \<le> length d \<or> h_node_count h = 0"
  proof (cases "toc_length ?e1 = 0")
    case True
    with n show ?thesis
      by (cases "h_node_count h") (auto simp: toc_slice_def slice_def LoadNodesFrom_def Let_def span_take_def)
  qed (use toc_slice_bounds [OF inb(2)] in simp)
  then have f2: "f_data f2 = d" "f_room f2 = 0" using LoadNodes_data [OF nf] by simp_all
  have ok1: "fseek_ok (toc_offset ?e0)" "fseek_ok (toc_offset ?e1)"
    using b0 small off [OF ph] by (simp_all add: fseek_ok_def)
  note run = LoadFromFile_def rh fseek_record [OF f1] fseek_record [OF f2] fseek_record [of "?f 0" d 0] ok1
  show ?thesis
  proof (cases "0 < h_dim h")
    case True
    with i have l2: "toc_length ?e2 \<noteq> 0"
      and m2: "LoadIndexMapped api v1 path (Some d) (toc_offset ?e2) (h_dim h) False = (ViOk, v')" by simp_all
    have "fseek_ok (toc_offset ?e2)" using toc_slice_bounds [OF inb(3) l2] small by (simp add: fseek_ok_def)
    with LoadIndex_mapped [OF m2, of 0] True l2 kf nf kc nc show ?thesis by (auto simp: run simp del: One_nat_def)
  next
    case False
    with i kf nf kc nc show ?thesis by (simp add: run del: One_nat_def)
  qed
qed

section \<open>Background saves as a state machine\<close>

interpretation save: transition_system save_init "save_step api" for api .

text \<open>
  A child exists exactly while the manager has its pid, and then the reap timer is armed; the child holds
  the stores of the fork, and one that exited with success has left their image at the pending path.
\<close>

definition save_inv :: "'ix usearch_api \<Rightarrow> 'ix save_world \<Rightarrow> bool" where
  "save_inv api w \<longleftrightarrow>
     (sw_child w = None \<longleftrightarrow> sm_child_pid (sw_sm w) \<le> 0)
     \<and> (0 < sm_child_pid (sw_sm w) \<longrightarrow> sm_reap_timer (sw_sm w) \<and> sm_pending_save_path (sw_sm w) \<noteq> [])
     \<and> (\<forall>v m p. sw_child w = Some (Running v m p) \<longrightarrow> sw_image w = (v, m) \<and> p = sm_pending_save_path (sw_sm w))
     \<and> (sw_child w = Some (Exited True) \<longrightarrow> snapshot_fits api (fst (sw_image w)) (snd (sw_image w)) \<longrightarrow>
          sw_files w (sm_pending_save_path (sw_sm w)) = Some (rdb_image api (fst (sw_image w)) (snd (sw_image w))))"

lemma BackgroundSaveToPath_cases:
  assumes "BackgroundSaveToPath pid True sm p = (st, sm')"
  shows "(st = SmOk \<longrightarrow> p \<noteq> [] \<and> sm_child_pid sm \<le> 0 \<and> \<not> pid < 0
           \<and> sm' = sm\<lparr>sm_pending_save_path := p, sm_child_pid := pid, sm_reap_timer := True\<rparr>)
     \<and> (st \<noteq> SmOk \<longrightarrow> sm' = sm \<or> sm_child_pid sm \<le> 0 \<and> sm' = sm\<lparr>sm_pending_save_path := []\<rparr>)"
  using assms by (auto simp: BackgroundSaveToPath_def EnsureReapTimer_def Let_def split: if_splits)

lemma save_child_image:
  assumes "save_child api ho v m fs p = (True, fs')" and "snapshot_fits api v m"
  shows "fs' p = Some (rdb_image api v m)"
proof -
  from assms(1) have "SaveToPath api ho (Some v) (Some m) fs p = (SmOk, fs')"
    by (auto simp: save_child_def split: prod.splits)
  then obtain f where "save_file api v m \<lparr>f_data = [], f_pos = 0, f_room = ho_room ho\<rparr> = (SmOk, f)"
    "fs' = (fs(p @ ''.tmp'' := None))(p \<mapsto> f_data f)"
    by (auto elim: SaveToPath_ok)
  with save_file_ok [of api v m "ho_room ho" f] assms(2) show ?thesis by (simp add: snapshot_fits_def)
qed

lemma reap_timer_cases:
  assumes "reap_timer_fired (wait_of c) fs sm = (sm', fs', ev)" and "c = None \<longleftrightarrow> sm_child_pid sm \<le> 0"
    and "sm_reap_timer sm"
  shows "case c of
      None \<Rightarrow> ev = None \<and> fs' = fs \<and> sm' = sm\<lparr>sm_reap_timer := False\<rparr>
    | Some (Running _ _ _) \<Rightarrow> ev = None \<and> fs' = fs \<and> sm' = sm
    | Some (Exited ok) \<Rightarrow> ev = Some (ok, sm_pending_save_path sm)
        \<and> fs' = (if ok \<and> sm_dir sm \<noteq> [] \<and> sm_pending_save_path sm = path_join (sm_dir sm) kRdbName
                 then RemoveLegacyDumpFiles (sm_dir sm) fs else fs)
        \<and> sm' = sm\<lparr>sm_reap_timer := False, sm_pending_save_path := [], sm_child_pid := -1\<rparr>"
  using assms
  by (auto simp: reap_timer_fired_def ReapSaveChild_def wait_of_def EnsureReapTimer_def Let_def
      split: option.splits save_process.splits if_splits)

lemma save_inv_init: "save_init w \<Longrightarrow> save_inv api w"
  by (auto simp: save_inv_def save_init_def SnapshotManager_new_def)

lemma save_inv_step:
  assumes "save_inv api a" and "save_step api a b"
  shows "save_inv api b"
  using assms(2,1)
proof (induction rule: save_step.induct)
  case (accepted pid w p sm)
  with BackgroundSaveToPath_cases [OF accepted(1)] show ?case by (simp add: save_inv_def)
next
  case (refused pid w p st sm)
  with BackgroundSaveToPath_cases [OF refused(1)] show ?case by (auto simp: save_inv_def)
next
  case (child w v m p ho ok fs)
  with save_child_image [of api ho v m "sw_files w" p fs] show ?case by (auto simp: save_inv_def)
next
  case (timer w sm fs ev)
  have inv: "sw_child w = None \<longleftrightarrow> sm_child_pid (sw_sm w) \<le> 0" using timer(3) by (simp add: save_inv_def)
  from reap_timer_cases [OF timer(2) inv timer(1)] timer(3) show ?case
    by (cases "sw_child w") (auto simp: save_inv_def split: save_process.splits)
qed (auto simp: save_inv_def)

lemma save_inv_reachable: "save_init w0 \<Longrightarrow> (save_step api)\<^sup>*\<^sup>* w0 w \<Longrightarrow> save_inv api w"
  using save.steps_invariant [of api w0 w "save_inv api"] save_inv_step save_inv_init by blast

section \<open>Properties\<close>

text \<open>Loading through \<^verbatim>\<open>LoadFromPath\<close>, whether the file can be mapped or not.\<close>

lemma saved_offset_ok:
  assumes "snapshot_fits api v m" and "ParseHeader (Some (rdb_image api v m)) (length (rdb_image api v m)) = Inr h"
  shows "fseek_ok (toc_offset (h_toc h ! 1))"
proof -
  have f: "kv_fits m" "length (rdb_image api v m) < 2 ^ 63" "vi_dim v < 2 ^ 64"
    using assms(1) by (simp_all add: snapshot_fits_def)
  have "ParseHeader (Some (rdb_image api v m)) (length (rdb_image api v m)) = Inr (saved_header api v m)"
    using saved_header_fits [OF f snapshot_fits_size [OF assms(1)]] saved_header_sel(1) _ saved_header_bounds
    by (rule ParseHeader_written) (rule rdb_image_def)
  with assms(2) have h: "h = saved_header api v m" by simp
  show ?thesis
    using f(2) unfolding length_rdb_image by (simp add: h saved_header_def Let_def fseek_ok_def)
qed

lemma LoadFromPath_image:
  assumes fits: "snapshot_fits api v m" and saved: "index_saved api same v"
    and fs: "fs path = Some (rdb_image api v m)" and path: "path \<noteq> []"
  shows "\<exists>v'. LoadFromPath api ho fs view path u w = (LoadStatus SmOk, v', m) \<and> cache_restored same v v'"
proof (cases "ho_fstat ho \<and> ho_mmap ho")
  case True
  then obtain v' where "LoadFromMapped api ho fs view path u w = (LoadStatus SmOk, v', m)" "cache_restored same v v'"
    using LoadFromMapped_image [where fs = fs and path = path, OF fits saved fs path] by blast
  with path show ?thesis by (simp add: LoadFromPath_def)
next
  case False
  let ?d = "rdb_image api v m" and ?ho = "ho\<lparr>ho_fstat := True, ho_mmap := True\<rparr>"
  have ne: "?d \<noteq> []" using length_rdb_image [of api v m] by auto
  have failed: "LoadFromMapped api ho fs view path u w = (LoadStatus SmIoError, u, w)"
    using False fs path ne by (auto simp: LoadFromMapped_def MappedFile_Open_def Let_def)
  obtain v' where ok: "LoadFromMapped api ?ho fs False path u w = (LoadStatus SmOk, v', m)"
    and r: "cache_restored same v v'"
    using LoadFromMapped_image [where fs = fs and path = path and ho = ?ho and view = False and u = u and w = w,
        OF fits saved fs path] by auto
  have "LoadFromFile api \<lparr>f_data = ?d, f_pos = 0, f_room = 0\<rparr> u w = (LoadStatus SmOk, v', m)"
    using LoadFromFile_mapped [where fs = fs and path = path, OF ok fs _ saved_offset_ok [OF fits]] fits by (simp add: snapshot_fits_def)
  with r failed fs path show ?thesis by (simp add: LoadFromPath_def load_stdio_def)
qed

text \<open>
  C2. The snapshot round trip. A save that reports success leaves a file that loads back, into stores with
  any contents and whether or not the file can be memory-mapped: the key/value store is the same, the
  cache has the same nodes under the same ids, the same id counter, the same lookups and an embedding
  index equivalent to the saved one, and is consistent again.
\<close>

theorem snapshot_roundtrip:
  assumes "snapshot_fits api v m" and "index_saved api same v"
    and "SaveToPath api ho (Some v) (Some m) fs path = (SmOk, fs')"
  shows "\<exists>v'. LoadFromPath api ho' fs' view path u w = (LoadStatus SmOk, v', m) \<and> cache_restored same v v'"
proof -
  from assms(3) obtain f where f: "save_file api v m \<lparr>f_data = [], f_pos = 0, f_room = ho_room ho\<rparr> = (SmOk, f)"
    "fs' = (fs(path @ ''.tmp'' := None))(path \<mapsto> f_data f)" "path \<noteq> []"
    by (auto elim: SaveToPath_ok)
  with save_file_ok [OF f(1)] assms(1) have "fs' path = Some (rdb_image api v m)" by (simp add: snapshot_fits_def)
  from LoadFromPath_image [where fs = fs' and path = path, OF assms(1,2) this f(3)] show ?thesis .
qed

text \<open>A host on which everything works, and the sample cache with its one vector, for concrete runs.\<close>

definition good_host :: host where
  "good_host = \<lparr>ho_create_directories = \<lambda>_. True, ho_create = \<lambda>_. True, ho_room = 4096, ho_fflush = True,
     ho_fsync = True, ho_rename = True, ho_fstat = True, ho_mmap = True\<rparr>"

lemma flat_saved_one: "usearch_saved flat_api (=) (Suc 0, [(Suc 0, [w])])"
proof -
  have "unat w < 2 ^ LENGTH(32)" by (rule unsigned_less)
  then have w: "le_nat (le_bytes 4 (unat w)) = unat w" by simp
  have one: "le_nat (le_bytes 8 (Suc 0)) = Suc 0" by simp
  have "flat_load ix0 (concat (the (flat_save (Suc 0, [(Suc 0, [w])])))) = Some (28, Suc 0, [(Suc 0, [w])])" for ix0
    using w one
    by (simp add: flat_load_def flat_save_def slice_def Let_def del: le_bytes.simps le_nat.simps)
  moreover have "concat (the (flat_save (Suc 0, [(Suc 0, [w])]))) \<noteq> []"
    by (simp add: flat_save_def) (metis length_le_bytes list.size(3) zero_neq_numeral)
  ultimately show ?thesis
    unfolding usearch_saved_def by (intro exI [of _ "the (flat_save (Suc 0, [(Suc 0, [w])]))"])
      (simp add: flat_api_def, simp add: flat_save_def)
qed

lemma sample_index_saved: "index_saved flat_api (=) sample_cache"
  using flat_saved_one by (simp add: index_saved_def sample_cache_def CopyFloats_def) (simp add: flat_api_def)

definition sample_kv :: KvStore where
  "sample_kv = [(''k'', ''v'')]"

lemma sample_snapshot_fits: "snapshot_fits flat_api sample_cache sample_kv" (is ?fits)
  and sample_snapshot_length: "length (rdb_image flat_api sample_cache sample_kv) \<le> 4096" (is ?len)
proof -
  have enc: "length (Codec_Encode sample_entry) \<le> 60"
    by (simp add: Codec_Encode_def AppendBulkString_def AppendArrayHeader_def AppendCRLF_def sample_entry_def
        dec_of_nat.simps dec_of_int_def)
  then have fit: "nodes_fit (vi_storage sample_cache)"
    by (simp add: nodes_fit_def node_fits_def sample_cache_def) (simp add: sample_entry_def)
  have "length (nodes_image (vi_storage sample_cache)) \<le> 100"
    using enc by (simp add: nodes_image_def node_image_def sample_cache_def)
  moreover have "length (index_image flat_api sample_cache) \<le> 100"
    by (simp add: index_image_def sample_cache_def flat_api_def flat_save_def CopyFloats_def)
  moreover have "length (kv_image sample_kv) \<le> 100" by (simp add: kv_image_def kv_entry_def sample_kv_def)
  ultimately show ?len unfolding length_rdb_image by simp
  then have "length (rdb_image flat_api sample_cache sample_kv) < 2 ^ 63" by (rule le_less_trans) simp
  with fit sample_cache_wf show ?fits
    by (simp add: snapshot_fits_def kv_wf_def kv_fits_def um_wf_def um_find_def sample_kv_def)
       (simp add: sample_cache_def)
qed

lemma SaveToPath_succeeds:
  assumes "snapshot_fits api v m" and "index_saved api same v" and "length (rdb_image api v m) \<le> 4096" and "p \<noteq> []"
  shows "fst (SaveToPath api good_host (Some v) (Some m) fs p) = SmOk"
proof -
  obtain st f where s: "save_file api v m \<lparr>f_data = [], f_pos = 0, f_room = 4096\<rparr> = (st, f)" by fastforce
  have "st = SmOk"
    using save_file_room [of m v api 4096] s assms index_saved_saveable [OF assms(2)] by (simp add: snapshot_fits_def)
  with s assms(4) show ?thesis
    by (simp add: SaveToPath_def good_host_def FsyncFile_def AtomicRename_def Let_def)
qed

lemmas sample_saved = SaveToPath_succeeds [OF sample_snapshot_fits sample_index_saved sample_snapshot_length]

theorem snapshot_roundtrip_witness:
  "\<exists>v'. LoadFromPath flat_api (good_host\<lparr>ho_mmap := False\<rparr>)
          (snd (SaveToPath flat_api good_host (Some sample_cache) (Some sample_kv) (\<lambda>_. None) ''d/dump.rdb''))
          False ''d/dump.rdb'' (VNodeIndex_new 1 1) [(''x'', ''y'')] = (LoadStatus SmOk, v', sample_kv)
     \<and> cache_restored (=) sample_cache v'"
proof (rule snapshot_roundtrip)
  show "SaveToPath flat_api good_host (Some sample_cache) (Some sample_kv) (\<lambda>_. None) ''d/dump.rdb'' =
      (SmOk, snd (SaveToPath flat_api good_host (Some sample_cache) (Some sample_kv) (\<lambda>_. None) ''d/dump.rdb''))"
    by (intro prod_eqI) (simp_all add: sample_saved)
qed (rule sample_snapshot_fits sample_index_saved)+

text \<open>
  C21. Saving is atomic. A save that does not report success, wherever it failed (directory, open, a full
  device in any section, flush, sync, rename), leaves every file but its own temporary one as it was, so
  the previous snapshot stays loadable; a save that reports success replaces the target and removes the
  temporary file, and touches nothing else.
\<close>

theorem snapshot_save_atomic:
  assumes "SaveToPath api ho index kv fs path = (st, fs')" and "q \<noteq> path @ ''.tmp''"
  shows "(st \<noteq> SmOk \<longrightarrow> fs' q = fs q) \<and>
     (st = SmOk \<longrightarrow> fs' (path @ ''.tmp'') = None \<and> fs' path \<noteq> None \<and> (q \<noteq> path \<longrightarrow> fs' q = fs q))"
proof (cases "st = SmOk")
  case True
  with assms(1) have "SaveToPath api ho index kv fs path = (SmOk, fs')" by simp
  then obtain f :: FILE where "fs' = (fs(path @ ''.tmp'' := None))(path \<mapsto> f_data f)" by (rule SaveToPath_ok) blast
  with True assms(2) show ?thesis by simp
next
  case False
  with SaveToPath_failed [OF assms(1) False assms(2)] show ?thesis by simp
qed

theorem snapshot_save_atomic_witness:
  "fst (SaveToPath flat_api (good_host\<lparr>ho_rename := False\<rparr>) (Some sample_cache) (Some sample_kv)
      [''dump.rdb'' \<mapsto> ''old''] ''dump.rdb'') \<noteq> SmOk \<and>
   snd (SaveToPath flat_api (good_host\<lparr>ho_rename := False\<rparr>) (Some sample_cache) (Some sample_kv)
      [''dump.rdb'' \<mapsto> ''old''] ''dump.rdb'') ''dump.rdb'' = Some ''old''"
proof -
  let ?r = "SaveToPath flat_api (good_host\<lparr>ho_rename := False\<rparr>) (Some sample_cache) (Some sample_kv)
      [''dump.rdb'' \<mapsto> ''old''] ''dump.rdb''"
  have "fst ?r \<noteq> SmOk"
    by (auto simp: SaveToPath_def good_host_def FsyncFile_def AtomicRename_def Let_def parent_path_def
        split: prod.split)
  moreover have "''dump.rdb'' \<noteq> ''dump.rdb'' @ ''.tmp''" by simp
  ultimately show ?thesis
    using snapshot_save_atomic [OF prod.collapse [of ?r, symmetric]] by (metis fun_upd_same)
qed

text \<open>
  The two loaders agree on every image, whoever wrote it: when the memory-mapped loader (copying the
  index) accepts a file, the stdio loader accepts it too and produces the same stores. The file is
  shorter than 2 to the 63 bytes and its node section does not start beyond that.
\<close>

lemma snapshot_loaders_agree:
  assumes "LoadFromMapped api ho fs False path v m = (LoadStatus SmOk, v', m')"
    and "fs path = Some d" and "length d < 2 ^ 63"
    and "\<forall>h. ParseHeader (Some d) (length d) = Inr h \<longrightarrow> toc_offset (h_toc h ! 1) < 2 ^ 63"
  shows "LoadFromFile api \<lparr>f_data = d, f_pos = 0, f_room = 0\<rparr> v m = (LoadStatus SmOk, v', m')"
  using LoadFromFile_mapped [OF assms(1-3)] assms(4) by (simp add: fseek_ok_def)

lemma path_join_inj: "path_join dir a = path_join dir b \<longleftrightarrow> a = b"
  by (simp add: path_join_def)

lemma legacy_keeps_rdb: "RemoveLegacyDumpFiles dir fs (path_join dir kRdbName) = fs (path_join dir kRdbName)"
proof -
  have keep: "foldl (\<lambda>fs name. fs(path_join dir name := None)) fs ns (path_join dir x) = fs (path_join dir x)"
    if "x \<notin> set ns" for x ns fs
    using that by (induction ns arbitrary: fs) (auto simp: path_join_inj)
  have "kRdbName \<notin> set legacy_names" by (simp add: legacy_names_def kRdbName_def)
  then show ?thesis by (simp add: RemoveLegacyDumpFiles_def keep)
qed

text \<open>
  C5. A background save is a point in time. Whatever the server does while the child writes, when the reap
  timer reports a successful save of a path, the file there loads to the stores as they were when the save
  was accepted, not as they are now.
\<close>

theorem background_save_point_in_time:
  assumes "save_init w0" and "(save_step api)\<^sup>*\<^sup>* w0 w" and "sw_image w = (v, m)"
    and "reap_timer_fired (wait_of (sw_child w)) (sw_files w) (sw_sm w) = (sm, fs, Some (True, p))"
    and "snapshot_fits api v m" and "index_saved api same v"
  shows "\<exists>v'. LoadFromPath api ho fs view p u x = (LoadStatus SmOk, v', m) \<and> cache_restored same v v'"
proof -
  have inv: "save_inv api w"
    using assms(1,2) by (rule save_inv_reachable)
  then have c: "sw_child w = None \<longleftrightarrow> sm_child_pid (sw_sm w) \<le> 0" by (simp add: save_inv_def)
  have t: "sm_reap_timer (sw_sm w)"
    using inv assms(4) by (auto simp: save_inv_def reap_timer_fired_def ReapSaveChild_def split: if_splits)
  from reap_timer_cases [OF assms(4) c t]
  have e: "sw_child w = Some (Exited True)" "p = sm_pending_save_path (sw_sm w)"
    and f: "fs = (if sm_dir (sw_sm w) \<noteq> [] \<and> p = path_join (sm_dir (sw_sm w)) kRdbName
                  then RemoveLegacyDumpFiles (sm_dir (sw_sm w)) (sw_files w) else sw_files w)"
    by (auto split: option.splits save_process.splits)
  with inv assms(3,5) c have "sw_files w p = Some (rdb_image api v m)" "p \<noteq> []" by (auto simp: save_inv_def)
  moreover have "fs p = sw_files w p" using f legacy_keeps_rdb by auto
  ultimately show ?thesis
    using LoadFromPath_image [where fs = fs and path = p, OF assms(5,6)] by simp
qed

text \<open>A run: the save is accepted, the store is emptied, the child finishes.\<close>

definition sample_world :: "flat_index save_world" where
  "sample_world = \<lparr>sw_sm = SnapshotManager_new [], sw_index = sample_cache, sw_kv = sample_kv,
     sw_files = \<lambda>_. None, sw_child = None, sw_image = (sample_cache, [])\<rparr>"

definition sample_world_done :: "flat_index save_world" where
  "sample_world_done =
     \<lparr>sw_sm = (SnapshotManager_new [])\<lparr>sm_pending_save_path := ''r'', sm_child_pid := 7, sm_reap_timer := True\<rparr>,
      sw_index = sample_cache, sw_kv = [],
      sw_files = snd (SaveToPath flat_api good_host (Some sample_cache) (Some sample_kv) (\<lambda>_. None) ''r''),
      sw_child = Some (Exited True), sw_image = (sample_cache, sample_kv)\<rparr>"

lemma sample_world_run: "(save_step flat_api)\<^sup>*\<^sup>* sample_world sample_world_done"
proof -
  let ?sm = "(SnapshotManager_new [])\<lparr>sm_pending_save_path := ''r'', sm_child_pid := 7, sm_reap_timer := True\<rparr>"
  let ?w1 = "sample_world\<lparr>sw_sm := ?sm, sw_child := Some (Running sample_cache sample_kv ''r''),
      sw_image := (sample_cache, sample_kv)\<rparr>"
  let ?w2 = "?w1\<lparr>sw_index := sample_cache, sw_kv := []\<rparr>"
  let ?fs = "snd (SaveToPath flat_api good_host (Some sample_cache) (Some sample_kv) (\<lambda>_. None) ''r'')"
  have "BackgroundSaveToPath 7 True (sw_sm sample_world) ''r'' = (SmOk, ?sm)"
    by (simp add: BackgroundSaveToPath_def sample_world_def SnapshotManager_new_def EnsureReapTimer_def Let_def)
  from save_step.accepted [OF this, of flat_api] have 1: "save_step flat_api sample_world ?w1"
    by (simp add: sample_world_def)
  have 2: "save_step flat_api ?w1 ?w2" by (rule save_step.serve)
  have "save_child flat_api good_host sample_cache sample_kv (\<lambda>_. None) ''r'' = (True, ?fs)"
    using sample_saved [of "''r''" "\<lambda>_. None"] by (simp add: save_child_def case_prod_beta)
  with save_step.child [of ?w2 sample_cache sample_kv "''r''" flat_api good_host True ?fs]
  have "save_step flat_api ?w2 (?w2\<lparr>sw_child := Some (Exited True), sw_files := ?fs\<rparr>)"
    by (simp add: sample_world_def)
  moreover have "?w2\<lparr>sw_child := Some (Exited True), sw_files := ?fs\<rparr> = sample_world_done"
    by (simp add: sample_world_def sample_world_done_def)
  ultimately have 3: "save_step flat_api ?w2 sample_world_done" by metis
  show ?thesis using 1 2 3 by (meson converse_rtranclp_into_rtranclp rtranclp.rtrancl_refl)
qed

lemma sample_world_init: "save_init sample_world"
  by (auto simp: save_init_def sample_world_def)

lemma sample_world_reap:
  "reap_timer_fired (wait_of (sw_child sample_world_done)) (sw_files sample_world_done) (sw_sm sample_world_done)
     = (SnapshotManager_new [], sw_files sample_world_done, Some (True, ''r''))"
  by (simp add: reap_timer_fired_def ReapSaveChild_def wait_of_def sample_world_done_def SnapshotManager_new_def Let_def)

theorem background_save_point_in_time_witness:
  "sw_kv sample_world_done = [] \<and>
   (\<exists>v'. LoadFromPath flat_api good_host (sw_files sample_world_done) False ''r'' (VNodeIndex_new 1 1) []
           = (LoadStatus SmOk, v', sample_kv) \<and> cache_restored (=) sample_cache v')"
proof
  show "sw_kv sample_world_done = []" by (simp add: sample_world_done_def)
  show "\<exists>v'. LoadFromPath flat_api good_host (sw_files sample_world_done) False ''r'' (VNodeIndex_new 1 1) []
           = (LoadStatus SmOk, v', sample_kv) \<and> cache_restored (=) sample_cache v'"
    by (rule background_save_point_in_time [OF sample_world_init sample_world_run _ sample_world_reap
          sample_snapshot_fits sample_index_saved]) (simp add: sample_world_done_def)
qed

text \<open>
  C22. No accepted save is forgotten. In every reachable state in which the child has ended, well or badly,
  the reap timer is armed, its next firing reports that outcome for the path that was asked for, and
  the manager is free for the next save.
\<close>

theorem accepted_save_reported:
  assumes "save_init w0" and "(save_step api)\<^sup>*\<^sup>* w0 w" and "sw_child w = Some (Exited ok)"
  shows "sm_reap_timer (sw_sm w) \<and> sm_pending_save_path (sw_sm w) \<noteq> [] \<and>
    (\<exists>sm fs. reap_timer_fired (wait_of (sw_child w)) (sw_files w) (sw_sm w) =
        (sm, fs, Some (ok, sm_pending_save_path (sw_sm w)))
      \<and> (\<forall>p pid. p \<noteq> [] \<longrightarrow> 0 < pid \<longrightarrow> fst (BackgroundSaveToPath pid True sm p) = SmOk))"
proof -
  have inv: "save_inv api w" using assms(1,2) by (rule save_inv_reachable)
  then have c: "sw_child w = None \<longleftrightarrow> sm_child_pid (sw_sm w) \<le> 0" by (simp add: save_inv_def)
  with inv assms(3) have t: "sm_reap_timer (sw_sm w)" "sm_pending_save_path (sw_sm w) \<noteq> []"
    by (simp_all add: save_inv_def)
  obtain sm fs ev where r: "reap_timer_fired (wait_of (sw_child w)) (sw_files w) (sw_sm w) = (sm, fs, ev)"
    by (metis surj_pair)
  from reap_timer_cases [OF r c t(1)] assms(3) t r show ?thesis
    by (auto simp: BackgroundSaveToPath_def Let_def)
qed

theorem accepted_save_reported_witness:
  "sm_reap_timer (sw_sm sample_world_done) \<and> sm_pending_save_path (sw_sm sample_world_done) \<noteq> [] \<and>
    (\<exists>sm fs. reap_timer_fired (wait_of (sw_child sample_world_done)) (sw_files sample_world_done)
        (sw_sm sample_world_done) = (sm, fs, Some (True, sm_pending_save_path (sw_sm sample_world_done)))
      \<and> (\<forall>p pid. p \<noteq> [] \<longrightarrow> 0 < pid \<longrightarrow> fst (BackgroundSaveToPath pid True sm p) = SmOk))"
  by (rule accepted_save_reported [OF sample_world_init sample_world_run]) (simp add: sample_world_done_def)

end
