(* ===== verification/Dispatch.thy ===== *)
theory Dispatch
  imports Replay Snapshot
begin

text \<open>
  Command dispatch: the handler table \<^verbatim>\<open>HandlerRegister\<close>, the facade \<^verbatim>\<open>CommandHandler\<close> with the read-only
  guard of a replica, and the five dispatchers (src/src/protocol/dispatcher/). \<^verbatim>\<open>SnapshotManager\<close> and
  \<^verbatim>\<open>ReplicationMaster\<close> appear through the one operation each that a command reaches.
\<close>

section \<open>Model\<close>

text \<open>
  \<^verbatim>\<open>BackgroundSave\<close> and \<^verbatim>\<open>OnPsync\<close>; the latter may also start a save. \<^verbatim>\<open>OnPsync\<close> returns the reply.
\<close>

record ('r, 's) server_ops =
  so_BackgroundSave :: "'s \<Rightarrow> SmStatus \<times> 's"
  so_OnPsync :: "'r \<Rightarrow> 's option \<Rightarrow> int \<Rightarrow> bytes \<Rightarrow> int \<Rightarrow> bytes \<times> 'r \<times> 's option"

text \<open>The function pointers that are ever registered.\<close>

datatype CommandHandlerFn =
  AssistDispatcherFn | VNodeDispatcherFn | KvsDispatcherFn | PersistDispatcherFn | ReplicationDispatcherFn

type_synonym HandlerRegister = "CommandType \<Rightarrow> CommandHandlerFn option"

record ('ix, 'w, 'r, 's) CommandHandler =
  ch_engine :: "('ix, 'w, 'r) engine"
  ch_snapshot :: "'s option"
  ch_replica_readonly :: bool
  ch_register :: HandlerRegister

definition HandlerRegister_Register ::
  "HandlerRegister \<Rightarrow> CommandType \<Rightarrow> CommandHandlerFn option \<Rightarrow> HandlerRegister" where
  "HandlerRegister_Register tbl c fn = (if c = kUnknown \<or> fn = None then tbl else tbl(c := fn))"

fun register_all :: "CommandType list \<Rightarrow> CommandHandlerFn \<Rightarrow> HandlerRegister \<Rightarrow> HandlerRegister" where
  "register_all [] fn tbl = tbl"
| "register_all (c # cs) fn tbl = register_all cs fn (HandlerRegister_Register tbl c (Some fn))"

definition CommandHandler_new ::
  "('ix, 'w, 'r) engine \<Rightarrow> 's option \<Rightarrow> bool \<Rightarrow> ('ix, 'w, 'r, 's) CommandHandler" where
  "CommandHandler_new en snapshot readonly =
     (let t0 = register_all [kPing, kEcho] AssistDispatcherFn (\<lambda>_. None);
          t1 = (if en_index en \<noteq> None then register_all [kVset, kVget, kVdel] VNodeDispatcherFn t0 else t0);
          t2 = (if en_kv en \<noteq> None then register_all [kSet, kDel, kGet] KvsDispatcherFn t1 else t1);
          t3 = (if snapshot \<noteq> None then register_all [kSave] PersistDispatcherFn t2 else t2);
          t4 = (if en_repl en \<noteq> None then register_all [kPsync] ReplicationDispatcherFn t3 else t3)
      in \<lparr>ch_engine = en, ch_snapshot = snapshot, ch_replica_readonly = readonly, ch_register = t4\<rparr>)"

definition AssistDispatcher :: "RequestContext \<Rightarrow> bytes \<Rightarrow> bytes" where
  "AssistDispatcher ctx reply =
     (case cmd ctx of
        kPing \<Rightarrow> if element ctx = [] then AppendSimpleString reply ''PONG''
                 else AppendBulkString reply (element ctx)
      | kEcho \<Rightarrow> AppendBulkString reply (element ctx)
      | _ \<Rightarrow> AppendError reply ''ERR unknown command'')"

text \<open>A mutation on part of the engine, the other pointer argument null.\<close>

definition mutate_kv ::
  "('ix, 'w, 'r) classes \<Rightarrow> RequestContext \<Rightarrow> ('ix, 'w, 'r) engine
     \<Rightarrow> (ApplyResult \<times> ('ix, 'w, 'r) engine) option" where
  "mutate_kv cl ctx en =
     map_option (\<lambda>(ar, en'). (ar, en'\<lparr>en_index := en_index en\<rparr>))
       (ApplyMutation cl ctx kClient (en\<lparr>en_index := None\<rparr>))"

definition mutate_index ::
  "('ix, 'w, 'r) classes \<Rightarrow> RequestContext \<Rightarrow> ('ix, 'w, 'r) engine
     \<Rightarrow> (ApplyResult \<times> ('ix, 'w, 'r) engine) option" where
  "mutate_index cl ctx en =
     map_option (\<lambda>(ar, en'). (ar, en'\<lparr>en_kv := en_kv en\<rparr>))
       (ApplyMutation cl ctx kClient (en\<lparr>en_kv := None\<rparr>))"

definition mutation_reply :: "bytes \<Rightarrow> (ApplyResult \<Rightarrow> bytes) \<Rightarrow> ApplyResult \<Rightarrow> bytes" where
  "mutation_reply reply on_ok ar =
     (if \<not> ar_ok ar then AppendError reply (''ERR '' @ ar_err ar) else on_ok ar)"

definition KvsDispatcher ::
  "('ix, 'w, 'r) classes \<Rightarrow> RequestContext \<Rightarrow> bytes \<Rightarrow> ('ix, 'w, 'r) engine
     \<Rightarrow> (bytes \<times> ('ix, 'w, 'r) engine) option" where
  "KvsDispatcher cl ctx reply en =
     (case en_kv en of
        None \<Rightarrow> Some (AppendError reply ''ERR kv not available'', en)
      | Some store \<Rightarrow>
          (case cmd ctx of
             kSet \<Rightarrow> map_option (apfst (mutation_reply reply (\<lambda>_. AppendOk reply))) (mutate_kv cl ctx en)
           | kGet \<Rightarrow>
               Some (case KvStore_Get store (key ctx) of
                       Inl KvNotFound \<Rightarrow> AppendNullBulk reply
                     | Inl _ \<Rightarrow> AppendError reply ''ERR get failed''
                     | Inr value \<Rightarrow> AppendBulkString reply value, en)
           | kDel \<Rightarrow> map_option (apfst (mutation_reply reply (\<lambda>ar. AppendInteger reply (ar_integer_reply ar))))
                      (mutate_kv cl ctx en)
           | _ \<Rightarrow> Some (AppendError reply ''ERR unknown command'', en)))"

definition VNodeDispatcher ::
  "('ix, 'w, 'r) classes \<Rightarrow> RequestContext \<Rightarrow> bytes \<Rightarrow> ('ix, 'w, 'r) engine
     \<Rightarrow> (bytes \<times> ('ix, 'w, 'r) engine) option" where
  "VNodeDispatcher cl ctx reply en =
     (case en_index en of
        None \<Rightarrow> Some (AppendError reply ''ERR index not available'', en)
      | Some v \<Rightarrow>
          (case cmd ctx of
             kVset \<Rightarrow> map_option (apfst (mutation_reply reply (\<lambda>_. AppendOk reply))) (mutate_index cl ctx en)
           | kVget \<Rightarrow>
               (case VNodeIndex_Get (cl_usearch cl) v (vector_blob ctx) (threshold ctx) of
                  (r, v') \<Rightarrow>
                    Some (case r of Inr answer \<Rightarrow> AppendBulkString reply answer
                                  | Inl _ \<Rightarrow> AppendNullBulk reply,
                          en\<lparr>en_index := Some v'\<rparr>))
           | kVdel \<Rightarrow> map_option (apfst (mutation_reply reply (\<lambda>ar. AppendInteger reply (ar_integer_reply ar))))
                       (mutate_index cl ctx en)
           | _ \<Rightarrow> Some (AppendError reply ''ERR unknown command'', en)))"

definition PersistDispatcher ::
  "('r, 's) server_ops \<Rightarrow> RequestContext \<Rightarrow> bytes \<Rightarrow> 's option \<Rightarrow> bytes \<times> 's option" where
  "PersistDispatcher so ctx reply snapshot =
     (case snapshot of
        None \<Rightarrow> (AppendError reply ''ERR persistence not available'', snapshot)
      | Some snap \<Rightarrow>
          (case cmd ctx of
             kSave \<Rightarrow>
               (case so_BackgroundSave so snap of
                  (st, snap') \<Rightarrow>
                    (case st of
                       SmOk \<Rightarrow> AppendOk reply
                     | SmNotConfigured \<Rightarrow> AppendError reply ''ERR persistence dir not set''
                     | SmInProgress \<Rightarrow> AppendError reply ''ERR Background save already in progress''
                     | _ \<Rightarrow> AppendError reply ''ERR save failed'', Some snap'))
           | _ \<Rightarrow> (AppendError reply ''ERR unknown command'', snapshot)))"

definition ReplicationDispatcher ::
  "('r, 's) server_ops \<Rightarrow> RequestContext \<Rightarrow> bytes \<Rightarrow> ('ix, 'w, 'r) engine \<Rightarrow> 's option
     \<Rightarrow> bytes \<times> ('ix, 'w, 'r) engine \<times> 's option" where
  "ReplicationDispatcher so ctx reply en snapshot =
     (if cmd ctx \<noteq> kPsync then (AppendError reply ''ERR unknown command'', en, snapshot)
      else case en_repl en of
             None \<Rightarrow> (AppendError reply ''ERR not a master'', en, snapshot)
           | Some master \<Rightarrow>
               (case so_OnPsync so master snapshot (client_fd ctx) (psync_replid ctx) (psync_offset ctx) of
                  (reply', master', snapshot') \<Rightarrow> (reply', en\<lparr>en_repl := Some master'\<rparr>, snapshot')))"

definition HandlerRegister_Dispatch ::
  "('ix, 'w, 'r) classes \<Rightarrow> ('r, 's) server_ops \<Rightarrow> ('ix, 'w, 'r, 's) CommandHandler \<Rightarrow> RequestContext
     \<Rightarrow> bytes \<Rightarrow> (bytes \<times> ('ix, 'w, 'r, 's) CommandHandler) option" where
  "HandlerRegister_Dispatch cl so h ctx reply =
     (if cmd ctx = kUnknown then Some (AppendError reply ''ERR unknown command'', h)
      else case ch_register h (cmd ctx) of
             None \<Rightarrow> Some (AppendError reply ''ERR unknown command'', h)
           | Some AssistDispatcherFn \<Rightarrow> Some (AssistDispatcher ctx reply, h)
           | Some VNodeDispatcherFn \<Rightarrow>
               map_option (\<lambda>(rp, en). (rp, h\<lparr>ch_engine := en\<rparr>)) (VNodeDispatcher cl ctx reply (ch_engine h))
           | Some KvsDispatcherFn \<Rightarrow>
               map_option (\<lambda>(rp, en). (rp, h\<lparr>ch_engine := en\<rparr>)) (KvsDispatcher cl ctx reply (ch_engine h))
           | Some PersistDispatcherFn \<Rightarrow>
               (case PersistDispatcher so ctx reply (ch_snapshot h) of
                  (rp, s) \<Rightarrow> Some (rp, h\<lparr>ch_snapshot := s\<rparr>))
           | Some ReplicationDispatcherFn \<Rightarrow>
               (case ReplicationDispatcher so ctx reply (ch_engine h) (ch_snapshot h) of
                  (rp, en, s) \<Rightarrow> Some (rp, h\<lparr>ch_engine := en, ch_snapshot := s\<rparr>)))"

definition IsReplicaWriteCommand :: "CommandType \<Rightarrow> bool" where
  "IsReplicaWriteCommand c = (case c of kSet \<Rightarrow> True | kDel \<Rightarrow> True | kVset \<Rightarrow> True | kVdel \<Rightarrow> True
     | kSave \<Rightarrow> True | _ \<Rightarrow> False)"

definition CommandHandler_Dispatch ::
  "('ix, 'w, 'r) classes \<Rightarrow> ('r, 's) server_ops \<Rightarrow> ('ix, 'w, 'r, 's) CommandHandler \<Rightarrow> RequestContext
     \<Rightarrow> (bytes \<times> ('ix, 'w, 'r, 's) CommandHandler) option" where
  "CommandHandler_Dispatch cl so h ctx =
     (if ch_replica_readonly h \<and> IsReplicaWriteCommand (cmd ctx)
      then Some (AppendError [] (''READONLY You can'' @ [CHR 0x27] @ ''t write against a read only replica.''), h)
      else HandlerRegister_Dispatch cl so h ctx [])"

section \<open>One reply per command\<close>

text \<open>The RESP values the server answers with, and their wire form.\<close>

datatype resp_value = RSimple bytes | RErr bytes | RInt int | RBulk bytes | RNull

fun print_value :: "resp_value \<Rightarrow> bytes" where
  "print_value (RSimple s) = CHR ''+'' # s @ crlf"
| "print_value (RErr s) = CHR ''-'' # s @ crlf"
| "print_value (RInt i) = CHR '':'' # dec_of_int i @ crlf"
| "print_value (RBulk s) = resp_bulk s"
| "print_value RNull = ''$-1'' @ crlf"

text \<open>Simple strings and errors are single lines.\<close>

fun value_ok :: "resp_value \<Rightarrow> bool" where
  "value_ok (RSimple s) = (CR \<notin> set s \<and> LF \<notin> set s)"
| "value_ok (RErr s) = (CR \<notin> set s \<and> LF \<notin> set s)"
| "value_ok _ = True"

definition one_value :: "bytes \<Rightarrow> bool" where
  "one_value rp \<longleftrightarrow> (\<exists>x. value_ok x \<and> rp = print_value x)"

lemma one_value_intros:
  "one_value (AppendBulkString [] s)" "one_value (AppendNullBulk [])" "one_value (AppendInteger [] i)"
  "one_value (AppendOk [])" "CR \<notin> set s \<Longrightarrow> LF \<notin> set s \<Longrightarrow> one_value (AppendError [] s)"
  "CR \<notin> set s \<Longrightarrow> LF \<notin> set s \<Longrightarrow> one_value (AppendSimpleString [] s)"
proof -
  show "one_value (AppendBulkString [] s)"
    unfolding one_value_def by (intro exI [of _ "RBulk s"]) (simp add: AppendBulkString_eq)
  show "one_value (AppendNullBulk [])"
    unfolding one_value_def by (intro exI [of _ RNull]) (simp add: AppendNullBulk_def)
  show "one_value (AppendInteger [] i)"
    unfolding one_value_def by (intro exI [of _ "RInt i"]) (simp add: AppendInteger_def)
  show "one_value (AppendOk [])"
    unfolding one_value_def by (intro exI [of _ "RSimple ''OK''"]) (simp add: AppendOk_def)
  show "one_value (AppendError [] s)" if "CR \<notin> set s" "LF \<notin> set s"
    unfolding one_value_def using that
    by (intro exI [of _ "RErr s"]) (simp add: AppendError_def AppendCRLF_def)
  show "one_value (AppendSimpleString [] s)" if "CR \<notin> set s" "LF \<notin> set s"
    unfolding one_value_def using that
    by (intro exI [of _ "RSimple s"]) (simp add: AppendSimpleString_def AppendCRLF_def)
qed

text \<open>Error texts of mutations are fixed single lines.\<close>

definition plain :: "bytes \<Rightarrow> bool" where
  "plain s \<longleftrightarrow> CR \<notin> set s \<and> LF \<notin> set s"

lemma plain_mut_texts [simp]:
  "plain ''kv not available''" "plain ''empty key''" "plain ''set failed''" "plain ''del failed''"
  "plain ''index not available''" "plain ''vdel failed''" "plain ''eviction failed''"
  "plain ''unknown write command''" "plain ''encode write command failed''" "plain ''aof append failed''"
  "plain (vset_error st)"
  by (simp_all add: plain_def vset_error_def split: ViStatus.split)

lemma log_mutation_err:
  "plain (ar_err out) \<Longrightarrow> log_mutation cl ctx src out en = (r, en') \<Longrightarrow> plain (ar_err r)"
  by (auto simp: log_mutation_def Let_def split: if_splits option.splits prod.splits)

lemma plain_init [simp]: "plain (ar_err ApplyResult_init)"
  by (simp add: plain_def ApplyResult_init_def)

lemma store_vset_err: "store_vset cl ctx src en = (r, en') \<Longrightarrow> plain (ar_err r)"
  by (auto simp: store_vset_def Let_def split: option.splits prod.splits if_splits
           dest!: log_mutation_err [rotated])

lemma apply_vdel_err: "apply_vdel cl ctx src en = (r, en') \<Longrightarrow> plain (ar_err r)"
  by (auto simp: apply_vdel_def Let_def split: option.splits prod.splits if_splits
           dest!: log_mutation_err [rotated])

lemma evict_loop_err:
  assumes "evict_loop cl k src en = Some res"
  shows "\<forall>ar e. res = Inl (ar, e) \<longrightarrow> plain (ar_err ar)"
proof (rule evict_loop.raw_induct [OF _ assms,
    where P = "\<lambda>cl k src en res. \<forall>ar e. res = Inl (ar, e) \<longrightarrow> plain (ar_err ar)"])
  fix loop cl k src en res
  assume ih: "\<And>cl k src en res. loop cl k src en = Some res \<Longrightarrow>
      \<forall>ar e. res = Inl (ar, e) \<longrightarrow> plain (ar_err ar)"
    and body: "(case en_index en of
        None \<Rightarrow> Some (Inr en)
      | Some v \<Rightarrow>
          if \<not> NeedsRoomFor v k then Some (Inr en)
          else case PeekLruUserKey v of
                 (Inl _, v1) \<Rightarrow>
                   Some (Inl (mut_fail ApplyResult_init ''eviction failed'', en\<lparr>en_index := Some v1\<rparr>))
               | (Inr victim, v1) \<Rightarrow>
                   if victim = []
                   then Some (Inl (mut_fail ApplyResult_init ''eviction failed'', en\<lparr>en_index := Some v1\<rparr>))
                   else case apply_vdel cl (del_ctx victim) src (en\<lparr>en_index := Some v1\<rparr>) of
                          (del_ar, en2) \<Rightarrow>
                            if \<not> ar_ok del_ar then Some (Inl (del_ar, en2))
                            else loop cl k src en2) = Some res"
  have ih': "plain (ar_err ar)" if "loop cl k src en = Some (Inl (ar, e))" for cl k src en ar e
    using ih [OF that] by blast
  from body show "\<forall>ar e. res = Inl (ar, e) \<longrightarrow> plain (ar_err ar)"
    by (auto split: option.splits if_splits prod.splits sum.splits dest: apply_vdel_err ih')
qed

lemma ApplyMutation_err:
  assumes "ApplyMutation cl ctx src en = Some (r, en')"
  shows "plain (ar_err r)"
proof (cases "cmd ctx = kVset")
  case True
  show ?thesis
  proof (cases "evict_loop cl (rc_user_key ctx) src en")
    case None
    with True assms show ?thesis
      by (auto simp: ApplyMutation_def apply_vset_def split: if_splits dest: store_vset_err)
  next
    case (Some res)
    with True assms show ?thesis
      by (cases res) (auto simp: ApplyMutation_def apply_vset_def split: if_splits
                           dest: store_vset_err evict_loop_err)
  qed
next
  case False
  with assms show ?thesis
    by (cases "cmd ctx")
       (auto simp: ApplyMutation_def apply_set_def apply_del_def Let_def dest: apply_vdel_err
             split: option.splits prod.splits if_splits dest!: log_mutation_err [rotated])
qed

lemma mutation_reply_value:
  assumes "plain (ar_err ar)" and "one_value (f ar)"
  shows "one_value (mutation_reply [] f ar)"
  using assms by (auto simp: mutation_reply_def plain_def intro!: one_value_intros)

lemma mutate_kv_err: "mutate_kv cl ctx en = Some (ar, en') \<Longrightarrow> plain (ar_err ar)"
  by (auto simp: mutate_kv_def dest: ApplyMutation_err)

lemma mutate_index_err: "mutate_index cl ctx en = Some (ar, en') \<Longrightarrow> plain (ar_err ar)"
  by (auto simp: mutate_index_def dest: ApplyMutation_err)

lemma KvsDispatcher_value: "KvsDispatcher cl ctx [] en = Some (rp, en') \<Longrightarrow> one_value rp"
  by (cases "cmd ctx")
     (auto simp: KvsDispatcher_def dest!: mutate_kv_err
           intro!: mutation_reply_value one_value_intros
           split: option.splits sum.splits KvStatus.splits)

lemma VNodeDispatcher_value: "VNodeDispatcher cl ctx [] en = Some (rp, en') \<Longrightarrow> one_value rp"
  by (cases "cmd ctx")
     (auto simp: VNodeDispatcher_def dest!: mutate_index_err
           intro!: mutation_reply_value one_value_intros
           split: option.splits sum.splits prod.splits)

lemma PersistDispatcher_value: "PersistDispatcher so ctx [] s = (rp, s') \<Longrightarrow> one_value rp"
  by (cases "cmd ctx")
     (auto simp: PersistDispatcher_def intro!: one_value_intros
           split: option.splits prod.splits SmStatus.splits)

lemma AssistDispatcher_value: "one_value (AssistDispatcher ctx [])"
  by (cases "cmd ctx") (auto simp: AssistDispatcher_def intro!: one_value_intros)

lemma Dispatch_value:
  assumes "CommandHandler_Dispatch cl so h ctx = Some (rp, h')"
    and "ch_register h (cmd ctx) \<noteq> Some ReplicationDispatcherFn"
  shows "one_value rp"
proof (cases "ch_replica_readonly h \<and> IsReplicaWriteCommand (cmd ctx)")
  case True
  with assms show ?thesis by (auto simp: CommandHandler_Dispatch_def intro!: one_value_intros)
next
  case False
  with assms(1) have "HandlerRegister_Dispatch cl so h ctx [] = Some (rp, h')"
    by (auto simp: CommandHandler_Dispatch_def)
  with assms(2) show ?thesis
    by (auto simp: HandlerRegister_Dispatch_def
             split: if_splits option.splits CommandHandlerFn.splits prod.splits
             intro: AssistDispatcher_value one_value_intros
             dest: KvsDispatcher_value VNodeDispatcher_value PersistDispatcher_value)
qed

text \<open>Which handler a fresh table has for a command.\<close>

lemma CommandHandler_new_register:
  "ch_register (CommandHandler_new en snapshot ro) c =
     (if c \<in> {kPing, kEcho} then Some AssistDispatcherFn
      else if c \<in> {kVset, kVget, kVdel} \<and> en_index en \<noteq> None then Some VNodeDispatcherFn
      else if c \<in> {kSet, kDel, kGet} \<and> en_kv en \<noteq> None then Some KvsDispatcherFn
      else if c = kSave \<and> snapshot \<noteq> None then Some PersistDispatcherFn
      else if c = kPsync \<and> en_repl en \<noteq> None then Some ReplicationDispatcherFn
      else None)"
  by (cases c) (simp_all add: CommandHandler_new_def HandlerRegister_Register_def Let_def)

section \<open>Dispatch returns and keeps the invariant\<close>

definition ch_wf :: "('ix, 'w, 'r, 's) CommandHandler \<Rightarrow> bool" where
  "ch_wf h \<longleftrightarrow> en_wf (ch_engine h)"

lemma mutate_kv_wf:
  assumes "en_wf en"
  shows "\<exists>ar en'. mutate_kv cl ctx en = Some (ar, en') \<and> en_wf en'"
proof -
  have "en_wf (en\<lparr>en_index := None\<rparr>)" using assms by (simp add: en_wf_def)
  from ApplyMutation_wf [OF this, of cl ctx kClient] assms show ?thesis
    by (auto simp: mutate_kv_def en_wf_def)
qed

lemma mutate_index_wf:
  assumes "en_wf en"
  shows "\<exists>ar en'. mutate_index cl ctx en = Some (ar, en') \<and> en_wf en'"
proof -
  have "en_wf (en\<lparr>en_kv := None\<rparr>)" using assms by (simp add: en_wf_def)
  from ApplyMutation_wf [OF this, of cl ctx kClient] assms show ?thesis
    by (auto simp: mutate_index_def en_wf_def)
qed

lemma KvsDispatcher_wf:
  assumes "en_wf en"
  shows "\<exists>rp en'. KvsDispatcher cl ctx reply en = Some (rp, en') \<and> en_wf en'"
  using mutate_kv_wf [OF assms, of cl ctx] assms
  by (cases "cmd ctx") (auto simp: KvsDispatcher_def split: option.split)

lemma VNodeDispatcher_wf:
  assumes "en_wf en"
  shows "\<exists>rp en'. VNodeDispatcher cl ctx reply en = Some (rp, en') \<and> en_wf en'"
proof (cases "en_index en")
  case None
  with assms show ?thesis by (simp add: VNodeDispatcher_def)
next
  case (Some v)
  obtain r v' where get: "VNodeIndex_Get (cl_usearch cl) v (vector_blob ctx) (threshold ctx) = (r, v')"
    by (metis surj_pair)
  have "vi_wf v'" using VNodeIndex_Get_wf [OF _ get] assms Some by (simp add: en_wf_def)
  with mutate_index_wf [OF assms, of cl ctx] assms Some get show ?thesis
    by (cases "cmd ctx") (auto simp: VNodeDispatcher_def en_wf_def)
qed

lemma Dispatch_wf:
  assumes wf: "ch_wf h"
  shows "\<exists>rp h'. CommandHandler_Dispatch cl so h ctx = Some (rp, h') \<and> ch_wf h'
           \<and> ch_replica_readonly h' = ch_replica_readonly h \<and> ch_register h' = ch_register h"
proof -
  have en: "en_wf (ch_engine h)" using wf by (simp add: ch_wf_def)
  have "\<exists>rp h'. HandlerRegister_Dispatch cl so h ctx [] = Some (rp, h') \<and> ch_wf h'
           \<and> ch_replica_readonly h' = ch_replica_readonly h \<and> ch_register h' = ch_register h"
  proof (cases "cmd ctx = kUnknown \<or> ch_register h (cmd ctx) = None")
    case True
    with wf show ?thesis by (auto simp: HandlerRegister_Dispatch_def)
  next
    case False
    then obtain fn where "cmd ctx \<noteq> kUnknown" "ch_register h (cmd ctx) = Some fn" by auto
    with wf KvsDispatcher_wf [OF en, of cl ctx "[]"] VNodeDispatcher_wf [OF en, of cl ctx "[]"] show ?thesis
      by (cases fn)
         (auto simp: HandlerRegister_Dispatch_def ch_wf_def ReplicationDispatcher_def en_wf_def
               split: prod.split option.split)
  qed
  with wf show ?thesis by (auto simp: CommandHandler_Dispatch_def)
qed

section \<open>Dispatch logs what it changes\<close>

lemma replay_sub_kv:
  assumes "ApplyMutation cl c kAofReplay (e\<lparr>en_kv := None\<rparr>) = Some (ar, e1)" and "ar_ok ar"
  shows "ApplyMutation cl c kAofReplay e = Some (ar, e1\<lparr>en_kv := en_kv e\<rparr>)" and "en_kv e1 = None"
proof -
  have "ApplyMutation cl c kAofReplay e = Some (ar, e1\<lparr>en_kv := en_kv e\<rparr>) \<and> en_kv e1 = None"
    using assms
    by (cases "cmd c")
       (auto simp: ApplyMutation_def apply_set_def apply_del_def apply_vset_def apply_vdel_def
          store_vset_def Let_def split: option.splits prod.splits if_splits)
  then show "ApplyMutation cl c kAofReplay e = Some (ar, e1\<lparr>en_kv := en_kv e\<rparr>)" "en_kv e1 = None"
    by blast+
qed

lemma replay_sub_index:
  assumes "ApplyMutation cl c kAofReplay (e\<lparr>en_index := None\<rparr>) = Some (ar, e1)" and "ar_ok ar"
  shows "ApplyMutation cl c kAofReplay e = Some (ar, e1\<lparr>en_index := en_index e\<rparr>)" and "en_index e1 = None"
proof -
  have "ApplyMutation cl c kAofReplay e = Some (ar, e1\<lparr>en_index := en_index e\<rparr>) \<and> en_index e1 = None"
    using assms
    by (cases "cmd c")
       (auto simp: ApplyMutation_def apply_set_def apply_del_def apply_vset_def apply_vdel_def
          store_vset_def Let_def split: option.splits prod.splits if_splits)
  then show "ApplyMutation cl c kAofReplay e = Some (ar, e1\<lparr>en_index := en_index e\<rparr>)" "en_index e1 = None"
    by blast+
qed

lemma replay_ctxs_sub_kv:
  "replay_ctxs cl cs (e\<lparr>en_kv := None\<rparr>) = Some e1 \<Longrightarrow> replay_ctxs cl cs e = Some (e1\<lparr>en_kv := en_kv e\<rparr>)"
proof (induction cs arbitrary: e)
  case (Cons c cs)
  then obtain ar e2 where app: "ApplyMutation cl c kAofReplay (e\<lparr>en_kv := None\<rparr>) = Some (ar, e2)"
    and ok: "ar_ok ar" and rest: "replay_ctxs cl cs e2 = Some e1"
    by (auto split: option.splits if_splits)
  note sub = replay_sub_kv [OF app ok]
  have "(e2\<lparr>en_kv := en_kv e\<rparr>)\<lparr>en_kv := None\<rparr> = e2" using sub(2) by simp
  with Cons.IH [of "e2\<lparr>en_kv := en_kv e\<rparr>"] rest sub(1) ok show ?case by simp
qed auto

lemma replay_ctxs_sub_index:
  "replay_ctxs cl cs (e\<lparr>en_index := None\<rparr>) = Some e1 \<Longrightarrow>
     replay_ctxs cl cs e = Some (e1\<lparr>en_index := en_index e\<rparr>)"
proof (induction cs arbitrary: e)
  case (Cons c cs)
  then obtain ar e2 where app: "ApplyMutation cl c kAofReplay (e\<lparr>en_index := None\<rparr>) = Some (ar, e2)"
    and ok: "ar_ok ar" and rest: "replay_ctxs cl cs e2 = Some e1"
    by (auto split: option.splits if_splits)
  note sub = replay_sub_index [OF app ok]
  have "(e2\<lparr>en_index := en_index e\<rparr>)\<lparr>en_index := None\<rparr> = e2" using sub(2) by simp
  with Cons.IH [of "e2\<lparr>en_index := en_index e\<rparr>"] rest sub(1) ok show ?case by simp
qed auto

lemma replays_sub_kv:
  assumes "replays cl (en\<lparr>en_kv := None\<rparr>) cs en'"
  shows "replays cl en cs (en'\<lparr>en_kv := en_kv en\<rparr>)"
  unfolding replays_def
proof (intro allI impI)
  fix e assume same: "same_data en e"
  then have "same_data (en\<lparr>en_kv := None\<rparr>) (e\<lparr>en_kv := None\<rparr>)" by (simp add: same_data_def)
  with assms obtain e1 where "replay_ctxs cl cs (e\<lparr>en_kv := None\<rparr>) = Some e1" "same_data en' e1"
    unfolding replays_def by blast
  with same show "\<exists>e'. replay_ctxs cl cs e = Some e' \<and> same_data (en'\<lparr>en_kv := en_kv en\<rparr>) e'"
    by (intro exI [of _ "e1\<lparr>en_kv := en_kv e\<rparr>"]) (simp add: replay_ctxs_sub_kv same_data_def)
qed

lemma replays_sub_index:
  assumes "replays cl (en\<lparr>en_index := None\<rparr>) cs en'"
  shows "replays cl en cs (en'\<lparr>en_index := en_index en\<rparr>)"
  unfolding replays_def
proof (intro allI impI)
  fix e assume same: "same_data en e"
  then have "same_data (en\<lparr>en_index := None\<rparr>) (e\<lparr>en_index := None\<rparr>)" by (simp add: same_data_def)
  with assms obtain e1 where "replay_ctxs cl cs (e\<lparr>en_index := None\<rparr>) = Some e1" "same_data en' e1"
    unfolding replays_def by blast
  with same show "\<exists>e'. replay_ctxs cl cs e = Some e' \<and> same_data (en'\<lparr>en_index := en_index en\<rparr>) e'"
    by (intro exI [of _ "e1\<lparr>en_index := en_index e\<rparr>"]) (simp add: replay_ctxs_sub_index same_data_def)
qed

lemma logs_step_sub_kv:
  "logs_step cl logged (en\<lparr>en_kv := None\<rparr>) en' \<Longrightarrow> logs_step cl logged en (en'\<lparr>en_kv := en_kv en\<rparr>)"
  unfolding logs_step_def wal_at_index using replays_sub_kv by blast

lemma logs_step_sub_index:
  "logs_step cl logged (en\<lparr>en_index := None\<rparr>) en' \<Longrightarrow> logs_step cl logged en (en'\<lparr>en_index := en_index en\<rparr>)"
  unfolding logs_step_def wal_at_index using replays_sub_index by blast

text \<open>A write with an empty key is refused and changes nothing.\<close>

definition req_fits :: "RequestContext \<Rightarrow> bool" where
  "req_fits ctx \<longleftrightarrow> (is_write (cmd ctx) \<longrightarrow> tokens_fit (write_tokens ctx))"

lemma ApplyMutation_empty_key:
  assumes "is_write (cmd ctx)" and "req_fits ctx" and "\<not> write_ok ctx"
  shows "\<exists>r. ApplyMutation cl ctx kClient en = Some (r, en)"
proof -
  have same: "en\<lparr>en_index := Some v\<rparr> = en" if "en_index en = Some v" for v using that by simp
  have room: "\<not> NeedsRoomFor v []" for v :: "'a VNodeIndex" by (simp add: NeedsRoomFor_def)
  from assms(1) show ?thesis
  proof (cases rule: is_write_cases)
    case Set
    with assms have "key ctx = []" by (auto simp: write_ok_def req_fits_def)
    with Set show ?thesis by (auto simp: ApplyMutation_def apply_set_def Let_def split: option.split)
  next
    case Del
    with assms have "key ctx = []" by (auto simp: write_ok_def req_fits_def)
    with Del show ?thesis by (auto simp: ApplyMutation_def apply_del_def Let_def split: option.split)
  next
    case Vset
    with assms have k: "rc_user_key ctx = []" by (auto simp: write_ok_def req_fits_def)
    show ?thesis
    proof (cases "en_index en")
      case (Some v)
      with Vset k show ?thesis
        by (simp add: ApplyMutation_def apply_vset_def evict_loop_done [OF Some room] store_vset_def
                      VNodeIndex_Set_def same)
    qed (use Vset in \<open>simp add: ApplyMutation_def apply_vset_def\<close>)
  next
    case Vdel
    with assms have k: "rc_user_key ctx = []" by (auto simp: write_ok_def req_fits_def)
    with Vdel show ?thesis
      by (auto simp: ApplyMutation_def apply_vdel_def VNodeIndex_Del_def same Let_def split: option.split)
  qed
qed

lemma ApplyMutation_logs_any:
  assumes total: "usearch_total (cl_usearch cl)"
    and logs: "aof_logs (cl_aof cl) logged" and healthy: "aof_healthy (cl_aof cl)"
    and wf: "en_log_wf en" and wal: "wal_at logged en bs" and w: "is_write (cmd ctx)" and fits: "req_fits ctx"
  shows "\<exists>r en'. ApplyMutation cl ctx kClient en = Some (r, en') \<and> logs_step cl logged en en' \<and> en_log_wf en'"
proof (cases "write_ok ctx")
  case True
  from ApplyMutation_logs [OF total logs healthy wf wal True] show ?thesis .
next
  case False
  from ApplyMutation_empty_key [OF w fits False, of cl en] wf show ?thesis
    by (auto simp: same_data_def intro!: logs_step_same)
qed

lemma mutate_kv_logs:
  assumes "usearch_total (cl_usearch cl)" and "aof_logs (cl_aof cl) logged" and "aof_healthy (cl_aof cl)"
    and wf: "en_log_wf en" and wal: "wal_at logged en bs" and "is_write (cmd ctx)" and "req_fits ctx"
  shows "\<exists>ar en'. mutate_kv cl ctx en = Some (ar, en') \<and> logs_step cl logged en en' \<and> en_log_wf en'"
proof -
  have "en_log_wf (en\<lparr>en_index := None\<rparr>)" "wal_at logged (en\<lparr>en_index := None\<rparr>) bs"
    using wf wal by (simp_all add: en_log_wf_def)
  from ApplyMutation_logs_any [OF assms(1-3) this assms(6,7)] wf show ?thesis
    by (auto simp: mutate_kv_def en_log_wf_def intro: logs_step_sub_index)
qed

lemma mutate_index_logs:
  assumes "usearch_total (cl_usearch cl)" and "aof_logs (cl_aof cl) logged" and "aof_healthy (cl_aof cl)"
    and wf: "en_log_wf en" and wal: "wal_at logged en bs" and "is_write (cmd ctx)" and "req_fits ctx"
  shows "\<exists>ar en'. mutate_index cl ctx en = Some (ar, en') \<and> logs_step cl logged en en' \<and> en_log_wf en'"
proof -
  have "en_log_wf (en\<lparr>en_kv := None\<rparr>)" "wal_at logged (en\<lparr>en_kv := None\<rparr>) bs"
    using wf wal by (simp_all add: en_log_wf_def)
  from ApplyMutation_logs_any [OF assms(1-3) this assms(6,7)] wf show ?thesis
    by (auto simp: mutate_index_def en_log_wf_def intro: logs_step_sub_kv)
qed

lemma Get_log_wf:
  assumes "vi_log_wf v" and get: "VNodeIndex_Get api v b t = (r, v')"
  shows "vi_log_wf v' \<and> vi_core v' = vi_core v"
proof -
  from get have "vi_core v' = vi_core v" by (cases rule: Get_cases) (auto simp: vi_core_def)
  moreover have "vi_wf v'" using VNodeIndex_Get_wf [OF _ get] assms(1) by (simp add: vi_log_wf_def)
  ultimately show ?thesis
    using assms(1) by (auto simp: vi_log_wf_def vi_fresh_def keys_fit_def vi_core_def)
qed

lemma KvsDispatcher_logs:
  assumes "usearch_total (cl_usearch cl)" and "aof_logs (cl_aof cl) logged" and "aof_healthy (cl_aof cl)"
    and wf: "en_log_wf en" and wal: "wal_at logged en bs" and fits: "req_fits ctx"
  shows "\<exists>rp en'. KvsDispatcher cl ctx reply en = Some (rp, en') \<and> logs_step cl logged en en' \<and> en_log_wf en'"
proof (cases "is_write (cmd ctx)")
  case True
  from mutate_kv_logs [OF assms(1-5) True fits] show ?thesis
    by (cases "cmd ctx")
       (auto simp: KvsDispatcher_def same_data_def wf intro!: logs_step_same split: option.split)
next
  case False
  with wf show ?thesis
    by (cases "cmd ctx")
       (auto simp: KvsDispatcher_def same_data_def is_write_def intro!: logs_step_same split: option.split)
qed

lemma VNodeDispatcher_logs:
  assumes "usearch_total (cl_usearch cl)" and "aof_logs (cl_aof cl) logged" and "aof_healthy (cl_aof cl)"
    and wf: "en_log_wf en" and wal: "wal_at logged en bs" and fits: "req_fits ctx"
  shows "\<exists>rp en'. VNodeDispatcher cl ctx reply en = Some (rp, en') \<and> logs_step cl logged en en' \<and> en_log_wf en'"
proof (cases "en_index en")
  case None
  with wf show ?thesis by (auto simp: VNodeDispatcher_def same_data_def intro!: logs_step_same)
next
  case (Some v)
  show ?thesis
  proof (cases "is_write (cmd ctx)")
    case True
    from mutate_index_logs [OF assms(1-5) True fits] Some True show ?thesis
      by (elim is_write_cases)
         (auto simp: VNodeDispatcher_def same_data_def wf intro!: logs_step_same)
  next
    case False
    obtain r v' where get: "VNodeIndex_Get (cl_usearch cl) v (vector_blob ctx) (threshold ctx) = (r, v')"
      by (metis surj_pair)
    have "vi_log_wf v' \<and> vi_core v' = vi_core v" using Get_log_wf [OF _ get] wf Some by (simp add: en_log_wf_def)
    with False wf Some get show ?thesis
      by (cases "cmd ctx")
         (auto simp: VNodeDispatcher_def same_data_def is_write_def en_log_wf_def intro!: logs_step_same)
  qed
qed

lemma Dispatch_logs:
  assumes "usearch_total (cl_usearch cl)" and "aof_logs (cl_aof cl) logged" and "aof_healthy (cl_aof cl)"
    and wf: "en_log_wf (ch_engine h)" and wal: "wal_at logged (ch_engine h) bs" and fits: "req_fits ctx"
  shows "\<exists>rp h'. CommandHandler_Dispatch cl so h ctx = Some (rp, h')
     \<and> logs_step cl logged (ch_engine h) (ch_engine h') \<and> en_log_wf (ch_engine h')"
proof -
  have refl: "logs_step cl logged (ch_engine h) (ch_engine h)"
    by (rule logs_step_same) (simp_all add: same_data_def)
  have "\<exists>rp h'. HandlerRegister_Dispatch cl so h ctx [] = Some (rp, h')
     \<and> logs_step cl logged (ch_engine h) (ch_engine h') \<and> en_log_wf (ch_engine h')"
  proof (cases "cmd ctx = kUnknown \<or> ch_register h (cmd ctx) = None")
    case True
    with wf refl show ?thesis by (auto simp: HandlerRegister_Dispatch_def)
  next
    case False
    then obtain fn where fn: "cmd ctx \<noteq> kUnknown" "ch_register h (cmd ctx) = Some fn" by auto
    show ?thesis
    proof (cases fn)
      case AssistDispatcherFn
      with fn wf refl show ?thesis by (simp add: HandlerRegister_Dispatch_def)
    next
      case VNodeDispatcherFn
      with fn VNodeDispatcher_logs [OF assms, of "[]"] show ?thesis
        by (auto simp: HandlerRegister_Dispatch_def)
    next
      case KvsDispatcherFn
      with fn KvsDispatcher_logs [OF assms, of "[]"] show ?thesis
        by (auto simp: HandlerRegister_Dispatch_def)
    next
      case PersistDispatcherFn
      with fn wf refl show ?thesis by (simp add: HandlerRegister_Dispatch_def split: prod.split)
    next
      case ReplicationDispatcherFn
      with fn wf refl show ?thesis
        by (auto simp: HandlerRegister_Dispatch_def ReplicationDispatcher_def same_data_def en_log_wf_def
                 intro!: logs_step_same split: prod.split option.split)
    qed
  qed
  with wf refl show ?thesis by (auto simp: CommandHandler_Dispatch_def)
qed

text \<open>A sequence of requests.\<close>

fun dispatch_all ::
  "('ix, 'w, 'r) classes \<Rightarrow> ('r, 's) server_ops \<Rightarrow> ('ix, 'w, 'r, 's) CommandHandler \<Rightarrow> RequestContext list
     \<Rightarrow> (bytes list \<times> ('ix, 'w, 'r, 's) CommandHandler) option" where
  "dispatch_all cl so h [] = Some ([], h)"
| "dispatch_all cl so h (c # cs) =
     (case CommandHandler_Dispatch cl so h c of
        None \<Rightarrow> None
      | Some (rp, h') \<Rightarrow> map_option (\<lambda>(rps, h''). (rp # rps, h'')) (dispatch_all cl so h' cs))"

lemma dispatch_all_logs:
  assumes "usearch_total (cl_usearch cl)" and "aof_logs (cl_aof cl) logged" and "aof_healthy (cl_aof cl)"
  shows "en_log_wf (ch_engine h) \<Longrightarrow> wal_at logged (ch_engine h) bs \<Longrightarrow> \<forall>c \<in> set cs. req_fits c \<Longrightarrow>
     \<exists>rps h'. dispatch_all cl so h cs = Some (rps, h')
       \<and> logs_step cl logged (ch_engine h) (ch_engine h') \<and> en_log_wf (ch_engine h')"
proof (induction cs arbitrary: h bs)
  case Nil
  then show ?case by (auto simp: same_data_def intro!: logs_step_same)
next
  case (Cons c cs)
  from Dispatch_logs [OF assms Cons.prems(1,2), of c so] Cons.prems(3) obtain rp h1 where
    d: "CommandHandler_Dispatch cl so h c = Some (rp, h1)"
    and step: "logs_step cl logged (ch_engine h) (ch_engine h1)" and wf1: "en_log_wf (ch_engine h1)"
    by auto
  from step Cons.prems(2) obtain bs1 where "wal_at logged (ch_engine h1) bs1"
    unfolding logs_step_def by blast
  from Cons.IH [OF wf1 this] Cons.prems(3) obtain rps h' where
    "dispatch_all cl so h1 cs = Some (rps, h')" "logs_step cl logged (ch_engine h1) (ch_engine h')"
    "en_log_wf (ch_engine h')" by auto
  with d logs_step_trans [OF step] show ?case by auto
qed

text \<open>Starting again from the log reaches the same data.\<close>

lemma restart_from_log:
  assumes step: "logs_step cl logged en en'" and wal: "wal_at logged en []" and same: "same_data en e0"
    and e0: "en_index e0 \<noteq> None" "en_kv e0 \<noteq> None" and m: "wm_enabled m"
  shows "\<exists>file e'. wal_at logged en' file
     \<and> WalManager_Replay cl m (Some file) e0 = Some (RpStatus WmOk, e') \<and> same_data en' e'"
proof -
  from step wal obtain cs where cs: "\<forall>c \<in> set cs. write_ok c"
    and log: "wal_at logged en' (concat (map write_frame cs))" and rep: "replays cl en cs en'"
    unfolding logs_step_def by fastforce
  from rep same obtain e' where e': "replay_ctxs cl cs e0 = Some e'" "same_data en' e'"
    unfolding replays_def by blast
  have "replay_loop cl (concat (map write_frame cs)) e0 = Some (RpStatus WmOk, e')"
    using replay_loop_frames [OF cs e'(1), of "[]"] by simp
  with log e'(2) e0 m show ?thesis by (auto simp: WalManager_Replay_def)
qed

section \<open>Concrete runs\<close>

definition sample_ops :: "(unit, unit) server_ops" where
  "sample_ops = \<lparr>so_BackgroundSave = (\<lambda>s. (SmOk, s)), so_OnPsync = (\<lambda>r s _ _ _. ([], r, s))\<rparr>"

definition sample_handler :: "(flat_index, bytes, unit, unit) CommandHandler" where
  "sample_handler = CommandHandler_new sample_engine (Some ()) False"

lemma sample_handler_wf: "ch_wf sample_handler"
  using sample_engine_wf by (simp add: ch_wf_def sample_handler_def CommandHandler_new_def Let_def)

definition sample_ping :: RequestContext where
  "sample_ping = default_RequestContext\<lparr>cmd := kPing\<rparr>"

lemma dispatch_all_values:
  assumes "ch_wf h" and "\<forall>c \<in> set cs. ch_register h (cmd c) \<noteq> Some ReplicationDispatcherFn"
  shows "\<exists>rps h'. dispatch_all cl so h cs = Some (rps, h') \<and> ch_wf h' \<and> length rps = length cs
     \<and> (\<forall>rp \<in> set rps. one_value rp)"
  using assms
proof (induction cs arbitrary: h)
  case (Cons c cs)
  from Dispatch_wf [OF Cons.prems(1), of cl so c] obtain rp h1 where
    d: "CommandHandler_Dispatch cl so h c = Some (rp, h1)" "ch_wf h1" "ch_register h1 = ch_register h" by blast
  have "one_value rp" using Dispatch_value [OF d(1)] Cons.prems(2) by simp
  with Cons.IH [OF d(2)] Cons.prems(2) d show ?case by fastforce
qed simp

section \<open>Properties\<close>

text \<open>
  C23. Every request is answered: any sequence of requests other than PSYNC is processed to the end, each
  request yields exactly one RESP value (a single-line status or error, an integer, a bulk string or the
  null bulk), and the store invariants are kept.
\<close>

theorem dispatch_one_reply_each:
  assumes "ch_wf h" and "\<forall>c \<in> set cs. ch_register h (cmd c) \<noteq> Some ReplicationDispatcherFn"
  shows "\<exists>rps h'. dispatch_all cl so h cs = Some (rps, h') \<and> ch_wf h' \<and> length rps = length cs
     \<and> (\<forall>rp \<in> set rps. one_value rp)"
  using assms by (rule dispatch_all_values)

theorem dispatch_one_reply_each_witness:
  "\<exists>rps h'. dispatch_all sample_classes sample_ops sample_handler [sample_ping, sample_vset] = Some (rps, h')
     \<and> ch_wf h' \<and> length rps = 2"
proof -
  have "\<forall>c \<in> set [sample_ping, sample_vset]. ch_register sample_handler (cmd c) \<noteq> Some ReplicationDispatcherFn"
    by (simp add: sample_handler_def CommandHandler_new_register sample_ping_def sample_vset_def sample_engine_def)
  from dispatch_one_reply_each [OF sample_handler_wf this, of sample_classes sample_ops] show ?thesis by force
qed

text \<open>
  C37. A read-only replica refuses SET, DEL, VSET, VDEL and SAVE with a READONLY error and without any
  effect, and no client command whatever changes the data it holds.
\<close>

theorem readonly_replica_unchanged:
  assumes "ch_replica_readonly h" and "CommandHandler_Dispatch cl so h ctx = Some (rp, h')"
  shows "same_data (ch_engine h) (ch_engine h') \<and>
    (cmd ctx \<in> {kSet, kDel, kVset, kVdel, kSave} \<longrightarrow>
       h' = h \<and> rp = ''-READONLY You can'' @ [CHR 0x27] @ ''t write against a read only replica.'' @ crlf)"
proof (cases "IsReplicaWriteCommand (cmd ctx)")
  case True
  with assms show ?thesis
    by (auto simp: CommandHandler_Dispatch_def same_data_def AppendError_def AppendCRLF_def)
next
  case False
  then have nw: "cmd ctx \<notin> {kSet, kDel, kVset, kVdel, kSave}" by (auto simp: IsReplicaWriteCommand_def)
  have disp: "HandlerRegister_Dispatch cl so h ctx [] = Some (rp, h')"
    using False assms(2) by (simp add: CommandHandler_Dispatch_def)
  have vnode: "same_data en en'" if "VNodeDispatcher cl ctx [] en = Some (r, en')" for en en' r
  proof (cases "cmd ctx = kVget \<and> en_index en \<noteq> None")
    case True
    then obtain v where v: "en_index en = Some v" by auto
    obtain x v' where get: "VNodeIndex_Get (cl_usearch cl) v (vector_blob ctx) (threshold ctx) = (x, v')"
      by (metis surj_pair)
    from get have "vi_core v' = vi_core v" by (cases rule: Get_cases) (auto simp: vi_core_def)
    with that True v get show ?thesis by (auto simp: VNodeDispatcher_def same_data_def)
  next
    case False
    with that nw show ?thesis
      by (cases "cmd ctx") (auto simp: VNodeDispatcher_def same_data_def split: option.splits)
  qed
  have kvs: "same_data en en'" if "KvsDispatcher cl ctx [] en = Some (r, en')" for en en' r
    using that nw by (cases "cmd ctx") (auto simp: KvsDispatcher_def same_data_def split: option.splits)
  have "same_data (ch_engine h) (ch_engine h')"
    using disp vnode kvs
    by (auto simp: HandlerRegister_Dispatch_def ReplicationDispatcher_def same_data_def
             split: if_splits option.splits CommandHandlerFn.splits prod.splits)
  with nw show ?thesis by blast
qed

theorem readonly_replica_unchanged_witness:
  "\<exists>rp h'. CommandHandler_Dispatch sample_classes sample_ops (sample_handler\<lparr>ch_replica_readonly := True\<rparr>)
       sample_vset = Some (rp, h')
     \<and> same_data (ch_engine (sample_handler\<lparr>ch_replica_readonly := True\<rparr>)) (ch_engine h')"
proof -
  have "ch_wf (sample_handler\<lparr>ch_replica_readonly := True\<rparr>)" using sample_handler_wf by (simp add: ch_wf_def)
  from Dispatch_wf [OF this, of sample_classes sample_ops sample_vset] obtain rp h' where
    d: "CommandHandler_Dispatch sample_classes sample_ops (sample_handler\<lparr>ch_replica_readonly := True\<rparr>)
       sample_vset = Some (rp, h')" by blast
  from readonly_replica_unchanged [OF _ d] d show ?thesis by auto
qed

end
