(* ===== verification/Protocol.thy ===== *)
theory Protocol
  imports Dispatch
begin

text \<open>
  The request path of a connection: the read buffer \<^verbatim>\<open>MessageBuffer\<close>
  (src/include/vemory/net/MessageBuffer.h), \<^verbatim>\<open>RespProtocolHandler::TryParse\<close>
  (src/src/protocol/resp/RespProtocolHandler.cc) and the loop of
  \<^verbatim>\<open>ProtocolExecutor::OnBufferReadable\<close> (src/src/protocol/ProtocolExecutor.cc), which parses frames
  until more input is needed and writes the replies of one round in one batch. Answers do not depend
  on how TCP cuts the stream.
\<close>

section \<open>MessageBuffer\<close>

type_synonym MessageBuffer = bytes

text \<open>One \<^verbatim>\<open>recv\<close> of at most 4096 bytes that returned data.\<close>

definition MessageBuffer_Recv :: "MessageBuffer \<Rightarrow> bytes \<Rightarrow> MessageBuffer" where
  "MessageBuffer_Recv buf chunk = buf @ take 4096 chunk"

definition GetDataUntilCRLF :: "MessageBuffer \<Rightarrow> bytes option" where
  "GetDataUntilCRLF buf = map_option (\<lambda>pos. take pos buf) (FindCRLF buf 0)"

definition GetAllData :: "MessageBuffer \<Rightarrow> bytes option" where
  "GetAllData buf = (if buf = [] then None else Some buf)"

definition ReadCompleted :: "MessageBuffer \<Rightarrow> nat \<Rightarrow> MessageBuffer" where
  "ReadCompleted buf n = (if length buf \<le> n then [] else if 0 < n then drop n buf else buf)"

lemma ReadCompleted_drop: "ReadCompleted buf n = drop n buf"
  by (simp add: ReadCompleted_def)

section \<open>TryParse\<close>

datatype parse_result = PrOk RequestContext nat | PrNeedMore | PrError | PrLengthError

definition TryParse :: "int \<Rightarrow> MessageBuffer \<Rightarrow> parse_result" where
  "TryParse fd buf =
     (case GetAllData buf of
        None \<Rightarrow> PrNeedMore
      | Some all \<Rightarrow>
          (case DecodeArrayOfBulk all of
             DNeedMore \<Rightarrow> PrNeedMore
           | DError \<Rightarrow> PrError
           | DLengthError \<Rightarrow> PrLengthError
           | DOk tokens consumed \<Rightarrow>
               PrOk (snd (FromTokens fd tokens default_RequestContext)) consumed))"

lemma TryParse_append:
  assumes "TryParse fd buf \<noteq> PrNeedMore"
  shows "TryParse fd (buf @ ys) = TryParse fd buf"
proof -
  have "buf \<noteq> []" "DecodeArrayOfBulk buf \<noteq> DNeedMore"
    using assms by (auto simp: TryParse_def GetAllData_def split: if_splits)
  with DecodeArrayOfBulk_append [of buf ys] show ?thesis
    by (simp add: TryParse_def GetAllData_def)
qed

lemma TryParse_consumed:
  assumes "TryParse fd buf = PrOk ctx n"
  shows "0 < n" and "n \<le> length buf"
  using assms DecodeArrayOfBulk_take [of buf]
  by (auto simp: TryParse_def GetAllData_def split: if_splits decode_result.splits)

lemma TryParse_shrinks: "TryParse fd buf = PrOk ctx n \<Longrightarrow> length buf - n < length buf"
  using TryParse_consumed [of fd buf ctx n] by auto

section \<open>OnBufferReadable\<close>

text \<open>
  How a round ends: waiting for input, with the wire-error callback, or by an escaping exception.
  \<open>f\<close> is the dispatch callback on the server state; None means that it does not return.
\<close>

datatype round_end = RoundNeedMore | RoundError | RoundThrow

function drain ::
  "('s \<Rightarrow> RequestContext \<Rightarrow> (bytes \<times> 's) option) \<Rightarrow> int \<Rightarrow> MessageBuffer \<Rightarrow> bytes \<Rightarrow> 's
     \<Rightarrow> (round_end \<times> MessageBuffer \<times> bytes \<times> 's) option" where
  "drain f fd buf batch st =
     (case TryParse fd buf of
        PrNeedMore \<Rightarrow> Some (RoundNeedMore, buf, batch, st)
      | PrError \<Rightarrow> Some (RoundError, buf, batch, st)
      | PrLengthError \<Rightarrow> Some (RoundThrow, buf, batch, st)
      | PrOk ctx consumed \<Rightarrow>
          (case f st ctx of
             None \<Rightarrow> None
           | Some (reply, st') \<Rightarrow> drain f fd (ReadCompleted buf consumed) (batch @ reply) st'))"
  by pat_completeness auto
termination
  by (relation "measure (\<lambda>(f, fd, buf, batch, st). length buf)")
     (auto simp: ReadCompleted_drop TryParse_shrinks)

declare drain.simps [simp del]

definition protocol_error_reply :: bytes where
  "protocol_error_reply = ''-ERR protocol error'' @ crlf"

text \<open>
  A round with the callbacks of Vemory.cc: the bytes handed to \<^verbatim>\<open>conn->Send\<close>, the buffer left, the
  new state. None: an exception, or a dispatch that does not return.
\<close>

definition OnBufferReadable ::
  "('s \<Rightarrow> RequestContext \<Rightarrow> (bytes \<times> 's) option) \<Rightarrow> int \<Rightarrow> MessageBuffer \<Rightarrow> 's
     \<Rightarrow> (bytes \<times> MessageBuffer \<times> 's) option" where
  "OnBufferReadable f fd buf st =
     (case drain f fd buf [] st of
        None \<Rightarrow> None
      | Some (RoundNeedMore, rest, batch, st') \<Rightarrow> Some (batch, rest, st')
      | Some (RoundError, rest, batch, st') \<Rightarrow> Some (batch @ protocol_error_reply, rest, st')
      | Some (RoundThrow, _, _, _) \<Rightarrow> None)"

text \<open>The batch in hand only prefixes the output.\<close>

lemma drain_batch:
  "drain f fd buf (b1 @ b2) st =
     map_option (\<lambda>(e, rest, out, st'). (e, rest, b1 @ out, st')) (drain f fd buf b2 st)"
proof (induction f fd buf b2 st rule: drain.induct)
  case (1 f fd buf batch st)
  show ?case
  proof (cases "TryParse fd buf")
    case (PrOk ctx n)
    then show ?thesis
      using "1.IH" [OF PrOk] by (subst (1 2) drain.simps) (simp split: option.split prod.split)
  qed (subst (1 2) drain.simps, simp)+
qed

text \<open>
  More input only extends a round: what was answered stays answered, and the rest of the old buffer
  is parsed again together with the new bytes.
\<close>

lemma drain_append:
  assumes "drain f fd buf batch st = Some (RoundNeedMore, rest, out, st')"
  shows "drain f fd (buf @ ys) batch st = drain f fd (rest @ ys) out st'"
  using assms
proof (induction f fd buf batch st rule: drain.induct)
  case (1 f fd buf batch st)
  show ?case
  proof (cases "TryParse fd buf")
    case (PrOk ctx n)
    note n = TryParse_consumed [OF PrOk]
    have ext: "TryParse fd (buf @ ys) = PrOk ctx n" using TryParse_append [of fd buf ys] PrOk by simp
    from "1.prems" PrOk obtain reply st1 where d: "f st ctx = Some (reply, st1)"
      "drain f fd (ReadCompleted buf n) (batch @ reply) st1 = Some (RoundNeedMore, rest, out, st')"
      by (subst (asm) drain.simps) (auto split: option.splits)
    have "drain f fd (buf @ ys) batch st = drain f fd (ReadCompleted buf n @ ys) (batch @ reply) st1"
      using ext d(1) n by (subst drain.simps) (simp add: ReadCompleted_drop)
    with "1.IH" [OF PrOk d(1) refl d(2)] show ?thesis by simp
  next
    case PrNeedMore
    with "1.prems" have "rest = buf" "out = batch" "st' = st" by (simp_all add: drain.simps)
    then show ?thesis by simp
  qed (use "1.prems" in \<open>simp_all add: drain.simps\<close>)
qed

text \<open>Two reads, two rounds: the same bytes out and the same state as one read of everything.\<close>

lemma OnBufferReadable_append:
  assumes "drain f fd buf [] st = Some (RoundNeedMore, rest, out1, st1)"
  shows "OnBufferReadable f fd (buf @ ys) st =
     map_option (\<lambda>(out2, rest2, st2). (out1 @ out2, rest2, st2)) (OnBufferReadable f fd (rest @ ys) st1)"
  using drain_append [OF assms, of ys] drain_batch [of f fd "rest @ ys" out1 "[]" st1]
  by (auto simp: OnBufferReadable_def split: option.split round_end.split prod.split)

text \<open>A round over complete, well-formed requests answers them in order.\<close>

lemma drain_requests:
  assumes "\<forall>toks \<in> set tss. tokens_fit toks"
  shows "drain (\<lambda>h ctx. CommandHandler_Dispatch cl so h ctx) fd (concat (map resp_array tss) @ rest) batch h =
     (case dispatch_all cl so h (map (\<lambda>toks. snd (FromTokens fd toks default_RequestContext)) tss) of
        None \<Rightarrow> None
      | Some (rps, h') \<Rightarrow> drain (\<lambda>h ctx. CommandHandler_Dispatch cl so h ctx) fd rest (batch @ concat rps) h')"
  using assms
proof (induction tss arbitrary: batch h)
  case (Cons toks tss)
  let ?c = "snd (FromTokens fd toks default_RequestContext)"
  have "TryParse fd (resp_array toks @ concat (map resp_array tss) @ rest) = PrOk ?c (length (resp_array toks))"
    using DecodeArrayOfBulk_resp_array [of toks "concat (map resp_array tss) @ rest"] Cons.prems
    by (simp add: TryParse_def GetAllData_def)
  then show ?case
    using Cons.IH Cons.prems
    by (subst drain.simps) (auto simp: ReadCompleted_drop split: option.split)
qed simp

lemma drain_Nil [simp]: "drain f fd [] batch st = Some (RoundNeedMore, [], batch, st)"
  by (subst drain.simps) (simp add: TryParse_def GetAllData_def)

section \<open>Properties\<close>



text \<open>
  Pipelining: a buffer that holds any number of complete, well-formed requests is consumed whole, each
  request is dispatched in order on the state the previous one left, and the replies go out in that order.
\<close>

lemma pipeline_in_order:
  assumes "\<forall>toks \<in> set tss. tokens_fit toks"
    and "dispatch_all cl so h (map (\<lambda>toks. snd (FromTokens fd toks default_RequestContext)) tss) = Some (rps, h')"
  shows "OnBufferReadable (CommandHandler_Dispatch cl so) fd (concat (map resp_array tss)) h =
     Some (concat rps, [], h')"
  using drain_requests [OF assms(1), of cl so fd "[]" "[]" h] assms(2) by (simp add: OnBufferReadable_def)

end
