(* ===== verification/TcpConn.thy ===== *)
theory TcpConn
  imports Protocol
begin

text \<open>
  The connection \<^verbatim>\<open>TcpConn\<close> (src/src/net/TcpConnection.cc): immediate and buffered sends, a file streamed
  with \<^verbatim>\<open>sendfile\<close> between them, the write loop, the read loop and closing. What \<^verbatim>\<open>send\<close>, \<^verbatim>\<open>sendfile\<close> and \<^verbatim>\<open>recv\<close>
  will answer is part of the state; the bytes the kernel has taken are collected in \<open>tc_wire\<close>. The
  callbacks act on the state \<open>'s\<close> of their owner. The write loop is a partial function into \<open>option\<close>,
  None meaning that it does not return; it returns whenever the done callback starts no further file.
\<close>

section \<open>Model\<close>

text \<open>Answers of \<^verbatim>\<open>send\<close> and \<^verbatim>\<open>sendfile\<close> (the count is cut to what was offered), and of \<^verbatim>\<open>recv\<close>.\<close>

datatype write_answer = IoSent nat | IoAgain | IoErr

datatype read_answer = RvData bytes | RvEof | RvErr

record TcpConn =
  tc_closed :: bool
  tc_output_buffer :: bytes
  tc_input_buffer :: MessageBuffer
  tc_sendfile :: "bytes option" \<comment> \<open>the open file, None for descriptor -1\<close>
  tc_sendfile_offset :: nat
  tc_sendfile_remaining :: nat
  tc_sendfile_done :: bool \<comment> \<open>a done callback is set\<close>
  tc_post_sendfile_buffer :: bytes
  tc_epollout :: bool
  tc_writes :: "write_answer list" \<comment> \<open>answers to come; then \<^verbatim>\<open>EAGAIN\<close>\<close>
  tc_reads :: "read_answer list" \<comment> \<open>answers to come; then \<^verbatim>\<open>EAGAIN\<close>\<close>
  tc_wire :: bytes

record 's conn_callbacks =
  cb_done :: "bool \<Rightarrow> 's \<times> TcpConn \<Rightarrow> 's \<times> TcpConn"
  cb_close :: "'s \<Rightarrow> 's"
  cb_read :: "'s \<times> TcpConn \<Rightarrow> 's \<times> TcpConn"

definition TcpConn_new :: "write_answer list \<Rightarrow> read_answer list \<Rightarrow> TcpConn" where
  "TcpConn_new ws rs =
     \<lparr>tc_closed = False, tc_output_buffer = [], tc_input_buffer = [], tc_sendfile = None, tc_sendfile_offset = 0,
      tc_sendfile_remaining = 0, tc_sendfile_done = False, tc_post_sendfile_buffer = [], tc_epollout = False,
      tc_writes = ws, tc_reads = rs, tc_wire = []\<rparr>"

definition next_write :: "TcpConn \<Rightarrow> write_answer \<times> TcpConn" where
  "next_write c = (case tc_writes c of [] \<Rightarrow> (IoAgain, c) | r # rs \<Rightarrow> (r, c\<lparr>tc_writes := rs\<rparr>))"

definition OutputBufferedBytes :: "TcpConn \<Rightarrow> nat" where
  "OutputBufferedBytes c =
     length (tc_output_buffer c) + length (tc_post_sendfile_buffer c) + tc_sendfile_remaining c"

definition EnableWrite :: "TcpConn \<Rightarrow> TcpConn" where
  "EnableWrite c = c\<lparr>tc_epollout := True\<rparr>"

definition DisableWrite :: "TcpConn \<Rightarrow> TcpConn" where
  "DisableWrite c = c\<lparr>tc_epollout := False\<rparr>"

text \<open>\<^verbatim>\<open>ClearSendFile\<close> up to its callback, and whole.\<close>

definition clear_file :: "bool \<Rightarrow> TcpConn \<Rightarrow> TcpConn" where
  "clear_file ok c =
     (let c1 = c\<lparr>tc_sendfile := None, tc_sendfile_offset := 0, tc_sendfile_remaining := 0, tc_sendfile_done := False\<rparr>
      in if ok \<and> tc_post_sendfile_buffer c1 \<noteq> []
         then EnableWrite (c1\<lparr>tc_output_buffer := tc_output_buffer c1 @ tc_post_sendfile_buffer c1,
                              tc_post_sendfile_buffer := []\<rparr>)
         else c1\<lparr>tc_post_sendfile_buffer := []\<rparr>)"

definition ClearSendFile :: "'s conn_callbacks \<Rightarrow> bool \<Rightarrow> 's \<times> TcpConn \<Rightarrow> 's \<times> TcpConn" where
  "ClearSendFile cbs ok = (\<lambda>(s, c).
     if tc_sendfile_done c then cb_done cbs ok (s, clear_file ok c) else (s, clear_file ok c))"

definition TcpConn_Close :: "'s conn_callbacks \<Rightarrow> 's \<times> TcpConn \<Rightarrow> 's \<times> TcpConn" where
  "TcpConn_Close cbs = (\<lambda>(s, c).
     if tc_closed c then (s, c)
     else case ClearSendFile cbs False (s, c\<lparr>tc_closed := True\<rparr>) of
            (s1, c1) \<Rightarrow> (cb_close cbs s1, DisableWrite c1))"

definition TcpConn_Send :: "'s conn_callbacks \<Rightarrow> bytes \<Rightarrow> 's \<times> TcpConn \<Rightarrow> int \<times> 's \<times> TcpConn" where
  "TcpConn_Send cbs data = (\<lambda>(s, c).
     if tc_closed c \<or> data = [] then (-1, s, c)
     else if tc_sendfile c \<noteq> None
     then (int (length data), s, c\<lparr>tc_post_sendfile_buffer := tc_post_sendfile_buffer c @ data\<rparr>)
     else if tc_output_buffer c \<noteq> []
     then (int (length data), s, EnableWrite (c\<lparr>tc_output_buffer := tc_output_buffer c @ data\<rparr>))
     else case next_write c of
            (IoAgain, c1) \<Rightarrow>
              (int (length data), s, EnableWrite (c1\<lparr>tc_output_buffer := tc_output_buffer c1 @ data\<rparr>))
          | (IoErr, c1) \<Rightarrow> (-1, TcpConn_Close cbs (s, c1))
          | (IoSent k, c1) \<Rightarrow>
              let n = min k (length data); c2 = c1\<lparr>tc_wire := tc_wire c1 @ take n data\<rparr>
              in (int n, s, if n < length data
                            then EnableWrite (c2\<lparr>tc_output_buffer := tc_output_buffer c2 @ drop n data\<rparr>)
                            else c2))"

text \<open>An error, or a zero count, in the write loop.\<close>

definition write_failed :: "'s conn_callbacks \<Rightarrow> 's \<times> TcpConn \<Rightarrow> 's \<times> TcpConn" where
  "write_failed cbs sc = TcpConn_Close cbs (ClearSendFile cbs False sc)"

partial_function (option) HandleWrite :: "'s conn_callbacks \<Rightarrow> 's \<Rightarrow> TcpConn \<Rightarrow> ('s \<times> TcpConn) option" where
  "HandleWrite cbs s c =
     (if tc_output_buffer c \<noteq> []
      then case next_write c of
             (IoAgain, c1) \<Rightarrow> Some (s, c1)
           | (IoErr, c1) \<Rightarrow> Some (write_failed cbs (s, c1))
           | (IoSent k, c1) \<Rightarrow>
               let n = min k (length (tc_output_buffer c1))
               in if 0 < n
                  then HandleWrite cbs s (c1\<lparr>tc_wire := tc_wire c1 @ take n (tc_output_buffer c1),
                                             tc_output_buffer := drop n (tc_output_buffer c1)\<rparr>)
                  else Some (write_failed cbs (s, c1))
      else if tc_sendfile c \<noteq> None \<and> 0 < tc_sendfile_remaining c
      then let chunk = min (tc_sendfile_remaining c) (2 ^ 20)
           in case next_write c of
                (IoAgain, c1) \<Rightarrow> Some (s, c1)
              | (IoErr, c1) \<Rightarrow> Some (write_failed cbs (s, c1))
              | (IoSent k, c1) \<Rightarrow>
                  let bs = slice (tc_sendfile_offset c1) (min k chunk) (the (tc_sendfile c1)); n = length bs
                  in if 0 < n
                     then HandleWrite cbs s (c1\<lparr>tc_wire := tc_wire c1 @ bs,
                            tc_sendfile_offset := tc_sendfile_offset c1 + n,
                            tc_sendfile_remaining := tc_sendfile_remaining c1 - n\<rparr>)
                     else Some (write_failed cbs (s, c1))
      else if tc_sendfile c \<noteq> None
      then (case ClearSendFile cbs True (s, c) of (s1, c1) \<Rightarrow> HandleWrite cbs s1 c1)
      else Some (s, DisableWrite c))"

text \<open>
  \<^verbatim>\<open>SendFile\<close>: \<open>contents\<close> is what the path holds when it is opened, None when it cannot be opened or is not
  a regular file. An open descriptor keeps that file even when the path is renamed over.
\<close>

definition TcpConn_SendFile ::
  "'s conn_callbacks \<Rightarrow> bytes \<Rightarrow> bytes option \<Rightarrow> bool \<Rightarrow> 's \<Rightarrow> TcpConn \<Rightarrow> (bool \<times> 's \<times> TcpConn) option" where
  "TcpConn_SendFile cbs path contents has_done s c =
     (if tc_closed c \<or> path = [] then Some (False, s, c)
      else if tc_sendfile c \<noteq> None then Some (False, s, c)
      else case contents of
             None \<Rightarrow> Some (False, s, c)
           | Some d \<Rightarrow>
               map_option (Pair True)
                 (HandleWrite cbs s
                    (EnableWrite (c\<lparr>tc_sendfile := Some d, tc_sendfile_offset := 0,
                                    tc_sendfile_remaining := length d, tc_sendfile_done := has_done\<rparr>))))"

fun read_loop :: "read_answer list \<Rightarrow> bool \<Rightarrow> TcpConn \<Rightarrow> bool option \<times> TcpConn" where
  "read_loop [] has_data c = (Some has_data, c\<lparr>tc_reads := []\<rparr>)"
| "read_loop (RvData bs # rs) has_data c =
     (if bs = [] then (None, c\<lparr>tc_reads := rs\<rparr>)
      else read_loop rs True (c\<lparr>tc_input_buffer := MessageBuffer_Recv (tc_input_buffer c) bs\<rparr>))"
| "read_loop (RvEof # rs) has_data c = (None, c\<lparr>tc_reads := rs\<rparr>)"
| "read_loop (RvErr # rs) has_data c = (None, c\<lparr>tc_reads := rs\<rparr>)"

definition HandleRead :: "'s conn_callbacks \<Rightarrow> 's \<times> TcpConn \<Rightarrow> 's \<times> TcpConn" where
  "HandleRead cbs = (\<lambda>(s, c).
     case read_loop (tc_reads c) False c of
       (None, c1) \<Rightarrow> TcpConn_Close cbs (s, c1)
     | (Some has_data, c1) \<Rightarrow> if has_data then cb_read cbs (s, c1) else (s, c1))"

record IoEvents =
  ev_in :: bool
  ev_out :: bool
  ev_err :: bool \<comment> \<open>one of \<^verbatim>\<open>EPOLLERR\<close>, \<^verbatim>\<open>EPOLLHUP\<close>, \<^verbatim>\<open>EPOLLRDHUP\<close>\<close>

definition HandleIO :: "'s conn_callbacks \<Rightarrow> IoEvents \<Rightarrow> 's \<times> TcpConn \<Rightarrow> ('s \<times> TcpConn) option" where
  "HandleIO cbs ev = (\<lambda>(s, c).
     if tc_closed c then Some (s, c)
     else case (if ev_in ev then HandleRead cbs (s, c) else (s, c)) of
            (s1, c1) \<Rightarrow>
              if tc_closed c1 then Some (s1, c1)
              else Option.bind (if ev_out ev then HandleWrite cbs s1 c1 else Some (s1, c1))
                     (\<lambda>(s2, c2). if tc_closed c2 then Some (s2, c2)
                                 else Some (if ev_err ev then TcpConn_Close cbs (s2, c2) else (s2, c2))))"

section \<open>The output as a stream\<close>

text \<open>What is still to be sent, in order: the buffer, the rest of the file, what was queued behind it.\<close>

definition tc_pending :: "TcpConn \<Rightarrow> bytes" where
  "tc_pending c =
     tc_output_buffer c
     @ (case tc_sendfile c of None \<Rightarrow> [] | Some d \<Rightarrow> slice (tc_sendfile_offset c) (tc_sendfile_remaining c) d)
     @ tc_post_sendfile_buffer c"

definition tc_stream :: "TcpConn \<Rightarrow> bytes" where
  "tc_stream c = tc_wire c @ tc_pending c"

text \<open>
  The file position is inside the file; without a file nothing is queued behind one; and while anything
  is pending on an open connection, the event loop watches for writability.
\<close>

definition tc_inv :: "TcpConn \<Rightarrow> bool" where
  "tc_inv c \<longleftrightarrow>
     (case tc_sendfile c of
        None \<Rightarrow> tc_post_sendfile_buffer c = [] \<and> tc_sendfile_remaining c = 0 \<and> \<not> tc_sendfile_done c
      | Some d \<Rightarrow> tc_sendfile_offset c + tc_sendfile_remaining c = length d)
     \<and> (\<not> tc_closed c \<longrightarrow> tc_output_buffer c \<noteq> [] \<or> tc_sendfile c \<noteq> None \<longrightarrow> tc_epollout c)"

lemma slice_split: "slice p (n + k) d = slice p n d @ slice (p + n) k d"
  unfolding slice_def take_add by (simp add: add.commute)

lemma TcpConn_new_inv [simp]: "tc_inv (TcpConn_new ws rs)" "tc_stream (TcpConn_new ws rs) = []"
  by (simp_all add: tc_inv_def TcpConn_new_def tc_stream_def tc_pending_def)

text \<open>
  The effect of an operation that hands \<open>data\<close> to the connection: it ends up behind everything handed over
  before, unless the connection is closed; then the kernel has got a prefix. A closed connection does not
  change.
\<close>

definition conn_ext :: "TcpConn \<Rightarrow> bytes \<Rightarrow> TcpConn \<Rightarrow> bool" where
  "conn_ext c data c' \<longleftrightarrow> tc_inv c' \<and> length (tc_writes c') \<le> length (tc_writes c)
     \<and> (tc_closed c \<longrightarrow> c' = c)
     \<and> (\<not> tc_closed c' \<longrightarrow> tc_stream c' = tc_stream c @ data)
     \<and> prefix (tc_wire c') (tc_stream c @ data)"

lemma wire_prefix: "prefix (tc_wire c) (tc_stream c)"
  by (simp add: tc_stream_def)

lemma conn_ext_refl: "tc_inv c \<Longrightarrow> conn_ext c [] c"
  by (simp add: conn_ext_def wire_prefix)

lemma conn_ext_trans:
  assumes "conn_ext c x c1" and "conn_ext c1 y c2"
  shows "conn_ext c (x @ y) c2"
proof (cases "tc_closed c1")
  case True
  with assms(2) have "c2 = c1" by (simp add: conn_ext_def)
  with True assms(1) show ?thesis by (auto simp: conn_ext_def intro: prefix_prefix simp flip: append_assoc)
next
  case False
  with assms show ?thesis by (auto simp: conn_ext_def)
qed

lemma next_write_cases:
  obtains "next_write c = (IoAgain, c)" "tc_writes c = []"
    | r rs where "next_write c = (r, c\<lparr>tc_writes := rs\<rparr>)" "tc_writes c = r # rs"
  by (cases "tc_writes c") (auto simp: next_write_def)

text \<open>Without a file in flight no done callback is set, so closing only runs the close callback.\<close>

lemma Close_no_file:
  assumes "tc_inv c" and "tc_sendfile c = None" and "\<not> tc_closed c"
  shows "TcpConn_Close cbs (s, c) =
     (cb_close cbs s, c\<lparr>tc_closed := True, tc_sendfile_offset := 0, tc_epollout := False\<rparr>)"
  using assms by (simp add: TcpConn_Close_def ClearSendFile_def clear_file_def DisableWrite_def tc_inv_def Let_def)

lemma Send_ext:
  assumes "tc_inv c" and "TcpConn_Send cbs data (s, c) = (r, s', c')"
  shows "conn_ext c data c'"
    and "s' = (if \<not> tc_closed c \<and> tc_closed c' then cb_close cbs s else s)"
    and "tc_sendfile c' = tc_sendfile c"
    and "tc_closed c' \<Longrightarrow> \<not> tc_closed c \<Longrightarrow> tc_output_buffer c' = []"
proof -
  have "conn_ext c data c' \<and> s' = (if \<not> tc_closed c \<and> tc_closed c' then cb_close cbs s else s)
      \<and> tc_sendfile c' = tc_sendfile c \<and> (tc_closed c' \<longrightarrow> \<not> tc_closed c \<longrightarrow> tc_output_buffer c' = [])"
  proof (cases "tc_closed c \<or> data = [] \<or> tc_sendfile c \<noteq> None \<or> tc_output_buffer c \<noteq> []")
    case True
    with assms show ?thesis
      by (auto simp: TcpConn_Send_def conn_ext_def tc_stream_def tc_pending_def tc_inv_def EnableWrite_def
          split: if_splits option.splits)
  next
    case False
    note idle = False
    then have post: "tc_post_sendfile_buffer c = []" using assms(1) by (simp add: tc_inv_def)
    show ?thesis
    proof (cases rule: next_write_cases [of c])
      case 1
      with idle post assms show ?thesis
        by (auto simp: TcpConn_Send_def conn_ext_def tc_stream_def tc_pending_def tc_inv_def EnableWrite_def)
    next
      case (2 a rs)
      have inv: "tc_inv (c\<lparr>tc_writes := rs\<rparr>)" using assms(1) by (simp add: tc_inv_def split: option.splits)
      show ?thesis
      proof (cases a)
        case IoErr
        with 2 idle post assms Close_no_file [OF inv, of cbs s] show ?thesis
          by (auto simp: TcpConn_Send_def conn_ext_def tc_stream_def tc_pending_def tc_inv_def)
      next
        case IoAgain
        with 2 idle post assms show ?thesis
          by (auto simp: TcpConn_Send_def conn_ext_def tc_stream_def tc_pending_def tc_inv_def EnableWrite_def)
      next
        case (IoSent k)
        with 2 idle post assms show ?thesis
          by (auto simp: TcpConn_Send_def conn_ext_def tc_stream_def tc_pending_def tc_inv_def EnableWrite_def Let_def
              take_is_prefix split: if_splits)
      qed
    qed
  qed
  then show "conn_ext c data c'" "s' = (if \<not> tc_closed c \<and> tc_closed c' then cb_close cbs s else s)"
    "tc_sendfile c' = tc_sendfile c" "tc_closed c' \<Longrightarrow> \<not> tc_closed c \<Longrightarrow> tc_output_buffer c' = []"
    by simp_all
qed

section \<open>The write loop\<close>

text \<open>
  What the connection relies on of the owner of a file transfer: when it is told that the transfer failed
  it leaves the connection alone; when it is told that the file is out, it only sends. \<open>ok\<close> is an invariant
  of the owner and the connection that both callbacks keep and that speaks of the output only as a stream.
\<close>

locale transfer_owner =
  fixes cbs :: "'s conn_callbacks"
    and ok :: "'s \<Rightarrow> TcpConn \<Rightarrow> bool"
  assumes done_failed: "snd (cb_done cbs False (s, c)) = c"
    and done_sends: "tc_inv c \<Longrightarrow> tc_sendfile c = None \<Longrightarrow>
      (\<exists>extra. conn_ext c extra (snd (cb_done cbs True (s, c))))
      \<and> tc_sendfile (snd (cb_done cbs True (s, c))) = None
      \<and> (tc_closed (snd (cb_done cbs True (s, c))) \<longrightarrow> \<not> tc_closed c \<longrightarrow>
           tc_output_buffer (snd (cb_done cbs True (s, c))) = [])"
    and ok_conn: "ok s c \<Longrightarrow> tc_inv c1 \<Longrightarrow> tc_stream c1 = tc_stream c \<Longrightarrow> tc_closed c1 = tc_closed c \<Longrightarrow> ok s c1"
    and ok_done: "ok s c \<Longrightarrow> tc_inv c \<Longrightarrow> \<not> tc_closed c \<Longrightarrow> tc_sendfile c = None \<Longrightarrow>
      ok (fst (cb_done cbs True (s, c))) (snd (cb_done cbs True (s, c)))"
    and ok_close: "ok s c \<Longrightarrow> \<not> tc_closed c \<Longrightarrow> tc_closed c' \<Longrightarrow> ok (cb_close cbs s) c'"
    and ok_failed: "ok s c \<Longrightarrow> \<not> tc_closed c \<Longrightarrow> tc_closed c' \<Longrightarrow> ok (cb_close cbs (fst (cb_done cbs False (s, c1)))) c'"
begin

lemma write_failed_closed:
  assumes "write_failed cbs (s, c) = (s', c')" and "tc_inv c" and "\<not> tc_closed c"
  shows "tc_closed c' \<and> tc_inv c' \<and> tc_wire c' = tc_wire c \<and> tc_writes c' = tc_writes c \<and> \<not> tc_sendfile_done c'"
proof -
  obtain s1 c1 where 1: "ClearSendFile cbs False (s, c) = (s1, c1)" by fastforce
  have c1: "c1 = c\<lparr>tc_sendfile := None, tc_sendfile_offset := 0, tc_sendfile_remaining := 0,
      tc_sendfile_done := False, tc_post_sendfile_buffer := []\<rparr>"
    using 1 done_failed [of s "clear_file False c"]
    by (auto simp: ClearSendFile_def clear_file_def Let_def split: if_splits)
  have inv: "tc_inv c1" using assms(2,3) by (auto simp: c1 tc_inv_def split: option.splits)
  have "TcpConn_Close cbs (s1, c1) = (s', c')" using assms(1) 1 by (simp add: write_failed_def)
  with Close_no_file [OF inv, of cbs s1] assms(3) show ?thesis
    by (auto simp: c1 tc_inv_def)
qed

lemma write_failed_ok:
  assumes "write_failed cbs (s, c) = (s', c')" and "tc_inv c" and "\<not> tc_closed c" and "ok s c"
  shows "ok s' c'"
proof -
  let ?c = "clear_file False c"
  have inv: "tc_inv ?c" "tc_sendfile ?c = None" "\<not> tc_closed ?c"
    using assms(2,3) by (auto simp: clear_file_def tc_inv_def Let_def split: option.splits)
  have s': "s' = cb_close cbs (if tc_sendfile_done c then fst (cb_done cbs False (s, ?c)) else s)"
    using assms(1) done_failed [of s ?c] Close_no_file [OF inv, of cbs]
    by (cases "cb_done cbs False (s, ?c)") (auto simp: write_failed_def ClearSendFile_def split: if_splits)
  have "tc_closed c'" using write_failed_closed [OF assms(1-3)] by simp
  with ok_close [OF assms(4,3)] ok_failed [OF assms(4,3)] show ?thesis by (simp add: s')
qed

text \<open>One round sends a prefix of what was pending; the done callback may add to it.\<close>

definition written :: "TcpConn \<Rightarrow> TcpConn \<Rightarrow> bool" where
  "written c c' \<longleftrightarrow>
     (\<exists>extra. tc_inv c' \<and> (\<not> tc_sendfile_done c \<longrightarrow> extra = [] \<and> \<not> tc_sendfile_done c')
        \<and> (tc_closed c \<longrightarrow> tc_closed c')
        \<and> (\<not> tc_closed c' \<longrightarrow> tc_stream c' = tc_stream c @ extra)
        \<and> prefix (tc_wire c') (tc_stream c @ extra))"

definition write_ready :: "TcpConn \<Rightarrow> bool" where
  "write_ready c \<longleftrightarrow> tc_inv c \<and> (tc_closed c \<longrightarrow> tc_output_buffer c = [] \<and> tc_sendfile c = None)"

lemma written_stream:
  assumes "tc_stream c1 = tc_stream c" and "tc_closed c1 = tc_closed c" and "tc_sendfile_done c1 = tc_sendfile_done c"
    and "written c1 c'"
  shows "written c c'"
  using assms by (auto simp: written_def)

lemma ClearSendFile_true:
  assumes "tc_inv c" and "tc_output_buffer c = []" and "tc_sendfile c \<noteq> None" and "tc_sendfile_remaining c = 0"
    and "ClearSendFile cbs True (s, c) = (s1, c1)" and "\<not> tc_closed c"
  obtains extra where "conn_ext c extra c1" "tc_sendfile c1 = None" "\<not> tc_sendfile_done c \<Longrightarrow> extra = []"
    "tc_closed c1 \<Longrightarrow> tc_output_buffer c1 = []" "ok s c \<Longrightarrow> ok s1 c1"
proof -
  let ?c = "clear_file True c"
  have inv: "tc_inv ?c" and str: "tc_stream ?c = tc_stream c"
    and sel: "tc_sendfile ?c = None" "tc_closed ?c = tc_closed c" "tc_writes ?c = tc_writes c"
    using assms(1-4,6)
    by (auto simp: clear_file_def Let_def tc_inv_def EnableWrite_def tc_stream_def tc_pending_def slice_def)
  have run: "(s1, c1) = (if tc_sendfile_done c then cb_done cbs True (s, ?c) else (s, ?c))"
    using assms(5) by (simp add: ClearSendFile_def)
  show thesis
  proof (cases "tc_sendfile_done c")
    case True
    then have c1: "c1 = snd (cb_done cbs True (s, ?c))" using run by (metis snd_conv)
    from done_sends [OF inv sel(1), of s] obtain extra where e: "conn_ext ?c extra c1" "tc_sendfile c1 = None"
      "tc_closed c1 \<longrightarrow> tc_output_buffer c1 = []" using assms(6) sel(2) by (auto simp: c1)
    have "ok s1 c1" if "ok s c"
      using ok_done [OF ok_conn [OF that inv str sel(2)] inv _ sel(1)] sel(2) assms(6) run True by (metis fst_conv snd_conv)
    with e str sel assms(6) True show thesis by (intro that [of extra]) (auto simp: conn_ext_def)
  next
    case False
    with run have c1: "c1 = ?c" "s1 = s" by simp_all
    with inv str sel False assms(6) wire_prefix [of ?c] ok_conn [OF _ inv str sel(2), of s] show thesis
      by (intro that [of "[]"]) (auto simp: conn_ext_def)
  qed
qed

text \<open>One send of the loop moves bytes from the front of the pending ones to the wire.\<close>

lemma buffer_sent:
  fixes rs :: "write_answer list"
  assumes "tc_inv c" and "n \<le> length (tc_output_buffer c)"
  defines "c' \<equiv> c\<lparr>tc_writes := rs, tc_wire := tc_wire c @ take n (tc_output_buffer c),
                 tc_output_buffer := drop n (tc_output_buffer c)\<rparr>"
  shows "tc_inv c'" and "tc_stream c' = tc_stream c"
  using assms by (auto simp: tc_inv_def tc_stream_def tc_pending_def split: option.splits)

lemma file_sent:
  fixes rs :: "write_answer list"
  assumes "tc_inv c" and "tc_sendfile c = Some d" and "tc_output_buffer c = []"
    and "bs = slice (tc_sendfile_offset c) n d" and "n \<le> tc_sendfile_remaining c"
  defines "c' \<equiv> c\<lparr>tc_writes := rs, tc_wire := tc_wire c @ bs, tc_sendfile_offset := tc_sendfile_offset c + length bs,
                 tc_sendfile_remaining := tc_sendfile_remaining c - length bs\<rparr>"
  shows "tc_inv c'" and "tc_stream c' = tc_stream c"
proof -
  have len: "tc_sendfile_offset c + tc_sendfile_remaining c = length d" using assms(1,2) by (simp add: tc_inv_def)
  then have n: "length bs = n" using assms(4,5) by (simp add: slice_def)
  with assms len show "tc_inv c'" by (simp add: tc_inv_def)
  have "slice (tc_sendfile_offset c) (tc_sendfile_remaining c) d =
      bs @ slice (tc_sendfile_offset c + n) (tc_sendfile_remaining c - n) d"
    using slice_split [of "tc_sendfile_offset c" n "tc_sendfile_remaining c - n" d] assms(4,5) by simp
  with assms(2,3) n show "tc_stream c' = tc_stream c" by (simp add: c'_def tc_stream_def tc_pending_def)
qed

lemma written_failed:
  assumes "write_failed cbs (s, c1) = (s', c')" and "c1 = c\<lparr>tc_writes := rs\<rparr>" and "tc_inv c" and "\<not> tc_closed c"
  shows "written c c'"
proof -
  have "tc_inv c1" using assms(2,3) by (simp add: tc_inv_def split: option.splits)
  with write_failed_closed [OF assms(1)] assms(2,4) have "tc_closed c'" "tc_inv c'" "tc_wire c' = tc_wire c"
    "\<not> tc_sendfile_done c'" by simp_all
  then show ?thesis using assms(4) wire_prefix [of c] by (auto simp: written_def intro!: exI [of _ "[]"])
qed

lemma written_again: "tc_inv c \<Longrightarrow> written c (c\<lparr>tc_writes := rs\<rparr>)"
  by (auto simp: written_def tc_inv_def tc_stream_def tc_pending_def split: option.splits)

lemma written_idle:
  assumes "tc_inv c" and "tc_output_buffer c = []" and "tc_sendfile c = None"
  shows "written c (DisableWrite c)"
  using assms by (auto simp: written_def tc_inv_def tc_stream_def tc_pending_def DisableWrite_def)

lemma written_cleared:
  assumes ext: "conn_ext c extra c1" and "\<not> tc_sendfile_done c \<longrightarrow> extra = []" and w: "written c1 c'"
    and "\<not> tc_closed c" and "tc_sendfile c1 = None" and out: "tc_closed c1 \<longrightarrow> tc_output_buffer c1 = []"
  shows "written c c'"
proof -
  have inv: "tc_inv c1" using ext by (simp add: conn_ext_def)
  with assms(5) have post: "tc_post_sendfile_buffer c1 = []" "\<not> tc_sendfile_done c1" by (simp_all add: tc_inv_def)
  with w have c': "tc_inv c'" "tc_closed c1 \<longrightarrow> tc_closed c'" "\<not> tc_closed c' \<longrightarrow> tc_stream c' = tc_stream c1"
    "prefix (tc_wire c') (tc_stream c1)" "\<not> tc_sendfile_done c'" by (auto simp: written_def)
  have "prefix (tc_wire c') (tc_stream c @ extra)"
  proof (cases "tc_closed c1")
    case True
    with out post assms(5) have "tc_stream c1 = tc_wire c1" by (simp add: tc_stream_def tc_pending_def)
    with c'(4) ext show ?thesis unfolding conn_ext_def by (metis prefix_order.trans)
  next
    case False
    with c'(4) ext show ?thesis by (simp add: conn_ext_def)
  qed
  with c' ext assms(2,4) show ?thesis
    by (intro written_def [THEN iffD2] exI [of _ extra]) (auto simp: conn_ext_def)
qed

text \<open>The loop returns, and has written: one lemma per branch, then induction on the answers to come.\<close>

definition returns :: "TcpConn \<Rightarrow> bool" where
  "returns c \<longleftrightarrow>
     (\<forall>s. ok s c \<longrightarrow> (\<exists>s' c'. HandleWrite cbs s c = Some (s', c') \<and> written c c' \<and> ok s' c'))"

definition hw_size :: "TcpConn \<Rightarrow> nat" where
  "hw_size c = 2 * length (tc_writes c) + (if tc_sendfile c = None then 0 else 1)"

lemma returns_stream:
  assumes "returns c1" and "\<And>s. HandleWrite cbs s c = HandleWrite cbs s c1" and inv: "tc_inv c1"
    and st: "tc_stream c1 = tc_stream c" "tc_closed c1 = tc_closed c" "tc_sendfile_done c1 = tc_sendfile_done c"
  shows "returns c"
  unfolding returns_def
proof (intro allI impI)
  fix s
  assume "ok s c"
  from ok_conn [OF this inv st(1,2)] assms(1) obtain s' c' where
    "HandleWrite cbs s c1 = Some (s', c')" "written c1 c'" "ok s' c'" unfolding returns_def by blast
  with assms(2) written_stream [OF st]
  show "\<exists>s' c'. HandleWrite cbs s c = Some (s', c') \<and> written c c' \<and> ok s' c'" by auto
qed

lemma returns_failed:
  assumes "\<And>s. HandleWrite cbs s c = Some (write_failed cbs (s, c\<lparr>tc_writes := rs\<rparr>))"
    and inv: "tc_inv c" and op: "\<not> tc_closed c"
  shows "returns c"
  unfolding returns_def
proof (intro allI impI)
  fix s
  assume ok: "ok s c"
  let ?c = "c\<lparr>tc_writes := rs\<rparr>"
  have inv1: "tc_inv ?c" and st: "tc_stream ?c = tc_stream c"
    using inv by (simp_all add: tc_inv_def tc_stream_def tc_pending_def split: option.splits)
  obtain s' c' where f: "write_failed cbs (s, ?c) = (s', c')" by fastforce
  from written_failed [OF f refl inv op] write_failed_ok [OF f inv1 _ ok_conn [OF ok inv1 st]] op f assms(1)
  show "\<exists>s' c'. HandleWrite cbs s c = Some (s', c') \<and> written c c' \<and> ok s' c'" by simp
qed

lemma returns_again:
  assumes "\<And>s. HandleWrite cbs s c = Some (s, c\<lparr>tc_writes := rs\<rparr>)" and inv: "tc_inv c"
  shows "returns c"
proof -
  let ?c = "c\<lparr>tc_writes := rs\<rparr>"
  have inv1: "tc_inv ?c" and st: "tc_stream ?c = tc_stream c"
    using inv by (simp_all add: tc_inv_def tc_stream_def tc_pending_def split: option.splits)
  show ?thesis using assms(1) written_again [OF inv] ok_conn [OF _ inv1 st] by (simp add: returns_def)
qed

lemma returns_buffer:
  assumes inv: "tc_inv c" and op: "\<not> tc_closed c" and out: "tc_output_buffer c \<noteq> []"
    and ih: "\<And>c'. hw_size c' < hw_size c \<Longrightarrow> write_ready c' \<Longrightarrow> returns c'"
  shows "returns c"
proof (cases rule: next_write_cases [of c])
  case 1
  with out show ?thesis by (intro returns_again [OF _ inv, of "[]"]) (subst HandleWrite.simps, simp)
next
  case (2 a rs)
  show ?thesis
  proof (cases a)
    case (IoSent k)
    let ?n = "min k (length (tc_output_buffer c))"
    let ?c = "c\<lparr>tc_writes := rs, tc_wire := tc_wire c @ take ?n (tc_output_buffer c),
             tc_output_buffer := drop ?n (tc_output_buffer c)\<rparr>"
    note sent = buffer_sent [OF inv, of ?n rs]
    show ?thesis
    proof (cases "0 < ?n")
      case True
      have "returns ?c" using sent(1) op 2 by (intro ih) (simp_all add: write_ready_def hw_size_def)
      then show ?thesis
        by (rule returns_stream) (use sent 2 IoSent out True in \<open>subst HandleWrite.simps, simp_all add: Let_def\<close>)
    next
      case False
      with 2 IoSent out show ?thesis
        by (intro returns_failed [OF _ inv op, of rs]) (subst HandleWrite.simps, auto simp: Let_def)
    qed
  next
    case IoAgain
    with 2 out show ?thesis by (intro returns_again [OF _ inv, of rs]) (subst HandleWrite.simps, simp)
  next
    case IoErr
    with 2 out show ?thesis by (intro returns_failed [OF _ inv op, of rs]) (subst HandleWrite.simps, simp)
  qed
qed

lemma returns_file:
  assumes inv: "tc_inv c" and op: "\<not> tc_closed c" and out: "tc_output_buffer c = []"
    and d: "tc_sendfile c = Some d" and rem: "0 < tc_sendfile_remaining c"
    and ih: "\<And>c'. hw_size c' < hw_size c \<Longrightarrow> write_ready c' \<Longrightarrow> returns c'"
  shows "returns c"
proof (cases rule: next_write_cases [of c])
  case 1
  with out d rem show ?thesis
    by (intro returns_again [OF _ inv, of "[]"]) (subst HandleWrite.simps, simp add: Let_def)
next
  case (2 a rs)
  show ?thesis
  proof (cases a)
    case (IoSent k)
    let ?n = "min k (min (tc_sendfile_remaining c) (2 ^ 20))"
    let ?bs = "slice (tc_sendfile_offset c) ?n d"
    let ?c = "c\<lparr>tc_writes := rs, tc_wire := tc_wire c @ ?bs, tc_sendfile_offset := tc_sendfile_offset c + length ?bs,
        tc_sendfile_remaining := tc_sendfile_remaining c - length ?bs\<rparr>"
    note sent = file_sent [OF inv d out refl, of ?n rs]
    show ?thesis
    proof (cases "0 < length ?bs")
      case True
      have "returns ?c" using sent(1) op 2 by (intro ih) (simp_all add: write_ready_def hw_size_def)
      then show ?thesis
        by (rule returns_stream)
           (use sent 2 IoSent out d rem True in \<open>subst HandleWrite.simps, simp_all add: Let_def\<close>)
    next
      case False
      with 2 IoSent out d rem show ?thesis
        by (intro returns_failed [OF _ inv op, of rs]) (subst HandleWrite.simps, simp add: Let_def)
    qed
  next
    case IoAgain
    with 2 out d rem show ?thesis
      by (intro returns_again [OF _ inv, of rs]) (subst HandleWrite.simps, simp add: Let_def)
  next
    case IoErr
    with 2 out d rem show ?thesis
      by (intro returns_failed [OF _ inv op, of rs]) (subst HandleWrite.simps, simp add: Let_def)
  qed
qed

lemma returns_cleared:
  assumes inv: "tc_inv c" and op: "\<not> tc_closed c"
    and fin: "tc_output_buffer c = []" "tc_sendfile c \<noteq> None" "tc_sendfile_remaining c = 0"
    and ih: "\<And>c'. hw_size c' < hw_size c \<Longrightarrow> write_ready c' \<Longrightarrow> returns c'"
  shows "returns c"
  unfolding returns_def
proof (intro allI impI)
  fix s
  assume ok: "ok s c"
  obtain s1 c1 where clr: "ClearSendFile cbs True (s, c) = (s1, c1)" by fastforce
  from ClearSendFile_true [OF inv fin clr op] ok obtain extra where
    e: "conn_ext c extra c1" "tc_sendfile c1 = None" "\<not> tc_sendfile_done c \<longrightarrow> extra = []"
      "tc_closed c1 \<longrightarrow> tc_output_buffer c1 = []" "ok s1 c1" by blast
  have "returns c1" using e fin by (intro ih) (auto simp: write_ready_def conn_ext_def hw_size_def)
  with e(5) obtain s' c' where h: "HandleWrite cbs s1 c1 = Some (s', c')" "written c1 c'" "ok s' c'"
    unfolding returns_def by blast
  have "written c c'" using written_cleared [OF e(1,3) h(2) op e(2,4)] .
  with h clr fin show "\<exists>s' c'. HandleWrite cbs s c = Some (s', c') \<and> written c c' \<and> ok s' c'"
    by (subst HandleWrite.simps) simp
qed

lemma HandleWrite_returns: "write_ready c \<Longrightarrow> returns c"
proof (induction "hw_size c" arbitrary: c rule: less_induct)
  case less
  then have inv: "tc_inv c" by (simp add: write_ready_def)
  have op: "tc_output_buffer c \<noteq> [] \<or> tc_sendfile c \<noteq> None \<Longrightarrow> \<not> tc_closed c"
    using less.prems by (auto simp: write_ready_def)
  show ?case
  proof (cases "tc_output_buffer c = []")
    case False
    with op have "\<not> tc_closed c" by simp
    from returns_buffer [OF inv this False less.hyps] show ?thesis .
  next
    case out: True
    show ?thesis
    proof (cases "tc_sendfile c")
      case None
      have "HandleWrite cbs s c = Some (s, DisableWrite c)" for s
        by (subst HandleWrite.simps) (simp add: out None)
      moreover have "ok s (DisableWrite c)" if "ok s c" for s
        using that by (rule ok_conn) (use inv out None in \<open>simp_all add: DisableWrite_def tc_inv_def tc_stream_def tc_pending_def\<close>)
      ultimately show ?thesis using written_idle [OF inv out None] by (simp add: returns_def)
    next
      case (Some d)
      with op have "\<not> tc_closed c" by simp
      from returns_cleared [OF inv this out _ _ less.hyps] returns_file [OF inv this out Some _ less.hyps] Some
      show ?thesis by blast
    qed
  qed
qed

end

section \<open>Runs of a connection\<close>

text \<open>Callbacks of a connection whose owner only wants to hear that it was closed.\<close>

definition plain_callbacks :: "('s \<Rightarrow> 's) \<Rightarrow> 's conn_callbacks" where
  "plain_callbacks close = \<lparr>cb_done = (\<lambda>_ x. x), cb_close = close, cb_read = (\<lambda>x. x)\<rparr>"

interpretation plain: transfer_owner "plain_callbacks close" "\<lambda>_ _. True" for close
  by unfold_locales (auto simp: plain_callbacks_def intro: conn_ext_refl)

datatype conn_op = OpSend bytes | OpSendFile bytes "bytes option" | OpWritable

abbreviation writable :: IoEvents where
  "writable \<equiv> \<lparr>ev_in = False, ev_out = True, ev_err = False\<rparr>"

text \<open>One operation, with the bytes the connection accepted.\<close>

fun conn_step :: "'s conn_callbacks \<Rightarrow> conn_op \<Rightarrow> 's \<times> TcpConn \<Rightarrow> (bytes \<times> 's \<times> TcpConn) option" where
  "conn_step cbs (OpSend d) (s, c) =
     Some (case TcpConn_Send cbs d (s, c) of (r, s', c') \<Rightarrow> (if tc_closed c then [] else d, s', c'))"
| "conn_step cbs (OpSendFile p contents) (s, c) =
     map_option (\<lambda>(ok, s', c'). (if ok then the contents else [], s', c')) (TcpConn_SendFile cbs p contents False s c)"
| "conn_step cbs OpWritable (s, c) = map_option (Pair []) (HandleIO cbs writable (s, c))"

fun conn_run :: "'s conn_callbacks \<Rightarrow> conn_op list \<Rightarrow> 's \<times> TcpConn \<Rightarrow> (bytes \<times> 's \<times> TcpConn) option" where
  "conn_run cbs [] sc = Some ([], sc)"
| "conn_run cbs (op # ops) sc =
     Option.bind (conn_step cbs op sc) (\<lambda>(d, sc1). map_option (apfst ((@) d)) (conn_run cbs ops sc1))"

text \<open>A connection in use: no done callback is pending.\<close>

definition conn_grows :: "TcpConn \<Rightarrow> bytes \<Rightarrow> TcpConn \<Rightarrow> bool" where
  "conn_grows c sent c' \<longleftrightarrow> tc_inv c' \<and> \<not> tc_sendfile_done c' \<and> (tc_closed c \<longrightarrow> c' = c)
     \<and> (\<not> tc_closed c' \<longrightarrow> tc_stream c' = tc_stream c @ sent)
     \<and> prefix (tc_wire c') (tc_stream c @ sent)"

lemma conn_grows_trans:
  assumes "conn_grows c x c1" and "conn_grows c1 y c2"
  shows "conn_grows c (x @ y) c2"
proof (cases "tc_closed c1")
  case True
  with assms(2) have "c2 = c1" by (simp add: conn_grows_def)
  with True assms(1) show ?thesis by (auto simp: conn_grows_def intro: prefix_prefix simp flip: append_assoc)
next
  case False
  with assms show ?thesis by (auto simp: conn_grows_def)
qed

lemma HandleWrite_grows:
  assumes "tc_inv c" and "\<not> tc_closed c" and "\<not> tc_sendfile_done c"
  shows "\<exists>s' c'. HandleWrite (plain_callbacks close) s c = Some (s', c') \<and> conn_grows c [] c'"
proof -
  have "plain.write_ready c" using assms by (simp add: plain.write_ready_def)
  from plain.HandleWrite_returns [OF this, of close] obtain s' c' where
    "HandleWrite (plain_callbacks close) s c = Some (s', c')" "plain.written c c'"
    unfolding plain.returns_def by blast
  with assms show ?thesis by (auto simp: plain.written_def conn_grows_def)
qed

lemma conn_step_grows:
  assumes "tc_inv c" and "\<not> tc_sendfile_done c"
  shows "\<exists>d s' c'. conn_step (plain_callbacks close) op (s, c) = Some (d, s', c') \<and> conn_grows c d c'"
proof (cases "tc_closed c")
  case True
  then show ?thesis
    using assms wire_prefix [of c]
    by (cases op) (auto simp: TcpConn_Send_def TcpConn_SendFile_def HandleIO_def conn_grows_def)
next
  case op: False
  show ?thesis
  proof (cases op)
    case (OpSend d)
    obtain r s' c' where s: "TcpConn_Send (plain_callbacks close) d (s, c) = (r, s', c')" by (metis surj_pair)
    note e = Send_ext [OF assms(1) s]
    have "\<not> tc_sendfile_done c'"
      using s assms op Close_no_file [of _ "plain_callbacks close"]
      by (auto simp: TcpConn_Send_def EnableWrite_def next_write_def tc_inv_def Let_def TcpConn_Close_def
          ClearSendFile_def clear_file_def DisableWrite_def
          split: if_splits list.splits write_answer.splits prod.splits)
    with OpSend e(1) op s show ?thesis by (simp add: conn_grows_def conn_ext_def)
  next
    case (OpSendFile p contents)
    show ?thesis
    proof (cases "p = [] \<or> tc_sendfile c \<noteq> None \<or> contents = None")
      case True
      with op have "TcpConn_SendFile (plain_callbacks close) p contents False s c = Some (False, s, c)"
        by (auto simp: TcpConn_SendFile_def)
      with OpSendFile assms wire_prefix [of c] show ?thesis by (simp add: conn_grows_def)
    next
      case False
      then obtain d where d: "contents = Some d" by auto
      let ?c = "EnableWrite (c\<lparr>tc_sendfile := Some d, tc_sendfile_offset := 0, tc_sendfile_remaining := length d,
          tc_sendfile_done := False\<rparr>)"
      have inv: "tc_inv ?c" and st: "tc_stream ?c = tc_stream c @ d"
        using False assms by (simp_all add: tc_inv_def EnableWrite_def tc_stream_def tc_pending_def slice_def)
      obtain s' c' where h: "HandleWrite (plain_callbacks close) s ?c = Some (s', c')" "conn_grows ?c [] c'"
        using HandleWrite_grows [OF inv, where s = s and close = close] op by (auto simp: EnableWrite_def)
      with st op have "conn_grows c d c'" by (simp add: conn_grows_def EnableWrite_def)
      with h(1) False op OpSendFile d show ?thesis by (simp add: TcpConn_SendFile_def)
    qed
  next
    case OpWritable
    obtain s' c' where "HandleWrite (plain_callbacks close) s c = Some (s', c')" "conn_grows c [] c'"
      using HandleWrite_grows [OF assms(1) op assms(2), where s = s and close = close] by blast
    with OpWritable op show ?thesis by (simp add: HandleIO_def)
  qed
qed

lemma conn_run_grows:
  "tc_inv c \<Longrightarrow> \<not> tc_sendfile_done c \<Longrightarrow>
   \<exists>d s' c'. conn_run (plain_callbacks close) ops (s, c) = Some (d, s', c') \<and> conn_grows c d c'"
proof (induction ops arbitrary: s c)
  case Nil
  then show ?case using wire_prefix [of c] by (simp add: conn_grows_def)
next
  case (Cons op ops)
  from conn_step_grows [OF Cons.prems, where op = op and s = s and close = close] obtain d s1 c1 where
    1: "conn_step (plain_callbacks close) op (s, c) = Some (d, s1, c1)" "conn_grows c d c1" by blast
  then have "tc_inv c1" "\<not> tc_sendfile_done c1" by (simp_all add: conn_grows_def)
  from Cons.IH [OF this, where s = s1] obtain e s' c' where
    "conn_run (plain_callbacks close) ops (s1, c1) = Some (e, s', c')" "conn_grows c1 e c'" by blast
  with 1 conn_grows_trans [OF 1(2)] show ?case by auto
qed

section \<open>Properties\<close>

text \<open>
  C12. Output of a connection keeps its order and is never lost silently. For every sequence of sends, file
  transfers and writability events, whatever the kernel answers to each send and sendfile: every
  operation returns; while the connection is open, the bytes on the wire followed by the bytes pending
  are exactly the data accepted so far in the order of the calls, the file between its neighbours; after
  it was closed the wire holds a prefix of them; and whenever bytes are pending the event loop watches for
  writability.
\<close>

theorem conn_output_in_order:
  "\<exists>sent s' c'. conn_run (plain_callbacks close) ops (s, TcpConn_new ws rs) = Some (sent, s', c')
     \<and> (\<not> tc_closed c' \<longrightarrow> tc_wire c' @ tc_pending c' = sent) \<and> prefix (tc_wire c') sent
     \<and> (\<not> tc_closed c' \<longrightarrow> tc_pending c' \<noteq> [] \<longrightarrow> tc_epollout c')"
proof -
  have "tc_inv (TcpConn_new ws rs)" "\<not> tc_sendfile_done (TcpConn_new ws rs)" "tc_stream (TcpConn_new ws rs) = []"
    by (simp_all add: TcpConn_new_def [of ws rs] tc_inv_def tc_stream_def tc_pending_def)
  with conn_run_grows [OF this(1,2), where close = close and ops = ops and s = s] obtain sent s' c' where
    r: "conn_run (plain_callbacks close) ops (s, TcpConn_new ws rs) = Some (sent, s', c')"
      "tc_inv c'" "\<not> tc_closed c' \<longrightarrow> tc_stream c' = sent" "prefix (tc_wire c') sent"
    by (auto simp: conn_grows_def)
  moreover have "tc_epollout c'" if "\<not> tc_closed c'" "tc_pending c' \<noteq> []"
    using r(2) that by (auto simp: tc_inv_def tc_pending_def split: option.splits)
  ultimately show ?thesis by (auto simp: tc_stream_def)
qed

theorem conn_output_in_order_witness:
  "\<exists>sent s' c'. conn_run (plain_callbacks id)
        [OpSend ''ab'', OpSendFile ''f'' (Some ''xyz''), OpSend ''c'', OpWritable]
        ((), TcpConn_new [IoSent 1, IoAgain, IoSent 1, IoSent 2] []) = Some (sent, s', c')
     \<and> (\<not> tc_closed c' \<longrightarrow> tc_wire c' @ tc_pending c' = sent) \<and> prefix (tc_wire c') sent
     \<and> (\<not> tc_closed c' \<longrightarrow> tc_pending c' \<noteq> [] \<longrightarrow> tc_epollout c')"
  by (rule conn_output_in_order)

end
