(* ===== verification/Backlog.thy ===== *)
theory Backlog
  imports Vemory_Prelude
begin

text \<open>
  The replication backlog \<^verbatim>\<open>ReplicationBacklog\<close> (src/src/replication/ReplicationBacklog.cc): a ring
  buffer holding the most recent bytes of the stream of write frames, addressed by logical offset.
  Its specification is the whole stream; the ring refines it on the window \<open>[base, tip]\<close>. Offsets
  are \<^verbatim>\<open>uint64_t\<close> counts of the bytes fed since the process started and are modelled as naturals.
  The two loops are partial functions into \<open>option\<close>, None meaning that the loop does not return.
\<close>

section \<open>Model\<close>

record ReplicationBacklog =
  bl_buf :: bytes
  bl_head :: nat
  bl_base :: nat
  bl_tip :: nat

definition kDefaultCapacity :: nat where
  "kDefaultCapacity = 16 * 1024 * 1024"

definition ReplicationBacklog_new :: "nat \<Rightarrow> ReplicationBacklog" where
  "ReplicationBacklog_new capacity =
     \<lparr>bl_buf = replicate (if capacity = 0 then kDefaultCapacity else capacity) NUL,
      bl_head = 0, bl_base = 0, bl_tip = 0\<rparr>"

abbreviation bl_cap :: "ReplicationBacklog \<Rightarrow> nat" where
  "bl_cap b \<equiv> length (bl_buf b)"

text \<open>\<^verbatim>\<open>memcpy(buf_.data() + pos, src, n)\<close> inside the buffer.\<close>

definition mem_put :: "bytes \<Rightarrow> nat \<Rightarrow> bytes \<Rightarrow> bytes" where
  "mem_put buf pos src = take pos buf @ src @ drop (pos + length src) buf"

definition AppendBytes :: "ReplicationBacklog \<Rightarrow> bytes \<Rightarrow> ReplicationBacklog" where
  "AppendBytes b bs =
     (let cap = bl_cap b;
          used = bl_tip b - bl_base b;
          write_pos = (bl_head b + used) mod cap;
          n = min (length bs) (cap - write_pos);
          buf1 = mem_put (bl_buf b) write_pos (take n bs)
      in b\<lparr>bl_buf := (if n < length bs then mem_put buf1 0 (drop n bs) else buf1)\<rparr>)"

partial_function (option) drop_loop :: "nat \<Rightarrow> nat \<Rightarrow> ReplicationBacklog \<Rightarrow> ReplicationBacklog option" where
  "drop_loop need used b =
     (if bl_cap b < used + need \<and> 0 < used
      then let d = min used (max need (bl_cap b div 8));
               b' = b\<lparr>bl_head := (bl_head b + d) mod bl_cap b, bl_base := bl_base b + d\<rparr>
           in drop_loop need (bl_tip b' - bl_base b') b'
      else Some b)"

definition DropToMakeSpace :: "ReplicationBacklog \<Rightarrow> nat \<Rightarrow> ReplicationBacklog option" where
  "DropToMakeSpace b need = drop_loop need (bl_tip b - bl_base b) b"

definition FeedEncoded :: "ReplicationBacklog \<Rightarrow> bytes \<Rightarrow> ReplicationBacklog option" where
  "FeedEncoded b frame =
     (if frame = [] then Some b
      else if bl_cap b < length frame
      then let tip = bl_tip b + length frame
           in Some (b\<lparr>bl_head := 0, bl_base := tip, bl_tip := tip\<rparr>)
      else map_option (\<lambda>b'. (AppendBytes b' frame)\<lparr>bl_tip := bl_tip b' + length frame\<rparr>)
             (DropToMakeSpace b (length frame)))"

definition Backlog_Contains :: "ReplicationBacklog \<Rightarrow> nat \<Rightarrow> bool" where
  "Backlog_Contains b off \<longleftrightarrow> bl_base b \<le> off \<and> off \<le> bl_tip b"

partial_function (option) copy_loop :: "bytes \<Rightarrow> nat \<Rightarrow> nat \<Rightarrow> bytes \<Rightarrow> bytes option" where
  "copy_loop buf remaining pos out =
     (if 0 < remaining
      then let n = min remaining (length buf - pos)
           in copy_loop buf (remaining - n) ((pos + n) mod length buf) (out @ slice pos n buf)
      else Some out)"

text \<open>\<open>Some None\<close> stands for \<^verbatim>\<open>false\<close>, \<open>Some (Some out)\<close> for \<^verbatim>\<open>true\<close> with \<^verbatim>\<open>*out\<close>.\<close>

definition CopyRange :: "ReplicationBacklog \<Rightarrow> nat \<Rightarrow> nat \<Rightarrow> bytes option option" where
  "CopyRange b start e =
     (if e < start \<or> start < bl_base b \<or> bl_tip b < e then Some None
      else if e - start = 0 then Some (Some [])
      else map_option Some
             (copy_loop (bl_buf b) (e - start) ((start - bl_base b + bl_head b) mod bl_cap b) []))"

section \<open>Refinement of the stream\<close>

text \<open>The ring holds the bytes of \<open>stream\<close> from \<open>base\<close> to \<open>tip\<close>, starting at \<open>head\<close>.\<close>

definition bl_inv :: "ReplicationBacklog \<Rightarrow> bytes \<Rightarrow> bool" where
  "bl_inv b stream \<longleftrightarrow> 0 < bl_cap b \<and> bl_head b < bl_cap b \<and> bl_tip b = length stream
     \<and> bl_base b \<le> bl_tip b \<and> bl_tip b - bl_base b \<le> bl_cap b
     \<and> (\<forall>j < bl_tip b - bl_base b.
          bl_buf b ! ((bl_head b + j) mod bl_cap b) = stream ! (bl_base b + j))"

lemma bl_inv_D:
  assumes "bl_inv b stream"
  shows "0 < bl_cap b" "bl_head b < bl_cap b" "bl_tip b = length stream" "bl_base b \<le> bl_tip b"
    "bl_tip b - bl_base b \<le> bl_cap b"
    "j < bl_tip b - bl_base b \<Longrightarrow>
       bl_buf b ! ((bl_head b + j) mod bl_cap b) = stream ! (bl_base b + j)"
  using assms by (auto simp: bl_inv_def)

lemma ReplicationBacklog_new_inv: "bl_inv (ReplicationBacklog_new c) []"
  by (simp add: bl_inv_def ReplicationBacklog_new_def kDefaultCapacity_def)

text \<open>Dropping from the front keeps the rest in place.\<close>

lemma bl_inv_drop:
  assumes "bl_inv b stream" and "d \<le> bl_tip b - bl_base b"
  shows "bl_inv (b\<lparr>bl_head := (bl_head b + d) mod bl_cap b, bl_base := bl_base b + d\<rparr>) stream"
proof -
  note i = bl_inv_D [OF assms(1)]
  have "bl_buf b ! (((bl_head b + d) mod bl_cap b + j) mod bl_cap b) = stream ! (bl_base b + d + j)"
    if "j < bl_tip b - (bl_base b + d)" for j
    using i(6) [of "d + j"] that assms(2) by (simp add: mod_add_left_eq add.assoc)
  moreover have "bl_base b + d \<le> bl_tip b" "bl_tip b - (bl_base b + d) \<le> bl_cap b"
    using i(4,5) assms(2) by arith+
  ultimately show ?thesis using i by (simp add: bl_inv_def)
qed

lemma drop_loop_returns:
  assumes "bl_inv b stream" and "0 < need" and "need \<le> bl_cap b"
  shows "\<exists>b'. drop_loop need (bl_tip b - bl_base b) b = Some b' \<and> bl_inv b' stream
           \<and> bl_cap b' = bl_cap b \<and> bl_base b \<le> bl_base b'
           \<and> bl_tip b' - bl_base b' + need \<le> bl_cap b'"
  using assms
proof (induction "bl_tip b - bl_base b" arbitrary: b rule: less_induct)
  case less
  let ?used = "bl_tip b - bl_base b"
  show ?case
  proof (cases "bl_cap b < ?used + need \<and> 0 < ?used")
    case False
    with less.prems show ?thesis by (subst drop_loop.simps) auto
  next
    case True
    let ?d = "min ?used (max need (bl_cap b div 8))"
    let ?b = "b\<lparr>bl_head := (bl_head b + ?d) mod bl_cap b, bl_base := bl_base b + ?d\<rparr>"
    have "bl_tip b - (bl_base b + d) < ?used" if "0 < d" for d using that True by arith
    moreover have "0 < ?d" using True less.prems(2) by auto
    ultimately have "bl_tip ?b - bl_base ?b < ?used" by simp
    moreover have "bl_inv ?b stream" by (rule bl_inv_drop [OF less.prems(1)]) simp
    ultimately have "\<exists>b'. drop_loop need (bl_tip ?b - bl_base ?b) ?b = Some b' \<and> bl_inv b' stream
        \<and> bl_cap b' = bl_cap ?b \<and> bl_base ?b \<le> bl_base b'
        \<and> bl_tip b' - bl_base b' + need \<le> bl_cap b'"
      using less.prems by (intro less.hyps) auto
    moreover have "drop_loop need ?used b = drop_loop need (bl_tip ?b - bl_base ?b) ?b"
      by (subst drop_loop.simps) (simp only: if_P [OF True] Let_def)
    ultimately show ?thesis by auto
  qed
qed

lemma mem_put_length: "pos + length src \<le> length buf \<Longrightarrow> length (mem_put buf pos src) = length buf"
  by (simp add: mem_put_def)

lemma mem_put_nth:
  "pos + length src \<le> length buf \<Longrightarrow> i < length buf \<Longrightarrow>
     mem_put buf pos src ! i = (if pos \<le> i \<and> i < pos + length src then src ! (i - pos) else buf ! i)"
  by (auto simp: mem_put_def nth_append)

text \<open>Writing at a ring position, wrapping once: the \<open>j\<close>-th byte lands \<open>j\<close> places further.\<close>

lemma AppendBytes_nth:
  assumes cap: "length bs \<le> bl_cap b" "0 < bl_cap b" and i: "i < bl_cap b"
  defines "wp \<equiv> (bl_head b + (bl_tip b - bl_base b)) mod bl_cap b"
  shows "bl_buf (AppendBytes b bs) ! i =
    (if wp \<le> i \<and> i < wp + length bs then bs ! (i - wp)
     else if i + bl_cap b < wp + length bs then bs ! (i + bl_cap b - wp)
     else bl_buf b ! i)"
proof -
  have wp: "wp < bl_cap b" using cap(2) by (simp add: wp_def)
  let ?n = "min (length bs) (bl_cap b - wp)"
  let ?b1 = "mem_put (bl_buf b) wp (take ?n bs)"
  have l1: "length ?b1 = bl_cap b" using wp by (intro mem_put_length) simp
  have n1: "?b1 ! i = (if wp \<le> i \<and> i < wp + ?n then bs ! (i - wp) else bl_buf b ! i)"
    using wp i by (subst mem_put_nth) (auto intro!: nth_take)
  have eq: "bl_buf (AppendBytes b bs) = (if ?n < length bs then mem_put ?b1 0 (drop ?n bs) else ?b1)"
    by (simp add: AppendBytes_def Let_def wp_def)
  show ?thesis
  proof (cases "?n < length bs")
    case True
    then have n: "?n = bl_cap b - wp" by simp
    have "mem_put ?b1 0 (drop ?n bs) ! i = (if i < length bs - ?n then bs ! (?n + i) else ?b1 ! i)"
      using True cap i l1 by (subst mem_put_nth) auto
    with True n1 n wp i cap show ?thesis by (auto simp: eq add.commute)
  next
    case False
    with n1 wp show ?thesis by (auto simp: eq)
  qed
qed

lemma AppendBytes_cap [simp]:
  assumes "length bs \<le> bl_cap b" "0 < bl_cap b"
  shows "bl_cap (AppendBytes b bs) = bl_cap b"
proof -
  define wp where "wp = (bl_head b + (bl_tip b - bl_base b)) mod bl_cap b"
  have "wp < bl_cap b" using assms by (simp add: wp_def)
  with assms show ?thesis
    by (auto simp: AppendBytes_def Let_def mem_put_length min_def simp flip: wp_def)
qed

lemma AppendBytes_sel [simp]:
  "bl_head (AppendBytes b bs) = bl_head b" "bl_base (AppendBytes b bs) = bl_base b"
  "bl_tip (AppendBytes b bs) = bl_tip b"
  by (simp_all add: AppendBytes_def Let_def)

text \<open>The physical place of a logical position relative to the write position.\<close>

lemma ring_pos:
  fixes h u j cap :: nat
  assumes "h < cap" "u \<le> cap" "j < cap"
  defines "wp \<equiv> (h + u) mod cap" and "p \<equiv> (h + j) mod cap"
  shows "j < u \<Longrightarrow> u + n \<le> cap \<Longrightarrow> \<not> (wp \<le> p \<and> p < wp + n) \<and> \<not> p + cap < wp + n"
    and "u \<le> j \<Longrightarrow> p = wp + (j - u) \<or> p < wp \<and> p + cap = wp + (j - u)"
proof -
  have wp: "wp = (if h + u < cap then h + u else h + u - cap)" if "h + u < 2 * cap"
    using that by (auto simp: wp_def mod_if)
  have p: "p = (if h + j < cap then h + j else h + j - cap)"
    using assms(1,3) by (auto simp: p_def mod_if)
  have hu: "h + u < 2 * cap" using assms(1,2) by simp
  show "j < u \<Longrightarrow> u + n \<le> cap \<Longrightarrow> \<not> (wp \<le> p \<and> p < wp + n) \<and> \<not> p + cap < wp + n"
    unfolding p wp [OF hu] using assms(1-3) by (auto split: if_splits)
  show "u \<le> j \<Longrightarrow> p = wp + (j - u) \<or> p < wp \<and> p + cap = wp + (j - u)"
    unfolding p wp [OF hu] using assms(1-3) by (auto split: if_splits)
qed

lemma AppendBytes_inv:
  assumes inv: "bl_inv b stream" and room: "bl_tip b - bl_base b + length bs \<le> bl_cap b"
  shows "bl_inv ((AppendBytes b bs)\<lparr>bl_tip := bl_tip b + length bs\<rparr>) (stream @ bs)"
proof -
  define u where "u = bl_tip b - bl_base b"
  define p where "p j = (bl_head b + j) mod bl_cap b" for j
  note i = bl_inv_D [OF inv]
  have u: "u \<le> bl_cap b" "u + length bs \<le> bl_cap b" using i(5) room by (simp_all add: u_def)
  have "bl_buf (AppendBytes b bs) ! p j = (stream @ bs) ! (bl_base b + j)" if j: "j < u + length bs" for j
  proof -
    have jc: "j < bl_cap b" using j u by simp
    have nth: "bl_buf (AppendBytes b bs) ! p j =
        (if p u \<le> p j \<and> p j < p u + length bs then bs ! (p j - p u)
         else if p j + bl_cap b < p u + length bs then bs ! (p j + bl_cap b - p u)
         else bl_buf b ! p j)"
      using AppendBytes_nth [of bs b "p j"] u i(1) by (simp add: p_def flip: u_def)
    show ?thesis
    proof (cases "j < u")
      case True
      from ring_pos(1) [OF i(2) u(1) jc True u(2), folded p_def]
      have "bl_buf (AppendBytes b bs) ! p j = bl_buf b ! p j" unfolding nth by auto
      also have "\<dots> = stream ! (bl_base b + j)" unfolding p_def using True by (intro i(6)) (simp add: u_def)
      finally have "bl_buf (AppendBytes b bs) ! p j = stream ! (bl_base b + j)" .
      moreover have "bl_base b + j < length stream" using True i(3,4) unfolding u_def by linarith
      ultimately show ?thesis by (simp add: nth_append)
    next
      case False
      then have "u \<le> j" by simp
      from ring_pos(2) [OF i(2) u(1) jc this, folded p_def]
      have "p j = p u + (j - u) \<or> p j < p u \<and> p j + bl_cap b = p u + (j - u)" .
      moreover have "j - u < length bs" using j False by simp
      ultimately have "bl_buf (AppendBytes b bs) ! p j = bs ! (j - u)" unfolding nth by auto
      moreover have "bl_base b + j - length stream = j - u" "\<not> bl_base b + j < length stream"
        using False i(3,4) by (auto simp: u_def)
      ultimately show ?thesis by (simp add: nth_append)
    qed
  qed
  moreover have "bl_cap (AppendBytes b bs) = bl_cap b" using u i(1) by simp
  moreover have "bl_tip b + length bs - bl_base b = u + length bs" using i(4) by (simp add: u_def)
  ultimately show ?thesis using i u by (auto simp: bl_inv_def p_def)
qed

text \<open>Feeding a frame appends it to the stream, and always returns.\<close>

lemma FeedEncoded_inv:
  assumes "bl_inv b stream"
  shows "\<exists>b'. FeedEncoded b frame = Some b' \<and> bl_inv b' (stream @ frame) \<and> bl_cap b' = bl_cap b
           \<and> bl_base b \<le> bl_base b'
           \<and> (length frame \<le> bl_cap b \<longrightarrow> bl_base b' \<le> length stream)"
proof -
  note i = bl_inv_D [OF assms]
  consider "frame = []" | "bl_cap b < length frame" | "frame \<noteq> []" "length frame \<le> bl_cap b"
    by fastforce
  then show ?thesis
  proof cases
    case 1
    with assms i show ?thesis by (auto simp: FeedEncoded_def)
  next
    case 2
    then have "frame \<noteq> []" by auto
    with 2 i show ?thesis by (auto simp: FeedEncoded_def Let_def bl_inv_def)
  next
    case 3
    then have "0 < length frame" by simp
    from drop_loop_returns [OF assms this 3(2)] obtain b1 where
      b1: "DropToMakeSpace b (length frame) = Some b1" "bl_inv b1 stream" "bl_cap b1 = bl_cap b"
        "bl_base b \<le> bl_base b1" "bl_tip b1 - bl_base b1 + length frame \<le> bl_cap b1"
      by (auto simp: DropToMakeSpace_def)
    note i1 = bl_inv_D [OF b1(2)]
    have "FeedEncoded b frame = Some ((AppendBytes b1 frame)\<lparr>bl_tip := bl_tip b1 + length frame\<rparr>)"
      using 3 b1(1) by (simp add: FeedEncoded_def)
    moreover have "bl_cap (AppendBytes b1 frame) = bl_cap b" using b1(3,5) i1(1) by simp
    ultimately show ?thesis
      using AppendBytes_inv [OF b1(2,5)] b1(4) i1(3,4) by simp
  qed
qed

section \<open>Reading back\<close>

text \<open>A window of the ring, byte by byte.\<close>

lemma copy_loop_ring:
  assumes "0 < length buf" and "pos < length buf"
  shows "copy_loop buf n pos out = Some (out @ map (\<lambda>j. buf ! ((pos + j) mod length buf)) [0..<n])"
  using assms(2)
proof (induction n arbitrary: pos out rule: less_induct)
  case (less n)
  show ?case
  proof (cases n)
    case 0
    then show ?thesis by (subst copy_loop.simps) simp
  next
    case (Suc n')
    let ?k = "min n (length buf - pos)"
    have k: "0 < ?k" "?k \<le> n" "pos + ?k \<le> length buf" using less.prems Suc by auto
    have "copy_loop buf n pos out =
        copy_loop buf (n - ?k) ((pos + ?k) mod length buf) (out @ slice pos ?k buf)"
      using Suc by (subst copy_loop.simps) (simp add: Let_def)
    also have "\<dots> = Some ((out @ slice pos ?k buf) @
        map (\<lambda>j. buf ! (((pos + ?k) mod length buf + j) mod length buf)) [0..<n - ?k])"
      using k Suc assms(1) by (intro less.IH) auto
    also have "slice pos ?k buf = map (\<lambda>j. buf ! ((pos + j) mod length buf)) [0..<?k]"
      using k by (intro nth_equalityI) (auto simp: slice_def)
    also have "map (\<lambda>j. buf ! (((pos + ?k) mod length buf + j) mod length buf)) [0..<n - ?k] =
        map (\<lambda>j. buf ! ((pos + j) mod length buf)) [?k..<n]"
      using k(2) by (intro nth_equalityI) (auto simp: mod_add_left_eq add.assoc)
    also have "(out @ map (\<lambda>j. buf ! ((pos + j) mod length buf)) [0..<?k]) @
        map (\<lambda>j. buf ! ((pos + j) mod length buf)) [?k..<n] =
        out @ map (\<lambda>j. buf ! ((pos + j) mod length buf)) [0..<n]"
      using upt_add_eq_append [of 0 ?k "n - ?k"] k(2) by (simp flip: map_append)
    finally show ?thesis .
  qed
qed

lemma CopyRange_stream:
  assumes inv: "bl_inv b stream"
  shows "CopyRange b s e =
     Some (if bl_base b \<le> s \<and> s \<le> e \<and> e \<le> length stream then Some (slice s (e - s) stream) else None)"
proof (cases "bl_base b \<le> s \<and> s < e \<and> e \<le> length stream")
  case False
  with bl_inv_D(3) [OF inv] show ?thesis by (auto simp: CopyRange_def slice_def)
next
  case True
  note i = bl_inv_D [OF inv]
  let ?o = "s - bl_base b"
  have "copy_loop (bl_buf b) (e - s) ((?o + bl_head b) mod bl_cap b) [] =
      Some ([] @ map (\<lambda>j. bl_buf b ! (((?o + bl_head b) mod bl_cap b + j) mod bl_cap b)) [0..<e - s])"
    using i(1) by (intro copy_loop_ring) auto
  also have "map (\<lambda>j. bl_buf b ! (((?o + bl_head b) mod bl_cap b + j) mod bl_cap b)) [0..<e - s] =
      slice s (e - s) stream"
  proof (intro nth_equalityI)
    fix j assume "j < length (map (\<lambda>j. bl_buf b ! (((?o + bl_head b) mod bl_cap b + j) mod bl_cap b)) [0..<e - s])"
    then have j: "j < e - s" by simp
    then have "bl_buf b ! ((bl_head b + (?o + j)) mod bl_cap b) = stream ! (bl_base b + (?o + j))"
      using True i(3) by (intro i(6)) auto
    with j True show "map (\<lambda>j. bl_buf b ! (((?o + bl_head b) mod bl_cap b + j) mod bl_cap b)) [0..<e - s] ! j
        = slice s (e - s) stream ! j"
      by (simp add: slice_def mod_add_left_eq add.assoc add.left_commute)
  qed (use True in \<open>auto simp: slice_def\<close>)
  finally show ?thesis using True i(3) by (simp add: CopyRange_def)
qed

text \<open>A sequence of frames.\<close>

fun feed_all :: "ReplicationBacklog \<Rightarrow> bytes list \<Rightarrow> ReplicationBacklog option" where
  "feed_all b [] = Some b"
| "feed_all b (f # fs) = Option.bind (FeedEncoded b f) (\<lambda>b'. feed_all b' fs)"

lemma feed_all_inv:
  "bl_inv b stream \<Longrightarrow> \<exists>b'. feed_all b fs = Some b' \<and> bl_inv b' (stream @ concat fs) \<and> bl_base b \<le> bl_base b'"
proof (induction fs arbitrary: b stream)
  case (Cons f fs)
  from FeedEncoded_inv [OF Cons.prems, of f] obtain b1 where
    b1: "FeedEncoded b f = Some b1" "bl_inv b1 (stream @ f)" "bl_base b \<le> bl_base b1" by blast
  from Cons.IH [OF b1(2)] b1(1,3) show ?case by auto
qed simp

section \<open>Properties\<close>

text \<open>
  C17. The ring refines the stream: feeding any frames to a new backlog always returns, and then a range
  read returns exactly those bytes of the concatenated stream when the whole range is retained, and
  fails otherwise.
\<close>

theorem backlog_refines_stream:
  "\<exists>b. feed_all (ReplicationBacklog_new c) fs = Some b \<and> bl_tip b = length (concat fs)
     \<and> (\<forall>s e. CopyRange b s e =
          Some (if bl_base b \<le> s \<and> s \<le> e \<and> e \<le> length (concat fs)
                then Some (take (e - s) (drop s (concat fs))) else None))"
proof -
  from feed_all_inv [OF ReplicationBacklog_new_inv, of c fs] obtain b where
    b: "feed_all (ReplicationBacklog_new c) fs = Some b" "bl_inv b (concat fs)" by auto
  with CopyRange_stream [OF b(2)] bl_inv_D(3) [OF b(2)] show ?thesis by (auto simp: slice_def)
qed

text \<open>
  A frame that fits the ring survives its own feed whole: right after it is fed, the bytes between
  the old and the new tip read back as that frame; and the retained window only moves forward.
\<close>

lemma backlog_keeps_last_frame:
  assumes "bl_inv b stream" and "length frame \<le> bl_cap b"
  shows "\<exists>b'. FeedEncoded b frame = Some b' \<and> bl_base b \<le> bl_base b'
     \<and> bl_tip b' = bl_tip b + length frame
     \<and> CopyRange b' (bl_tip b) (bl_tip b') = Some (Some frame)"
proof -
  from FeedEncoded_inv [OF assms(1), of frame] assms(2) obtain b' where
    b': "FeedEncoded b frame = Some b'" "bl_inv b' (stream @ frame)" "bl_base b \<le> bl_base b'"
      "bl_base b' \<le> length stream" by blast
  have tip: "bl_tip b = length stream" "bl_tip b' = length stream + length frame"
    using bl_inv_D(3) [OF assms(1)] bl_inv_D(3) [OF b'(2)] by simp_all
  have "CopyRange b' (bl_tip b) (bl_tip b') = Some (Some frame)"
    using b'(4) by (simp add: CopyRange_stream [OF b'(2)] tip slice_def)
  with b' tip show ?thesis by auto
qed

end
