(* ===== verification/ReplicationMaster.thy ===== *)
theory ReplicationMaster
  imports TcpConn Backlog
begin

text \<open>
  The master side of replication (src/src/replication/ReplicationMaster.cc): registering connections, PSYNC with
  full and partial resynchronisation, the background save that full resynchronisations share, sending the
  RDB and the backlog, feeding the write frames, and removing slaves. Connections are those of the theory
  TcpConn, saves those of Snapshot. A slave's connection is the registered connection of its descriptor:
  closing a connection runs the callback that removes both.
\<close>

section \<open>Model\<close>

datatype SlaveState = kWaitRdb | kSendingRdb | kSendingBacklog | kSynced

record Slave =
  sl_state :: SlaveState
  sl_backlog_start :: nat

text \<open>
  Behaviour that C++ leaves undefined or that does not return: a member of an erased \<^verbatim>\<open>Slave\<close> is used (or an
  iterator to one), or a loop diverges. After a fault the model stops doing anything.
\<close>

datatype fault = Dangling | Diverges

record ReplicationMaster =
  rm_backlog :: ReplicationBacklog
  rm_replid :: bytes
  rm_conns :: "(int, TcpConn) umap"
  rm_slaves :: "(int, Slave) umap"
  rm_fullsync_active :: bool
  rm_fullsync_backlog_start :: nat
  rm_save_started_for_fullsync :: bool
  rm_fault :: "fault option"

definition kFullsyncPath :: bytes where
  "kFullsyncPath = ''tmp/repl-fullsync.rdb''"

definition kReplicaOutputLimit :: nat where
  "kReplicaOutputLimit = 32 * 1024 * 1024"

text \<open>The constructor; the random id is an argument.\<close>

definition ReplicationMaster_new :: "bytes \<Rightarrow> ReplicationMaster" where
  "ReplicationMaster_new replid =
     \<lparr>rm_backlog = ReplicationBacklog_new kDefaultCapacity, rm_replid = replid, rm_conns = [], rm_slaves = [],
      rm_fullsync_active = False, rm_fullsync_backlog_start = 0, rm_save_started_for_fullsync = False,
      rm_fault = None\<rparr>"

text \<open>\<open>GenerateReplid\<close> from the numbers drawn.\<close>

definition GenerateReplid :: "nat list \<Rightarrow> bytes" where
  "GenerateReplid rd = map (\<lambda>i. ''0123456789abcdef'' ! ((rd ! i) mod 16)) [0..<40]"

definition WantsFullsync :: "bytes \<Rightarrow> int \<Rightarrow> bool" where
  "WantsFullsync replid offset = (if offset < 0 then True else replid = [] \<or> replid = ''?'')"

definition has_slaves :: "ReplicationMaster \<Rightarrow> bool" where
  "has_slaves rm \<longleftrightarrow> rm_slaves rm \<noteq> []"

definition FindSlave :: "ReplicationMaster \<Rightarrow> int \<Rightarrow> Slave option" where
  "FindSlave rm fd = um_find (rm_slaves rm) fd"

definition put_slave :: "int \<Rightarrow> Slave \<Rightarrow> ReplicationMaster \<Rightarrow> ReplicationMaster" where
  "put_slave fd sl rm = rm\<lparr>rm_slaves := um_put (rm_slaves rm) fd sl\<rparr>"

definition set_fault :: "fault \<Rightarrow> ReplicationMaster \<Rightarrow> ReplicationMaster" where
  "set_fault e rm = rm\<lparr>rm_fault := Some e\<rparr>"

definition any_active :: "ReplicationMaster \<Rightarrow> bool" where
  "any_active rm \<longleftrightarrow> (\<exists>(fd, s) \<in> set (rm_slaves rm). sl_state s \<noteq> kSynced)"

definition RemoveSlave :: "int \<Rightarrow> ReplicationMaster \<Rightarrow> ReplicationMaster" where
  "RemoveSlave fd rm =
     (let rm1 = rm\<lparr>rm_slaves := um_erase (rm_slaves rm) fd\<rparr>
      in if \<not> any_active rm1 \<and> \<not> rm_save_started_for_fullsync rm1 then rm1\<lparr>rm_fullsync_active := False\<rparr> else rm1)"

text \<open>The close callback that \<^verbatim>\<open>OnConnection\<close> sets.\<close>

definition on_close :: "int \<Rightarrow> ReplicationMaster \<Rightarrow> ReplicationMaster" where
  "on_close fd rm = (let rm1 = RemoveSlave fd rm in rm1\<lparr>rm_conns := um_erase (rm_conns rm1) fd\<rparr>)"

definition OnConnection :: "int \<Rightarrow> TcpConn \<Rightarrow> ReplicationMaster \<Rightarrow> ReplicationMaster" where
  "OnConnection fd conn rm = rm\<lparr>rm_conns := um_put (rm_conns rm) fd conn\<rparr>"

text \<open>
  A send on a connection, with the master's close callback. Inside the master no done callback can run
  while it sends: there is none without a file in flight, and with one the data is queued.
\<close>

definition conn_send :: "int \<Rightarrow> bytes \<Rightarrow> ReplicationMaster \<times> TcpConn \<Rightarrow> ReplicationMaster \<times> TcpConn" where
  "conn_send fd data rc = snd (TcpConn_Send (plain_callbacks (on_close fd)) data rc)"

text \<open>
  \<^verbatim>\<open>SendBacklogToSlave\<close>, on the master and the slave's connection. A send that closes the connection has
  erased the \<^verbatim>\<open>Slave\<close> that the code goes on to use.
\<close>

definition len_line :: "nat \<Rightarrow> bytes" where
  "len_line n = ''$'' @ dec_of_nat n @ crlf"

definition send_error_remove :: "int \<Rightarrow> bytes \<Rightarrow> ReplicationMaster \<times> TcpConn \<Rightarrow> ReplicationMaster \<times> TcpConn" where
  "send_error_remove fd err rc =
     (case conn_send fd (err @ crlf) rc of
        (rm1, c1) \<Rightarrow> if tc_closed c1 then (set_fault Dangling rm1, c1) else (RemoveSlave fd rm1, c1))"

definition send_payload :: "int \<Rightarrow> bytes \<Rightarrow> ReplicationMaster \<times> TcpConn \<Rightarrow> ReplicationMaster \<times> TcpConn" where
  "send_payload fd payload rc =
     (case conn_send fd (len_line (length payload)) rc of
        (rm1, c1) \<Rightarrow>
          if tc_closed c1 then (set_fault Dangling rm1, c1)
          else if payload = [] then (rm1, c1)
          else case conn_send fd payload (rm1, c1) of
                 (rm2, c2) \<Rightarrow> if tc_closed c2 then (set_fault Dangling rm2, c2) else (rm2, c2))"

definition SendBacklogToSlave :: "int \<Rightarrow> Slave \<Rightarrow> ReplicationMaster \<times> TcpConn \<Rightarrow> ReplicationMaster \<times> TcpConn" where
  "SendBacklogToSlave fd sl = (\<lambda>(rm, c).
     if tc_closed c then (rm, c)
     else let rm1 = put_slave fd (sl\<lparr>sl_state := kSendingBacklog\<rparr>) rm
          in if \<not> Backlog_Contains (rm_backlog rm1) (sl_backlog_start sl)
             then send_error_remove fd ''-ERR backlog lost'' (rm1, c)
             else case CopyRange (rm_backlog rm1) (sl_backlog_start sl) (bl_tip (rm_backlog rm1)) of
                    None \<Rightarrow> (set_fault Diverges rm1, c)
                  | Some None \<Rightarrow> send_error_remove fd ''-ERR backlog copy failed'' (rm1, c)
                  | Some (Some payload) \<Rightarrow>
                      (case send_payload fd payload (rm1, c) of
                         (rm2, c2) \<Rightarrow>
                           if rm_fault rm2 \<noteq> None then (rm2, c2)
                           else let rm3 = put_slave fd (sl\<lparr>sl_state := kSynced\<rparr>) rm2
                                in (if \<not> any_active rm3 then rm3\<lparr>rm_fullsync_active := False\<rparr> else rm3, c2)))"

text \<open>The lambda that \<^verbatim>\<open>SendRdbToSlave\<close> passes to \<^verbatim>\<open>SendFile\<close>.\<close>

definition on_file_done :: "int \<Rightarrow> bool \<Rightarrow> ReplicationMaster \<times> TcpConn \<Rightarrow> ReplicationMaster \<times> TcpConn" where
  "on_file_done fd send_ok = (\<lambda>(rm, c).
     if rm_fault rm \<noteq> None then (rm, c)
     else case FindSlave rm fd of
            None \<Rightarrow> (rm, c)
          | Some s \<Rightarrow> if \<not> send_ok then (RemoveSlave fd rm, c) else SendBacklogToSlave fd s (rm, c))"

definition file_callbacks :: "int \<Rightarrow> ReplicationMaster conn_callbacks" where
  "file_callbacks fd = \<lparr>cb_done = on_file_done fd, cb_close = on_close fd, cb_read = (\<lambda>x. x)\<rparr>"

text \<open>Running an operation on a registered connection; a closed one has been unregistered.\<close>

definition with_conn ::
  "int \<Rightarrow> (ReplicationMaster \<times> TcpConn \<Rightarrow> ReplicationMaster \<times> TcpConn) \<Rightarrow> ReplicationMaster \<Rightarrow> ReplicationMaster" where
  "with_conn fd f rm =
     (case um_find (rm_conns rm) fd of
        None \<Rightarrow> rm
      | Some c \<Rightarrow>
          (case f (rm, c) of
             (rm1, c1) \<Rightarrow> if tc_closed c1 then rm1 else rm1\<lparr>rm_conns := um_put (rm_conns rm1) fd c1\<rparr>))"

text \<open>\<^verbatim>\<open>SendRdbToSlave\<close>: \<open>rdb\<close> is what \<open>kFullsyncPath\<close> holds.\<close>

definition fullresync_header :: "bytes \<Rightarrow> nat \<Rightarrow> nat \<Rightarrow> bytes" where
  "fullresync_header replid start sz =
     AppendSimpleString [] (''FULLRESYNC '' @ replid @ '' '' @ dec_of_nat start) @ len_line sz"

definition send_rdb ::
  "bytes option \<Rightarrow> int \<Rightarrow> Slave \<Rightarrow> ReplicationMaster \<times> TcpConn \<Rightarrow> ReplicationMaster \<times> TcpConn" where
  "send_rdb rdb fd sl = (\<lambda>(rm, c).
     if tc_closed c then (rm, c)
     else case rdb of
            None \<Rightarrow> send_error_remove fd ''-ERR fullsync rdb missing'' (rm, c)
          | Some d \<Rightarrow>
              (case conn_send fd (fullresync_header (rm_replid rm) (sl_backlog_start sl) (length d))
                      (put_slave fd (sl\<lparr>sl_state := kSendingRdb\<rparr>) rm, c) of
                 (rm1, c1) \<Rightarrow>
                   if tc_closed c1 then (set_fault Dangling rm1, c1)
                   else case TcpConn_SendFile (file_callbacks fd) kFullsyncPath rdb True rm1 c1 of
                          None \<Rightarrow> (set_fault Diverges rm1, c1)
                        | Some (ok, rm2, c2) \<Rightarrow>
                            if ok then (rm2, c2)
                            else (case conn_send fd (''-ERR sendfile failed'' @ crlf) (rm2, c2) of
                                    (rm3, c3) \<Rightarrow> (RemoveSlave fd rm3, c3))))"

definition SendRdbToSlave :: "bytes option \<Rightarrow> int \<Rightarrow> ReplicationMaster \<Rightarrow> ReplicationMaster" where
  "SendRdbToSlave rdb fd rm =
     (if rm_fault rm \<noteq> None then rm
      else case FindSlave rm fd of None \<Rightarrow> rm | Some sl \<Rightarrow> with_conn fd (send_rdb rdb fd sl) rm)"

definition waiting_fds :: "ReplicationMaster \<Rightarrow> int list" where
  "waiting_fds rm = map fst (filter (\<lambda>(fd, s). sl_state s = kWaitRdb) (rm_slaves rm))"

definition BeginSendToWaiters :: "bytes option \<Rightarrow> ReplicationMaster \<Rightarrow> ReplicationMaster" where
  "BeginSendToWaiters rdb rm = fold (SendRdbToSlave rdb) (waiting_fds rm) rm"

text \<open>
  The two identical loops over the waiting slaves when a full resynchronisation cannot be served: an error
  to each while iterating over the map, then they are erased.
\<close>

fun send_to_waiters :: "(int \<times> Slave) list \<Rightarrow> bytes \<Rightarrow> ReplicationMaster \<Rightarrow> ReplicationMaster" where
  "send_to_waiters [] err rm = rm"
| "send_to_waiters ((fd, s) # rest) err rm =
     (if rm_fault rm \<noteq> None then rm
      else if sl_state s = kWaitRdb
      then let rm1 = with_conn fd (conn_send fd err) rm
           in send_to_waiters rest err (if um_find (rm_slaves rm1) fd = None then set_fault Dangling rm1 else rm1)
      else send_to_waiters rest err rm)"

definition erase_slaves :: "int list \<Rightarrow> ReplicationMaster \<Rightarrow> ReplicationMaster" where
  "erase_slaves fds rm = rm\<lparr>rm_slaves := fold (\<lambda>fd m. um_erase m fd) fds (rm_slaves rm)\<rparr>"

definition drop_waiters :: "ReplicationMaster \<Rightarrow> ReplicationMaster" where
  "drop_waiters rm =
     (let rm1 = send_to_waiters (rm_slaves rm) (''-ERR fullsync save failed'' @ crlf) rm
      in if rm_fault rm1 \<noteq> None then rm1
         else (erase_slaves (waiting_fds rm) rm1)\<lparr>rm_fullsync_active := False\<rparr>)"

text \<open>\<open>pid\<close> is what \<^verbatim>\<open>fork\<close> would return.\<close>

definition align_waiters :: "ReplicationMaster \<Rightarrow> ReplicationMaster" where
  "align_waiters rm =
     (let rm1 = (if rm_fullsync_active rm then rm
                 else rm\<lparr>rm_fullsync_backlog_start := bl_tip (rm_backlog rm), rm_fullsync_active := True\<rparr>)
      in rm1\<lparr>rm_slaves :=
           map (\<lambda>(fd, s). (fd, if sl_state s = kWaitRdb then s\<lparr>sl_backlog_start := rm_fullsync_backlog_start rm1\<rparr>
                                else s)) (rm_slaves rm1)\<rparr>)"

definition StartFullsyncIfNeeded ::
  "int \<Rightarrow> ReplicationMaster \<times> SnapshotManager \<Rightarrow> ReplicationMaster \<times> SnapshotManager" where
  "StartFullsyncIfNeeded pid = (\<lambda>(rm, sm).
     if rm_save_started_for_fullsync rm then (rm, sm)
     else if waiting_fds rm = [] then (rm, sm)
     else let rm1 = align_waiters rm
          in if save_in_progress sm then (rm1, sm)
             else case BackgroundSaveToPath pid True sm kFullsyncPath of
                    (st, sm1) \<Rightarrow>
                      if st = SmOk then (rm1\<lparr>rm_save_started_for_fullsync := True\<rparr>, sm1)
                      else if st = SmInProgress then (rm1, sm1)
                      else (drop_waiters rm1, sm1))"

definition OnSaveDone ::
  "int \<Rightarrow> bytes option \<Rightarrow> bool \<Rightarrow> bytes \<Rightarrow> ReplicationMaster \<times> SnapshotManager \<Rightarrow> ReplicationMaster \<times> SnapshotManager" where
  "OnSaveDone pid rdb ok path = (\<lambda>(rm, sm).
     let was_fullsync = (rm_save_started_for_fullsync rm \<and> path = kFullsyncPath);
         rm1 = rm\<lparr>rm_save_started_for_fullsync := False\<rparr>
     in if was_fullsync
        then if \<not> ok then (drop_waiters rm1, sm) else (BeginSendToWaiters rdb rm1, sm)
        else StartFullsyncIfNeeded pid (rm1, sm))"

text \<open>\<^verbatim>\<open>TryPartialResync\<close>: None when the partial resynchronisation is not possible.\<close>

definition send_continue :: "int \<Rightarrow> bytes \<Rightarrow> ReplicationMaster \<times> TcpConn \<Rightarrow> ReplicationMaster \<times> TcpConn" where
  "send_continue fd payload rc =
     (let rc1 = conn_send fd (AppendSimpleString [] ''CONTINUE'') rc
      in if payload = [] then rc1 else conn_send fd payload rc1)"

definition TryPartialResync :: "int \<Rightarrow> nat \<Rightarrow> ReplicationMaster \<Rightarrow> ReplicationMaster option" where
  "TryPartialResync fd offset rm =
     (case um_find (rm_conns rm) fd of
        None \<Rightarrow> None
      | Some c \<Rightarrow>
          if tc_closed c then None
          else if \<not> Backlog_Contains (rm_backlog rm) offset then None
          else case CopyRange (rm_backlog rm) offset (bl_tip (rm_backlog rm)) of
                 None \<Rightarrow> Some (set_fault Diverges rm)
               | Some None \<Rightarrow> None
               | Some (Some payload) \<Rightarrow>
                   Some (with_conn fd (send_continue fd payload)
                           (put_slave fd \<lparr>sl_state = kSynced, sl_backlog_start = offset\<rparr> rm)))"

definition OnPsync ::
  "int \<Rightarrow> ReplicationMaster \<Rightarrow> SnapshotManager option \<Rightarrow> int \<Rightarrow> bytes \<Rightarrow> int
     \<Rightarrow> bytes \<times> ReplicationMaster \<times> SnapshotManager option" where
  "OnPsync pid rm snapshot fd replid offset =
     (case snapshot of
        None \<Rightarrow> (AppendError [] ''replication not available'', rm, None)
      | Some sm \<Rightarrow>
          (case um_find (rm_conns rm) fd of
             None \<Rightarrow> (AppendError [] ''unknown connection'', rm, Some sm)
           | Some c \<Rightarrow>
               if tc_closed c then (AppendError [] ''unknown connection'', rm, Some sm)
               else let rm1 = RemoveSlave fd rm
                    in case (if \<not> WantsFullsync replid offset \<and> replid = rm_replid rm1 \<and> 0 \<le> offset
                             then TryPartialResync fd (nat offset) rm1 else None) of
                         Some rm2 \<Rightarrow> ([], rm2, Some sm)
                       | None \<Rightarrow>
                           (case StartFullsyncIfNeeded pid
                                   (put_slave fd \<lparr>sl_state = kWaitRdb, sl_backlog_start = bl_tip (rm_backlog rm1)\<rparr> rm1,
                                    sm) of
                              (rm3, sm3) \<Rightarrow> ([], rm3, Some sm3))))"

text \<open>\<^verbatim>\<open>FeedEncodedFrame\<close>: the loop over the slaves collects those to drop; a send that closes erases the
  element under the iterator.\<close>

fun feed_slaves :: "(int \<times> Slave) list \<Rightarrow> bytes \<Rightarrow> int list \<Rightarrow> ReplicationMaster \<Rightarrow> int list \<times> ReplicationMaster" where
  "feed_slaves [] frame drop_fds rm = (drop_fds, rm)"
| "feed_slaves ((fd, sl) # rest) frame drop_fds rm =
     (if rm_fault rm \<noteq> None then (drop_fds, rm)
      else if sl_state sl = kSynced
      then case um_find (rm_conns rm) fd of
             None \<Rightarrow> feed_slaves rest frame (drop_fds @ [fd]) rm
           | Some c \<Rightarrow>
               if tc_closed c then feed_slaves rest frame (drop_fds @ [fd]) rm
               else case conn_send fd frame (rm, c) of
                      (rm1, c1) \<Rightarrow>
                        if tc_closed c1 then (drop_fds, set_fault Dangling rm1)
                        else feed_slaves rest frame
                               (if kReplicaOutputLimit < OutputBufferedBytes c1 then drop_fds @ [fd] else drop_fds)
                               (rm1\<lparr>rm_conns := um_put (rm_conns rm1) fd c1\<rparr>)
      else feed_slaves rest frame
             (if Backlog_Contains (rm_backlog rm) (sl_backlog_start sl) then drop_fds else drop_fds @ [fd]) rm)"

definition force_close :: "int \<Rightarrow> ReplicationMaster \<Rightarrow> ReplicationMaster" where
  "force_close fd rm = with_conn fd (TcpConn_Close (file_callbacks fd)) rm"

definition warn_dropped :: "int \<Rightarrow> Slave \<Rightarrow> ReplicationMaster \<Rightarrow> ReplicationMaster" where
  "warn_dropped fd s rm =
     (if sl_state s \<noteq> kSynced then with_conn fd (conn_send fd (''-ERR backlog overflow'' @ crlf)) rm else rm)"

definition drop_slave :: "int \<Rightarrow> ReplicationMaster \<Rightarrow> ReplicationMaster" where
  "drop_slave fd rm =
     (if rm_fault rm \<noteq> None then rm
      else case (FindSlave rm fd, um_find (rm_conns rm) fd) of
             (Some s, Some c) \<Rightarrow>
               if tc_closed c then rm\<lparr>rm_slaves := um_erase (rm_slaves rm) fd\<rparr>
               else let rm1 = warn_dropped fd s rm
                    in if um_find (rm_slaves rm1) fd = None then set_fault Dangling rm1 else force_close fd rm1
           | _ \<Rightarrow> rm\<lparr>rm_slaves := um_erase (rm_slaves rm) fd\<rparr>)"

definition FeedEncodedFrame :: "ReplicationMaster \<Rightarrow> bytes \<Rightarrow> ReplicationMaster" where
  "FeedEncodedFrame rm frame =
     (case FeedEncoded (rm_backlog rm) frame of
        None \<Rightarrow> set_fault Diverges rm
      | Some b \<Rightarrow>
          (case feed_slaves (rm_slaves rm) frame [] (rm\<lparr>rm_backlog := b\<rparr>) of
             (fds, rm1) \<Rightarrow> fold drop_slave fds rm1))"

text \<open>The tables of operations that a mutation and the command dispatch call.\<close>

definition master_repl_ops :: "ReplicationMaster repl_ops" where
  "master_repl_ops = \<lparr>ro_has_slaves = has_slaves, ro_FeedEncodedFrame = FeedEncodedFrame\<rparr>"

definition master_server_ops :: "int \<Rightarrow> (ReplicationMaster, SnapshotManager) server_ops" where
  "master_server_ops pid =
     \<lparr>so_BackgroundSave = BackgroundSave pid True, so_OnPsync = OnPsync pid\<rparr>"

text \<open>Events of the event loop: a connection is writable, the reap timer reports a save.\<close>

definition master_writable :: "int \<Rightarrow> ReplicationMaster \<Rightarrow> ReplicationMaster" where
  "master_writable fd rm =
     (case um_find (rm_conns rm) fd of
        None \<Rightarrow> rm
      | Some c \<Rightarrow>
          (case HandleIO (file_callbacks fd) writable (rm, c) of
             None \<Rightarrow> set_fault Diverges rm
           | Some (rm1, c1) \<Rightarrow> if tc_closed c1 then rm1 else rm1\<lparr>rm_conns := um_put (rm_conns rm1) fd c1\<rparr>))"

section \<open>Invariant\<close>

text \<open>
  \<open>S\<close> is the stream of all frames fed so far. The backlog holds its end; every registered connection is
  open; every slave has one; and what was handed to a synced slave's connection ends with the whole stream
  from the slave's start offset on.
\<close>

definition conn_ok :: "TcpConn \<Rightarrow> bool" where
  "conn_ok c \<longleftrightarrow> tc_inv c \<and> \<not> tc_closed c"

definition slave_ok :: "bytes \<Rightarrow> Slave \<Rightarrow> TcpConn \<Rightarrow> bool" where
  "slave_ok S sl c \<longleftrightarrow> sl_backlog_start sl \<le> length S
     \<and> (sl_state sl = kSynced \<longrightarrow> suffix (drop (sl_backlog_start sl) S) (tc_stream c))"

text \<open>The part of the invariant about the descriptors in \<open>A\<close>.\<close>

definition m_fds :: "int set \<Rightarrow> ReplicationMaster \<Rightarrow> bytes \<Rightarrow> bool" where
  "m_fds A rm S \<longleftrightarrow>
     (\<forall>fd \<in> A. (\<forall>c. um_find (rm_conns rm) fd = Some c \<longrightarrow> conn_ok c)
        \<and> (\<forall>sl. um_find (rm_slaves rm) fd = Some sl \<longrightarrow>
              (\<exists>c. um_find (rm_conns rm) fd = Some c \<and> slave_ok S sl c)))"

definition m_base :: "ReplicationMaster \<Rightarrow> bytes \<Rightarrow> bool" where
  "m_base rm S \<longleftrightarrow> rm_fault rm = None \<and> bl_inv (rm_backlog rm) S \<and> um_wf (rm_conns rm) \<and> um_wf (rm_slaves rm)
     \<and> rm_fullsync_backlog_start rm \<le> length S"

definition minv :: "ReplicationMaster \<Rightarrow> bytes \<Rightarrow> bool" where
  "minv rm S \<longleftrightarrow> m_base rm S \<and> m_fds UNIV rm S"

definition mok :: "ReplicationMaster \<Rightarrow> bytes \<Rightarrow> bool" where
  "mok rm S \<longleftrightarrow> rm_fault rm = Some Dangling \<or> minv rm S"

text \<open>While an operation works on the connection \<open>c\<close> of \<open>fd\<close>, the registered one is out of date.\<close>

definition mrest :: "int \<Rightarrow> ReplicationMaster \<Rightarrow> bytes \<Rightarrow> bool" where
  "mrest fd rm S \<longleftrightarrow> m_base rm S \<and> m_fds (- {fd}) rm S"

definition pair_ok :: "int \<Rightarrow> bytes \<Rightarrow> ReplicationMaster \<Rightarrow> TcpConn \<Rightarrow> bool" where
  "pair_ok fd S rm c \<longleftrightarrow> mrest fd rm S \<and> conn_ok c
     \<and> (\<forall>sl. um_find (rm_slaves rm) fd = Some sl \<longrightarrow> slave_ok S sl c)"

definition out_ok :: "int \<Rightarrow> bytes \<Rightarrow> ReplicationMaster \<Rightarrow> TcpConn \<Rightarrow> bool" where
  "out_ok fd S rm c \<longleftrightarrow> rm_fault rm = Some Dangling \<or> (if tc_closed c then minv rm S else pair_ok fd S rm c)"

lemma minv_mrest: "minv rm S \<Longrightarrow> mrest fd rm S"
  by (simp add: minv_def mrest_def m_fds_def)

lemma minv_take: "minv rm S \<Longrightarrow> um_find (rm_conns rm) fd = Some c \<Longrightarrow> pair_ok fd S rm c"
  using minv_mrest [of rm S fd] unfolding pair_ok_def minv_def m_fds_def by fastforce

lemma minv_put: "pair_ok fd S rm c \<Longrightarrow> minv (rm\<lparr>rm_conns := um_put (rm_conns rm) fd c\<rparr>) S"
  by (auto simp: pair_ok_def minv_def mrest_def m_fds_def m_base_def umap_simps um_wf_put)

lemma RemoveSlave_sel [simp]:
  "rm_slaves (RemoveSlave fd rm) = um_erase (rm_slaves rm) fd" "rm_conns (RemoveSlave fd rm) = rm_conns rm"
  "rm_backlog (RemoveSlave fd rm) = rm_backlog rm" "rm_fault (RemoveSlave fd rm) = rm_fault rm"
  "rm_fullsync_backlog_start (RemoveSlave fd rm) = rm_fullsync_backlog_start rm"
  "rm_save_started_for_fullsync (RemoveSlave fd rm) = rm_save_started_for_fullsync rm"
  "rm_replid (RemoveSlave fd rm) = rm_replid rm"
  by (simp_all add: RemoveSlave_def Let_def)

lemma on_close_sel [simp]:
  "rm_slaves (on_close fd rm) = um_erase (rm_slaves rm) fd" "rm_conns (on_close fd rm) = um_erase (rm_conns rm) fd"
  "rm_backlog (on_close fd rm) = rm_backlog rm" "rm_fault (on_close fd rm) = rm_fault rm"
  "rm_fullsync_backlog_start (on_close fd rm) = rm_fullsync_backlog_start rm"
  "rm_save_started_for_fullsync (on_close fd rm) = rm_save_started_for_fullsync rm"
  by (simp_all add: on_close_def Let_def)

lemma put_slave_sel [simp]:
  "rm_slaves (put_slave fd sl rm) = um_put (rm_slaves rm) fd sl" "rm_conns (put_slave fd sl rm) = rm_conns rm"
  "rm_backlog (put_slave fd sl rm) = rm_backlog rm" "rm_fault (put_slave fd sl rm) = rm_fault rm"
  "rm_fullsync_backlog_start (put_slave fd sl rm) = rm_fullsync_backlog_start rm"
  "rm_save_started_for_fullsync (put_slave fd sl rm) = rm_save_started_for_fullsync rm"
  "rm_replid (put_slave fd sl rm) = rm_replid rm"
  by (simp_all add: put_slave_def)

lemma set_fault_sel [simp]: "rm_fault (set_fault e rm) = Some e" "rm_slaves (set_fault e rm) = rm_slaves rm"
  "rm_conns (set_fault e rm) = rm_conns rm"
  by (simp_all add: set_fault_def)

lemma mrest_simps [simp]:
  "mrest fd rm S \<Longrightarrow> mrest fd (RemoveSlave fd rm) S" "mrest fd rm S \<Longrightarrow> mrest fd (put_slave fd sl rm) S"
  "mrest fd (rm\<lparr>rm_fullsync_active := x\<rparr>) S = mrest fd rm S"
  by (auto simp: mrest_def m_base_def m_fds_def umap_simps um_wf_erase um_wf_put)

lemma mrest_close: "mrest fd rm S \<Longrightarrow> minv (on_close fd rm) S"
  by (auto simp: mrest_def minv_def m_base_def m_fds_def umap_simps um_wf_erase)

lemma minv_erase: "minv rm S \<Longrightarrow> minv (rm\<lparr>rm_slaves := um_erase (rm_slaves rm) fd\<rparr>) S"
  by (auto simp: minv_def m_base_def m_fds_def umap_simps um_wf_erase)

lemma minv_RemoveSlave: "minv rm S \<Longrightarrow> minv (RemoveSlave fd rm) S"
  by (auto simp: minv_def m_base_def m_fds_def umap_simps um_wf_erase)

lemma minv_fields [simp]:
  "minv (rm\<lparr>rm_fullsync_active := x\<rparr>) S = minv rm S"
  "minv (rm\<lparr>rm_save_started_for_fullsync := y\<rparr>) S = minv rm S"
  by (simp_all add: minv_def m_base_def m_fds_def)

text \<open>Sends: either the connection is closed and unregistered, or the data is behind the stream.\<close>

lemma conn_send_cases:
  assumes "conn_send fd d (rm, c) = (rm1, c1)" and "conn_ok c"
  obtains "tc_closed c1" "rm1 = on_close fd rm"
    | "conn_ok c1" "rm1 = rm" "tc_stream c1 = tc_stream c @ d" "tc_sendfile c1 = tc_sendfile c"
proof -
  obtain r where "TcpConn_Send (plain_callbacks (on_close fd)) d (rm, c) = (r, rm1, c1)"
    using assms(1) by (cases "TcpConn_Send (plain_callbacks (on_close fd)) d (rm, c)") (simp add: conn_send_def)
  from Send_ext [OF _ this] assms(2) that show thesis
    by (cases "tc_closed c1") (auto simp: conn_ok_def conn_ext_def plain_callbacks_def)
qed

lemma conn_send_closed: "tc_closed c \<Longrightarrow> conn_send fd d (rm, c) = (rm, c)"
  by (simp add: conn_send_def TcpConn_Send_def)

definition sends :: "TcpConn \<Rightarrow> TcpConn \<Rightarrow> bool" where
  "sends c c' \<longleftrightarrow> tc_inv c \<longrightarrow> (\<exists>extra. conn_ext c extra c') \<and> tc_sendfile c' = tc_sendfile c
     \<and> (tc_closed c' \<longrightarrow> \<not> tc_closed c \<longrightarrow> tc_output_buffer c' = [])"

lemma sends_refl [simp]: "sends c c"
  using conn_ext_refl by (auto simp: sends_def)

lemma sends_trans:
  assumes "sends c c1" and "sends c1 c2"
  shows "sends c c2"
  unfolding sends_def
proof
  assume "tc_inv c"
  with assms(1) obtain x where x: "conn_ext c x c1" "tc_sendfile c1 = tc_sendfile c"
    "tc_closed c1 \<longrightarrow> \<not> tc_closed c \<longrightarrow> tc_output_buffer c1 = []" by (auto simp: sends_def)
  moreover from x(1) have "tc_inv c1" by (simp add: conn_ext_def)
  with assms(2) obtain y where y: "conn_ext c1 y c2" "tc_sendfile c2 = tc_sendfile c1"
    "tc_closed c2 \<longrightarrow> \<not> tc_closed c1 \<longrightarrow> tc_output_buffer c2 = []" by (auto simp: sends_def)
  moreover have "conn_ext c (x @ y) c2" using x(1) y(1) by (rule conn_ext_trans)
  moreover have "tc_closed c1 \<Longrightarrow> c2 = c1" using y(1) by (simp add: conn_ext_def)
  ultimately show "(\<exists>extra. conn_ext c extra c2) \<and> tc_sendfile c2 = tc_sendfile c
     \<and> (tc_closed c2 \<longrightarrow> \<not> tc_closed c \<longrightarrow> tc_output_buffer c2 = [])" by auto
qed

lemma conn_send_sends: "conn_send fd d (rm, c) = (rm1, c1) \<Longrightarrow> sends c c1"
  by (cases "TcpConn_Send (plain_callbacks (on_close fd)) d (rm, c)")
     (auto simp: conn_send_def sends_def dest: Send_ext)

section \<open>The operations on one connection\<close>

lemma send_error_remove_ok:
  assumes "send_error_remove fd err (rm, c) = (rm1, c1)" and "mrest fd rm S" and "conn_ok c"
  shows "out_ok fd S rm1 c1"
proof -
  obtain rm2 c2 where s: "conn_send fd (err @ crlf) (rm, c) = (rm2, c2)" by fastforce
  from s assms(3) show ?thesis
  proof (cases rule: conn_send_cases)
    case 1
    with assms(1) s show ?thesis by (auto simp: send_error_remove_def out_ok_def)
  next
    case 2
    with assms s show ?thesis
      by (auto simp: send_error_remove_def out_ok_def pair_ok_def conn_ok_def umap_simps)
  qed
qed

lemma send_error_remove_sends: "sends c (snd (send_error_remove fd err (rm, c)))"
  using conn_send_sends [of fd "err @ crlf" rm c]
  by (cases "conn_send fd (err @ crlf) (rm, c)") (auto simp: send_error_remove_def)

lemma send_payload_cases:
  assumes "send_payload fd payload (rm, c) = (rm1, c1)" and "conn_ok c"
  obtains "rm_fault rm1 = Some Dangling" | "rm1 = rm" "conn_ok c1" "\<exists>pre. tc_stream c1 = pre @ payload"
proof -
  obtain rm2 c2 where s: "conn_send fd (len_line (length payload)) (rm, c) = (rm2, c2)" by fastforce
  from s assms(2) show thesis
  proof (cases rule: conn_send_cases)
    case 1
    with assms(1) s show thesis by (intro that(1)) (auto simp: send_payload_def)
  next
    case 2
    show thesis
    proof (cases "payload = []")
      case True
      with 2 assms(1) s show thesis by (intro that(2)) (auto simp: send_payload_def conn_ok_def)
    next
      case False
      obtain rm3 c3 where p: "conn_send fd payload (rm2, c2) = (rm3, c3)" by fastforce
      from p 2(1) show thesis
      proof (cases rule: conn_send_cases)
        case 1
        with 2 False assms(1) s p show thesis
          by (intro that(1)) (auto simp: send_payload_def conn_ok_def)
      next
        case b: 2
        with 2 False assms(1) s p show thesis
          by (intro that(2)) (auto simp: send_payload_def conn_ok_def)
      qed
    qed
  qed
qed

lemma send_payload_sends: "sends c (snd (send_payload fd payload (rm, c)))"
proof -
  obtain rm2 c2 where s: "conn_send fd (len_line (length payload)) (rm, c) = (rm2, c2)" by fastforce
  obtain rm3 c3 where p: "conn_send fd payload (rm2, c2) = (rm3, c3)" by fastforce
  have "sends c c2" "sends c2 c3" using conn_send_sends s p by auto
  with s p show ?thesis by (auto simp: send_payload_def intro: sends_trans)
qed

text \<open>Completing a synchronisation hands the slave the stream from its offset to the tip.\<close>

lemma suffix_payload: "\<exists>pre. t = pre @ p \<Longrightarrow> suffix p t"
  by (auto simp: suffix_def)

lemma SendBacklogToSlave_ok:
  assumes "SendBacklogToSlave fd sl (rm, c) = (rm1, c1)" and "pair_ok fd S rm c"
    and "sl_backlog_start sl \<le> length S"
  shows "out_ok fd S rm1 c1"
proof -
  let ?rm = "put_slave fd (sl\<lparr>sl_state := kSendingBacklog\<rparr>) rm" and ?st = "sl_backlog_start sl"
  have open': "\<not> tc_closed c" and cok: "conn_ok c" and rest: "mrest fd ?rm S"
    and bl: "bl_inv (rm_backlog rm) S" and nf: "rm_fault rm = None"
    using assms(2) by (auto simp: pair_ok_def conn_ok_def mrest_def m_base_def m_fds_def umap_simps um_wf_put)
  show ?thesis
  proof (cases "Backlog_Contains (rm_backlog ?rm) ?st")
    case False
    with assms(1) open' have "send_error_remove fd ''-ERR backlog lost'' (?rm, c) = (rm1, c1)"
      by (simp add: SendBacklogToSlave_def Let_def)
    then show ?thesis using rest cok by (rule send_error_remove_ok)
  next
    case True
    then have "CopyRange (rm_backlog rm) ?st (bl_tip (rm_backlog rm)) = Some (Some (drop ?st S))"
      using CopyRange_stream [OF bl] bl_inv_D(3) [OF bl] by (simp add: Backlog_Contains_def slice_def)
    moreover obtain rm2 c2 where p: "send_payload fd (drop ?st S) (?rm, c) = (rm2, c2)" by fastforce
    ultimately have r: "(rm1, c1) = (if rm_fault rm2 \<noteq> None then (rm2, c2)
        else let rm3 = put_slave fd (sl\<lparr>sl_state := kSynced\<rparr>) rm2
             in (if \<not> any_active rm3 then rm3\<lparr>rm_fullsync_active := False\<rparr> else rm3, c2))"
      using True open' assms(1) by (simp add: SendBacklogToSlave_def Let_def)
    from p cok show ?thesis
    proof (cases rule: send_payload_cases)
      case 1
      with r show ?thesis by (simp add: out_ok_def)
    next
      case 2
      have "slave_ok S (sl\<lparr>sl_state := kSynced\<rparr>) c2"
        using assms(3) suffix_payload [OF 2(3)] by (simp add: slave_ok_def)
      with 2 rest r nf show ?thesis
        by (auto simp: out_ok_def pair_ok_def conn_ok_def Let_def umap_simps split: if_splits)
    qed
  qed
qed

lemma SendBacklogToSlave_sends: "sends c (snd (SendBacklogToSlave fd sl (rm, c)))"
proof -
  let ?rm = "put_slave fd (sl\<lparr>sl_state := kSendingBacklog\<rparr>) rm"
  have "sends c (snd (send_payload fd p (?rm, c)))" "sends c (snd (send_error_remove fd e (?rm, c)))" for p e
    by (rule send_payload_sends send_error_remove_sends)+
  then show ?thesis
    by (auto simp: SendBacklogToSlave_def Let_def case_prod_beta split: option.split)
qed

text \<open>The master as owner of a file transfer.\<close>

interpretation rdb: transfer_owner "file_callbacks fd" "out_ok fd S" for fd S
proof
  fix s :: ReplicationMaster and c :: TcpConn
  show "snd (cb_done (file_callbacks fd) False (s, c)) = c"
    by (simp add: file_callbacks_def on_file_done_def split: option.split)
  have "sends c (snd (on_file_done fd True (s, c)))"
    using SendBacklogToSlave_sends by (auto simp: on_file_done_def split: option.split)
  then show "(\<exists>extra. conn_ext c extra (snd (cb_done (file_callbacks fd) True (s, c))))
      \<and> tc_sendfile (snd (cb_done (file_callbacks fd) True (s, c))) = None
      \<and> (tc_closed (snd (cb_done (file_callbacks fd) True (s, c))) \<longrightarrow> \<not> tc_closed c \<longrightarrow>
           tc_output_buffer (snd (cb_done (file_callbacks fd) True (s, c))) = [])"
    if "tc_inv c" "tc_sendfile c = None"
    using that by (simp add: file_callbacks_def sends_def)
next
  fix s :: ReplicationMaster and c c1 :: TcpConn
  assume "out_ok fd S s c" "tc_inv c1" "tc_stream c1 = tc_stream c" "tc_closed c1 = tc_closed c"
  then show "out_ok fd S s c1"
    by (auto simp: out_ok_def pair_ok_def conn_ok_def slave_ok_def)
next
  fix s :: ReplicationMaster and c :: TcpConn
  assume ok: "out_ok fd S s c" and op: "\<not> tc_closed c"
  show "out_ok fd S (fst (cb_done (file_callbacks fd) True (s, c))) (snd (cb_done (file_callbacks fd) True (s, c)))"
  proof (cases "rm_fault s = None")
    case True
    with ok op have p: "pair_ok fd S s c" by (simp add: out_ok_def)
    have "sl_backlog_start sl \<le> length S" if "FindSlave s fd = Some sl" for sl
      using p that by (auto simp: pair_ok_def FindSlave_def slave_ok_def)
    with SendBacklogToSlave_ok [OF prod.collapse [symmetric] p] ok show ?thesis
      by (auto simp: file_callbacks_def on_file_done_def split: option.split)
  next
    case False
    with ok show ?thesis by (simp add: file_callbacks_def on_file_done_def)
  qed
next
  fix s :: ReplicationMaster and c c' c1 :: TcpConn
  assume ok: "out_ok fd S s c" and op: "\<not> tc_closed c" and cl: "tc_closed c'"
  from ok op have "rm_fault s = Some Dangling \<or> mrest fd s S" by (auto simp: out_ok_def pair_ok_def)
  with cl mrest_close [of fd s S] mrest_close [of fd "RemoveSlave fd s" S]
  show "out_ok fd S (cb_close (file_callbacks fd) s) c'"
    "out_ok fd S (cb_close (file_callbacks fd) (fst (cb_done (file_callbacks fd) False (s, c1)))) c'"
    by (auto simp: out_ok_def file_callbacks_def on_file_done_def split: option.split)
qed

section \<open>The operations keep the invariant\<close>

lemma with_conn_out:
  assumes "um_find (rm_conns rm) fd = Some c" and "out_ok fd S (fst (f (rm, c))) (snd (f (rm, c)))"
  shows "mok (with_conn fd f rm) S"
  using assms minv_put [of fd S "fst (f (rm, c))" "snd (f (rm, c))"]
  by (auto simp: with_conn_def mok_def out_ok_def case_prod_beta)

lemma with_conn_mok:
  assumes "minv rm S" and "\<And>c. pair_ok fd S rm c \<Longrightarrow> out_ok fd S (fst (f (rm, c))) (snd (f (rm, c)))"
  shows "mok (with_conn fd f rm) S"
proof (cases "um_find (rm_conns rm) fd")
  case None
  with assms(1) show ?thesis by (simp add: with_conn_def mok_def)
next
  case (Some c)
  from with_conn_out [of rm fd c S f] Some assms(2) [OF minv_take [OF assms(1) Some]] show ?thesis by simp
qed

lemma fold_mok: "(\<And>x rm. mok rm S \<Longrightarrow> mok (f x rm) S) \<Longrightarrow> mok rm S \<Longrightarrow> mok (fold f xs rm) S"
  by (induction xs arbitrary: rm) simp_all

lemma mok_erase: "mok rm S \<Longrightarrow> mok (rm\<lparr>rm_slaves := um_erase (rm_slaves rm) fd\<rparr>) S"
  by (auto simp: mok_def minv_erase)

text \<open>A slave that is still being synchronised may be sent anything.\<close>

definition not_synced :: "int \<Rightarrow> ReplicationMaster \<Rightarrow> bool" where
  "not_synced fd rm \<longleftrightarrow> (\<forall>sl. FindSlave rm fd = Some sl \<longrightarrow> sl_state sl \<noteq> kSynced)"

lemma conn_send_ok:
  assumes "pair_ok fd S rm c" and "not_synced fd rm" and "conn_send fd d (rm, c) = (rm1, c1)"
  shows "out_ok fd S rm1 c1"
proof -
  from assms(1) have "conn_ok c" and rest: "mrest fd rm S" by (simp_all add: pair_ok_def)
  from assms(3) this(1) show ?thesis
  proof (cases rule: conn_send_cases)
    case 1
    with mrest_close [OF rest] show ?thesis by (simp add: out_ok_def)
  next
    case 2
    with assms(1,2) show ?thesis
      by (auto simp: out_ok_def pair_ok_def slave_ok_def not_synced_def FindSlave_def conn_ok_def)
  qed
qed

lemma conn_send_rm: "fst (conn_send fd d (rm, c)) \<in> {rm, on_close fd rm}"
  by (auto simp: conn_send_def TcpConn_Send_def TcpConn_Close_def ClearSendFile_def plain_callbacks_def Let_def
      split: if_splits prod.splits write_answer.splits)

lemma with_conn_send_sel:
  "rm_slaves (with_conn fd (conn_send fd d) rm) \<in> {rm_slaves rm, um_erase (rm_slaves rm) fd}"
  "rm_fault (with_conn fd (conn_send fd d) rm) = rm_fault rm"
proof -
  have "fst (conn_send fd d (rm, c)) = rm \<or> fst (conn_send fd d (rm, c)) = on_close fd rm" for c
    using conn_send_rm [of fd d rm c] by simp
  then show "rm_slaves (with_conn fd (conn_send fd d) rm) \<in> {rm_slaves rm, um_erase (rm_slaves rm) fd}"
    "rm_fault (with_conn fd (conn_send fd d) rm) = rm_fault rm"
    by (auto simp: with_conn_def case_prod_beta split: option.split) (metis on_close_sel)+
qed

lemma with_conn_send_minv: "minv rm S \<Longrightarrow> not_synced fd rm \<Longrightarrow> minv (with_conn fd (conn_send fd d) rm) S"
  using with_conn_mok [of rm S fd "conn_send fd d"] conn_send_ok [OF _ _ prod.collapse [symmetric], of fd S rm _ d]
    with_conn_send_sel(2) [of fd d rm]
  by (auto simp: mok_def minv_def m_base_def)

subsection \<open>Sending the RDB\<close>

lemma SendFile_rdb:
  assumes "pair_ok fd S rm c" and "not_synced fd rm" and "tc_sendfile c = None"
  shows "\<exists>rm' c'. TcpConn_SendFile (file_callbacks fd) kFullsyncPath (Some d) True rm c = Some (True, rm', c')
           \<and> out_ok fd S rm' c'"
proof -
  let ?c = "EnableWrite (c\<lparr>tc_sendfile := Some d, tc_sendfile_offset := 0, tc_sendfile_remaining := length d,
      tc_sendfile_done := True\<rparr>)"
  have op: "\<not> tc_closed c" and inv: "tc_inv ?c"
    using assms(1,3) by (auto simp: pair_ok_def conn_ok_def tc_inv_def EnableWrite_def)
  then have "rdb.write_ready ?c" by (simp add: rdb.write_ready_def EnableWrite_def)
  moreover have "out_ok fd S rm ?c"
    using assms(1,2) inv op
    by (auto simp: out_ok_def pair_ok_def conn_ok_def slave_ok_def not_synced_def FindSlave_def EnableWrite_def)
  ultimately obtain rm' c' where "HandleWrite (file_callbacks fd) rm ?c = Some (rm', c')" "out_ok fd S rm' c'"
    using rdb.HandleWrite_returns [where fd = fd and S = S and c = ?c] unfolding rdb.returns_def by blast
  with op assms(3) show ?thesis by (simp add: TcpConn_SendFile_def kFullsyncPath_def)
qed

lemma send_rdb_ok:
  assumes "pair_ok fd S rm c" and "FindSlave rm fd = Some sl"
  shows "out_ok fd S (fst (send_rdb rdb fd sl (rm, c))) (snd (send_rdb rdb fd sl (rm, c)))"
proof (cases rdb)
  case None
  from assms(1) have "mrest fd rm S" "conn_ok c" by (simp_all add: pair_ok_def)
  with None send_error_remove_ok [OF prod.collapse [symmetric] this] show ?thesis
    by (simp add: send_rdb_def conn_ok_def)
next
  case (Some d)
  let ?rm = "put_slave fd (sl\<lparr>sl_state := kSendingRdb\<rparr>) rm"
  have p: "pair_ok fd S ?rm c" "not_synced fd ?rm" and op: "\<not> tc_closed c"
    using assms by (auto simp: pair_ok_def conn_ok_def slave_ok_def not_synced_def FindSlave_def umap_simps)
  obtain rm1 c1 where h: "conn_send fd (fullresync_header (rm_replid rm) (sl_backlog_start sl) (length d)) (?rm, c)
      = (rm1, c1)" by fastforce
  note o1 = conn_send_ok [OF p h]
  show ?thesis
  proof (cases "tc_closed c1")
    case True
    with op Some h show ?thesis by (simp add: send_rdb_def out_ok_def)
  next
    case open1: False
    from h p(1) open1 have rm1: "rm1 = ?rm"
      by (auto elim!: conn_send_cases simp: pair_ok_def)
    have nf: "rm_fault rm1 = None" using p(1) by (simp add: rm1 pair_ok_def mrest_def m_base_def)
    from o1 open1 nf have p1: "pair_ok fd S rm1 c1" "not_synced fd rm1" using p(2) by (simp_all add: out_ok_def rm1)
    show ?thesis
    proof (cases "tc_sendfile c1")
      case None
      from SendFile_rdb [OF p1 this, of d] op Some h open1 show ?thesis by (auto simp: send_rdb_def)
    next
      case (Some d')
      obtain rm3 c3 where e: "conn_send fd (''-ERR sendfile failed'' @ crlf) (rm1, c1) = (rm3, c3)" by fastforce
      from conn_send_ok [OF p1 e] have "out_ok fd S (RemoveSlave fd rm3) c3"
        by (auto simp: out_ok_def minv_RemoveSlave pair_ok_def umap_simps)
      with e Some \<open>rdb = Some d\<close> op h open1 show ?thesis by (simp add: send_rdb_def TcpConn_SendFile_def)
    qed
  qed
qed

lemma SendRdbToSlave_mok:
  assumes "mok rm S"
  shows "mok (SendRdbToSlave rdb fd rm) S"
proof (cases "rm_fault rm = None")
  case True
  with assms have "minv rm S" by (simp add: mok_def)
  then have "mok (with_conn fd (send_rdb rdb fd sl) rm) S" if "FindSlave rm fd = Some sl" for sl
    by (rule with_conn_mok) (rule send_rdb_ok [OF _ that])
  with True assms show ?thesis by (auto simp: SendRdbToSlave_def split: option.split)
next
  case False
  with assms show ?thesis by (simp add: SendRdbToSlave_def)
qed

lemma BeginSendToWaiters_mok: "mok rm S \<Longrightarrow> mok (BeginSendToWaiters rdb rm) S"
  unfolding BeginSendToWaiters_def by (rule fold_mok) (rule SendRdbToSlave_mok)

subsection \<open>Dropping slaves\<close>

lemma not_synced_shrink: "not_synced fd rm \<Longrightarrow> rm_slaves rm1 \<in> {rm_slaves rm, um_erase (rm_slaves rm) fd'} \<Longrightarrow> not_synced fd rm1"
  by (auto simp: not_synced_def FindSlave_def umap_simps split: if_splits)

lemma send_to_waiters_mok:
  "mok rm S \<Longrightarrow> (\<forall>(fd, s) \<in> set ss. sl_state s = kWaitRdb \<longrightarrow> not_synced fd rm) \<Longrightarrow> mok (send_to_waiters ss err rm) S"
proof (induction ss arbitrary: rm)
  case (Cons x ss)
  obtain fd s where x: "x = (fd, s)" by fastforce
  show ?case
  proof (cases "rm_fault rm = None \<and> sl_state s = kWaitRdb")
    case True
    let ?rm1 = "with_conn fd (conn_send fd err) rm"
    let ?rm2 = "if um_find (rm_slaves ?rm1) fd = None then set_fault Dangling ?rm1 else ?rm1"
    from True Cons.prems x have "minv ?rm1 S" by (intro with_conn_send_minv) (auto simp: mok_def)
    then have "mok ?rm2 S" by (simp add: mok_def)
    moreover have "\<forall>(fd', s') \<in> set ss. sl_state s' = kWaitRdb \<longrightarrow> not_synced fd' ?rm2"
      using Cons.prems(2) not_synced_shrink [of _ rm ?rm2 fd] with_conn_send_sel(1) [of fd err rm] by auto
    ultimately show ?thesis using True x Cons.IH by (simp add: Let_def)
  next
    case False
    with Cons x show ?thesis by auto
  qed
qed simp

lemma erase_slaves_minv: "minv rm S \<Longrightarrow> minv (erase_slaves fds rm) S"
proof (induction fds arbitrary: rm)
  case (Cons fd fds)
  from Cons.IH [OF minv_erase [OF Cons.prems, of fd]] show ?case by (simp add: erase_slaves_def)
qed (simp add: erase_slaves_def)

lemma drop_waiters_mok:
  assumes "minv rm S"
  shows "mok (drop_waiters rm) S"
proof -
  have wf: "um_wf (rm_slaves rm)" using assms by (simp add: minv_def m_base_def)
  have "mok (send_to_waiters (rm_slaves rm) (''-ERR fullsync save failed'' @ crlf) rm) S"
    using assms by (intro send_to_waiters_mok) (auto simp: mok_def not_synced_def FindSlave_def um_find_mem [OF wf, symmetric])
  then show ?thesis by (auto simp: drop_waiters_def Let_def mok_def erase_slaves_minv)
qed

lemma align_waiters_minv:
  assumes "minv rm S"
  shows "minv (align_waiters rm) S"
proof -
  let ?st = "if rm_fullsync_active rm then rm_fullsync_backlog_start rm else bl_tip (rm_backlog rm)"
  have "?st \<le> length S" "rm_fullsync_backlog_start (align_waiters rm) = ?st"
    using assms bl_inv_D(3) [of "rm_backlog rm" S] by (auto simp: align_waiters_def Let_def minv_def m_base_def)
  moreover have "um_find (rm_slaves (align_waiters rm)) fd = map_option (\<lambda>s. if sl_state s = kWaitRdb
      then s\<lparr>sl_backlog_start := ?st\<rparr> else s) (um_find (rm_slaves rm) fd)" for fd
    by (auto simp: align_waiters_def Let_def um_find_def map_of_map cong: if_cong)
  moreover have "um_wf (rm_slaves (align_waiters rm))"
    using assms by (auto simp: align_waiters_def Let_def um_wf_def minv_def m_base_def case_prod_unfold comp_def)
  ultimately show ?thesis using assms
    by (fastforce simp: minv_def m_base_def m_fds_def slave_ok_def align_waiters_def Let_def split: if_splits)
qed

lemma StartFullsyncIfNeeded_mok:
  assumes "mok rm S" and "StartFullsyncIfNeeded pid (rm, sm) = (rm1, sm1)" and "rm_fault rm = None"
  shows "mok rm1 S"
proof -
  from assms(1,3) have inv: "minv rm S" by (simp add: mok_def)
  with assms(1,2) align_waiters_minv [OF inv] drop_waiters_mok [OF align_waiters_minv [OF inv]] show ?thesis
    by (auto simp: StartFullsyncIfNeeded_def Let_def mok_def split: if_splits prod.splits)
qed

lemma OnSaveDone_mok:
  assumes "mok rm S" and "OnSaveDone pid rdb ok path (rm, sm) = (rm1, sm1)" and "rm_fault rm = None"
  shows "mok rm1 S"
proof -
  let ?rm = "rm\<lparr>rm_save_started_for_fullsync := False\<rparr>"
  from assms(1,3) have inv: "minv ?rm S" "mok ?rm S" by (simp_all add: mok_def)
  with assms(2) BeginSendToWaiters_mok [OF inv(2)] drop_waiters_mok [OF inv(1)]
    StartFullsyncIfNeeded_mok [OF inv(2), of pid sm rm1 sm1] assms(3) show ?thesis
    by (auto simp: OnSaveDone_def Let_def split: if_splits)
qed

subsection \<open>Closing, feeding and partial resynchronisation\<close>

lemma Close_ok:
  assumes "pair_ok fd S rm c" and "TcpConn_Close (file_callbacks fd) (rm, c) = (rm1, c1)"
  shows "tc_closed c1 \<and> minv rm1 S"
proof -
  have rest: "mrest fd rm S" "mrest fd (RemoveSlave fd rm) S" and "\<not> tc_closed c"
    using assms(1) by (simp_all add: pair_ok_def conn_ok_def)
  with assms(2) mrest_close [OF rest(1)] mrest_close [OF rest(2)] show ?thesis
    by (auto simp: TcpConn_Close_def ClearSendFile_def file_callbacks_def on_file_done_def clear_file_def DisableWrite_def
        Let_def split: if_splits option.splits)
qed

lemma force_close_mok: "minv rm S \<Longrightarrow> mok (force_close fd rm) S"
  unfolding force_close_def by (rule with_conn_mok) (use Close_ok [OF _ prod.collapse [symmetric]] in \<open>auto simp: out_ok_def\<close>)

lemma drop_slave_mok:
  assumes "mok rm S"
  shows "mok (drop_slave fd rm) S"
proof (cases "rm_fault rm = None")
  case True
  with assms have inv: "minv rm S" by (simp add: mok_def)
  show ?thesis
  proof (cases "FindSlave rm fd")
    case None
    with True inv minv_erase [OF inv] show ?thesis by (simp add: drop_slave_def mok_def)
  next
    case (Some s)
    let ?rm1 = "warn_dropped fd s rm"
    have "minv ?rm1 S" unfolding warn_dropped_def using Some with_conn_send_minv [OF inv] inv by (simp add: not_synced_def)
    from force_close_mok [OF this] minv_erase [OF inv, of fd]
    have "mok (if um_find (rm_slaves ?rm1) fd = None then set_fault Dangling ?rm1 else force_close fd ?rm1) S"
      "mok (rm\<lparr>rm_slaves := um_erase (rm_slaves rm) fd\<rparr>) S" by (simp_all add: mok_def)
    with True Some show ?thesis by (simp add: drop_slave_def Let_def split: option.split)
  qed
next
  case False
  with assms show ?thesis by (simp add: drop_slave_def)
qed

text \<open>During the loop the slaves still to be served are behind by the new frame.\<close>

definition feeding :: "(int \<times> Slave) list \<Rightarrow> ReplicationMaster \<Rightarrow> bytes \<Rightarrow> bytes \<Rightarrow> bool" where
  "feeding ss rm S frame \<longleftrightarrow> m_base rm (S @ frame) \<and> distinct (map fst ss)
     \<and> (\<forall>(fd, sl) \<in> set ss. FindSlave rm fd = Some sl)
     \<and> m_fds (fst ` set ss) rm S \<and> m_fds (- (fst ` set ss)) rm (S @ frame)"

lemma slave_ok_waiting: "slave_ok S sl c \<Longrightarrow> sl_state sl \<noteq> kSynced \<Longrightarrow> slave_ok (S @ frame) sl c'"
  by (simp add: slave_ok_def)

lemma slave_ok_fed: "slave_ok S sl c \<Longrightarrow> tc_stream c' = tc_stream c @ frame \<Longrightarrow> slave_ok (S @ frame) sl c'"
  by (auto simp: slave_ok_def suffix_def)

lemma feed_slaves_mok:
  "feeding ss rm S frame \<Longrightarrow> mok (snd (feed_slaves ss frame fds rm)) (S @ frame)"
proof (induction ss arbitrary: fds rm)
  case Nil
  then show ?case by (simp add: feeding_def mok_def minv_def)
next
  case (Cons x ss)
  obtain fd sl where x: "x = (fd, sl)" by fastforce
  from Cons.prems x obtain c where c: "um_find (rm_conns rm) fd = Some c" "slave_ok S sl c" "conn_ok c"
    by (auto simp: feeding_def m_fds_def FindSlave_def)
  have skip: "feeding ss rm S frame" if "sl_state sl \<noteq> kSynced"
    using Cons.prems x c slave_ok_waiting [OF c(2) that]
    by (auto simp: feeding_def m_fds_def FindSlave_def)
  show ?case
  proof (cases "rm_fault rm = None \<and> sl_state sl = kSynced")
    case True
    obtain rm1 c1 where s: "conn_send fd frame (rm, c) = (rm1, c1)" by fastforce
    from s c(3) show ?thesis
    proof (cases rule: conn_send_cases)
      case 1
      with True x c s show ?thesis by (simp add: conn_ok_def mok_def)
    next
      case 2
      let ?rm = "rm\<lparr>rm_conns := um_put (rm_conns rm) fd c1\<rparr>"
      have "feeding ss ?rm S frame"
        using Cons.prems x c 2 slave_ok_fed [OF c(2), of c1 frame]
        by (auto simp: feeding_def m_fds_def m_base_def FindSlave_def umap_simps um_wf_put)
      with Cons.IH 2 True x c s show ?thesis by (simp add: conn_ok_def)
    qed
  next
    case False
    moreover have "rm_fault rm = None" using Cons.prems by (simp add: feeding_def m_base_def)
    ultimately show ?thesis using Cons.IH [OF skip] x by simp
  qed
qed

lemma FeedEncodedFrame_mok:
  assumes "minv rm S"
  shows "mok (FeedEncodedFrame rm frame) (S @ frame)"
proof -
  have wf: "um_wf (rm_slaves rm)" and "bl_inv (rm_backlog rm) S" using assms by (simp_all add: minv_def m_base_def)
  then obtain b where b: "FeedEncoded (rm_backlog rm) frame = Some b" "bl_inv b (S @ frame)"
    using FeedEncoded_inv [of "rm_backlog rm" S frame] by blast
  have fresh: "um_find (rm_slaves rm) fd = None" if "fd \<notin> fst ` set (rm_slaves rm)" for fd
    using that by (simp add: um_find_None_iff)
  have "feeding (rm_slaves rm) (rm\<lparr>rm_backlog := b\<rparr>) S frame"
    using assms b(2) wf um_find_mem [OF wf] fresh
    by (auto simp: feeding_def minv_def m_base_def m_fds_def FindSlave_def) (auto simp: um_wf_def)
  from feed_slaves_mok [OF this, of "[]"]
  have "mok (snd (feed_slaves (rm_slaves rm) frame [] (rm\<lparr>rm_backlog := b\<rparr>))) (S @ frame)" .
  with fold_mok [OF drop_slave_mok] b(1) show ?thesis
    by (simp add: FeedEncodedFrame_def case_prod_beta)
qed

text \<open>A partial resynchronisation: the answer and the missing part of the stream.\<close>

lemma send_continue_cases:
  assumes "send_continue fd payload (rm, c) = (rm1, c1)" and "conn_ok c"
  obtains "tc_closed c1" "rm1 = on_close fd rm"
    | "conn_ok c1" "rm1 = rm" "tc_stream c1 = tc_stream c @ AppendSimpleString [] ''CONTINUE'' @ payload"
proof -
  obtain rm2 c2 where s: "conn_send fd (AppendSimpleString [] ''CONTINUE'') (rm, c) = (rm2, c2)" by fastforce
  obtain rm3 c3 where p: "conn_send fd payload (rm2, c2) = (rm3, c3)" by fastforce
  have r: "(rm1, c1) = (if payload = [] then (rm2, c2) else (rm3, c3))"
    using assms(1) s p by (auto simp: send_continue_def Let_def split: if_splits)
  from s assms(2) show thesis
  proof (cases rule: conn_send_cases)
    case 1
    with p r conn_send_closed [of c2 fd payload rm2] show thesis by (intro that(1)) (auto split: if_splits)
  next
    case 2
    from p 2(1) show thesis
    proof (cases rule: conn_send_cases)
      case 1
      with 2 r show thesis by (cases "payload = []") (auto intro: that simp: conn_ok_def)
    next
      case b: 2
      with 2 r show thesis by (intro that(2)) (auto split: if_splits)
    qed
  qed
qed

lemma TryPartialResync_ok:
  assumes "minv rm S" and "TryPartialResync fd offset rm = Some rm1"
  obtains c where "um_find (rm_conns rm) fd = Some c" "offset \<le> length S"
    "rm1 = with_conn fd (send_continue fd (drop offset S))
             (put_slave fd \<lparr>sl_state = kSynced, sl_backlog_start = offset\<rparr> rm)"
proof -
  obtain c where c: "um_find (rm_conns rm) fd = Some c" "\<not> tc_closed c" "Backlog_Contains (rm_backlog rm) offset"
    using assms(2) by (auto simp: TryPartialResync_def split: option.splits if_splits)
  have bl: "bl_inv (rm_backlog rm) S" using assms(1) by (simp add: minv_def m_base_def)
  have off: "offset \<le> length S" using c(3) bl_inv_D(3) [OF bl] by (simp add: Backlog_Contains_def)
  have "CopyRange (rm_backlog rm) offset (bl_tip (rm_backlog rm)) = Some (Some (drop offset S))"
    using CopyRange_stream [OF bl] bl_inv_D(3) [OF bl] c(3) by (simp add: Backlog_Contains_def slice_def)
  with assms(2) c off show thesis by (intro that [OF c(1) off]) (simp add: TryPartialResync_def)
qed

lemma TryPartialResync_mok:
  assumes "minv rm S" and "TryPartialResync fd offset rm = Some rm1"
  shows "mok rm1 S"
proof -
  let ?rm = "put_slave fd \<lparr>sl_state = kSynced, sl_backlog_start = offset\<rparr> rm"
  from assms obtain c where c: "um_find (rm_conns rm) fd = Some c" "offset \<le> length S"
    "rm1 = with_conn fd (send_continue fd (drop offset S)) ?rm" by (rule TryPartialResync_ok)
  have rest: "mrest fd ?rm S" "conn_ok c"
    using minv_mrest [OF assms(1)] minv_take [OF assms(1) c(1)] by (simp_all add: pair_ok_def)
  obtain rm2 c2 where s: "send_continue fd (drop offset S) (?rm, c) = (rm2, c2)" by fastforce
  from s rest(2) have "out_ok fd S rm2 c2"
  proof (cases rule: send_continue_cases)
    case 1
    with mrest_close [OF rest(1)] show ?thesis by (simp add: out_ok_def)
  next
    case 2
    with rest c(2) show ?thesis by (auto simp: out_ok_def pair_ok_def conn_ok_def slave_ok_def suffix_def umap_simps)
  qed
  with s c(1) show ?thesis unfolding c(3) by (intro with_conn_out [where c = c]) simp_all
qed

lemma OnPsync_mok:
  assumes "minv rm S" and "OnPsync pid rm (Some sm) fd replid offset = (reply, rm1, sm1)"
  shows "mok rm1 S"
proof (cases "um_find (rm_conns rm) fd")
  case None
  with assms show ?thesis by (auto simp: OnPsync_def mok_def)
next
  case (Some c)
  have inv: "minv (RemoveSlave fd rm) S" using assms(1) by (rule minv_RemoveSlave)
  let ?rm = "put_slave fd \<lparr>sl_state = kWaitRdb, sl_backlog_start = bl_tip (rm_backlog (RemoveSlave fd rm))\<rparr>
      (RemoveSlave fd rm)"
  have cok: "conn_ok c" using minv_take [OF assms(1) Some] by (simp add: pair_ok_def)
  have rm: "minv ?rm S"
    using inv Some cok bl_inv_D(3) [of "rm_backlog rm" S]
    by (auto simp: minv_def m_base_def m_fds_def umap_simps um_wf_put um_wf_erase slave_ok_def)
  have "rm_fault ?rm = None" using rm by (simp add: minv_def m_base_def)
  with StartFullsyncIfNeeded_mok [of ?rm S pid sm] TryPartialResync_mok [OF inv] rm assms(2) Some cok show ?thesis
    by (auto simp: OnPsync_def Let_def mok_def conn_ok_def split: option.splits prod.splits if_splits)
qed

lemma OnConnection_minv:
  assumes "minv rm S" and "um_find (rm_conns rm) fd = None" and "conn_ok c"
  shows "minv (OnConnection fd c rm) S"
  using assms by (fastforce simp: OnConnection_def minv_def m_base_def m_fds_def umap_simps um_wf_put)

lemma HandleIO_writable_ok:
  assumes "pair_ok fd S rm c"
  shows "\<exists>rm1 c1. HandleIO (file_callbacks fd) writable (rm, c) = Some (rm1, c1) \<and> out_ok fd S rm1 c1"
proof -
  have op: "\<not> tc_closed c" and "rdb.write_ready c" and "out_ok fd S rm c"
    using assms by (auto simp: pair_ok_def conn_ok_def rdb.write_ready_def out_ok_def)
  then obtain rm1 c1 where "HandleWrite (file_callbacks fd) rm c = Some (rm1, c1)" "out_ok fd S rm1 c1"
    using rdb.HandleWrite_returns [where fd = fd and S = S and c = c] unfolding rdb.returns_def by blast
  with op show ?thesis by (simp add: HandleIO_def)
qed

lemma master_writable_mok:
  assumes "minv rm S"
  shows "mok (master_writable fd rm) S"
proof (cases "um_find (rm_conns rm) fd")
  case None
  with assms show ?thesis by (simp add: master_writable_def mok_def)
next
  case (Some c)
  from HandleIO_writable_ok [OF minv_take [OF assms Some]] obtain rm1 c1 where
    "HandleIO (file_callbacks fd) writable (rm, c) = Some (rm1, c1)" "out_ok fd S rm1 c1" by blast
  with Some minv_put [of fd S rm1 c1] show ?thesis
    by (cases "tc_closed c1") (auto simp: master_writable_def mok_def out_ok_def)
qed

end
