(* ===== verification/MasterRuns.thy ===== *)
theory MasterRuns
  imports ReplicationMaster
begin

text \<open>
  The replication master at work (src/src/replication/ReplicationMaster.cc): no operation leaves a slave
  waiting without a save, the runs of the master as a transition system, its invariant, and the
  properties of replication.
\<close>

section \<open>Waiting slaves\<close>

text \<open>
  Which slaves wait for an RDB, and whether the master has a save of its own running. No operation on one
  connection makes a slave wait.
\<close>

definition waiters :: "ReplicationMaster \<Rightarrow> int set" where
  "waiters rm = {fd. \<exists>s. FindSlave rm fd = Some s \<and> sl_state s = kWaitRdb}"

definition calm :: "int set \<Rightarrow> bool \<Rightarrow> ReplicationMaster \<Rightarrow> bool" where
  "calm W b rm \<longleftrightarrow> waiters rm \<subseteq> W \<and> rm_save_started_for_fullsync rm = b"

lemma calm_sel [simp]:
  "calm W b rm \<Longrightarrow> calm W b (RemoveSlave fd rm)" "calm W b rm \<Longrightarrow> calm W b (on_close fd rm)"
  "calm W b rm \<Longrightarrow> sl_state sl \<noteq> kWaitRdb \<Longrightarrow> calm W b (put_slave fd sl rm)"
  "calm W b (set_fault e rm) = calm W b rm"
  "calm W b (rm\<lparr>rm_fullsync_active := x\<rparr>) = calm W b rm" "calm W b (rm\<lparr>rm_conns := cs\<rparr>) = calm W b rm"
  "calm W b (rm\<lparr>rm_backlog := bl\<rparr>) = calm W b rm"
  "calm W b rm \<Longrightarrow> calm W b (rm\<lparr>rm_slaves := um_erase (rm_slaves rm) fd\<rparr>)"
  by (auto simp: calm_def waiters_def FindSlave_def umap_simps set_fault_def split: if_splits)

lemma conn_send_calm: "calm W b rm \<Longrightarrow> calm W b (fst (conn_send fd d (rm, c)))"
  using conn_send_rm [of fd d rm c] by auto

lemma with_conn_calm:
  assumes "calm W b rm" and "\<And>c. um_find (rm_conns rm) fd = Some c \<Longrightarrow> calm W b (fst (f (rm, c)))"
  shows "calm W b (with_conn fd f rm)"
  using assms by (auto simp: with_conn_def split: option.split prod.split)

lemma send_error_remove_calm: "calm W b rm \<Longrightarrow> calm W b (fst (send_error_remove fd e (rm, c)))"
  using conn_send_calm [of W b rm fd "e @ crlf" c] by (auto simp: send_error_remove_def split: prod.split)

lemma send_payload_calm: "calm W b rm \<Longrightarrow> calm W b (fst (send_payload fd p (rm, c)))"
  using conn_send_calm [of W b rm fd "len_line (length p)" c]
    conn_send_calm [of W b "fst (conn_send fd (len_line (length p)) (rm, c))" fd p
      "snd (conn_send fd (len_line (length p)) (rm, c))"]
  by (auto simp: send_payload_def case_prod_beta)

lemma SendBacklogToSlave_calm:
  assumes "calm W b rm"
  shows "calm W b (fst (SendBacklogToSlave fd sl (rm, c)))"
proof -
  let ?rm = "put_slave fd (sl\<lparr>sl_state := kSendingBacklog\<rparr>) rm"
  have "calm W b ?rm" using assms by simp
  then have "calm W b (fst (send_payload fd p (?rm, c)))" "calm W b (fst (send_error_remove fd e (?rm, c)))" for p e
    by (rule send_payload_calm send_error_remove_calm)+
  with assms show ?thesis
    by (auto simp: SendBacklogToSlave_def Let_def case_prod_beta split: option.split)
qed

lemma on_file_done_calm: "calm W b rm \<Longrightarrow> calm W b (fst (on_file_done fd send_ok (rm, c)))"
  using SendBacklogToSlave_calm by (auto simp: on_file_done_def split: option.split)

interpretation rdb_calm: transfer_owner "file_callbacks fd" "\<lambda>rm c. calm W b rm" for fd W b
  by unfold_locales
     (auto simp: rdb.done_failed rdb.done_sends on_file_done_calm, auto simp: file_callbacks_def on_file_done_calm)

lemma HandleWrite_calm:
  assumes "tc_inv c" and "\<not> tc_closed c" and "calm W b rm"
    and "HandleWrite (file_callbacks fd) rm c = Some (rm1, c1)"
  shows "calm W b rm1"
proof -
  have "rdb_calm.write_ready c" using assms(1,2) by (simp add: rdb_calm.write_ready_def)
  from rdb_calm.HandleWrite_returns [where fd = fd and W = W and b = b, OF this] assms(3,4) show ?thesis
    unfolding rdb_calm.returns_def by fastforce
qed

lemma master_writable_calm:
  assumes "minv rm S" and "calm W b rm"
  shows "calm W b (master_writable fd rm)"
proof (cases "um_find (rm_conns rm) fd")
  case None
  with assms(2) show ?thesis by (simp add: master_writable_def)
next
  case (Some c)
  then have "tc_inv c" "\<not> tc_closed c" using minv_take [OF assms(1)] by (auto simp: pair_ok_def conn_ok_def)
  with HandleWrite_calm [OF this assms(2), of fd] Some assms(2) show ?thesis
    by (auto simp: master_writable_def HandleIO_def bind_eq_Some_conv split: option.split prod.split if_splits)
qed

lemma Close_calm: "calm W b rm \<Longrightarrow> calm W b (fst (TcpConn_Close (file_callbacks fd) (rm, c)))"
  using on_file_done_calm [of W b rm fd False]
  by (auto simp: TcpConn_Close_def ClearSendFile_def file_callbacks_def case_prod_beta)

lemma force_close_calm: "calm W b rm \<Longrightarrow> calm W b (force_close fd rm)"
  unfolding force_close_def by (rule with_conn_calm) (auto intro: Close_calm)

lemma drop_slave_calm: "calm W b rm \<Longrightarrow> calm W b (drop_slave fd rm)"
proof -
  assume c: "calm W b rm"
  then have "calm W b (warn_dropped fd s rm)" for s
    by (auto simp: warn_dropped_def intro: with_conn_calm conn_send_calm)
  with c force_close_calm show ?thesis by (simp add: drop_slave_def Let_def split: option.split)
qed

lemma feed_slaves_calm: "calm W b rm \<Longrightarrow> calm W b (snd (feed_slaves ss frame fds rm))"
proof (induction ss arbitrary: fds rm)
  case (Cons x ss)
  obtain fd sl where "x = (fd, sl)" by fastforce
  moreover have "calm W b rm1" if "conn_send fd frame (rm, c) = (rm1, c1)" for c c1 rm1
    using conn_send_calm [OF Cons.prems, of fd frame c] that by simp
  ultimately show ?case using Cons by (auto split: option.split prod.split)
qed simp

lemma fold_calm: "(\<And>x rm. calm W b rm \<Longrightarrow> calm W b (f x rm)) \<Longrightarrow> calm W b rm \<Longrightarrow> calm W b (fold f xs rm)"
  by (induction xs arbitrary: rm) simp_all

lemma FeedEncodedFrame_calm:
  assumes "calm W b rm"
  shows "calm W b (FeedEncodedFrame rm frame)"
proof -
  have "calm W b (snd (feed_slaves ss frame fds (rm\<lparr>rm_backlog := x\<rparr>)))" for ss fds x
    using assms by (intro feed_slaves_calm) simp
  with assms show ?thesis
    by (auto simp: FeedEncodedFrame_def case_prod_beta intro: fold_calm drop_slave_calm split: option.split)
qed

text \<open>Serving or dropping the waiting slaves leaves none waiting.\<close>

lemma send_rdb_calm:
  assumes "pair_ok fd S rm c" and "FindSlave rm fd = Some sl" and "calm W b rm"
  shows "calm (W - {fd}) b (fst (send_rdb rdb fd sl (rm, c))) \<or> rm_fault (fst (send_rdb rdb fd sl (rm, c))) \<noteq> None"
proof -
  let ?rm = "put_slave fd (sl\<lparr>sl_state := kSendingRdb\<rparr>) rm"
  have op: "\<not> tc_closed c" and cok: "conn_ok c" using assms(1) by (simp_all add: pair_ok_def conn_ok_def)
  have put: "calm (W - {fd}) b ?rm" "calm (W - {fd}) b (RemoveSlave fd rm)"
    using assms(3) by (auto simp: calm_def waiters_def FindSlave_def umap_simps split: if_splits)
  have rem: "calm (W - {fd}) b (RemoveSlave fd rm1)" if "calm W b rm1" for rm1
    using that by (auto simp: calm_def waiters_def FindSlave_def umap_simps split: if_splits)
  show ?thesis
  proof (cases rdb)
    case None
    have "calm W b (fst (conn_send fd (''-ERR fullsync rdb missing'' @ crlf) (rm, c)))"
      using assms(3) by (rule conn_send_calm)
    from rem [OF this] None op show ?thesis
      by (auto simp: send_rdb_def send_error_remove_def split: prod.split)
  next
    case (Some d)
    let ?h = "fullresync_header (rm_replid rm) (sl_backlog_start sl) (length d)"
    obtain rm1 c1 where h: "conn_send fd ?h (?rm, c) = (rm1, c1)" by fastforce
    have rm1: "calm (W - {fd}) b rm1" using conn_send_calm [OF put(1), of fd ?h c] h by simp
    from h cok show ?thesis
    proof (cases rule: conn_send_cases)
      case 1
      with h Some op show ?thesis by (simp add: send_rdb_def)
    next
      case 2
      show ?thesis
      proof (cases "tc_sendfile c1")
        case None
        let ?c = "EnableWrite (c1\<lparr>tc_sendfile := Some d, tc_sendfile_offset := 0, tc_sendfile_remaining := length d,
            tc_sendfile_done := True\<rparr>)"
        have inv: "tc_inv ?c" "\<not> tc_closed ?c" using 2(1) None by (auto simp: conn_ok_def tc_inv_def EnableWrite_def)
        have "calm (W - {fd}) b rm2" if "HandleWrite (file_callbacks fd) rm1 ?c = Some (rm2, c2)" for rm2 c2
          using inv rm1 that by (rule HandleWrite_calm)
        with None 2 h Some op show ?thesis
          by (auto simp: send_rdb_def TcpConn_SendFile_def kFullsyncPath_def conn_ok_def split: option.split)
      next
        case busy: (Some d')
        have "calm (W - {fd}) b (fst (conn_send fd e (rm1, c1)))" for e using rm1 by (rule conn_send_calm)
        with busy 2 h Some op show ?thesis
          by (auto simp: send_rdb_def TcpConn_SendFile_def conn_ok_def split: prod.split) (metis calm_sel(1) fst_conv)
      qed
    qed
  qed
qed

lemma SendRdbToSlave_calm:
  assumes "minv rm S" and "calm W b rm"
  shows "calm (W - {fd}) b (SendRdbToSlave rdb fd rm) \<or> rm_fault (SendRdbToSlave rdb fd rm) \<noteq> None"
proof (cases "FindSlave rm fd")
  case None
  with assms show ?thesis by (auto simp: SendRdbToSlave_def calm_def waiters_def)
next
  case (Some sl)
  then obtain c where c: "um_find (rm_conns rm) fd = Some c"
    using assms(1) unfolding minv_def m_fds_def FindSlave_def by blast
  have "rm_fault rm = None" using assms(1) by (simp add: minv_def m_base_def)
  with c Some send_rdb_calm [OF minv_take [OF assms(1) c] Some assms(2), of rdb] show ?thesis
    by (auto simp: SendRdbToSlave_def with_conn_def split: prod.split)
qed

lemma BeginSendToWaiters_fold:
  "mok rm S \<Longrightarrow> calm (set fds) b rm \<or> rm_fault rm \<noteq> None \<Longrightarrow>
   calm {} b (fold (SendRdbToSlave rdb) fds rm) \<or> rm_fault (fold (SendRdbToSlave rdb) fds rm) \<noteq> None"
proof (induction fds arbitrary: rm)
  case (Cons fd fds)
  let ?rm = "SendRdbToSlave rdb fd rm"
  have "calm (set fds) b ?rm \<or> rm_fault ?rm \<noteq> None"
  proof (cases "rm_fault rm = None")
    case True
    with Cons.prems have "minv rm S" "calm (insert fd (set fds)) b rm" by (simp_all add: mok_def)
    from SendRdbToSlave_calm [OF this, of fd rdb] show ?thesis by (auto simp: calm_def)
  next
    case False
    then show ?thesis by (simp add: SendRdbToSlave_def)
  qed
  with Cons.IH [OF SendRdbToSlave_mok [OF Cons.prems(1)]] show ?case by simp
qed simp

lemma waiting_fds_waiters: "um_wf (rm_slaves rm) \<Longrightarrow> set (waiting_fds rm) = waiters rm"
  by (auto simp: waiting_fds_def waiters_def FindSlave_def um_find_mem) force

lemma BeginSendToWaiters_calm:
  assumes "minv rm S"
  shows "calm {} (rm_save_started_for_fullsync rm) (BeginSendToWaiters rdb rm) \<or> rm_fault (BeginSendToWaiters rdb rm) \<noteq> None"
  unfolding BeginSendToWaiters_def
  by (rule BeginSendToWaiters_fold [of _ S])
     (use assms waiting_fds_waiters [of rm] in \<open>auto simp: mok_def minv_def m_base_def calm_def\<close>)

lemma send_to_waiters_calm: "calm W b rm \<Longrightarrow> calm W b (send_to_waiters ss err rm)"
proof (induction ss arbitrary: rm)
  case (Cons x ss)
  obtain fd s where "x = (fd, s)" by fastforce
  moreover have "calm W b (with_conn fd (conn_send fd err) rm)"
    using Cons.prems by (auto intro: with_conn_calm conn_send_calm)
  ultimately show ?case using Cons by (simp add: Let_def)
qed simp

lemma erase_slaves_waiters: "waiters (erase_slaves fds rm) = waiters rm - set fds"
proof (induction fds arbitrary: rm)
  case (Cons fd fds)
  have "erase_slaves (fd # fds) rm = erase_slaves fds (rm\<lparr>rm_slaves := um_erase (rm_slaves rm) fd\<rparr>)"
    by (simp add: erase_slaves_def)
  with Cons show ?case by (auto simp: waiters_def FindSlave_def umap_simps)
qed (simp add: erase_slaves_def)

lemma drop_waiters_calm:
  assumes "minv rm S"
  shows "calm {} (rm_save_started_for_fullsync rm) (drop_waiters rm) \<or> rm_fault (drop_waiters rm) \<noteq> None"
proof -
  let ?rm1 = "send_to_waiters (rm_slaves rm) (''-ERR fullsync save failed'' @ crlf) rm"
  have "calm (waiters rm) (rm_save_started_for_fullsync rm) ?rm1"
    by (rule send_to_waiters_calm) (simp add: calm_def)
  moreover have "set (waiting_fds rm) = waiters rm"
    using assms by (intro waiting_fds_waiters) (simp add: minv_def m_base_def)
  ultimately have "calm {} (rm_save_started_for_fullsync rm) (erase_slaves (waiting_fds rm) ?rm1)"
    unfolding calm_def erase_slaves_waiters by (auto simp: erase_slaves_def)
  then show ?thesis unfolding drop_waiters_def Let_def by (simp del: append_Cons)
qed

text \<open>The master and the manager of the saves: nobody waits without a save running.\<close>

definition save_ok :: "ReplicationMaster \<Rightarrow> SnapshotManager \<Rightarrow> bool" where
  "save_ok rm sm \<longleftrightarrow>
     (rm_save_started_for_fullsync rm \<longrightarrow> save_in_progress sm \<and> sm_pending_save_path sm = kFullsyncPath)
     \<and> (waiters rm \<noteq> {} \<longrightarrow> save_in_progress sm) \<and> (save_in_progress sm \<longrightarrow> sm_reap_timer sm)"

lemma save_ok_calm:
  "save_ok rm sm \<Longrightarrow> calm (waiters rm) (rm_save_started_for_fullsync rm) rm1 \<Longrightarrow> save_ok rm1 sm"
  by (auto simp: save_ok_def calm_def)

lemma align_waiters_sel [simp]:
  "rm_save_started_for_fullsync (align_waiters rm) = rm_save_started_for_fullsync rm"
  by (simp add: align_waiters_def Let_def)

lemma StartFullsyncIfNeeded_save_ok:
  assumes "StartFullsyncIfNeeded pid (rm, sm) = (rm1, sm1)" and "minv rm S" and "pid \<noteq> 0"
    and "rm_save_started_for_fullsync rm \<longrightarrow> save_in_progress sm \<and> sm_pending_save_path sm = kFullsyncPath"
    and "save_in_progress sm \<longrightarrow> sm_reap_timer sm"
  shows "save_ok rm1 sm1 \<or> rm_fault rm1 \<noteq> None"
proof -
  have none: "waiters rm = {}" if "waiting_fds rm = []"
    using waiting_fds_waiters [of rm] that assms(2) by (simp add: minv_def m_base_def)
  let ?rm = "align_waiters rm"
  have drop: "calm {} (rm_save_started_for_fullsync rm) (drop_waiters ?rm) \<or> rm_fault (drop_waiters ?rm) \<noteq> None"
    using drop_waiters_calm [OF align_waiters_minv [OF assms(2)]] by simp
  show ?thesis
  proof (cases "rm_save_started_for_fullsync rm \<or> waiting_fds rm = [] \<or> save_in_progress sm")
    case True
    with assms none show ?thesis
      by (auto simp: StartFullsyncIfNeeded_def Let_def save_ok_def split: if_splits)
  next
    case False
    obtain st sm' where b: "BackgroundSaveToPath pid True sm kFullsyncPath = (st, sm')" by fastforce
    from BackgroundSaveToPath_cases [OF b] False assms b drop show ?thesis
      by (auto simp: StartFullsyncIfNeeded_def Let_def save_ok_def save_in_progress_def calm_def
          BackgroundSaveToPath_def kFullsyncPath_def EnsureReapTimer_def split: if_splits)
  qed
qed

lemma OnSaveDone_save_ok:
  assumes "OnSaveDone pid rdb ok path (rm, sm) = (rm1, sm1)" and "minv rm S" and "pid \<noteq> 0"
    and "save_in_progress sm \<longrightarrow> sm_reap_timer sm"
  shows "save_ok rm1 sm1 \<or> rm_fault rm1 \<noteq> None"
proof -
  let ?rm = "rm\<lparr>rm_save_started_for_fullsync := False\<rparr>"
  have inv: "minv ?rm S" using assms(2) by simp
  show ?thesis
    using assms(1,3,4) drop_waiters_calm [OF inv] BeginSendToWaiters_calm [OF inv, of rdb]
      StartFullsyncIfNeeded_save_ok [OF _ inv, of pid sm rm1 sm1]
    by (auto simp: OnSaveDone_def Let_def save_ok_def calm_def split: if_splits)
qed

lemma TryPartialResync_calm:
  assumes "TryPartialResync fd offset rm = Some rm1" and "calm W b rm"
  shows "calm W b rm1"
proof -
  have "calm W b (fst (send_continue fd p (rm', c)))" if "calm W b rm'" for rm' p c
    using conn_send_calm [OF conn_send_calm [OF that, of fd "AppendSimpleString [] ''CONTINUE''" c], of fd p]
      conn_send_calm [OF that, of fd "AppendSimpleString [] ''CONTINUE''" c]
    by (cases "conn_send fd (AppendSimpleString [] ''CONTINUE'') (rm', c)") (simp add: send_continue_def Let_def)
  with assms show ?thesis
    by (auto simp: TryPartialResync_def split: option.splits if_splits intro!: with_conn_calm)
qed

lemma OnPsync_save_ok:
  assumes "OnPsync pid rm (Some sm) fd replid offset = (reply, rm1, Some sm1)" and "minv rm S" and "pid \<noteq> 0"
    and ok: "save_ok rm sm"
  shows "save_ok rm1 sm1 \<or> rm_fault rm1 \<noteq> None"
proof (cases "um_find (rm_conns rm) fd")
  case None
  with assms(1) ok show ?thesis by (simp add: OnPsync_def)
next
  case (Some c)
  let ?rm = "put_slave fd \<lparr>sl_state = kWaitRdb, sl_backlog_start = bl_tip (rm_backlog (RemoveSlave fd rm))\<rparr>
      (RemoveSlave fd rm)"
  have cok: "conn_ok c" using minv_take [OF assms(2) Some] by (simp add: pair_ok_def)
  have inv: "minv ?rm S"
    using minv_RemoveSlave [OF assms(2), of fd] Some cok bl_inv_D(3) [of "rm_backlog rm" S]
    by (auto simp: minv_def m_base_def m_fds_def umap_simps um_wf_put um_wf_erase slave_ok_def)
  have "save_ok rm2 sm" if "TryPartialResync fd (nat offset) (RemoveSlave fd rm) = Some rm2" for rm2
    using that by (rule save_ok_calm [OF ok TryPartialResync_calm]) (simp add: calm_def, rule calm_sel(1) [unfolded calm_def, THEN conjunct1], simp)
  with StartFullsyncIfNeeded_save_ok [OF _ inv assms(3), of sm] assms(1) ok Some cok show ?thesis
    by (auto simp: OnPsync_def Let_def conn_ok_def save_ok_def split: option.splits prod.splits if_splits)
qed

section \<open>The master at work\<close>

text \<open>
  The master, the manager of the saves, the stream of all frames fed, and how long that stream was when the
  child of the running save was forked.
\<close>

record master_world =
  mw_rm :: ReplicationMaster
  mw_sm :: SnapshotManager
  mw_stream :: bytes
  mw_forked_at :: nat

abbreviation mw_fault :: "master_world \<Rightarrow> fault option" where
  "mw_fault w \<equiv> rm_fault (mw_rm w)"

definition mw_save :: "ReplicationMaster \<times> SnapshotManager \<Rightarrow> master_world \<Rightarrow> master_world" where
  "mw_save = (\<lambda>(rm, sm) w.
     w\<lparr>mw_rm := rm, mw_sm := sm,
       mw_forked_at := (if save_in_progress (mw_sm w) then mw_forked_at w else length (mw_stream w))\<rparr>)"

definition master_init :: "master_world \<Rightarrow> bool" where
  "master_init w \<longleftrightarrow> (\<exists>replid dir. mw_rm w = ReplicationMaster_new replid \<and> mw_sm w = SnapshotManager_new dir)
     \<and> mw_stream w = []"

text \<open>
  Steps, as long as no fault has happened: a connection is accepted under an unused descriptor; PSYNC; a write
  is fed; a connection is writable or has failed; a client that is no slave gets a reply; a save is asked
  for; the reap timer fires (the process waits for its children nowhere else, so \<^verbatim>\<open>waitpid\<close> never
  answers \<^verbatim>\<open>ECHILD\<close>) and the done callback runs.
\<close>

inductive master_step :: "master_world \<Rightarrow> master_world \<Rightarrow> bool" where
  connect: "mw_fault w = None \<Longrightarrow> um_find (rm_conns (mw_rm w)) fd = None \<Longrightarrow>
     master_step w (w\<lparr>mw_rm := OnConnection fd (TcpConn_new ws rs) (mw_rm w)\<rparr>)"
| psync: "mw_fault w = None \<Longrightarrow> pid \<noteq> 0 \<Longrightarrow>
     OnPsync pid (mw_rm w) (Some (mw_sm w)) fd replid offset = (reply, rm, Some sm) \<Longrightarrow>
     master_step w (mw_save (rm, sm) w)"
| feed: "mw_fault w = None \<Longrightarrow>
     master_step w (w\<lparr>mw_rm := FeedEncodedFrame (mw_rm w) frame, mw_stream := mw_stream w @ frame\<rparr>)"
| writable: "mw_fault w = None \<Longrightarrow> master_step w (w\<lparr>mw_rm := master_writable fd (mw_rm w)\<rparr>)"
| failed: "mw_fault w = None \<Longrightarrow> master_step w (w\<lparr>mw_rm := force_close fd (mw_rm w)\<rparr>)"
| reply: "mw_fault w = None \<Longrightarrow> FindSlave (mw_rm w) fd = None \<Longrightarrow>
     master_step w (w\<lparr>mw_rm := with_conn fd (conn_send fd data) (mw_rm w)\<rparr>)"
| save: "mw_fault w = None \<Longrightarrow> pid \<noteq> 0 \<Longrightarrow> BackgroundSaveToPath pid True (mw_sm w) path = (st, sm) \<Longrightarrow>
     master_step w (mw_save (mw_rm w, sm) w)"
| reap: "mw_fault w = None \<Longrightarrow> pid \<noteq> 0 \<Longrightarrow> sm_reap_timer (mw_sm w) \<Longrightarrow> r \<noteq> WaitError True \<Longrightarrow>
     reap_timer_fired r fs (mw_sm w) = (sm, fs', ev) \<Longrightarrow>
     master_step w (case ev of
        None \<Rightarrow> w\<lparr>mw_sm := sm\<rparr>
      | Some (ok, path) \<Rightarrow> mw_save (OnSaveDone pid rdb ok path (mw_rm w, sm)) (w\<lparr>mw_sm := sm\<rparr>))"

interpretation master: transition_system master_init master_step .

definition mw_inv :: "master_world \<Rightarrow> bool" where
  "mw_inv w \<longleftrightarrow> mok (mw_rm w) (mw_stream w) \<and> (mw_fault w = None \<longrightarrow> save_ok (mw_rm w) (mw_sm w))"

lemma mw_inv_minv: "mw_inv w \<Longrightarrow> mw_fault w = None \<Longrightarrow> minv (mw_rm w) (mw_stream w)"
  by (simp add: mw_inv_def mok_def)

lemma mw_inv_calm:
  assumes "mw_inv w" and "mw_fault w = None" and "mok rm (mw_stream w')"
    and "calm (waiters (mw_rm w)) (rm_save_started_for_fullsync (mw_rm w)) rm"
    and "mw_rm w' = rm" and "mw_sm w' = mw_sm w"
  shows "mw_inv w'"
  using assms save_ok_calm [OF _ assms(4)] by (simp add: mw_inv_def)

lemma calm_self: "calm (waiters rm) (rm_save_started_for_fullsync rm) rm"
  by (simp add: calm_def)

lemma master_init_inv: "master_init w \<Longrightarrow> mw_inv w"
  by (auto simp: master_init_def mw_inv_def mok_def minv_def m_base_def m_fds_def ReplicationMaster_new_def
      SnapshotManager_new_def ReplicationBacklog_new_inv umap_simps save_ok_def save_in_progress_def waiters_def
      FindSlave_def)

lemma reap_timer_fired_cases:
  assumes "reap_timer_fired r fs sm = (sm', fs', ev)" and "r \<noteq> WaitError True"
  shows "if ev = None then save_in_progress sm' = save_in_progress sm
           \<and> sm_pending_save_path sm' = sm_pending_save_path sm \<and> (save_in_progress sm' \<longrightarrow> sm_reap_timer sm')
         else \<not> save_in_progress sm'"
  using assms
  by (auto simp: reap_timer_fired_def ReapSaveChild_def EnsureReapTimer_def save_in_progress_def Let_def
      split: wait_result.splits if_splits)

lemma mw_save_sel [simp]: "mw_rm (mw_save x w) = fst x" "mw_sm (mw_save x w) = snd x" "mw_stream (mw_save x w) = mw_stream w"
  by (simp_all add: mw_save_def case_prod_beta)

lemma master_step_inv:
  assumes "mw_inv a" and "master_step a b"
  shows "mw_inv b"
  using assms(2,1)
proof (induction rule: master_step.induct)
  case (connect w fd ws rs)
  from connect.prems connect.hyps(1) have inv: "minv (mw_rm w) (mw_stream w)" by (rule mw_inv_minv)
  show ?case
    by (rule mw_inv_calm [OF connect.prems connect.hyps(1), of "OnConnection fd (TcpConn_new ws rs) (mw_rm w)"])
       (use OnConnection_minv [OF inv connect.hyps(2)] in
          \<open>auto simp: mok_def calm_def OnConnection_def waiters_def FindSlave_def conn_ok_def TcpConn_new_def tc_inv_def\<close>)
next
  case (psync w pid fd replid offset reply rm sm)
  from psync.prems psync.hyps(1) have inv: "minv (mw_rm w) (mw_stream w)" by (rule mw_inv_minv)
  from OnPsync_mok [OF inv psync.hyps(3)] OnPsync_save_ok [OF psync.hyps(3) inv psync.hyps(2)] psync.prems psync.hyps(1)
  show ?case by (auto simp: mw_inv_def)
next
  case (feed w frame)
  from feed.prems feed.hyps have inv: "minv (mw_rm w) (mw_stream w)" by (rule mw_inv_minv)
  show ?case
    by (rule mw_inv_calm [OF feed.prems feed.hyps _ FeedEncodedFrame_calm [OF calm_self]])
       (simp_all add: FeedEncodedFrame_mok [OF inv])
next
  case (writable w fd)
  from writable.prems writable.hyps have inv: "minv (mw_rm w) (mw_stream w)" by (rule mw_inv_minv)
  show ?case
    by (rule mw_inv_calm [OF writable.prems writable.hyps _ master_writable_calm [OF inv calm_self]])
       (simp_all add: master_writable_mok [OF inv])
next
  case (failed w fd)
  from failed.prems failed.hyps have inv: "minv (mw_rm w) (mw_stream w)" by (rule mw_inv_minv)
  show ?case
    by (rule mw_inv_calm [OF failed.prems failed.hyps _ force_close_calm [OF calm_self]])
       (simp_all add: force_close_mok [OF inv])
next
  case (reply w fd data)
  from reply.prems reply.hyps(1) have inv: "minv (mw_rm w) (mw_stream w)" by (rule mw_inv_minv)
  have "minv (with_conn fd (conn_send fd data) (mw_rm w)) (mw_stream w)"
    using reply.hyps(2) by (intro with_conn_send_minv [OF inv]) (simp add: not_synced_def)
  then show ?case
    by (intro mw_inv_calm [OF reply.prems reply.hyps(1), of "with_conn fd (conn_send fd data) (mw_rm w)"])
       (auto simp: mok_def intro: with_conn_calm conn_send_calm calm_self)
next
  case (save w pid path st sm)
  with BackgroundSaveToPath_cases [OF save.hyps(3)] show ?case
    by (auto simp: mw_inv_def save_ok_def save_in_progress_def)
next
  case (reap w pid r fs sm fs' ev rdb)
  from reap.prems reap.hyps(1) have inv: "minv (mw_rm w) (mw_stream w)" by (rule mw_inv_minv)
  show ?case
  proof (cases ev)
    case None
    with reap.hyps(4,5) have "save_in_progress sm = save_in_progress (mw_sm w)"
      "sm_pending_save_path sm = sm_pending_save_path (mw_sm w)" "save_in_progress sm \<longrightarrow> sm_reap_timer sm"
      by (auto dest: reap_timer_fired_cases)
    with None reap.prems show ?thesis by (simp add: mw_inv_def save_ok_def)
  next
    case (Some e)
    obtain ok path where e: "e = (ok, path)" by fastforce
    obtain rm1 sm1 where d: "OnSaveDone pid rdb ok path (mw_rm w, sm) = (rm1, sm1)" by fastforce
    have "\<not> save_in_progress sm" using reap.hyps(4,5) Some by (auto dest: reap_timer_fired_cases)
    with OnSaveDone_save_ok [OF d inv reap.hyps(2)] OnSaveDone_mok [OF _ d reap.hyps(1), of "mw_stream w"] inv Some e d
    show ?thesis by (auto simp: mw_inv_def mok_def)
  qed
qed

lemma master_reachable_inv: "master.reachable w \<Longrightarrow> mw_inv w"
  by (erule master.reachable_invariant) (simp_all add: master_init_inv master_step_inv)

section \<open>Properties\<close>

lemma master_runs_inv: "master_init w0 \<Longrightarrow> master_step\<^sup>*\<^sup>* w0 w \<Longrightarrow> mw_inv w"
  using master.steps_invariant [of w0 w mw_inv] master_init_inv master_step_inv by blast

text \<open>A run for the witnesses: two connections, PSYNC on the first, one frame.\<close>

definition run0 :: master_world where
  "run0 = \<lparr>mw_rm = ReplicationMaster_new ''r'', mw_sm = SnapshotManager_new [], mw_stream = [], mw_forked_at = 0\<rparr>"

definition run2 :: master_world where
  "run2 = run0\<lparr>mw_rm := OnConnection 2 (TcpConn_new [] []) (OnConnection 1 (TcpConn_new [] []) (mw_rm run0))\<rparr>"

definition run3 :: master_world where
  "run3 = run2\<lparr>mw_rm := (align_waiters (put_slave 1 \<lparr>sl_state = kWaitRdb, sl_backlog_start = 0\<rparr> (RemoveSlave 1 (mw_rm run2))))
      \<lparr>rm_save_started_for_fullsync := True\<rparr>,
      mw_sm := (SnapshotManager_new [])\<lparr>sm_pending_save_path := kFullsyncPath, sm_child_pid := 7, sm_reap_timer := True\<rparr>\<rparr>"

definition run4 :: master_world where
  "run4 = run3\<lparr>mw_rm := FeedEncodedFrame (mw_rm run3) ''x'', mw_stream := ''x''\<rparr>"

lemma run2_reach: "master_init run0" "master_step\<^sup>*\<^sup>* run0 run2"
proof -
  show "master_init run0" by (auto simp: master_init_def run0_def)
  let ?c = "TcpConn_new [] []"
  let ?w = "run0\<lparr>mw_rm := OnConnection 1 ?c (mw_rm run0)\<rparr>"
  have "master_step run0 ?w"
    by (rule connect) (simp_all add: run0_def ReplicationMaster_new_def umap_simps)
  moreover have "master_step ?w (?w\<lparr>mw_rm := OnConnection 2 ?c (mw_rm ?w)\<rparr>)"
    by (rule connect) (simp_all add: run0_def ReplicationMaster_new_def OnConnection_def umap_simps)
  ultimately show "master_step\<^sup>*\<^sup>* run0 run2" by (simp add: run2_def)
qed

lemma run3_step: "master_step run2 run3"
proof -
  let ?rm = "put_slave 1 \<lparr>sl_state = kWaitRdb, sl_backlog_start = 0\<rparr> (RemoveSlave 1 (mw_rm run2))"
  have "waiting_fds ?rm \<noteq> []"
    by (simp add: run2_def run0_def OnConnection_def ReplicationMaster_new_def waiting_fds_def um_put_def um_erase_def)
  then have "OnPsync 7 (mw_rm run2) (Some (mw_sm run2)) 1 ''?'' (-1) = ([], mw_rm run3, Some (mw_sm run3))"
    by (simp add: run3_def run2_def run0_def OnPsync_def OnConnection_def ReplicationMaster_new_def umap_simps
        TcpConn_new_def WantsFullsync_def StartFullsyncIfNeeded_def Let_def SnapshotManager_new_def save_in_progress_def
        BackgroundSaveToPath_def kFullsyncPath_def EnsureReapTimer_def ReplicationBacklog_new_def RemoveSlave_def
        any_active_def um_erase_def put_slave_def)
  from psync [OF _ _ this] show ?thesis
    by (simp add: mw_save_def run2_def run0_def run3_def OnConnection_def ReplicationMaster_new_def save_in_progress_def
        SnapshotManager_new_def)
qed

lemma run4_step: "master_step run3 run4"
proof -
  have "mw_fault run3 = None" "mw_stream run3 = []"
    by (simp_all add: run3_def run2_def run0_def OnConnection_def ReplicationMaster_new_def align_waiters_def Let_def)
  with feed [of run3 "''x''"] show ?thesis by (simp add: run4_def)
qed

lemma feed_new: "\<exists>b. FeedEncoded (ReplicationBacklog_new kDefaultCapacity) ''x'' = Some b \<and> bl_base b = 0"
  by (auto simp: FeedEncoded_def ReplicationBacklog_new_def kDefaultCapacity_def Let_def DropToMakeSpace_def
      drop_loop.simps)

lemma run4_feed: "\<exists>b. mw_rm run4 = mw_rm run3\<lparr>rm_backlog := b\<rparr>"
proof -
  have b: "rm_backlog (mw_rm run3) = ReplicationBacklog_new kDefaultCapacity"
    by (simp add: run3_def run2_def run0_def OnConnection_def ReplicationMaster_new_def align_waiters_def Let_def)
  obtain b' where "FeedEncoded (rm_backlog (mw_rm run3)) ''x'' = Some b'" "bl_base b' = 0"
    using feed_new unfolding b by blast
  note f = this
  have "rm_slaves (mw_rm run3) = [(1, \<lparr>sl_state = kWaitRdb, sl_backlog_start = 0\<rparr>)]" "mw_fault run3 = None"
    by (simp_all add: run3_def run2_def run0_def OnConnection_def ReplicationMaster_new_def align_waiters_def Let_def
        um_put_def um_erase_def ReplicationBacklog_new_def)
  with f show ?thesis
    by (intro exI [of _ b']) (simp add: run4_def FeedEncodedFrame_def Backlog_Contains_def)
qed

lemma run4_sel:
  "mw_fault run4 = None" "mw_stream run4 = ''x''" "mw_forked_at run4 = 0" "mw_sm run4 = mw_sm run3"
  "rm_save_started_for_fullsync (mw_rm run4)" "save_in_progress (mw_sm run4)"
  "FindSlave (mw_rm run4) 1 = Some \<lparr>sl_state = kWaitRdb, sl_backlog_start = 0\<rparr>"
  "um_find (rm_conns (mw_rm run4)) 2 = Some (TcpConn_new [] [])" "rm_replid (mw_rm run4) = ''r''"
  using run4_feed
  by (auto simp: run4_def run3_def run2_def run0_def OnConnection_def ReplicationMaster_new_def align_waiters_def Let_def
      FindSlave_def umap_simps um_put_def um_erase_def ReplicationBacklog_new_def save_in_progress_def um_find_def)

lemma run4_reach: "master_step\<^sup>*\<^sup>* run0 run4"
  using run2_reach(2) run3_step run4_step by (meson rtranclp.rtrancl_into_rtrancl)


lemma partial_psync:
  assumes "minv rm S" and "um_find (rm_conns rm) fd = Some c" and "replid = rm_replid rm" and "replid \<noteq> []"
    and "replid \<noteq> ''?''" and "0 \<le> offset" and "Backlog_Contains (rm_backlog rm) (nat offset)"
  shows "\<exists>rm1. OnPsync pid rm (Some sm) fd replid offset = ([], rm1, Some sm)
     \<and> (case um_find (rm_conns rm1) fd of
          None \<Rightarrow> FindSlave rm1 fd = None
        | Some c1 \<Rightarrow> FindSlave rm1 fd = Some \<lparr>sl_state = kSynced, sl_backlog_start = nat offset\<rparr>
            \<and> tc_wire c1 @ tc_pending c1
                = (tc_wire c @ tc_pending c) @ AppendSimpleString [] ''CONTINUE'' @ drop (nat offset) S)"
proof -
  let ?rm = "RemoveSlave fd rm"
  let ?p = "put_slave fd \<lparr>sl_state = kSynced, sl_backlog_start = nat offset\<rparr> ?rm"
  have inv: "minv ?rm S" using assms(1) by (rule minv_RemoveSlave)
  have cok: "conn_ok c" using minv_take [OF assms(1,2)] by (simp add: pair_ok_def)
  have bl: "bl_inv (rm_backlog rm) S" using assms(1) by (simp add: minv_def m_base_def)
  have "CopyRange (rm_backlog rm) (nat offset) (bl_tip (rm_backlog rm)) = Some (Some (drop (nat offset) S))"
    using CopyRange_stream [OF bl] bl_inv_D(3) [OF bl] assms(7) by (simp add: Backlog_Contains_def slice_def)
  then have "TryPartialResync fd (nat offset) ?rm = Some (with_conn fd (send_continue fd (drop (nat offset) S)) ?p)"
    using assms(2,7) cok by (simp add: TryPartialResync_def conn_ok_def)
  then have run: "OnPsync pid rm (Some sm) fd replid offset
      = ([], with_conn fd (send_continue fd (drop (nat offset) S)) ?p, Some sm)"
    using assms(2-6) cok by (simp add: OnPsync_def WantsFullsync_def conn_ok_def)
  obtain rm2 c2 where s: "send_continue fd (drop (nat offset) S) (?p, c) = (rm2, c2)" by fastforce
  from s cok show ?thesis unfolding run
    by (cases rule: send_continue_cases)
       (use s assms(2) in \<open>auto simp: with_conn_def FindSlave_def umap_simps conn_ok_def tc_stream_def\<close>)
qed

lemma master_synced:
  assumes "minv rm S" and "FindSlave rm fd = Some sl" and "sl_state sl = kSynced"
  shows "\<exists>c. um_find (rm_conns rm) fd = Some c \<and> \<not> tc_closed c \<and> suffix (drop (sl_backlog_start sl) S) (tc_stream c)"
proof -
  from assms(1,2) obtain c where c: "um_find (rm_conns rm) fd = Some c" "slave_ok S sl c"
    unfolding minv_def m_fds_def FindSlave_def by blast
  with minv_take [OF assms(1) c(1)] assms(3) show ?thesis by (auto simp: pair_ok_def conn_ok_def slave_ok_def)
qed

text \<open>Another run: a partial resynchronisation, then a frame.\<close>

definition run5 :: master_world where
  "run5 = mw_save (fst (snd (OnPsync 7 (mw_rm run2) (Some (mw_sm run2)) 1 ''r'' 0)), mw_sm run2) run2"

definition run6 :: master_world where
  "run6 = run5\<lparr>mw_rm := FeedEncodedFrame (mw_rm run5) ''x'', mw_stream := mw_stream run5 @ ''x''\<rparr>"

lemma run2_sel:
  "um_find (rm_conns (mw_rm run2)) 1 = Some (TcpConn_new [] [])" "''r'' = rm_replid (mw_rm run2)"
  "Backlog_Contains (rm_backlog (mw_rm run2)) (nat 0)" "mw_fault run2 = None" "mw_stream run2 = []"
  by (simp_all add: run2_def run0_def OnConnection_def ReplicationMaster_new_def umap_simps Backlog_Contains_def
      ReplicationBacklog_new_def)

lemma run2_minv: "minv (mw_rm run2) []"
  using mw_inv_minv [OF master_runs_inv [OF run2_reach]] run2_sel(4,5) by simp

lemma run5_step: "master_step run2 run5"
proof -
  obtain rm1 where "OnPsync 7 (mw_rm run2) (Some (mw_sm run2)) 1 ''r'' 0 = ([], rm1, Some (mw_sm run2))"
    using partial_psync [OF run2_minv run2_sel(1) run2_sel(2) _ _ _ run2_sel(3), of 7 "mw_sm run2"] by auto
  from psync [OF run2_sel(4) _ this] this show ?thesis by (simp add: run5_def)
qed

definition queued :: "bytes \<Rightarrow> TcpConn" where
  "queued bs = (TcpConn_new [] [])\<lparr>tc_output_buffer := bs, tc_epollout := True\<rparr>"

lemma conn_send_new: "d \<noteq> [] \<Longrightarrow> conn_send fd d (rm, TcpConn_new [] []) = (rm, queued d)"
  by (simp add: conn_send_def TcpConn_Send_def TcpConn_new_def next_write_def EnableWrite_def queued_def)

lemma conn_send_queued: "bs \<noteq> [] \<Longrightarrow> d \<noteq> [] \<Longrightarrow> conn_send fd d (rm, queued bs) = (rm, queued (bs @ d))"
  by (simp add: conn_send_def TcpConn_Send_def TcpConn_new_def EnableWrite_def queued_def)

lemma run5_sel: "rm_slaves (mw_rm run5) = [(1, \<lparr>sl_state = kSynced, sl_backlog_start = 0\<rparr>)]" "mw_fault run5 = None"
  "mw_stream run5 = []" "rm_backlog (mw_rm run5) = ReplicationBacklog_new kDefaultCapacity"
  "um_find (rm_conns (mw_rm run5)) 1 = Some (queued (AppendSimpleString [] ''CONTINUE''))"
proof -
  let ?d = "AppendSimpleString [] ''CONTINUE''" and ?rm = "RemoveSlave 1 (mw_rm run2)"
  let ?p = "put_slave 1 \<lparr>sl_state = kSynced, sl_backlog_start = nat 0\<rparr> ?rm"
  have d: "?d \<noteq> []" by (simp add: AppendSimpleString_def AppendCRLF_def)
  have "CopyRange (rm_backlog ?rm) 0 (bl_tip (rm_backlog ?rm)) = Some (Some [])" "rm_slaves (mw_rm run2) = []"
    by (simp_all add: run2_def run0_def OnConnection_def ReplicationMaster_new_def ReplicationBacklog_new_def
        CopyRange_def)
  then have "OnPsync 7 (mw_rm run2) (Some (mw_sm run2)) 1 ''r'' 0
      = ([], ?p\<lparr>rm_conns := um_put (rm_conns ?rm) 1 (queued ?d)\<rparr>, Some (mw_sm run2))"
    using run2_sel(1) run2_sel(2) [symmetric] run2_sel(3) conn_send_new [OF d]
    by (simp add: OnPsync_def WantsFullsync_def TcpConn_new_def TryPartialResync_def send_continue_def with_conn_def
        queued_def)
  then have "mw_rm run5 = ?p\<lparr>rm_conns := um_put (rm_conns ?rm) 1 (queued ?d)\<rparr>" by (simp add: run5_def)
  then show "rm_slaves (mw_rm run5) = [(1, \<lparr>sl_state = kSynced, sl_backlog_start = 0\<rparr>)]" "mw_fault run5 = None"
    "rm_backlog (mw_rm run5) = ReplicationBacklog_new kDefaultCapacity"
    "um_find (rm_conns (mw_rm run5)) 1 = Some (queued ?d)"
    by (simp_all add: run2_def run0_def OnConnection_def ReplicationMaster_new_def um_put_def um_erase_def um_find_def)
  show "mw_stream run5 = []" by (simp add: run5_def run2_sel)
qed

lemma run6_reach: "master_step\<^sup>*\<^sup>* run0 run6"
proof -
  have "master_step run5 run6" unfolding run6_def by (rule feed) (rule run5_sel(2))
  with run5_step run2_reach(2) show ?thesis by (meson rtranclp.rtrancl_into_rtrancl)
qed

lemma run6_sel: "FindSlave (mw_rm run6) 1 = Some \<lparr>sl_state = kSynced, sl_backlog_start = 0\<rparr>" "mw_fault run6 = None"
  "mw_stream run6 = ''x''"
proof -
  have d: "AppendSimpleString [] ''CONTINUE'' \<noteq> []" by (simp add: AppendSimpleString_def AppendCRLF_def)
  obtain b where "FeedEncoded (rm_backlog (mw_rm run5)) ''x'' = Some b" using feed_new run5_sel(4) by auto
  moreover have "\<not> kReplicaOutputLimit < OutputBufferedBytes (queued (AppendSimpleString [] ''CONTINUE'' @ ''x''))"
    by (simp add: kReplicaOutputLimit_def OutputBufferedBytes_def queued_def TcpConn_new_def AppendSimpleString_def
        AppendCRLF_def crlf_def)
  ultimately show "FindSlave (mw_rm run6) 1 = Some \<lparr>sl_state = kSynced, sl_backlog_start = 0\<rparr>" "mw_fault run6 = None"
    using run5_sel conn_send_queued [OF d, of "''x''"]
    by (simp_all add: run6_def FeedEncodedFrame_def FindSlave_def queued_def TcpConn_new_def um_find_def)
  show "mw_stream run6 = ''x''" by (simp add: run6_def run5_sel)
qed

text \<open>
  C6. Nothing fed is lost for a synchronised replica. In every run of the master (connections, PSYNC,
  frames, partial writes, failed connections, saves that succeed or fail), as long as no connection died under
  a send inside the master: a slave in state kSynced has an open connection, and what its
  socket has taken followed by what is queued on it ends with every byte of the replication stream from the
  slave's start offset on, in order. The only thing that ever stops the master is a use of an erased slave;
  no loop of it diverges.
\<close>

theorem synced_replica_gets_every_frame:
  assumes "master_init w0" and "master_step\<^sup>*\<^sup>* w0 w"
  shows "mw_fault w \<noteq> Some Diverges
    \<and> (mw_fault w = None \<longrightarrow> (\<forall>fd sl. FindSlave (mw_rm w) fd = Some sl \<longrightarrow> sl_state sl = kSynced \<longrightarrow>
      (\<exists>c. um_find (rm_conns (mw_rm w)) fd = Some c \<and> \<not> tc_closed c
        \<and> suffix (drop (sl_backlog_start sl) (mw_stream w)) (tc_wire c @ tc_pending c))))"
proof -
  note inv = master_runs_inv [OF assms]
  have "\<exists>c. um_find (rm_conns (mw_rm w)) fd = Some c \<and> \<not> tc_closed c
      \<and> suffix (drop (sl_backlog_start sl) (mw_stream w)) (tc_wire c @ tc_pending c)"
    if f: "mw_fault w = None" and sl: "FindSlave (mw_rm w) fd = Some sl" "sl_state sl = kSynced" for fd sl
    using master_synced [OF mw_inv_minv [OF inv f] sl] by (auto simp: tc_stream_def)
  with inv show ?thesis by (auto simp: mw_inv_def mok_def minv_def m_base_def)
qed

theorem synced_replica_gets_every_frame_witness:
  "\<exists>c. um_find (rm_conns (mw_rm run6)) 1 = Some c \<and> \<not> tc_closed c \<and> suffix ''x'' (tc_wire c @ tc_pending c)"
  using synced_replica_gets_every_frame [OF run2_reach(1) run6_reach] run6_sel by fastforce

text \<open>
  C13. Nobody waits for nothing. In every run without a fault, while some slave waits for its RDB, a child
  is saving and the reap timer is set, so its end will be seen; and while the master has a save of its own
  running, the running child writes the full-resynchronisation file. With the reap step this gives: when
  the child is reaped, every waiting slave is served, dropped with an error, or waits for a newly started
  save.
\<close>

theorem waiting_replica_has_save:
  assumes "master_init w0" and "master_step\<^sup>*\<^sup>* w0 w" and "mw_fault w = None"
  shows "((\<exists>fd s. FindSlave (mw_rm w) fd = Some s \<and> sl_state s = kWaitRdb) \<longrightarrow>
      save_in_progress (mw_sm w) \<and> sm_reap_timer (mw_sm w))
    \<and> (rm_save_started_for_fullsync (mw_rm w) \<longrightarrow>
      save_in_progress (mw_sm w) \<and> sm_pending_save_path (mw_sm w) = kFullsyncPath)"
  using master_runs_inv [OF assms(1,2)] assms(3) by (auto simp: mw_inv_def save_ok_def waiters_def)

theorem waiting_replica_has_save_witness:
  "save_in_progress (mw_sm run4) \<and> sm_reap_timer (mw_sm run4) \<and> sm_pending_save_path (mw_sm run4) = kFullsyncPath"
  using waiting_replica_has_save [OF run2_reach(1) run4_reach run4_sel(1)] run4_sel(5,7) by (metis Slave.select_convs(1))

text \<open>
  C16. PSYNC with the master's replication id and an offset that the backlog still holds: no full
  resynchronisation, the save manager is not touched, and the connection is handed +CONTINUE followed by
  exactly the part of the stream from the offset on, behind whatever it was handed before; the slave is
  synchronised at once. Otherwise the connection was closed under the send and no slave is registered.
\<close>

theorem psync_continue:
  assumes "minv rm S" and "um_find (rm_conns rm) fd = Some c" and "replid = rm_replid rm" and "replid \<noteq> []"
    and "replid \<noteq> ''?''" and "0 \<le> offset" and "Backlog_Contains (rm_backlog rm) (nat offset)"
  shows "\<exists>rm1. OnPsync pid rm (Some sm) fd replid offset = ([], rm1, Some sm)
     \<and> (case um_find (rm_conns rm1) fd of
          None \<Rightarrow> FindSlave rm1 fd = None
        | Some c1 \<Rightarrow> FindSlave rm1 fd = Some \<lparr>sl_state = kSynced, sl_backlog_start = nat offset\<rparr>
            \<and> tc_wire c1 @ tc_pending c1
                = (tc_wire c @ tc_pending c) @ AppendSimpleString [] ''CONTINUE'' @ drop (nat offset) S)"
  using assms by (rule partial_psync)

theorem psync_continue_witness:
  "\<exists>rm1. OnPsync 7 (mw_rm run2) (Some (mw_sm run2)) 1 ''r'' 0 = ([], rm1, Some (mw_sm run2))"
  using psync_continue [OF run2_minv run2_sel(1) run2_sel(2) _ _ _ run2_sel(3), of 7 "mw_sm run2"] by auto



end
