(* ===== verification/ReplicationSlave.thy ===== *)
theory ReplicationSlave
  imports TcpConn Replay Snapshot
begin

text \<open>
  The replica side of replication (src/src/replication/ReplicationSlave.cc): connecting to the master and
  asking for a full or partial resynchronisation, the parser of the answer (status line, RDB, backlog,
  stream of frames), applying the frames, failing and reconnecting with back-off. The read loop is one step
  function per state, iterated; every iteration consumes input or moves on to a later state, so it ends.
\<close>

section \<open>Model\<close>

datatype SlState =
    kInit | kWaitFullresync | kRecvRdbHeader | kRecvRdbBody | kRecvBacklogHeader | kRecvBacklogBody | kStreaming
  | kError

definition kTmpDir :: bytes where
  "kTmpDir = ''tmp''"

definition kInPath :: bytes where
  "kInPath = ''tmp/repl-in.rdb''"

definition kInTmpPath :: bytes where
  "kInTmpPath = ''tmp/repl-in.rdb.tmp''"

definition kMinBackoffMs :: nat where
  "kMinBackoffMs = 1000"

definition kMaxBackoffMs :: nat where
  "kMaxBackoffMs = 60000"

text \<open>
  How the process can leave the model: an exception escapes, or a mutation does not return (it does). After
  that nothing happens any more.
\<close>

datatype slave_fault = Thrown | NoReturn

text \<open>
  The object with what its pointers lead to: the stores, the file system and the connection. \<open>rs_ready\<close>: the
  pointers to the event loop and the snapshot manager are set. \<open>rs_reconnect_timer\<close> is the delay of the
  pending timer. \<open>rs_read_cb\<close> and \<open>rs_close_cb\<close>: the callbacks of the connection are set.
\<close>

record ('ix, 'w, 'r) ReplicationSlave =
  rs_ready :: bool
  rs_state :: SlState
  rs_rdb_remaining :: int
  rs_backlog_remaining :: int
  rs_rdb_fp :: "FILE option"
  rs_backlog_buf :: bytes
  rs_stream_buf :: bytes
  rs_master_host :: bytes
  rs_master_port :: nat
  rs_reconnect_timer :: "nat option"
  rs_backoff_ms :: nat
  rs_stopping :: bool
  rs_master_replid :: bytes
  rs_repl_offset :: nat
  rs_have_offset :: bool
  rs_conn :: "TcpConn option"
  rs_read_cb :: bool
  rs_close_cb :: bool
  rs_engine :: "('ix, 'w, 'r) engine"
  rs_files :: files
  rs_fault :: "slave_fault option"

text \<open>The classes of the stores, the host, and whether snapshots may leave the index mapped.\<close>

record ('ix, 'w, 'r) slave_env =
  se_classes :: "('ix, 'w, 'r) classes"
  se_host :: host
  se_view :: bool

definition ReplicationSlave_new :: "bool \<Rightarrow> 'ix VNodeIndex option \<Rightarrow> KvStore option \<Rightarrow> files \<Rightarrow> ('ix, 'w, 'r) ReplicationSlave" where
  "ReplicationSlave_new ready index kv fs =
     \<lparr>rs_ready = ready, rs_state = kInit, rs_rdb_remaining = -1, rs_backlog_remaining = -1, rs_rdb_fp = None,
      rs_backlog_buf = [], rs_stream_buf = [], rs_master_host = [], rs_master_port = 0, rs_reconnect_timer = None,
      rs_backoff_ms = kMinBackoffMs, rs_stopping = False, rs_master_replid = [], rs_repl_offset = 0,
      rs_have_offset = False, rs_conn = None, rs_read_cb = False, rs_close_cb = False,
      rs_engine = \<lparr>en_index = index, en_kv = kv, en_wal = None, en_repl = None\<rparr>, rs_files = fs, rs_fault = None\<rparr>"

definition NextBackoffMs :: "nat \<Rightarrow> nat" where
  "NextBackoffMs current_ms =
     (if kMaxBackoffMs \<le> current_ms then kMaxBackoffMs
      else let nxt = current_ms * 2 in if kMaxBackoffMs < nxt then kMaxBackoffMs else nxt)"

definition CancelReconnectTimer :: "('ix, 'w, 'r) ReplicationSlave \<Rightarrow> ('ix, 'w, 'r) ReplicationSlave" where
  "CancelReconnectTimer rs = rs\<lparr>rs_reconnect_timer := None\<rparr>"

text \<open>\<^verbatim>\<open>fclose(rdb_fp_)\<close>: the bytes written are in the temporary file.\<close>

definition close_rdb :: "('ix, 'w, 'r) ReplicationSlave \<Rightarrow> ('ix, 'w, 'r) ReplicationSlave" where
  "close_rdb rs =
     (case rs_rdb_fp rs of
        None \<Rightarrow> rs
      | Some f \<Rightarrow> rs\<lparr>rs_rdb_fp := None, rs_files := (rs_files rs)(kInTmpPath \<mapsto> f_data f)\<rparr>)"

text \<open>\<^verbatim>\<open>ForceClose\<close> on a connection whose callbacks have been cleared; it never has a file in flight.\<close>

definition close_quietly :: "TcpConn \<Rightarrow> TcpConn" where
  "close_quietly c = snd (TcpConn_Close (plain_callbacks (\<lambda>s. s)) ((), c))"

definition ResetLink :: "('ix, 'w, 'r) ReplicationSlave \<Rightarrow> ('ix, 'w, 'r) ReplicationSlave" where
  "ResetLink rs =
     (let rs1 = (CancelReconnectTimer rs)\<lparr>rs_conn := None, rs_read_cb := False, rs_close_cb := False\<rparr>
      in (close_rdb rs1)\<lparr>rs_backlog_buf := [], rs_stream_buf := [], rs_rdb_remaining := -1,
                         rs_backlog_remaining := -1, rs_state := kInit\<rparr>)"

text \<open>The destructor.\<close>

definition ReplicationSlave_destroy :: "('ix, 'w, 'r) ReplicationSlave \<Rightarrow> ('ix, 'w, 'r) ReplicationSlave" where
  "ReplicationSlave_destroy rs = ResetLink (CancelReconnectTimer (rs\<lparr>rs_stopping := True\<rparr>))"

definition ScheduleReconnect :: "('ix, 'w, 'r) ReplicationSlave \<Rightarrow> ('ix, 'w, 'r) ReplicationSlave" where
  "ScheduleReconnect rs =
     (if rs_stopping rs then rs
      else let rs1 = CancelReconnectTimer rs; delay = rs_backoff_ms rs1
           in rs1\<lparr>rs_backoff_ms := NextBackoffMs delay, rs_state := kError, rs_reconnect_timer := Some delay\<rparr>)"

definition AdvanceOffset :: "nat \<Rightarrow> ('ix, 'w, 'r) ReplicationSlave \<Rightarrow> ('ix, 'w, 'r) ReplicationSlave" where
  "AdvanceOffset n rs =
     (if n = 0 then rs
      else rs\<lparr>rs_repl_offset := (rs_repl_offset rs + n) mod 2 ^ 64, rs_have_offset := True\<rparr>)"

definition Slave_Fail :: "('ix, 'w, 'r) ReplicationSlave \<Rightarrow> ('ix, 'w, 'r) ReplicationSlave" where
  "Slave_Fail rs =
     (if rs_stopping rs \<or> rs_state rs = kError then rs
      else let rs1 = close_rdb (rs\<lparr>rs_state := kError\<rparr>);
               rs2 = (case rs_conn rs1 of
                        None \<Rightarrow> rs1
                      | Some c \<Rightarrow> rs1\<lparr>rs_read_cb := False, rs_close_cb := False, rs_conn := Some (close_quietly c)\<rparr>)
           in ScheduleReconnect rs2)"

subsection \<open>Connecting\<close>

definition psync_request :: "('ix, 'w, 'r) ReplicationSlave \<Rightarrow> bytes" where
  "psync_request rs =
     (if rs_have_offset rs \<and> rs_master_replid rs \<noteq> []
      then let off = dec_of_nat (rs_repl_offset rs)
           in ''*3'' @ crlf @ ''$5'' @ crlf @ ''PSYNC'' @ crlf @ ''$'' @ dec_of_nat (length (rs_master_replid rs))
                @ crlf @ rs_master_replid rs @ crlf @ ''$'' @ dec_of_nat (length off) @ crlf @ off @ crlf
      else ''*3'' @ crlf @ ''$5'' @ crlf @ ''PSYNC'' @ crlf @ ''$1'' @ crlf @ ''?'' @ crlf @ ''$2'' @ crlf
             @ ''-1'' @ crlf)"

text \<open>
  \<open>link\<close> is what \<^verbatim>\<open>TcpConnector::Connect\<close> would give: None when it fails, else the new connection. The callbacks
  are set after the request has been sent.
\<close>

definition TryConnect :: "TcpConn option \<Rightarrow> ('ix, 'w, 'r) ReplicationSlave \<Rightarrow> ('ix, 'w, 'r) ReplicationSlave" where
  "TryConnect link rs =
     (if rs_stopping rs \<or> \<not> rs_ready rs then rs
      else let rs1 = ResetLink rs
           in case link of
                None \<Rightarrow> ScheduleReconnect rs1
              | Some c \<Rightarrow>
                  let c1 = snd (snd (TcpConn_Send (plain_callbacks (\<lambda>s. s)) (psync_request rs1) ((), c)))
                  in rs1\<lparr>rs_conn := Some c1, rs_state := kWaitFullresync, rs_read_cb := True, rs_close_cb := True\<rparr>)"

definition EnterStreaming :: "('ix, 'w, 'r) ReplicationSlave \<Rightarrow> ('ix, 'w, 'r) ReplicationSlave" where
  "EnterStreaming rs = rs\<lparr>rs_state := kStreaming, rs_backoff_ms := kMinBackoffMs\<rparr>"

definition Slave_Start ::
  "host \<Rightarrow> TcpConn option \<Rightarrow> bytes \<Rightarrow> nat \<Rightarrow> ('ix, 'w, 'r) ReplicationSlave \<Rightarrow> bool \<times> ('ix, 'w, 'r) ReplicationSlave" where
  "Slave_Start ho link mhost port rs =
     (if \<not> rs_ready rs then (False, rs)
      else if \<not> ho_create_directories ho kTmpDir then (False, rs)
      else if mhost = [] \<or> port = 0 then (False, rs)
      else (True, TryConnect link (rs\<lparr>rs_master_host := mhost, rs_master_port := port, rs_backoff_ms := kMinBackoffMs\<rparr>)))"

subsection \<open>Parsing the answer\<close>

text \<open>The boolean result says whether the caller goes on.\<close>

definition kFullresyncWord :: bytes where
  "kFullresyncWord = ''FULLRESYNC ''"

definition HandleSyncReply :: "bytes \<Rightarrow> ('ix, 'w, 'r) ReplicationSlave \<Rightarrow> bool \<times> ('ix, 'w, 'r) ReplicationSlave" where
  "HandleSyncReply reply rs =
     (if reply = ''CONTINUE'' then (True, EnterStreaming rs)
      else if take (length kFullresyncWord) reply \<noteq> kFullresyncWord then (False, Slave_Fail rs)
      else let rest = drop (length kFullresyncWord) reply;
               sp = length (takeWhile (\<lambda>c. c \<noteq> CHR '' '') rest)
           in if length rest \<le> sp \<or> sp = 0 \<or> length rest \<le> sp + 1 then (False, Slave_Fail rs)
              else let rs1 = rs\<lparr>rs_master_replid := take sp rest\<rparr>
                   in case strtoull (c_str (drop (sp + 1) rest)) of
                        Some (start, []) \<Rightarrow>
                          (True, rs1\<lparr>rs_repl_offset := start, rs_have_offset := True, rs_state := kRecvRdbHeader\<rparr>)
                      | _ \<Rightarrow> (False, Slave_Fail rs1))"

text \<open>The input buffer of the connection, and \<^verbatim>\<open>memchr(data, '\n', len)\<close>.\<close>

definition link_buf :: "('ix, 'w, 'r) ReplicationSlave \<Rightarrow> MessageBuffer" where
  "link_buf rs = (case rs_conn rs of None \<Rightarrow> [] | Some c \<Rightarrow> tc_input_buffer c)"

definition read_completed :: "nat \<Rightarrow> ('ix, 'w, 'r) ReplicationSlave \<Rightarrow> ('ix, 'w, 'r) ReplicationSlave" where
  "read_completed n rs =
     rs\<lparr>rs_conn := map_option (\<lambda>c. c\<lparr>tc_input_buffer := ReadCompleted (tc_input_buffer c) n\<rparr>) (rs_conn rs)\<rparr>"

definition find_lf :: "bytes \<Rightarrow> nat option" where
  "find_lf data = (let e = length (takeWhile (\<lambda>c. c \<noteq> LF) data) in if e < length data then Some e else None)"

text \<open>The line up to the index of its LF, when it ends in CR LF.\<close>

definition line_end :: "bytes \<Rightarrow> nat option" where
  "line_end data =
     (case find_lf data of
        None \<Rightarrow> None
      | Some e \<Rightarrow> if e = 0 \<or> data ! (e - 1) \<noteq> CR then None else Some e)"

definition ConsumeSimpleString :: "('ix, 'w, 'r) ReplicationSlave \<Rightarrow> bytes option \<times> ('ix, 'w, 'r) ReplicationSlave" where
  "ConsumeSimpleString rs =
     (let data = link_buf rs
      in if length data < 3 then (None, rs)
         else if data ! 0 = CHR ''-''
         then (case find_lf data of
                 None \<Rightarrow> (None, rs)
               | Some e \<Rightarrow> (None, read_completed (e + 1) (Slave_Fail rs)))
         else if data ! 0 \<noteq> CHR ''+'' then (None, Slave_Fail rs)
         else case line_end data of
                None \<Rightarrow> (None, rs)
              | Some e \<Rightarrow> (Some (slice 1 (e - 2) data), read_completed (e + 1) rs))"

text \<open>\<^verbatim>\<open>strtoll\<close> runs over the buffer, which is NUL-terminated behind its last byte.\<close>

definition TryConsumeBulkHeader :: "('ix, 'w, 'r) ReplicationSlave \<Rightarrow> int option \<times> ('ix, 'w, 'r) ReplicationSlave" where
  "TryConsumeBulkHeader rs =
     (let data = link_buf rs
      in if length data < 4 \<or> data ! 0 \<noteq> CHR ''$'' then (None, rs)
         else case line_end data of
                None \<Rightarrow> (None, rs)
              | Some e \<Rightarrow>
                  (case strtoll (c_str (drop 1 data)) of
                     None \<Rightarrow> (None, Slave_Fail rs)
                   | Some (v, rest) \<Rightarrow> (Some v, read_completed (e + 1) rs)))"

definition open_rdb :: "host \<Rightarrow> ('ix, 'w, 'r) ReplicationSlave \<Rightarrow> bool \<times> ('ix, 'w, 'r) ReplicationSlave" where
  "open_rdb ho rs =
     (if rs_rdb_fp rs \<noteq> None then (True, rs)
      else if \<not> ho_create ho kInTmpPath then (False, Slave_Fail rs)
      else (True, rs\<lparr>rs_rdb_fp := Some \<lparr>f_data = [], f_pos = 0, f_room = ho_room ho\<rparr>,
                     rs_files := (rs_files rs)(kInTmpPath \<mapsto> [])\<rparr>))"

definition WriteRdbChunk :: "host \<Rightarrow> bytes \<Rightarrow> ('ix, 'w, 'r) ReplicationSlave \<Rightarrow> bool \<times> ('ix, 'w, 'r) ReplicationSlave" where
  "WriteRdbChunk ho data rs =
     (case open_rdb ho rs of
        (False, rs1) \<Rightarrow> (False, rs1)
      | (True, rs1) \<Rightarrow>
          if data = [] then (True, rs1)
          else case WriteExact (the (rs_rdb_fp rs1)) data of
                 (ok, f) \<Rightarrow>
                   let rs2 = rs1\<lparr>rs_rdb_fp := Some f\<rparr> in if \<not> ok then (False, Slave_Fail rs2) else (True, rs2))"

text \<open>\<^verbatim>\<open>std::filesystem::rename\<close> fails when there is nothing to rename.\<close>

definition load_rdb :: "('ix, 'w, 'r) slave_env \<Rightarrow> ('ix, 'w, 'r) ReplicationSlave \<Rightarrow> bool \<times> ('ix, 'w, 'r) ReplicationSlave" where
  "load_rdb env rs =
     (case (en_index (rs_engine rs), en_kv (rs_engine rs)) of
        (Some v, Some m) \<Rightarrow>
          (case LoadFromPath (cl_usearch (se_classes env)) (se_host env) (rs_files rs) (se_view env) kInPath v m of
             (r, v', m') \<Rightarrow>
               let rs1 = rs\<lparr>rs_engine := (rs_engine rs)\<lparr>en_index := Some v', en_kv := Some m'\<rparr>\<rparr>
               in if r = LoadThrow then (False, rs1\<lparr>rs_fault := Some Thrown\<rparr>)
                  else if r \<noteq> LoadStatus SmOk then (False, Slave_Fail rs1) else (True, rs1))
      | _ \<Rightarrow> (False, Slave_Fail rs))"

definition FinishRdbAndLoad ::
  "('ix, 'w, 'r) slave_env \<Rightarrow> ('ix, 'w, 'r) ReplicationSlave \<Rightarrow> bool \<times> ('ix, 'w, 'r) ReplicationSlave" where
  "FinishRdbAndLoad env rs =
     (let rs1 = close_rdb rs
      in if rs_files rs1 kInTmpPath = None \<or> \<not> ho_rename (se_host env) then (False, Slave_Fail rs1)
         else load_rdb env (rs1\<lparr>rs_files := snd (AtomicRename (se_host env) kInTmpPath kInPath (rs_files rs1))\<rparr>))"

subsection \<open>Applying frames\<close>

text \<open>
  How the loop over the frames ends: at the end of the complete ones, with an error message, with an escaping
  exception, or not at all.
\<close>

datatype consume_end = CfOk nat | CfErr bytes | CfThrow | CfNoReturn

function consume_frames ::
  "('ix, 'w, 'r) classes \<Rightarrow> nat \<Rightarrow> bytes \<Rightarrow> ('ix, 'w, 'r) engine \<Rightarrow> consume_end \<times> ('ix, 'w, 'r) engine" where
  "consume_frames cl off buf en =
     (if buf = [] then (CfOk off, en)
      else case DecodeArrayOfBulk buf of
        DNeedMore \<Rightarrow> (CfOk off, en)
      | DError \<Rightarrow> (CfErr ''bad RESP command frame'', en)
      | DLengthError \<Rightarrow> (CfThrow, en)
      | DOk tokens consumed \<Rightarrow>
          (case FromTokens (- 1) tokens default_RequestContext of
             (fs, ctx) \<Rightarrow>
               if fs \<noteq> RcOk then (CfErr ''bad command in stream'', en)
               else case ApplyMutation cl ctx kAofReplay en of
                 None \<Rightarrow> (CfNoReturn, en)
               | Some (r, en1) \<Rightarrow>
                   if \<not> ar_ok r then (CfErr (''apply: '' @ ar_err r), en1)
                   else consume_frames cl (off + consumed) (drop consumed buf) en1))"
  by pat_completeness auto
termination
  by (relation "measure (\<lambda>(cl, off, buf, en). length buf)") (auto dest: DecodeArrayOfBulk_take)

declare consume_frames.simps [simp del]

text \<open>Result and the unconsumed bytes; the number of bytes consumed is in \<open>CfOk\<close>.\<close>

definition ConsumeStreamFrames ::
  "('ix, 'w, 'r) classes \<Rightarrow> bytes \<Rightarrow> ('ix, 'w, 'r) engine \<Rightarrow> consume_end \<times> bytes \<times> ('ix, 'w, 'r) engine" where
  "ConsumeStreamFrames cl bs en =
     (case consume_frames cl 0 bs en of
        (CfOk off, en1) \<Rightarrow> (CfOk off, drop off bs, en1)
      | (r, en1) \<Rightarrow> (r, bs, en1))"

text \<open>What both callers do with a result that is not \<open>CfOk\<close>.\<close>

definition consume_failed :: "consume_end \<Rightarrow> ('ix, 'w, 'r) ReplicationSlave \<Rightarrow> ('ix, 'w, 'r) ReplicationSlave" where
  "consume_failed r rs =
     (case r of
        CfThrow \<Rightarrow> rs\<lparr>rs_fault := Some Thrown\<rparr>
      | CfNoReturn \<Rightarrow> rs\<lparr>rs_fault := Some NoReturn\<rparr>
      | _ \<Rightarrow> Slave_Fail rs)"

definition ApplyBacklog ::
  "('ix, 'w, 'r) classes \<Rightarrow> bytes \<Rightarrow> ('ix, 'w, 'r) ReplicationSlave \<Rightarrow> bool \<times> ('ix, 'w, 'r) ReplicationSlave" where
  "ApplyBacklog cl bs rs =
     (case ConsumeStreamFrames cl bs (rs_engine rs) of
        (r, rest, en) \<Rightarrow>
          let rs1 = rs\<lparr>rs_engine := en\<rparr>
          in case r of
               CfOk consumed \<Rightarrow> if rest \<noteq> [] then (False, Slave_Fail rs1) else (True, AdvanceOffset consumed rs1)
             | _ \<Rightarrow> (False, consume_failed r rs1))"

definition DrainStreaming ::
  "('ix, 'w, 'r) classes \<Rightarrow> ('ix, 'w, 'r) ReplicationSlave \<Rightarrow> ('ix, 'w, 'r) ReplicationSlave" where
  "DrainStreaming cl rs =
     (let avail = link_buf rs;
          rs1 = read_completed (length avail) (rs\<lparr>rs_stream_buf := rs_stream_buf rs @ avail\<rparr>)
      in case ConsumeStreamFrames cl (rs_stream_buf rs1) (rs_engine rs1) of
           (r, rest, en) \<Rightarrow>
             let rs2 = rs1\<lparr>rs_engine := en, rs_stream_buf := rest\<rparr>
             in case r of CfOk consumed \<Rightarrow> AdvanceOffset consumed rs2 | _ \<Rightarrow> consume_failed r rs2)"

subsection \<open>The read loop\<close>

text \<open>One function per state; the boolean says whether the loop goes on.\<close>

definition on_wait :: "('ix, 'w, 'r) ReplicationSlave \<Rightarrow> bool \<times> ('ix, 'w, 'r) ReplicationSlave" where
  "on_wait rs =
     (case ConsumeSimpleString rs of
        (None, rs1) \<Rightarrow> (False, rs1)
      | (Some s, rs1) \<Rightarrow> HandleSyncReply s rs1)"

definition finish_rdb :: "('ix, 'w, 'r) slave_env \<Rightarrow> ('ix, 'w, 'r) ReplicationSlave \<Rightarrow> bool \<times> ('ix, 'w, 'r) ReplicationSlave" where
  "finish_rdb env rs =
     (case FinishRdbAndLoad env rs of
        (False, rs1) \<Rightarrow> (False, rs1)
      | (True, rs1) \<Rightarrow> (True, rs1\<lparr>rs_state := kRecvBacklogHeader\<rparr>))"

definition on_rdb_header ::
  "('ix, 'w, 'r) slave_env \<Rightarrow> ('ix, 'w, 'r) ReplicationSlave \<Rightarrow> bool \<times> ('ix, 'w, 'r) ReplicationSlave" where
  "on_rdb_header env rs =
     (case TryConsumeBulkHeader rs of
        (None, rs1) \<Rightarrow> (False, rs1)
      | (Some len, rs1) \<Rightarrow>
          if len < 0 then (False, Slave_Fail rs1)
          else let rs2 = rs1\<lparr>rs_rdb_remaining := len, rs_state := kRecvRdbBody\<rparr>
               in if len = 0 then finish_rdb env rs2 else (True, rs2))"

text \<open>How much of the available bytes belongs to the body; a negative count is a huge \<^verbatim>\<open>size_t\<close>.\<close>

definition take_len :: "nat \<Rightarrow> int \<Rightarrow> nat" where
  "take_len avail remaining =
     (if remaining < 0 \<or> int avail < remaining then avail else nat remaining)"

definition on_rdb_body ::
  "('ix, 'w, 'r) slave_env \<Rightarrow> ('ix, 'w, 'r) ReplicationSlave \<Rightarrow> bool \<times> ('ix, 'w, 'r) ReplicationSlave" where
  "on_rdb_body env rs =
     (let data = link_buf rs
      in if data = [] then (False, rs)
         else let n = take_len (length data) (rs_rdb_remaining rs)
              in case WriteRdbChunk (se_host env) (take n data) rs of
                   (False, rs1) \<Rightarrow> (False, rs1)
                 | (True, rs1) \<Rightarrow>
                     let rs2 = (read_completed n rs1)\<lparr>rs_rdb_remaining := rs_rdb_remaining rs1 - int n\<rparr>
                     in if rs_rdb_remaining rs2 = 0 then finish_rdb env rs2 else (True, rs2))"

definition on_backlog_header :: "('ix, 'w, 'r) ReplicationSlave \<Rightarrow> bool \<times> ('ix, 'w, 'r) ReplicationSlave" where
  "on_backlog_header rs =
     (case TryConsumeBulkHeader rs of
        (None, rs1) \<Rightarrow> (False, rs1)
      | (Some len, rs1) \<Rightarrow>
          if len < 0 then (False, Slave_Fail rs1)
          else let rs2 = rs1\<lparr>rs_backlog_remaining := len, rs_backlog_buf := [], rs_state := kRecvBacklogBody\<rparr>
               in (True, if len = 0 then EnterStreaming rs2 else rs2))"

definition on_backlog_body ::
  "('ix, 'w, 'r) classes \<Rightarrow> ('ix, 'w, 'r) ReplicationSlave \<Rightarrow> bool \<times> ('ix, 'w, 'r) ReplicationSlave" where
  "on_backlog_body cl rs =
     (let data = link_buf rs
      in if data = [] then (False, rs)
         else let n = take_len (length data) (rs_backlog_remaining rs);
                  rs1 = (read_completed n (rs\<lparr>rs_backlog_buf := rs_backlog_buf rs @ take n data\<rparr>))
                          \<lparr>rs_backlog_remaining := rs_backlog_remaining rs - int n\<rparr>
              in if rs_backlog_remaining rs1 = 0
                 then case ApplyBacklog cl (rs_backlog_buf rs1) rs1 of
                        (False, rs2) \<Rightarrow> (False, rs2)
                      | (True, rs2) \<Rightarrow> (True, EnterStreaming (rs2\<lparr>rs_backlog_buf := []\<rparr>))
                 else (True, rs1))"

definition on_step ::
  "('ix, 'w, 'r) slave_env \<Rightarrow> ('ix, 'w, 'r) ReplicationSlave \<Rightarrow> bool \<times> ('ix, 'w, 'r) ReplicationSlave" where
  "on_step env rs =
     (case rs_state rs of
        kWaitFullresync \<Rightarrow> on_wait rs
      | kRecvRdbHeader \<Rightarrow> on_rdb_header env rs
      | kRecvRdbBody \<Rightarrow> on_rdb_body env rs
      | kRecvBacklogHeader \<Rightarrow> on_backlog_header rs
      | kRecvBacklogBody \<Rightarrow> on_backlog_body (se_classes env) rs
      | kStreaming \<Rightarrow> (False, DrainStreaming (se_classes env) rs)
      | _ \<Rightarrow> (False, rs))"

text \<open>Every iteration that goes on has consumed input or moved on to a later state.\<close>

fun state_rank :: "SlState \<Rightarrow> nat" where
  "state_rank kRecvRdbBody = 2"
| "state_rank kRecvBacklogHeader = 1"
| "state_rank kRecvBacklogBody = 2"
| "state_rank _ = 0"

definition loop_size :: "('ix, 'w, 'r) ReplicationSlave \<Rightarrow> nat" where
  "loop_size rs = 3 * length (link_buf rs) + state_rank (rs_state rs)"

lemma state_rank_le: "state_rank s \<le> 2"
  by (cases s) simp_all

lemma line_end_less: "line_end data = Some e \<Longrightarrow> e < length data"
  by (auto simp: line_end_def find_lf_def Let_def split: option.splits if_splits)

lemma read_completed_buf: "link_buf (read_completed n rs) = drop n (link_buf rs)"
  by (simp add: link_buf_def read_completed_def ReadCompleted_drop split: option.split)

lemma loop_size_less:
  assumes "length (link_buf rs1) < length (link_buf rs)"
  shows "loop_size rs1 < loop_size rs"
  using assms state_rank_le [of "rs_state rs1"] by (simp add: loop_size_def)

lemma link_buf_fields [simp]:
  "link_buf (rs\<lparr>rs_state := x1\<rparr>) = link_buf rs" "link_buf (rs\<lparr>rs_rdb_remaining := x2\<rparr>) = link_buf rs"
  "link_buf (rs\<lparr>rs_backlog_remaining := x3\<rparr>) = link_buf rs" "link_buf (rs\<lparr>rs_backlog_buf := x4\<rparr>) = link_buf rs"
  "link_buf (rs\<lparr>rs_engine := x5\<rparr>) = link_buf rs" "link_buf (rs\<lparr>rs_files := x6\<rparr>) = link_buf rs"
  "link_buf (rs\<lparr>rs_rdb_fp := x7\<rparr>) = link_buf rs" "link_buf (rs\<lparr>rs_backoff_ms := x8\<rparr>) = link_buf rs"
  "link_buf (rs\<lparr>rs_master_replid := x9\<rparr>) = link_buf rs" "link_buf (rs\<lparr>rs_repl_offset := x10\<rparr>) = link_buf rs"
  "link_buf (rs\<lparr>rs_have_offset := x11\<rparr>) = link_buf rs" "link_buf (rs\<lparr>rs_stream_buf := x12\<rparr>) = link_buf rs"
  by (simp_all add: link_buf_def)

lemma ConsumeSimpleString_shrinks:
  assumes "ConsumeSimpleString rs = (Some s, rs1)"
  shows "length (link_buf rs1) < length (link_buf rs)"
  using assms line_end_less [of "link_buf rs"]
  by (auto simp: ConsumeSimpleString_def Let_def read_completed_buf split: if_splits option.splits)

lemma TryConsumeBulkHeader_shrinks:
  assumes "TryConsumeBulkHeader rs = (Some n, rs1)"
  shows "length (link_buf rs1) < length (link_buf rs)"
  using assms line_end_less [of "link_buf rs"]
  by (auto simp: TryConsumeBulkHeader_def Let_def read_completed_buf split: if_splits option.splits)

lemma HandleSyncReply_buf: "HandleSyncReply s rs = (True, rs1) \<Longrightarrow> link_buf rs1 = link_buf rs"
  by (auto simp: HandleSyncReply_def EnterStreaming_def Let_def split: if_splits option.splits list.splits)

lemma finish_rdb_next:
  assumes "finish_rdb env rs = (True, rs1)"
  shows "link_buf rs1 = link_buf rs" and "rs_state rs1 = kRecvBacklogHeader"
  using assms
  by (auto simp: finish_rdb_def FinishRdbAndLoad_def load_rdb_def close_rdb_def Let_def
      split: if_splits option.splits prod.splits bool.splits)

lemma WriteRdbChunk_buf:
  "WriteRdbChunk ho data rs = (True, rs1) \<Longrightarrow> link_buf rs1 = link_buf rs \<and> rs_state rs1 = rs_state rs
     \<and> rs_rdb_remaining rs1 = rs_rdb_remaining rs"
  by (auto simp: WriteRdbChunk_def open_rdb_def Let_def split: if_splits prod.splits bool.splits)

lemma ApplyBacklog_buf: "ApplyBacklog cl bs rs = (True, rs1) \<Longrightarrow> link_buf rs1 = link_buf rs"
  by (auto simp: ApplyBacklog_def AdvanceOffset_def Let_def split: if_splits prod.splits consume_end.splits)

lemma on_rdb_body_size:
  assumes "on_rdb_body env rs = (True, rs1)" and "rs_state rs = kRecvRdbBody"
  shows "loop_size rs1 < loop_size rs"
proof -
  let ?data = "link_buf rs" and ?n = "take_len (length (link_buf rs)) (rs_rdb_remaining rs)"
  obtain rs2 where data: "?data \<noteq> []" and w: "WriteRdbChunk (se_host env) (take ?n ?data) rs = (True, rs2)"
    and r: "(True, rs1) = (let rs3 = (read_completed ?n rs2)\<lparr>rs_rdb_remaining := rs_rdb_remaining rs2 - int ?n\<rparr>
       in if rs_rdb_remaining rs3 = 0 then finish_rdb env rs3 else (True, rs3))"
    using assms(1) by (auto simp: on_rdb_body_def Let_def split: if_splits prod.splits bool.splits)
  let ?rs3 = "(read_completed ?n rs2)\<lparr>rs_rdb_remaining := rs_rdb_remaining rs2 - int ?n\<rparr>"
  have b: "link_buf ?rs3 = drop ?n ?data" using WriteRdbChunk_buf [OF w] by (simp add: read_completed_buf)
  show ?thesis
  proof (cases "rs_rdb_remaining ?rs3 = 0")
    case True
    with r have "finish_rdb env ?rs3 = (True, rs1)" by (simp add: Let_def)
    from finish_rdb_next [OF this] b assms(2) show ?thesis by (simp add: loop_size_def)
  next
    case False
    with r have rs1: "rs1 = ?rs3" by (simp add: Let_def)
    have "0 < ?n" using False WriteRdbChunk_buf [OF w] data by (auto simp: take_len_def)
    with b data rs1 show ?thesis by (intro loop_size_less) simp
  qed
qed

lemma on_backlog_body_size:
  assumes "on_backlog_body cl rs = (True, rs1)" and "rs_state rs = kRecvBacklogBody"
  shows "loop_size rs1 < loop_size rs"
proof -
  let ?data = "link_buf rs" and ?n = "take_len (length (link_buf rs)) (rs_backlog_remaining rs)"
  let ?rs2 = "(read_completed ?n (rs\<lparr>rs_backlog_buf := rs_backlog_buf rs @ take ?n ?data\<rparr>))
      \<lparr>rs_backlog_remaining := rs_backlog_remaining rs - int ?n\<rparr>"
  have data: "?data \<noteq> []" using assms(1) by (auto simp: on_backlog_body_def)
  have b: "link_buf ?rs2 = drop ?n ?data" by (simp add: read_completed_buf)
  show ?thesis
  proof (cases "rs_backlog_remaining ?rs2 = 0")
    case True
    with assms(1) data obtain rs3 where "ApplyBacklog cl (rs_backlog_buf ?rs2) ?rs2 = (True, rs3)"
      "rs1 = EnterStreaming (rs3\<lparr>rs_backlog_buf := []\<rparr>)"
      by (auto simp: on_backlog_body_def Let_def split: prod.splits bool.splits)
    with ApplyBacklog_buf [OF this(1)] b assms(2) show ?thesis by (simp add: loop_size_def EnterStreaming_def)
  next
    case False
    with assms(1) data have rs1: "rs1 = ?rs2" by (simp add: on_backlog_body_def Let_def)
    have "0 < ?n" using False data by (auto simp: take_len_def read_completed_def)
    with b data rs1 show ?thesis by (intro loop_size_less) simp
  qed
qed

lemma on_step_size:
  assumes "on_step env rs = (True, rs1)"
  shows "loop_size rs1 < loop_size rs"
proof (cases "rs_state rs")
  case kWaitFullresync
  with assms obtain s rs2 where "ConsumeSimpleString rs = (Some s, rs2)" "HandleSyncReply s rs2 = (True, rs1)"
    by (auto simp: on_step_def on_wait_def split: option.splits prod.splits)
  with ConsumeSimpleString_shrinks HandleSyncReply_buf show ?thesis by (metis loop_size_less)
next
  case kRecvRdbHeader
  with assms obtain n rs2 where h: "TryConsumeBulkHeader rs = (Some n, rs2)" "link_buf rs1 = link_buf rs2"
    by (auto simp: on_step_def on_rdb_header_def Let_def split: option.splits prod.splits if_splits dest: finish_rdb_next)
  with TryConsumeBulkHeader_shrinks [OF h(1)] show ?thesis by (intro loop_size_less) simp
next
  case kRecvBacklogHeader
  with assms obtain n rs2 where h: "TryConsumeBulkHeader rs = (Some n, rs2)" "link_buf rs1 = link_buf rs2"
    by (auto simp: on_step_def on_backlog_header_def EnterStreaming_def Let_def split: option.splits prod.splits if_splits)
  with TryConsumeBulkHeader_shrinks [OF h(1)] show ?thesis by (intro loop_size_less) simp
qed (use assms on_rdb_body_size on_backlog_body_size in \<open>auto simp: on_step_def\<close>)

text \<open>\<^verbatim>\<open>OnReadable\<close>.\<close>

function on_loop :: "('ix, 'w, 'r) slave_env \<Rightarrow> ('ix, 'w, 'r) ReplicationSlave \<Rightarrow> ('ix, 'w, 'r) ReplicationSlave" where
  "on_loop env rs = (case on_step env rs of (False, rs1) \<Rightarrow> rs1 | (True, rs1) \<Rightarrow> on_loop env rs1)"
  by pat_completeness auto
termination
  by (relation "measure (\<lambda>(env, rs). loop_size rs)") (auto dest: on_step_size [OF sym])

declare on_loop.simps [simp del]

definition Slave_OnReadable :: "('ix, 'w, 'r) slave_env \<Rightarrow> ('ix, 'w, 'r) ReplicationSlave \<Rightarrow> ('ix, 'w, 'r) ReplicationSlave" where
  "Slave_OnReadable env rs = (if rs_conn rs = None \<or> rs_state rs = kError then rs else on_loop env rs)"

subsection \<open>Events\<close>

text \<open>
  The event loop handles an event of the link: the callbacks work on the object, whose connection is the one
  being handled; without a fault only.
\<close>

definition slave_callbacks :: "('ix, 'w, 'r) slave_env \<Rightarrow> ('ix, 'w, 'r) ReplicationSlave conn_callbacks" where
  "slave_callbacks env =
     \<lparr>cb_done = (\<lambda>_ x. x),
      cb_close = (\<lambda>rs. if rs_close_cb rs \<and> \<not> rs_stopping rs then Slave_Fail rs else rs),
      cb_read = (\<lambda>(rs, c).
        if rs_read_cb rs
        then let rs1 = Slave_OnReadable env (rs\<lparr>rs_conn := Some c\<rparr>) in (rs1, the (rs_conn rs1))
        else (rs, c))\<rparr>"

definition slave_io ::
  "('ix, 'w, 'r) slave_env \<Rightarrow> IoEvents \<Rightarrow> ('ix, 'w, 'r) ReplicationSlave \<Rightarrow> ('ix, 'w, 'r) ReplicationSlave option" where
  "slave_io env ev rs =
     (case rs_conn rs of
        None \<Rightarrow> Some rs
      | Some c \<Rightarrow>
          if rs_fault rs \<noteq> None then Some rs
          else map_option (\<lambda>(rs1, c1). rs1\<lparr>rs_conn := Some c1\<rparr>) (HandleIO (slave_callbacks env) ev (rs, c)))"

text \<open>The lambda of the reconnect timer.\<close>

definition reconnect_fired :: "TcpConn option \<Rightarrow> ('ix, 'w, 'r) ReplicationSlave \<Rightarrow> ('ix, 'w, 'r) ReplicationSlave" where
  "reconnect_fired link rs =
     (if rs_fault rs \<noteq> None \<or> rs_reconnect_timer rs = None then rs else TryConnect link (rs\<lparr>rs_reconnect_timer := None\<rparr>))"

end
