(* ===== verification/SlaveLink.thy ===== *)
theory SlaveLink
  imports ReplicationSlave
begin

text \<open>
  Safety of the replica's link: what every function of the read loop leaves of the connection, the timer and
  the parser state, the object under every event with every answer of the kernel, and the runs of it as a
  transition system.
\<close>

section \<open>The invariant\<close>

text \<open>The connection of the link but for its unread input.\<close>

definition link_of :: "('ix, 'w, 'r) ReplicationSlave \<Rightarrow> bool \<times> bool \<times> TcpConn option" where
  "link_of rs = (rs_read_cb rs, rs_close_cb rs, map_option (\<lambda>c. c\<lparr>tc_input_buffer := []\<rparr>) (rs_conn rs))"

text \<open>
  What holds whenever the object is alive: the delay and the offset are in range, it is not being destroyed, and
  the connection never sends a file.
\<close>

definition slave_base :: "('ix, 'w, 'r) ReplicationSlave \<Rightarrow> bool" where
  "slave_base rs \<longleftrightarrow> kMinBackoffMs \<le> rs_backoff_ms rs \<and> rs_backoff_ms rs \<le> kMaxBackoffMs \<and> rs_repl_offset rs < 2 ^ 64
     \<and> \<not> rs_stopping rs \<and> rs_ready rs \<and> (\<forall>c. rs_conn rs = Some c \<longrightarrow> tc_inv c \<and> \<not> tc_sendfile_done c)"

text \<open>It is linked to the master; or it has failed, and then the reconnect timer is pending.\<close>

definition slave_linked :: "('ix, 'w, 'r) ReplicationSlave \<Rightarrow> bool" where
  "slave_linked rs \<longleftrightarrow> slave_base rs \<and> rs_conn rs \<noteq> None \<and> rs_read_cb rs \<and> rs_close_cb rs \<and> rs_reconnect_timer rs = None
     \<and> rs_state rs \<noteq> kError \<and> rs_state rs \<noteq> kInit"

definition slave_failed :: "('ix, 'w, 'r) ReplicationSlave \<Rightarrow> bool" where
  "slave_failed rs \<longleftrightarrow> slave_base rs \<and> rs_state rs = kError \<and> rs_rdb_fp rs = None \<and> \<not> rs_read_cb rs \<and> \<not> rs_close_cb rs
     \<and> (\<forall>c. rs_conn rs = Some c \<longrightarrow> tc_closed c)
     \<and> (\<exists>t. rs_reconnect_timer rs = Some t \<and> kMinBackoffMs \<le> t \<and> t \<le> kMaxBackoffMs)"

lemma tc_inv_input [simp]:
  "tc_inv (c\<lparr>tc_input_buffer := b\<rparr>) = tc_inv c" "tc_inv (c\<lparr>tc_reads := r\<rparr>) = tc_inv c"
  by (simp_all add: tc_inv_def split: option.split)

lemma Close_no_done:
  assumes "tc_inv c" and "\<not> tc_sendfile_done c" and "\<not> tc_closed c"
  shows "\<exists>c'. TcpConn_Close cbs (s, c) = (cb_close cbs s, c') \<and> tc_closed c' \<and> tc_inv c' \<and> \<not> tc_sendfile_done c'"
  using assms by (simp add: TcpConn_Close_def ClearSendFile_def clear_file_def DisableWrite_def tc_inv_def Let_def)

lemma close_quietly_closes:
  assumes "tc_inv c" and "\<not> tc_sendfile_done c"
  shows "tc_closed (close_quietly c)" and "tc_inv (close_quietly c)" and "\<not> tc_sendfile_done (close_quietly c)"
proof -
  have "tc_closed (close_quietly c) \<and> tc_inv (close_quietly c) \<and> \<not> tc_sendfile_done (close_quietly c)"
  proof (cases "tc_closed c")
    case True
    with assms show ?thesis by (simp add: close_quietly_def TcpConn_Close_def)
  next
    case False
    with assms Close_no_done [OF assms, of "plain_callbacks (\<lambda>s. s)" "()"] show ?thesis by (auto simp: close_quietly_def)
  qed
  then show "tc_closed (close_quietly c)" "tc_inv (close_quietly c)" "\<not> tc_sendfile_done (close_quietly c)" by simp_all
qed

lemma NextBackoffMs_bounds:
  "kMinBackoffMs \<le> b \<Longrightarrow> kMinBackoffMs \<le> NextBackoffMs b \<and> NextBackoffMs b \<le> kMaxBackoffMs"
  by (auto simp: NextBackoffMs_def kMinBackoffMs_def kMaxBackoffMs_def Let_def)

lemma Slave_Fail_failed: "slave_linked rs \<Longrightarrow> slave_failed (Slave_Fail rs)"
  using NextBackoffMs_bounds [of "rs_backoff_ms rs"]
  by (auto simp: slave_failed_def slave_linked_def slave_base_def Slave_Fail_def ScheduleReconnect_def
      CancelReconnectTimer_def close_rdb_def close_quietly_closes Let_def split: option.splits)

lemma Slave_Fail_keeps [simp]:
  "rs_fault (Slave_Fail rs) = rs_fault rs" "rs_conn (Slave_Fail rs) = None \<longleftrightarrow> rs_conn rs = None"
  by (auto simp: Slave_Fail_def ScheduleReconnect_def CancelReconnectTimer_def close_rdb_def Let_def split: option.splits)

text \<open>How a function of the read loop leaves a linked object: failed, or with the link as it was.\<close>

definition kept :: "('ix, 'w, 'r) ReplicationSlave \<Rightarrow> ('ix, 'w, 'r) ReplicationSlave \<Rightarrow> bool" where
  "kept rs rs' \<longleftrightarrow> (slave_failed rs' \<or> slave_linked rs' \<and> link_of rs' = link_of rs)
     \<and> rs_conn rs' \<noteq> None \<and> (rs_fault rs \<noteq> None \<longrightarrow> rs_fault rs' \<noteq> None)"

lemma kept_refl: "slave_linked rs \<Longrightarrow> kept rs rs"
  by (auto simp: kept_def slave_linked_def)

lemma kept_trans: "kept rs rs1 \<Longrightarrow> slave_linked rs1 \<Longrightarrow> kept rs1 rs2 \<Longrightarrow> kept rs rs2"
  by (auto simp: kept_def slave_failed_def slave_linked_def)

lemma kept_Fail: "slave_linked rs \<Longrightarrow> kept rs (Slave_Fail rs)"
  using Slave_Fail_failed [of rs] by (simp add: kept_def) (simp add: slave_linked_def)

lemma linked_update [simp]:
  "slave_linked (rs\<lparr>rs_rdb_remaining := x2\<rparr>) = slave_linked rs"
  "slave_linked (rs\<lparr>rs_backlog_remaining := x3\<rparr>) = slave_linked rs" "slave_linked (rs\<lparr>rs_backlog_buf := x4\<rparr>) = slave_linked rs"
  "slave_linked (rs\<lparr>rs_engine := x5\<rparr>) = slave_linked rs" "slave_linked (rs\<lparr>rs_files := x6\<rparr>) = slave_linked rs"
  "slave_linked (rs\<lparr>rs_rdb_fp := x7\<rparr>) = slave_linked rs" "slave_linked (rs\<lparr>rs_fault := x8\<rparr>) = slave_linked rs"
  "slave_linked (rs\<lparr>rs_master_replid := x9\<rparr>) = slave_linked rs" 
  "slave_linked (rs\<lparr>rs_have_offset := x11\<rparr>) = slave_linked rs" "slave_linked (rs\<lparr>rs_stream_buf := x12\<rparr>) = slave_linked rs"
  "link_of (rs\<lparr>rs_rdb_remaining := x2\<rparr>) = link_of rs"
  "link_of (rs\<lparr>rs_backlog_remaining := x3\<rparr>) = link_of rs" "link_of (rs\<lparr>rs_backlog_buf := x4\<rparr>) = link_of rs"
  "link_of (rs\<lparr>rs_engine := x5\<rparr>) = link_of rs" "link_of (rs\<lparr>rs_files := x6\<rparr>) = link_of rs"
  "link_of (rs\<lparr>rs_rdb_fp := x7\<rparr>) = link_of rs" "link_of (rs\<lparr>rs_fault := x8\<rparr>) = link_of rs"
  "link_of (rs\<lparr>rs_master_replid := x9\<rparr>) = link_of rs" "link_of (rs\<lparr>rs_state := x10\<rparr>) = link_of rs"
  "link_of (rs\<lparr>rs_have_offset := x11\<rparr>) = link_of rs" "link_of (rs\<lparr>rs_stream_buf := x12\<rparr>) = link_of rs"
  "link_of (rs\<lparr>rs_repl_offset := x13\<rparr>) = link_of rs" "link_of (rs\<lparr>rs_backoff_ms := x14\<rparr>) = link_of rs"
  by (simp_all add: slave_linked_def slave_base_def link_of_def)

lemma linked_state: "slave_linked rs \<Longrightarrow> s \<noteq> kError \<Longrightarrow> s \<noteq> kInit \<Longrightarrow> slave_linked (rs\<lparr>rs_state := s\<rparr>)"
  by (simp add: slave_linked_def slave_base_def)

lemma linked_offset: "slave_linked rs \<Longrightarrow> n < 2 ^ 64 \<Longrightarrow> slave_linked (rs\<lparr>rs_repl_offset := n\<rparr>)"
  by (simp add: slave_linked_def slave_base_def)

lemma linked_read: "slave_linked rs \<Longrightarrow> slave_linked (read_completed n rs)" "link_of (read_completed n rs) = link_of rs"
  by (cases "rs_conn rs"; simp add: slave_linked_def slave_base_def read_completed_def link_of_def)+

lemma linked_advance: "slave_linked rs \<Longrightarrow> slave_linked (AdvanceOffset n rs)" "link_of (AdvanceOffset n rs) = link_of rs"
  by (simp_all add: AdvanceOffset_def linked_offset)

lemma linked_streaming: "slave_linked rs \<Longrightarrow> slave_linked (EnterStreaming rs)" "link_of (EnterStreaming rs) = link_of rs"
  by (simp_all add: EnterStreaming_def slave_linked_def slave_base_def kMinBackoffMs_def kMaxBackoffMs_def)

lemmas linked_intros = linked_state linked_offset linked_read linked_advance linked_streaming

lemma kept_intro:
  "slave_linked rs' \<Longrightarrow> link_of rs' = link_of rs \<Longrightarrow> (rs_fault rs \<noteq> None \<Longrightarrow> rs_fault rs' \<noteq> None) \<Longrightarrow> kept rs rs'"
  by (auto simp: kept_def slave_linked_def)

lemma kept_Fail_at:
  "slave_linked rs1 \<Longrightarrow> (rs_fault rs \<noteq> None \<Longrightarrow> rs_fault rs1 \<noteq> None) \<Longrightarrow> kept rs (Slave_Fail rs1)"
  using kept_Fail [of rs1] Slave_Fail_failed [of rs1] by (auto simp: kept_def slave_linked_def)

lemma fault_keeps [simp]: "rs_fault (read_completed n rs) = rs_fault rs" "rs_fault (AdvanceOffset n rs) = rs_fault rs"
  "rs_fault (EnterStreaming rs) = rs_fault rs" "rs_fault (close_rdb rs) = rs_fault rs"
  by (simp_all add: read_completed_def AdvanceOffset_def EnterStreaming_def close_rdb_def split: option.splits)

lemma strtoull_bound: "strtoull s = Some (n, r) \<Longrightarrow> n < 2 ^ 64"
  by (auto simp: strtoull_def Let_def split: option.splits prod.splits if_splits)

lemma linked_strtoull:
  "strtoull s = Some (n, r) \<Longrightarrow> slave_linked rs \<Longrightarrow> slave_linked (rs\<lparr>rs_repl_offset := n\<rparr>)"
  by (intro linked_offset strtoull_bound)

lemma kept_read_completed: "kept rs rs1 \<Longrightarrow> kept rs (read_completed n rs1)"
  using linked_read(1) [of rs1 n] linked_read(2) [of n rs1]
  by (auto simp: kept_def slave_failed_def slave_base_def read_completed_def)

text \<open>Given up: failed, or the process is gone.\<close>

definition gave_up :: "('ix, 'w, 'r) ReplicationSlave \<Rightarrow> bool" where
  "gave_up rs \<longleftrightarrow> slave_failed rs \<or> rs_fault rs \<noteq> None"

lemma gave_up_Fail: "slave_linked rs \<Longrightarrow> gave_up (Slave_Fail rs)"
  by (simp add: gave_up_def Slave_Fail_failed)

lemma gave_up_linked: "gave_up rs \<Longrightarrow> slave_linked rs \<Longrightarrow> rs_fault rs \<noteq> None"
  by (auto simp: gave_up_def slave_failed_def slave_linked_def)

lemma gave_up_read_completed: "gave_up rs \<Longrightarrow> gave_up (read_completed n rs)"
  by (auto simp: gave_up_def slave_failed_def slave_base_def read_completed_def)

lemma ConsumeSimpleString_kept:
  assumes "slave_linked rs" and "ConsumeSimpleString rs = (s, rs1)"
  shows "kept rs rs1 \<and> (if s = None then rs1 = rs \<or> gave_up rs1
     else slave_linked rs1 \<and> rs_state rs1 = rs_state rs \<and> rs_rdb_fp rs1 = rs_rdb_fp rs)"
proof (cases s)
  case None
  with assms show ?thesis
    by (auto simp: ConsumeSimpleString_def Let_def kept_refl kept_Fail kept_read_completed gave_up_Fail
        gave_up_read_completed split: if_splits option.splits)
next
  case (Some w)
  with assms show ?thesis
    by (auto simp: ConsumeSimpleString_def Let_def kept_refl kept_read_completed linked_read split: if_splits option.splits)
      (simp_all add: read_completed_def)
qed

lemma HandleSyncReply_kept:
  assumes "slave_linked rs" and "HandleSyncReply s rs = (b, rs1)"
  shows "kept rs rs1 \<and> (if b then slave_linked rs1 \<and> rs_state rs1 \<in> {kStreaming, kRecvRdbHeader} \<and> rs_rdb_fp rs1 = rs_rdb_fp rs
     else gave_up rs1)"
proof (cases b)
  case True
  with assms show ?thesis
    by (auto simp: HandleSyncReply_def Let_def split: if_splits option.splits list.splits
        intro!: kept_intro linked_strtoull linked_streaming linked_state) (simp_all add: EnterStreaming_def)
next
  case False
  with assms show ?thesis
    by (auto simp: HandleSyncReply_def Let_def split: if_splits option.splits list.splits 
        intro!: kept_Fail_at gave_up_Fail)
qed

lemma TryConsumeBulkHeader_kept:
  assumes "slave_linked rs" and "TryConsumeBulkHeader rs = (s, rs1)"
  shows "kept rs rs1 \<and> (if s = None then rs1 = rs \<or> gave_up rs1
     else slave_linked rs1 \<and> rs_state rs1 = rs_state rs \<and> rs_rdb_fp rs1 = rs_rdb_fp rs)"
proof (cases s)
  case None
  with assms show ?thesis
    by (auto simp: TryConsumeBulkHeader_def Let_def kept_refl kept_Fail kept_read_completed gave_up_Fail
        split: if_splits option.splits)
next
  case (Some w)
  with assms show ?thesis
    by (auto simp: TryConsumeBulkHeader_def Let_def kept_refl kept_read_completed linked_read split: if_splits option.splits)
      (simp_all add: read_completed_def)
qed

lemma linked_close: "slave_linked rs \<Longrightarrow> slave_linked (close_rdb rs)" "link_of (close_rdb rs) = link_of rs"
  by (auto simp: close_rdb_def split: option.splits)

lemma FinishRdbAndLoad_kept:
  assumes "slave_linked rs" and "FinishRdbAndLoad env rs = (b, rs1)"
  shows "kept rs rs1 \<and> (b \<longrightarrow> slave_linked rs1 \<and> rs_rdb_fp rs1 = None) \<and> (\<not> b \<longrightarrow> gave_up rs1)"
proof -
  have c: "rs_rdb_fp (close_rdb rs) = None" by (simp add: close_rdb_def split: option.splits)
  have l: "kept rs2 rs3 \<and> (b \<longrightarrow> slave_linked rs3 \<and> rs_rdb_fp rs3 = rs_rdb_fp rs2) \<and> (\<not> b \<longrightarrow> gave_up rs3)"
    if "slave_linked rs2" "load_rdb env rs2 = (b, rs3)" for b rs2 rs3
    using that by (auto simp: load_rdb_def Let_def split: option.splits prod.splits if_splits
        intro: kept_Fail kept_Fail_at kept_intro gave_up_Fail) (simp_all add: gave_up_def)
  show ?thesis
  proof (cases "rs_files (close_rdb rs) kInTmpPath = None \<or> \<not> ho_rename (se_host env)")
    case True
    with assms linked_close(1) [OF assms(1)] show ?thesis
      by (auto simp: FinishRdbAndLoad_def Let_def intro!: kept_Fail_at gave_up_Fail)
  next
    case False
    let ?rs2 = "(close_rdb rs)\<lparr>rs_files :=
        snd (AtomicRename (se_host env) kInTmpPath kInPath (rs_files (close_rdb rs)))\<rparr>"
    have k: "kept rs ?rs2" "slave_linked ?rs2"
      using linked_close(1) [OF assms(1)] linked_close(2) [of rs] by (auto intro!: kept_intro)
    with False assms l [of ?rs2 b rs1] c kept_trans [OF k] show ?thesis
      by (auto simp: FinishRdbAndLoad_def Let_def)
  qed
qed

lemma finish_rdb_kept:
  assumes "slave_linked rs" and "finish_rdb env rs = (b, rs1)"
  shows "kept rs rs1 \<and> (b \<longrightarrow> slave_linked rs1 \<and> rs_rdb_fp rs1 = None \<and> rs_state rs1 = kRecvBacklogHeader)
     \<and> (\<not> b \<longrightarrow> gave_up rs1)"
proof -
  obtain b2 rs2 where f: "FinishRdbAndLoad env rs = (b2, rs2)" by fastforce
  note k = FinishRdbAndLoad_kept [OF assms(1) f]
  show ?thesis
  proof (cases b2)
    case True
    with k have "slave_linked rs2" "kept rs2 (rs2\<lparr>rs_state := kRecvBacklogHeader\<rparr>)"
      by (auto intro!: kept_intro linked_intros)
    with True k f assms(2) kept_trans [of rs rs2] show ?thesis
      by (auto simp: finish_rdb_def intro!: linked_intros)
  next
    case False
    with k f assms(2) show ?thesis by (auto simp: finish_rdb_def)
  qed
qed

lemma WriteRdbChunk_kept:
  assumes "slave_linked rs" and "WriteRdbChunk ho data rs = (b, rs1)"
  shows "kept rs rs1 \<and> (b \<longrightarrow> slave_linked rs1) \<and> (\<not> b \<longrightarrow> gave_up rs1)"
  using assms
  by (auto simp: WriteRdbChunk_def open_rdb_def Let_def split: if_splits prod.splits bool.splits
      intro: kept_Fail kept_Fail_at kept_intro gave_up_Fail)

text \<open>One iteration of the loop keeps the invariant.\<close>

definition body_ok :: "('ix, 'w, 'r) ReplicationSlave \<Rightarrow> bool" where
  "body_ok rs \<longleftrightarrow> (rs_rdb_fp rs \<noteq> None \<longrightarrow> rs_state rs = kRecvRdbBody)
     \<and> (rs_state rs = kRecvRdbBody \<longrightarrow> 0 < rs_rdb_remaining rs)
     \<and> (rs_state rs = kRecvBacklogBody \<longrightarrow> 0 < rs_backlog_remaining rs)"

lemma consume_failed_kept: "slave_linked rs \<Longrightarrow> kept rs (consume_failed r rs) \<and> gave_up (consume_failed r rs)"
  by (auto simp: consume_failed_def split: consume_end.splits intro: kept_Fail kept_intro gave_up_Fail)
    (simp_all add: gave_up_def)

lemma DrainStreaming_kept:
  assumes "slave_linked rs"
  shows "kept rs (DrainStreaming cl rs) \<and> (gave_up (DrainStreaming cl rs) \<or> slave_linked (DrainStreaming cl rs)
    \<and> rs_state (DrainStreaming cl rs) = rs_state rs \<and> rs_rdb_fp (DrainStreaming cl rs) = rs_rdb_fp rs)"
proof -
  let ?rs1 = "read_completed (length (link_buf rs)) (rs\<lparr>rs_stream_buf := rs_stream_buf rs @ link_buf rs\<rparr>)"
  obtain r rest en where c: "ConsumeStreamFrames cl (rs_stream_buf ?rs1) (rs_engine ?rs1) = (r, rest, en)"
    by (metis prod_cases3)
  let ?rs2 = "?rs1\<lparr>rs_engine := en, rs_stream_buf := rest\<rparr>"
  have d: "DrainStreaming cl rs = (case r of CfOk n \<Rightarrow> AdvanceOffset n ?rs2 | _ \<Rightarrow> consume_failed r ?rs2)"
    unfolding DrainStreaming_def Let_def c by simp
  have l: "slave_linked ?rs2" "kept rs ?rs2" using assms by (auto intro!: kept_intro simp: linked_read)
  have f: "rs_state ?rs2 = rs_state rs" "rs_rdb_fp ?rs2 = rs_rdb_fp rs" by (simp_all add: read_completed_def)
  show ?thesis
  proof (cases "\<exists>n. r = CfOk n")
    case True
    then obtain n where "DrainStreaming cl rs = AdvanceOffset n ?rs2" using d by auto
    moreover have "kept ?rs2 (AdvanceOffset n ?rs2)" "slave_linked (AdvanceOffset n ?rs2)"
      using l by (auto intro!: kept_intro simp: linked_advance)
    moreover have "rs_state (AdvanceOffset n ?rs2) = rs_state rs" "rs_rdb_fp (AdvanceOffset n ?rs2) = rs_rdb_fp rs"
      using f by (simp_all add: AdvanceOffset_def)
    ultimately show ?thesis using kept_trans [OF l(2,1)] by metis
  next
    case False
    then have "DrainStreaming cl rs = consume_failed r ?rs2" using d by (cases r) auto
    with consume_failed_kept [OF l(1), of r] kept_trans [OF l(2,1)] show ?thesis by metis
  qed
qed

lemma ApplyBacklog_kept:
  assumes "slave_linked rs" and "ApplyBacklog cl bs rs = (b, rs1)"
  shows "kept rs rs1 \<and> (b \<longrightarrow> slave_linked rs1 \<and> rs_rdb_fp rs1 = rs_rdb_fp rs) \<and> (\<not> b \<longrightarrow> gave_up rs1)"
proof -
  obtain r rest en where c: "ConsumeStreamFrames cl bs (rs_engine rs) = (r, rest, en)" by (metis prod_cases3)
  let ?rs2 = "rs\<lparr>rs_engine := en\<rparr>"
  have l: "slave_linked ?rs2" "kept rs ?rs2" using assms by (auto intro!: kept_intro)
  have "kept ?rs2 rs1 \<and> (b \<longrightarrow> slave_linked rs1 \<and> rs_rdb_fp rs1 = rs_rdb_fp rs) \<and> (\<not> b \<longrightarrow> gave_up rs1)"
  proof (cases "\<exists>n. r = CfOk n \<and> rest = []")
    case True
    with assms(2) c have "b" "\<exists>n. rs1 = AdvanceOffset n ?rs2" by (auto simp: ApplyBacklog_def)
    with l linked_advance show ?thesis by (auto intro!: kept_intro) (simp add: AdvanceOffset_def)
  next
    case False
    with assms(2) c have "\<not> b" "rs1 = Slave_Fail ?rs2 \<or> rs1 = consume_failed r ?rs2"
      by (auto simp: ApplyBacklog_def Let_def split: consume_end.splits if_splits)
    with kept_Fail [OF l(1)] gave_up_Fail [OF l(1)] consume_failed_kept [OF l(1), of r] show ?thesis by blast
  qed
  with kept_trans l show ?thesis by blast
qed

lemma on_rdb_body_kept:
  assumes "slave_linked rs" and "body_ok rs" and "rs_state rs = kRecvRdbBody" and "on_rdb_body env rs = (b, rs1)"
  shows "kept rs rs1 \<and> (\<not> b \<and> gave_up rs1 \<or> slave_linked rs1 \<and> body_ok rs1)"
proof (cases "link_buf rs = []")
  case True
  with assms show ?thesis by (auto simp: on_rdb_body_def kept_refl)
next
  case False
  let ?n = "take_len (length (link_buf rs)) (rs_rdb_remaining rs)"
  obtain w rs2 where w: "WriteRdbChunk (se_host env) (take ?n (link_buf rs)) rs = (w, rs2)" by fastforce
  note k = WriteRdbChunk_kept [OF assms(1) w]
  show ?thesis
  proof (cases w)
    case F: False
    with False w assms(4) have "rs1 = rs2" "\<not> b" by (auto simp: on_rdb_body_def Let_def)
    with F k show ?thesis by simp
  next
    case w1: True
    let ?rs3 = "(read_completed ?n rs2)\<lparr>rs_rdb_remaining := rs_rdb_remaining rs2 - int ?n\<rparr>"
    have "slave_linked ?rs3" "kept rs2 ?rs3" using k w1 by (auto intro!: kept_intro linked_read simp: linked_read)
    with k w1 kept_trans [of rs rs2 ?rs3] have k3: "kept rs ?rs3" "slave_linked ?rs3" by blast+
    have r: "rs_rdb_remaining rs2 = rs_rdb_remaining rs" "rs_state rs2 = rs_state rs"
      using WriteRdbChunk_buf [of "se_host env" "take ?n (link_buf rs)" rs rs2] w w1 by simp_all
    have st: "rs_state ?rs3 = kRecvRdbBody" using r assms(3) by (simp add: read_completed_def)
    show ?thesis
    proof (cases "rs_rdb_remaining ?rs3 = 0")
      case True
      with False w w1 assms(4) have "finish_rdb env ?rs3 = (b, rs1)" by (simp add: on_rdb_body_def Let_def)
      from finish_rdb_kept [OF k3(2) this] kept_trans [OF k3] show ?thesis by (auto simp: body_ok_def)
    next
      case ne: False
      with False w w1 assms(4) have e: "rs1 = ?rs3" by (simp add: on_rdb_body_def Let_def)
      have "0 < rs_rdb_remaining ?rs3" using ne r assms(2,3) by (auto simp: take_len_def body_ok_def split: if_splits)
      with e k3 st show ?thesis by (auto simp: body_ok_def)
    qed
  qed
qed

lemma on_backlog_body_kept:
  assumes "slave_linked rs" and "body_ok rs" and "rs_state rs = kRecvBacklogBody" and "on_backlog_body cl rs = (b, rs1)"
  shows "kept rs rs1 \<and> (\<not> b \<and> gave_up rs1 \<or> slave_linked rs1 \<and> body_ok rs1)"
proof (cases "link_buf rs = []")
  case True
  with assms show ?thesis by (auto simp: on_backlog_body_def kept_refl)
next
  case False
  let ?n = "take_len (length (link_buf rs)) (rs_backlog_remaining rs)"
  let ?rs2 = "(read_completed ?n (rs\<lparr>rs_backlog_buf := rs_backlog_buf rs @ take ?n (link_buf rs)\<rparr>))
      \<lparr>rs_backlog_remaining := rs_backlog_remaining rs - int ?n\<rparr>"
  have k: "kept rs ?rs2" "slave_linked ?rs2" using assms(1) by (auto intro!: kept_intro linked_read simp: linked_read)
  have f: "rs_rdb_fp ?rs2 = None" "rs_state ?rs2 = kRecvBacklogBody"
    using assms(2,3) by (auto simp: read_completed_def body_ok_def)
  show ?thesis
  proof (cases "rs_backlog_remaining ?rs2 = 0")
    case True
    obtain a rs3 where a: "ApplyBacklog cl (rs_backlog_buf ?rs2) ?rs2 = (a, rs3)" by fastforce
    note ka = ApplyBacklog_kept [OF k(2) a]
    with True a False assms(4) have
      "(b, rs1) = (if a then (True, EnterStreaming (rs3\<lparr>rs_backlog_buf := []\<rparr>)) else (False, rs3))"
      by (simp add: on_backlog_body_def Let_def split: bool.splits)
    moreover have "kept rs3 (EnterStreaming (rs3\<lparr>rs_backlog_buf := []\<rparr>))" if a
      using that ka by (auto intro!: kept_intro linked_streaming simp: linked_streaming)
    ultimately show ?thesis
      using ka f kept_trans [OF k] kept_trans [of rs rs3] linked_streaming [of "rs3\<lparr>rs_backlog_buf := []\<rparr>"]
      by (auto split: if_splits simp: body_ok_def EnterStreaming_def)
  next
    case ne: False
    with False assms(4) have e: "rs1 = ?rs2" by (simp add: on_backlog_body_def Let_def)
    have "0 < rs_backlog_remaining ?rs2" using ne assms(2,3) by (auto simp: take_len_def body_ok_def split: if_splits)
    with e k f show ?thesis by (auto simp: body_ok_def)
  qed
qed

lemma on_rdb_header_kept:
  assumes "slave_linked rs" and "body_ok rs" and "rs_state rs = kRecvRdbHeader" and "on_rdb_header env rs = (b, rs1)"
  shows "kept rs rs1 \<and> (\<not> b \<and> gave_up rs1 \<or> slave_linked rs1 \<and> body_ok rs1)"
proof -
  obtain s rs2 where t: "TryConsumeBulkHeader rs = (s, rs2)" by fastforce
  note k = TryConsumeBulkHeader_kept [OF assms(1) t]
  show ?thesis
  proof (cases s)
    case None
    with k t assms show ?thesis by (auto simp: on_rdb_header_def)
  next
    case (Some len)
    let ?rs3 = "rs2\<lparr>rs_rdb_remaining := len, rs_state := kRecvRdbBody\<rparr>"
    have l: "slave_linked rs2" using k Some by simp
    then have "slave_linked ?rs3" "kept rs2 ?rs3" by (auto intro!: kept_intro linked_state)
    with k l Some kept_trans have k3: "slave_linked ?rs3" "kept rs ?rs3" by blast+
    consider "len < 0" | "len = 0" | "0 < len" by linarith
    then show ?thesis
    proof cases
      case 1
      with t Some assms(4) have "rs1 = Slave_Fail rs2" "\<not> b" by (auto simp: on_rdb_header_def)
      with kept_Fail [OF l] gave_up_Fail [OF l] kept_trans [OF _ l] k show ?thesis by blast
    next
      case 2
      with t Some assms(4) have "finish_rdb env ?rs3 = (b, rs1)" by (simp add: on_rdb_header_def)
      from finish_rdb_kept [OF k3(1) this] kept_trans [OF k3(2,1)] show ?thesis by (auto simp: body_ok_def)
    next
      case 3
      with t Some assms(4) have "rs1 = ?rs3" by (simp add: on_rdb_header_def)
      with 3 k3 show ?thesis by (simp add: body_ok_def)
    qed
  qed
qed

lemma on_backlog_header_kept:
  assumes "slave_linked rs" and "body_ok rs" and "rs_state rs = kRecvBacklogHeader" and "on_backlog_header rs = (b, rs1)"
  shows "kept rs rs1 \<and> (\<not> b \<and> gave_up rs1 \<or> slave_linked rs1 \<and> body_ok rs1)"
proof -
  obtain s rs2 where t: "TryConsumeBulkHeader rs = (s, rs2)" by fastforce
  note k = TryConsumeBulkHeader_kept [OF assms(1) t]
  show ?thesis
  proof (cases s)
    case None
    with k t assms show ?thesis by (auto simp: on_backlog_header_def)
  next
    case (Some len)
    have l: "slave_linked rs2" using k Some by simp
    show ?thesis
    proof (cases "len < 0")
      case True
      with t Some assms(4) have "rs1 = Slave_Fail rs2" "\<not> b" by (auto simp: on_backlog_header_def)
      with kept_Fail [OF l] gave_up_Fail [OF l] kept_trans [OF _ l] k show ?thesis by blast
    next
      case False
      let ?rs3 = "rs2\<lparr>rs_backlog_remaining := len, rs_backlog_buf := [], rs_state := kRecvBacklogBody\<rparr>"
      have e: "rs1 = (if len = 0 then EnterStreaming ?rs3 else ?rs3)"
        using False t Some assms(4) by (auto simp: on_backlog_header_def Let_def)
      have "slave_linked ?rs3" using l by (auto intro!: linked_state)
      then have "slave_linked rs1 \<and> kept rs2 rs1"
        unfolding e by (auto intro!: kept_intro linked_streaming simp: linked_streaming)
      moreover have "body_ok rs1" using e False k Some assms(2,3) by (auto simp: body_ok_def EnterStreaming_def)
      ultimately show ?thesis using kept_trans [OF _ l] k by blast
    qed
  qed
qed

lemma on_wait_kept:
  assumes "slave_linked rs" and "body_ok rs" and "rs_state rs = kWaitFullresync" and "on_wait rs = (b, rs1)"
  shows "kept rs rs1 \<and> (\<not> b \<and> gave_up rs1 \<or> slave_linked rs1 \<and> body_ok rs1)"
proof -
  obtain s rs2 where t: "ConsumeSimpleString rs = (s, rs2)" by fastforce
  note k = ConsumeSimpleString_kept [OF assms(1) t]
  show ?thesis
  proof (cases s)
    case None
    with k t assms show ?thesis by (auto simp: on_wait_def)
  next
    case (Some w)
    have l: "slave_linked rs2" using k Some by simp
    have "HandleSyncReply w rs2 = (b, rs1)" using t Some assms(4) by (simp add: on_wait_def)
    from HandleSyncReply_kept [OF l this] kept_trans [OF _ l] k Some assms(2,3) show ?thesis
      by (auto simp: body_ok_def split: if_splits)
  qed
qed

lemma on_step_kept:
  assumes "slave_linked rs" and "body_ok rs" and "on_step env rs = (b, rs1)"
  shows "kept rs rs1 \<and> (\<not> b \<and> gave_up rs1 \<or> slave_linked rs1 \<and> body_ok rs1)"
proof (cases "rs_state rs")
  case kStreaming
  with assms have rs1: "rs1 = DrainStreaming (se_classes env) rs" "\<not> b" by (auto simp: on_step_def)
  with DrainStreaming_kept [OF assms(1), of "se_classes env"] kStreaming assms(2) show ?thesis
    by (auto simp: body_ok_def)
next
  case kWaitFullresync
  from on_wait_kept [OF assms(1,2) this] assms(3) this show ?thesis by (simp add: on_step_def)
next
  case kRecvRdbHeader
  from on_rdb_header_kept [OF assms(1,2) this] assms(3) this show ?thesis by (simp add: on_step_def)
next
  case kRecvRdbBody
  from on_rdb_body_kept [OF assms(1,2) this] assms(3) this show ?thesis by (simp add: on_step_def)
next
  case kRecvBacklogHeader
  from on_backlog_header_kept [OF assms(1,2) this] assms(3) this show ?thesis by (simp add: on_step_def)
next
  case kRecvBacklogBody
  from on_backlog_body_kept [OF assms(1,2) this] assms(3) this show ?thesis by (simp add: on_step_def)
qed (use assms(1) in \<open>simp_all add: slave_linked_def\<close>)

lemma on_loop_kept:
  assumes "slave_linked rs" and "body_ok rs"
  shows "kept rs (on_loop env rs) \<and> (gave_up (on_loop env rs) \<or> slave_linked (on_loop env rs) \<and> body_ok (on_loop env rs))"
  using assms
proof (induction env rs rule: on_loop.induct)
  case (1 env rs)
  obtain b rs1 where s: "on_step env rs = (b, rs1)" by fastforce
  note k = on_step_kept [OF "1.prems" s]
  show ?case
  proof (cases b)
    case True
    with k have l: "slave_linked rs1" "body_ok rs1" "kept rs rs1" by auto
    with "1.IH" [OF s [symmetric]] True kept_trans s show ?thesis by (subst (1 2 3 4) on_loop.simps) auto
  next
    case False
    with k s show ?thesis by (subst (1 2 3 4) on_loop.simps) auto
  qed
qed

section \<open>Events\<close>

text \<open>
  The object while its connection is open or closed. The last case is the one the code does not get out of: the
  request could not be sent, which closed the connection before its callbacks were set.
\<close>

definition slave_good :: "('ix, 'w, 'r) ReplicationSlave \<Rightarrow> bool \<Rightarrow> bool" where
  "slave_good rs shut \<longleftrightarrow> rs_fault rs \<noteq> None \<or> slave_failed rs \<and> shut
     \<or> slave_linked rs \<and> body_ok rs \<and> (shut \<longrightarrow> rs_state rs = kWaitFullresync)"

lemma slave_good_close:
  assumes "slave_good rs False"
  shows "slave_good (cb_close (slave_callbacks env) rs) True"
  using assms Slave_Fail_failed [of rs]
  by (auto simp: slave_good_def slave_callbacks_def) (auto simp: slave_linked_def slave_base_def)

interpretation slave_owner: transfer_owner "slave_callbacks env" "\<lambda>rs c. slave_good rs (tc_closed c)" for env
proof
  fix s :: "('a, 'b, 'c) ReplicationSlave" and c c' :: TcpConn
  assume "slave_good s (tc_closed c)" "\<not> tc_closed c" "tc_closed c'"
  then show "slave_good (cb_close (slave_callbacks env) s) (tc_closed c')" using slave_good_close by simp
  then show "slave_good (cb_close (slave_callbacks env) (fst (cb_done (slave_callbacks env) False (s, c1)))) (tc_closed c')"
    for c1 by (simp add: slave_callbacks_def)
qed (auto simp: slave_callbacks_def intro: conn_ext_refl)

text \<open>What holds between events, and the events: an epoll event with any answers of the kernel, the timer.\<close>

definition slave_inv :: "('ix, 'w, 'r) ReplicationSlave \<Rightarrow> bool" where
  "slave_inv rs \<longleftrightarrow> rs_fault rs \<noteq> None
     \<or> (case rs_conn rs of None \<Rightarrow> slave_failed rs | Some c \<Rightarrow> slave_good rs (tc_closed c))"

lemma slave_inv_conn: "slave_inv rs \<Longrightarrow> rs_fault rs = None \<Longrightarrow> rs_conn rs = Some c \<Longrightarrow> tc_inv c \<and> \<not> tc_sendfile_done c"
  by (auto simp: slave_inv_def slave_good_def slave_failed_def slave_linked_def slave_base_def)

definition kernel_answers :: "write_answer list \<Rightarrow> read_answer list \<Rightarrow> ('ix, 'w, 'r) ReplicationSlave \<Rightarrow> ('ix, 'w, 'r) ReplicationSlave" where
  "kernel_answers ws rds rs = rs\<lparr>rs_conn := map_option (\<lambda>c. c\<lparr>tc_writes := ws, tc_reads := rds\<rparr>) (rs_conn rs)\<rparr>"

lemma read_loop_conn:
  "read_loop rds d c = (r, c') \<Longrightarrow>
     tc_inv c' = tc_inv c \<and> tc_closed c' = tc_closed c \<and> tc_sendfile_done c' = tc_sendfile_done c"
  by (induction rds d c rule: read_loop.induct) (auto split: if_splits)

definition conn_good :: "TcpConn \<Rightarrow> bool" where
  "conn_good c \<longleftrightarrow> tc_inv c \<and> \<not> tc_sendfile_done c"

lemma close_good:
  assumes "slave_good rs False" and "conn_good c" and "\<not> tc_closed c"
    and "TcpConn_Close (slave_callbacks env) (rs, c) = (rs1, c1)"
  shows "slave_good rs1 True \<and> tc_closed c1 \<and> conn_good c1"
  using Close_no_done [of c "slave_callbacks env" rs] slave_good_close [OF assms(1), of env] assms(2-4)
  by (auto simp: conn_good_def)

lemma linked_conn: "slave_linked rs \<Longrightarrow> conn_good c \<Longrightarrow> slave_linked (rs\<lparr>rs_conn := Some c\<rparr>)"
  by (simp add: slave_linked_def slave_base_def conn_good_def)

lemma body_ok_conn [simp]: "body_ok (rs\<lparr>rs_conn := c\<rparr>) = body_ok rs"
  by (simp add: body_ok_def)

lemma OnReadable_good:
  assumes "slave_linked rs" and "body_ok rs" and "conn_good c" and "\<not> tc_closed c"
    and "rs1 = Slave_OnReadable env (rs\<lparr>rs_conn := Some c\<rparr>)"
  shows "\<exists>c1. rs_conn rs1 = Some c1 \<and> slave_good rs1 (tc_closed c1) \<and> conn_good c1"
proof -
  let ?rs = "rs\<lparr>rs_conn := Some c\<rparr>"
  have l: "slave_linked ?rs" "body_ok ?rs" using linked_conn [OF assms(1,3)] assms(2) by simp_all
  have rs1: "rs1 = on_loop env ?rs" using assms(1,5) by (simp add: Slave_OnReadable_def slave_linked_def)
  note k = on_loop_kept [OF l, of env, folded rs1]
  then obtain c1 where c1: "rs_conn rs1 = Some c1" by (auto simp: kept_def)
  from k c1 have g: "conn_good c1"
    by (auto simp: kept_def slave_failed_def slave_linked_def slave_base_def conn_good_def)
  consider "rs_fault rs1 \<noteq> None" | "slave_failed rs1" | "slave_linked rs1" "body_ok rs1"
    using k by (auto simp: gave_up_def)
  then have "slave_good rs1 (tc_closed c1)"
  proof cases
    case 2
    with c1 show ?thesis by (simp add: slave_good_def slave_failed_def)
  next
    case 3
    then have "link_of rs1 = link_of ?rs" using k by (auto simp: kept_def slave_failed_def slave_linked_def)
    then have "c1\<lparr>tc_input_buffer := []\<rparr> = c\<lparr>tc_input_buffer := []\<rparr>" using c1 by (simp add: link_of_def)
    from arg_cong [OF this, of tc_closed] 3 assms(4) show ?thesis by (simp add: slave_good_def)
  qed (simp add: slave_good_def)
  with c1 g show ?thesis by blast
qed

lemma HandleRead_good:
  assumes "slave_good rs False" and "rs_fault rs = None" and "conn_good c" and "\<not> tc_closed c"
    and "HandleRead (slave_callbacks env) (rs, c) = (rs1, c1)"
  shows "slave_good rs1 (tc_closed c1) \<and> conn_good c1"
proof -
  obtain r c2 where l: "read_loop (tc_reads c) False c = (r, c2)" by fastforce
  with read_loop_conn [OF l] assms(3,4) have c2: "conn_good c2" "\<not> tc_closed c2" by (auto simp: conn_good_def)
  show ?thesis
  proof (cases r)
    case None
    with l assms(5) have "TcpConn_Close (slave_callbacks env) (rs, c2) = (rs1, c1)" by (simp add: HandleRead_def)
    from close_good [OF assms(1) c2 this] show ?thesis by simp
  next
    case (Some d)
    show ?thesis
    proof (cases "d \<and> rs_read_cb rs")
      case False
      with l Some assms(1,5) c2 show ?thesis by (auto simp: HandleRead_def slave_callbacks_def split: if_splits)
    next
      case True
      let ?rs1 = "Slave_OnReadable env (rs\<lparr>rs_conn := Some c2\<rparr>)"
      have e: "rs1 = ?rs1" "c1 = the (rs_conn ?rs1)"
        using True l Some assms(5) by (auto simp: HandleRead_def slave_callbacks_def Let_def)
      from assms(1,2) have "slave_linked rs" "body_ok rs" by (auto simp: slave_good_def)
      from OnReadable_good [OF this c2 refl, of env] e show ?thesis by auto
    qed
  qed
qed

lemma HandleWrite_good:
  assumes "slave_good rs (tc_closed c)" and "conn_good c" and "\<not> tc_closed c"
  shows "\<exists>rs1 c1. HandleWrite (slave_callbacks env) rs c = Some (rs1, c1) \<and> slave_good rs1 (tc_closed c1) \<and> conn_good c1"
proof -
  have "slave_owner.write_ready c" using assms(2,3) by (simp add: slave_owner.write_ready_def conn_good_def)
  from slave_owner.HandleWrite_returns [OF this, of env] assms(1) obtain rs1 c1 where
    "HandleWrite (slave_callbacks env) rs c = Some (rs1, c1)" "slave_owner.written c c1" "slave_good rs1 (tc_closed c1)"
    unfolding slave_owner.returns_def by blast
  moreover from this(2) assms(2) have "conn_good c1" by (auto simp: slave_owner.written_def conn_good_def)
  ultimately show ?thesis by blast
qed

lemma HandleIO_good:
  assumes "slave_good rs False" and "rs_fault rs = None" and "conn_good c" and "\<not> tc_closed c"
  shows "\<exists>rs1 c1. HandleIO (slave_callbacks env) ev (rs, c) = Some (rs1, c1) \<and> slave_good rs1 (tc_closed c1) \<and> conn_good c1"
proof -
  obtain rs1 c1 where r: "(if ev_in ev then HandleRead (slave_callbacks env) (rs, c) else (rs, c)) = (rs1, c1)" by fastforce
  have g1: "slave_good rs1 (tc_closed c1) \<and> conn_good c1"
    using HandleRead_good [OF assms, of env rs1 c1] r assms by (auto split: if_splits)
  show ?thesis
  proof (cases "tc_closed c1")
    case True
    with r g1 assms(4) show ?thesis by (simp add: HandleIO_def)
  next
    case False
    obtain rs2 c2 where w: "(if ev_out ev then HandleWrite (slave_callbacks env) rs1 c1 else Some (rs1, c1)) = Some (rs2, c2)"
      and g2: "slave_good rs2 (tc_closed c2)" "conn_good c2"
      using HandleWrite_good [of rs1 c1 env] g1 False by (cases "ev_out ev") auto
    obtain rs3 c3 where cl: "TcpConn_Close (slave_callbacks env) (rs2, c2) = (rs3, c3)" by fastforce
    show ?thesis
    proof (cases "\<not> tc_closed c2 \<and> ev_err ev")
      case True
      with close_good [OF _ g2(2) _ cl] g2 r w False assms(4) cl show ?thesis by (auto simp: HandleIO_def)
    next
      case nerr: False
      with g2 r w False assms(4) show ?thesis by (auto simp: HandleIO_def)
    qed
  qed
qed

lemma slave_good_conn: "slave_good rs (tc_closed c) \<Longrightarrow> conn_good c \<Longrightarrow> slave_inv (rs\<lparr>rs_conn := Some c\<rparr>)"
  by (auto simp: slave_inv_def slave_good_def linked_conn) (auto simp: slave_failed_def slave_base_def conn_good_def)

lemma slave_io_inv:
  assumes "slave_inv rs"
  shows "\<exists>rs'. slave_io env ev (kernel_answers ws rds rs) = Some rs' \<and> slave_inv rs'"
proof -
  let ?rs = "kernel_answers ws rds rs"
  show ?thesis
  proof (cases "rs_fault rs = None \<and> rs_conn rs \<noteq> None")
    case False
    then have "slave_io env ev ?rs = Some ?rs" by (auto simp: slave_io_def kernel_answers_def split: option.split)
    moreover have "slave_inv ?rs" using False assms by (auto simp: slave_inv_def kernel_answers_def slave_failed_def slave_base_def)
    ultimately show ?thesis by blast
  next
    case True
    then obtain c where c: "rs_conn rs = Some c" by auto
    let ?c = "c\<lparr>tc_writes := ws, tc_reads := rds\<rparr>"
    have e: "?rs = rs\<lparr>rs_conn := Some ?c\<rparr>" using c by (simp add: kernel_answers_def)
    have g: "conn_good ?c" using slave_inv_conn [OF assms] True c by (simp add: conn_good_def tc_inv_def split: option.splits)
    have sg: "slave_good rs (tc_closed c)" using assms c True by (simp add: slave_inv_def)
    then have sg': "slave_good ?rs (tc_closed ?c)" 
      using slave_good_conn [of rs ?c] g True by (simp add: e slave_inv_def)
    show ?thesis
    proof (cases "tc_closed c")
      case cl: True
      then have "slave_io env ev ?rs = Some ?rs" using True by (simp add: slave_io_def e HandleIO_def)
      moreover have "slave_inv ?rs" using sg' by (simp add: slave_inv_def e)
      ultimately show ?thesis by blast
    next
      case False
      from HandleIO_good [of ?rs ?c env ev] sg' g False True obtain rs1 c1 where
        "HandleIO (slave_callbacks env) ev (?rs, ?c) = Some (rs1, c1)" "slave_good rs1 (tc_closed c1)" "conn_good c1"
        by (auto simp: e)
      with slave_good_conn [of rs1 c1] True show ?thesis by (auto simp: slave_io_def e)
    qed
  qed
qed

section \<open>Runs\<close>

lemma Send_plain_good:
  assumes "conn_good c" and "tc_sendfile c = None"
  shows "conn_good (snd (snd (TcpConn_Send (plain_callbacks close) data (s, c))))"
proof -
  obtain r s' c' where t: "TcpConn_Send (plain_callbacks close) data (s, c) = (r, s', c')" by (metis prod_cases3)
  with Send_ext [OF _ t] assms show ?thesis by (auto simp: conn_good_def conn_ext_def tc_inv_def)
qed

lemma ResetLink_fields:
  "slave_base rs \<Longrightarrow> slave_base (ResetLink rs)" "rs_conn (ResetLink rs) = None" "rs_state (ResetLink rs) = kInit"
  "rs_rdb_fp (ResetLink rs) = None" "\<not> rs_read_cb (ResetLink rs)" "\<not> rs_close_cb (ResetLink rs)"
  "rs_reconnect_timer (ResetLink rs) = None" "rs_fault (ResetLink rs) = rs_fault rs"
  "rs_repl_offset (ResetLink rs) = rs_repl_offset rs" "rs_engine (ResetLink rs) = rs_engine rs"
  "rs_master_replid (ResetLink rs) = rs_master_replid rs" "rs_have_offset (ResetLink rs) = rs_have_offset rs"
  "rs_backlog_buf (ResetLink rs) = []" "rs_stream_buf (ResetLink rs) = []"
  by (auto simp: ResetLink_def CancelReconnectTimer_def close_rdb_def slave_base_def Let_def split: option.splits)

text \<open>\<open>link\<close>: the connector fails, or the new connection with what its sends will answer.\<close>

definition new_link :: "write_answer list option \<Rightarrow> TcpConn option" where
  "new_link link = map_option (\<lambda>ws. TcpConn_new ws []) link"

lemma TryConnect_inv:
  assumes "slave_base rs" and "rs_fault rs = None"
  shows "slave_inv (TryConnect (new_link link) rs) \<and> rs_fault (TryConnect (new_link link) rs) = None"
proof -
  have go: "\<not> rs_stopping rs" "rs_ready rs" using assms(1) by (simp_all add: slave_base_def)
  note r = ResetLink_fields(1) [OF assms(1)] ResetLink_fields(2-) [of rs]
  show ?thesis
  proof (cases link)
    case None
    then have "TryConnect (new_link link) rs = ScheduleReconnect (ResetLink rs)" using go by (simp add: TryConnect_def new_link_def)
    moreover have "slave_failed (ScheduleReconnect (ResetLink rs))"
      using r NextBackoffMs_bounds [of "rs_backoff_ms (ResetLink rs)"]
      by (auto simp: ScheduleReconnect_def slave_failed_def slave_base_def CancelReconnectTimer_def Let_def)
    moreover have "rs_conn (ScheduleReconnect (ResetLink rs)) = None" "rs_fault (ScheduleReconnect (ResetLink rs)) = None"
      using r assms(2) by (auto simp: ScheduleReconnect_def CancelReconnectTimer_def Let_def)
    ultimately show ?thesis by (simp add: slave_inv_def)
  next
    case (Some ws)
    let ?c = "snd (snd (TcpConn_Send (plain_callbacks (\<lambda>s. s)) (psync_request (ResetLink rs)) ((), TcpConn_new ws [])))"
    have g: "conn_good ?c" by (intro Send_plain_good) (simp_all add: conn_good_def, simp_all add: TcpConn_new_def)
    have e: "TryConnect (new_link link) rs =
        (ResetLink rs)\<lparr>rs_conn := Some ?c, rs_state := kWaitFullresync, rs_read_cb := True, rs_close_cb := True\<rparr>"
      using go Some by (simp add: TryConnect_def new_link_def Let_def)
    have "slave_linked (TryConnect (new_link link) rs)" "body_ok (TryConnect (new_link link) rs)"
      using r g by (auto simp: e slave_linked_def slave_base_def body_ok_def conn_good_def)
    moreover have "rs_conn (TryConnect (new_link link) rs) \<noteq> None" "rs_state (TryConnect (new_link link) rs) = kWaitFullresync"
      "rs_fault (TryConnect (new_link link) rs) = None"
      using r assms(2) by (simp_all add: e)
    ultimately show ?thesis by (auto simp: slave_inv_def slave_good_def)
  qed
qed

text \<open>
  The object as \<^verbatim>\<open>Start\<close> leaves it; then events on the connection with any answers of the kernel, and the
  reconnect timer.
\<close>

definition slave_init :: "('ix, 'w, 'r) ReplicationSlave \<Rightarrow> bool" where
  "slave_init rs \<longleftrightarrow> (\<exists>index kv fs ho link mhost port.
     Slave_Start ho (new_link link) mhost port (ReplicationSlave_new True index kv fs) = (True, rs))"

inductive slave_step :: "('ix, 'w, 'r) slave_env \<Rightarrow> ('ix, 'w, 'r) ReplicationSlave \<Rightarrow> ('ix, 'w, 'r) ReplicationSlave \<Rightarrow> bool"
  for env where
  io: "slave_io env ev (kernel_answers ws rds rs) = Some rs' \<Longrightarrow> slave_step env rs rs'"
| timer: "rs_reconnect_timer rs \<noteq> None \<Longrightarrow> slave_step env rs (reconnect_fired (new_link link) rs)"

interpretation slave: transition_system slave_init "slave_step env" for env .

lemma slave_init_inv: "slave_init rs \<Longrightarrow> slave_inv rs \<and> rs_fault rs = None"
  by (auto simp: slave_init_def Slave_Start_def split: if_splits intro!: TryConnect_inv [THEN conjunct1]
      TryConnect_inv [THEN conjunct2])
    (simp_all add: slave_base_def ReplicationSlave_new_def kMinBackoffMs_def kMaxBackoffMs_def)

lemma slave_step_inv: "slave_step env rs rs' \<Longrightarrow> slave_inv rs \<Longrightarrow> slave_inv rs'"
proof (induction rule: slave_step.induct)
  case (io ev ws rds rs rs')
  with slave_io_inv [of rs env ev ws rds] show ?case by auto
next
  case (timer rs link)
  show ?case
  proof (cases "rs_fault rs = None")
    case False
    with timer show ?thesis by (simp add: reconnect_fired_def)
  next
    case True
    with timer have "slave_failed rs"
      by (auto simp: slave_inv_def slave_good_def slave_linked_def split: option.splits)
    then have "slave_base (rs\<lparr>rs_reconnect_timer := None\<rparr>)" by (simp add: slave_failed_def slave_base_def)
    with TryConnect_inv [of "rs\<lparr>rs_reconnect_timer := None\<rparr>" link] True timer show ?thesis
      by (simp add: reconnect_fired_def)
  qed
qed

lemma slave_runs_inv: "slave_init rs0 \<Longrightarrow> (slave_step env)\<^sup>*\<^sup>* rs0 rs \<Longrightarrow> slave_inv rs"
  by (erule rtranclp_induct) (auto simp: slave_init_inv dest: slave_step_inv)

text \<open>
  C9. The replica is never left without a way on, but for one case. In every run from a successful start, with
  any answers of the kernel and any outcome of connecting, as long as no exception has escaped: every event is
  handled to its end; while the object is in kError, and only then, its reconnect timer is pending, with a
  delay between one second and one minute, and no temporary file is open; otherwise its callbacks are set on
  a connection, which is open unless the object still waits for the answer to its request. The temporary file is
  open only inside an RDB body, and inside a body some bytes of it are outstanding. The delay and the offset
  stay in range.
\<close>

theorem slave_never_stranded:
  assumes "slave_init rs0" and "(slave_step env)\<^sup>*\<^sup>* rs0 rs" and "rs_fault rs = None"
  shows "(\<forall>ev ws rds. slave_io env ev (kernel_answers ws rds rs) \<noteq> None)
    \<and> rs_repl_offset rs < 2 ^ 64 \<and> 1000 \<le> rs_backoff_ms rs \<and> rs_backoff_ms rs \<le> 60000
    \<and> (case rs_reconnect_timer rs of
         Some t \<Rightarrow> rs_state rs = kError \<and> 1000 \<le> t \<and> t \<le> 60000 \<and> rs_rdb_fp rs = None
       | None \<Rightarrow> rs_state rs \<noteq> kError \<and> rs_read_cb rs \<and> rs_close_cb rs
           \<and> (\<exists>c. rs_conn rs = Some c \<and> (tc_closed c \<longrightarrow> rs_state rs = kWaitFullresync)))
    \<and> (rs_rdb_fp rs \<noteq> None \<longrightarrow> rs_state rs = kRecvRdbBody) \<and> (rs_state rs = kRecvRdbBody \<longrightarrow> 0 < rs_rdb_remaining rs)
    \<and> (rs_state rs = kRecvBacklogBody \<longrightarrow> 0 < rs_backlog_remaining rs)"
proof -
  have inv: "slave_inv rs" using slave_runs_inv [OF assms(1,2)] .
  have io: "slave_io env ev (kernel_answers ws rds rs) \<noteq> None" for ev ws rds
    using slave_io_inv [OF inv, of env ev ws rds] by auto
  from inv assms(3) consider "slave_failed rs" | c where "rs_conn rs = Some c" "slave_linked rs" "body_ok rs"
    "tc_closed c \<longrightarrow> rs_state rs = kWaitFullresync"
    by (auto simp: slave_inv_def slave_good_def split: option.splits)
  then show ?thesis
  proof cases
    case 1
    with io show ?thesis
      by (auto simp: slave_failed_def slave_base_def kMinBackoffMs_def kMaxBackoffMs_def)
  next
    case 2
    with io show ?thesis
      by (auto simp: slave_linked_def slave_base_def body_ok_def kMinBackoffMs_def kMaxBackoffMs_def)
  qed
qed

definition sample_started :: "(nat, bytes, unit) ReplicationSlave" where
  "sample_started = snd (Slave_Start good_host (new_link None) ''m'' 1 (ReplicationSlave_new True None None (\<lambda>_. None)))"

theorem slave_never_stranded_witness:
  "\<exists>t. rs_reconnect_timer (reconnect_fired (new_link None) sample_started) = Some t \<and> 1000 \<le> t \<and> t \<le> 60000
     \<and> rs_state (reconnect_fired (new_link None) sample_started) = kError"
proof -
  have "fst (Slave_Start good_host (new_link None) ''m'' 1 (ReplicationSlave_new True None None (\<lambda>_. None) :: (nat, bytes, unit) ReplicationSlave))"
    by (simp add: Slave_Start_def good_host_def ReplicationSlave_new_def)
  then have i: "slave_init sample_started"
    unfolding slave_init_def sample_started_def by (metis prod.collapse)
  have t: "rs_reconnect_timer sample_started \<noteq> None" "rs_fault sample_started = None"
    "rs_state (reconnect_fired (new_link None) sample_started) = kError"
    "rs_fault (reconnect_fired (new_link None) sample_started) = None"
    "rs_reconnect_timer (reconnect_fired (new_link None) sample_started) \<noteq> None"
    by (simp_all add: sample_started_def Slave_Start_def TryConnect_def new_link_def good_host_def ReplicationSlave_new_def
        ScheduleReconnect_def ResetLink_def CancelReconnectTimer_def close_rdb_def reconnect_fired_def Let_def)
  have "(slave_step undefined)\<^sup>*\<^sup>* sample_started (reconnect_fired (new_link None) sample_started)"
    by (intro r_into_rtranclp slave_step.timer t)
  from slave_never_stranded [OF i this t(4)] t(3,5) show ?thesis by auto
qed

end
