(* ===== verification/SlaveSync.thy ===== *)
theory SlaveSync
  imports SlaveLink ReplicationMaster
begin

text \<open>
  What a replica makes of the bytes it receives. The answer of the master is a sequence of units (status line,
  RDB header, RDB, backlog header, backlog, frames); \<open>awaits\<close> says that a unit is processed alike however it
  is cut into chunks, and composing the units gives the result of a full resynchronisation, of a reconnection
  with +CONTINUE, and of the cases in which the protocol goes wrong.
\<close>

section \<open>Frames\<close>

lemma consume_frames_wait:
  "buf = [] \<or> DecodeArrayOfBulk buf = DNeedMore \<Longrightarrow> consume_frames cl off buf en = (CfOk off, en)"
  by (subst consume_frames.simps) auto

lemma consume_frames_bad:
  "buf \<noteq> [] \<Longrightarrow> DecodeArrayOfBulk buf = DError \<Longrightarrow> consume_frames cl off buf en = (CfErr ''bad RESP command frame'', en)"
  "buf \<noteq> [] \<Longrightarrow> DecodeArrayOfBulk buf = DLengthError \<Longrightarrow> consume_frames cl off buf en = (CfThrow, en)"
  by (subst consume_frames.simps, simp)+

lemma consume_frames_frame:
  assumes "DecodeArrayOfBulk buf = DOk tokens n" and "FromTokens (- 1) tokens default_RequestContext = (fs, ctx)"
  shows "consume_frames cl off buf en =
     (if fs \<noteq> RcOk then (CfErr ''bad command in stream'', en)
      else case ApplyMutation cl ctx kAofReplay en of
             None \<Rightarrow> (CfNoReturn, en)
           | Some (r, en1) \<Rightarrow>
               if \<not> ar_ok r then (CfErr (''apply: '' @ ar_err r), en1)
               else consume_frames cl (off + n) (drop n buf) en1)"
  using assms DecodeArrayOfBulk_take [OF assms(1)] by (subst consume_frames.simps) auto

text \<open>More input does not change what is done with the frames that are complete.\<close>

lemma consume_frames_append:
  "consume_frames cl off buf en = (CfOk off1, en1) \<Longrightarrow>
   off \<le> off1 \<and> off1 - off \<le> length buf
   \<and> consume_frames cl off (buf @ x) en = consume_frames cl off1 (drop (off1 - off) buf @ x) en1"
proof (induction cl off buf en arbitrary: off1 en1 rule: consume_frames.induct)
  case (1 cl off buf en)
  show ?case
  proof (cases "buf = [] \<or> DecodeArrayOfBulk buf = DNeedMore")
    case True
    with "1.prems" consume_frames_wait [OF True, of cl off en] show ?thesis by simp
  next
    case False
    with "1.prems" obtain tokens n where d: "DecodeArrayOfBulk buf = DOk tokens n"
      by (cases "DecodeArrayOfBulk buf") (auto simp: consume_frames_bad)
    obtain fs ctx where f: "FromTokens (- 1) tokens default_RequestContext = (fs, ctx)" by fastforce
    from "1.prems" obtain r en2 where a: "fs = RcOk" "ApplyMutation cl ctx kAofReplay en = Some (r, en2)" "ar_ok r"
      "consume_frames cl (off + n) (drop n buf) en2 = (CfOk off1, en1)"
      by (auto simp: consume_frames_frame [OF d f] split: if_splits option.splits)
    have d': "DecodeArrayOfBulk (buf @ x) = DOk tokens n" using DecodeArrayOfBulk_append [of buf x] d by simp
    note n = DecodeArrayOfBulk_take [OF d]
    have ne: "buf \<noteq> []" using n by auto
    have ih: "off + n \<le> off1 \<and> off1 - (off + n) \<le> length (drop n buf)
      \<and> consume_frames cl (off + n) (drop n buf @ x) en2
        = consume_frames cl off1 (drop (off1 - (off + n)) (drop n buf) @ x) en1"
      by (rule "1.IH" [OF ne d f [symmetric] _ a(2) refl]) (use a in simp_all)
    have "consume_frames cl off (buf @ x) en = consume_frames cl (off + n) (drop n buf @ x) en2"
      using a(1-3) n by (simp add: consume_frames_frame [OF d' f])
    with ih n show ?thesis by auto
  qed
qed

lemma consume_frames_error:
  "consume_frames cl off buf en = (r, en1) \<Longrightarrow> (\<And>n. r \<noteq> CfOk n) \<Longrightarrow> consume_frames cl off (buf @ x) en = (r, en1)"
proof (induction cl off buf en arbitrary: r en1 rule: consume_frames.induct)
  case (1 cl off buf en)
  have ne: "buf \<noteq> []" "DecodeArrayOfBulk buf \<noteq> DNeedMore"
    using "1.prems"(1) "1.prems"(2) [of off] by (auto simp: consume_frames_wait)
  note d = DecodeArrayOfBulk_append [OF ne(2), of x]
  show ?case
  proof (cases "DecodeArrayOfBulk buf")
    case (DOk tokens n)
    obtain fs ctx where f: "FromTokens (- 1) tokens default_RequestContext = (fs, ctx)" by fastforce
    note n = DecodeArrayOfBulk_take [OF DOk] and fr = consume_frames_frame [OF DOk f]
    note fr' = consume_frames_frame [OF d [unfolded DOk] f]
    show ?thesis
    proof (cases "fs = RcOk \<and> (\<exists>res en2. ApplyMutation cl ctx kAofReplay en = Some (res, en2) \<and> ar_ok res)")
      case True
      then obtain res en2 where a: "fs = RcOk" "ApplyMutation cl ctx kAofReplay en = Some (res, en2)" "ar_ok res" by blast
      have run: "consume_frames cl (off + n) (drop n buf) en2 = (r, en1)" using "1.prems"(1) a by (simp add: fr)
      have "consume_frames cl (off + n) (drop n buf @ x) en2 = (r, en1)"
        by (rule "1.IH" [OF ne(1) DOk f [symmetric] _ a(2) refl _ run "1.prems"(2)]) (use a in simp_all)
      with a n show ?thesis by (simp add: fr')
    next
      case False
      with "1.prems"(1) show ?thesis by (auto simp: fr fr' split: option.splits if_splits)
    qed
  qed (use "1.prems"(1) ne d in \<open>simp_all add: consume_frames_bad\<close>)
qed

lemma consume_frames_writes:
  assumes "\<forall>c \<in> set cs. write_ok c" and "replay_ctxs cl cs e = Some e'"
  shows "consume_frames cl off (concat (map write_frame cs) @ rest) e
       = consume_frames cl (off + length (concat (map write_frame cs))) rest e'"
  using assms
proof (induction cs arbitrary: e off)
  case (Cons c cs)
  then have ok: "write_ok c" by simp
  from Cons.prems(2) obtain ar e1 where app: "ApplyMutation cl c kAofReplay e = Some (ar, e1)"
    and ar: "ar_ok ar" and rest: "replay_ctxs cl cs e1 = Some e'"
    by (auto split: option.splits if_splits)
  let ?buf = "write_frame c @ concat (map write_frame cs) @ rest"
  have w: "is_write (cmd c)" using ok by (simp add: write_ok_def)
  note dec = write_frame_decodes [OF ok EncodeWriteCommand_tokens [OF w]]
  have ne: "write_frame c \<noteq> []" using DecodeArrayOfBulk_take [OF dec(1) [of "[]"]] by auto
  have "consume_frames cl off ?buf e
      = consume_frames cl (off + length (write_frame c)) (concat (map write_frame cs) @ rest) e1"
    using dec(1) [of "concat (map write_frame cs) @ rest"] dec(2) [of "- 1" default_RequestContext] ar app ne
    by (subst consume_frames.simps) (simp add: ApplyMutation_write_part [OF w])
  with Cons.IH [OF _ rest, of "off + length (write_frame c)"] Cons.prems(1) show ?case by (simp add: add.assoc)
qed simp


lemma consume_frames_shift:
  "consume_frames cl (k + off) buf en =
     (case consume_frames cl off buf en of (CfOk n, e) \<Rightarrow> (CfOk (k + n), e) | r \<Rightarrow> r)"
proof (induction cl off buf en rule: consume_frames.induct)
  case (1 cl off buf en)
  show ?case
  proof (cases "buf = [] \<or> DecodeArrayOfBulk buf = DNeedMore")
    case True
    then show ?thesis using consume_frames_wait [OF True, of cl] by simp
  next
    case False
    show ?thesis
    proof (cases "DecodeArrayOfBulk buf")
      case (DOk tokens n)
      obtain fs ctx where f: "FromTokens (- 1) tokens default_RequestContext = (fs, ctx)" by fastforce
      show ?thesis
      proof (cases "fs = RcOk \<and> (\<exists>r en2. ApplyMutation cl ctx kAofReplay en = Some (r, en2) \<and> ar_ok r)")
        case True
        then obtain r en2 where a: "fs = RcOk" "ApplyMutation cl ctx kAofReplay en = Some (r, en2)" "ar_ok r" by blast
        have "consume_frames cl (k + (off + n)) (drop n buf) en2 =
            (case consume_frames cl (off + n) (drop n buf) en2 of (CfOk n, e) \<Rightarrow> (CfOk (k + n), e) | r \<Rightarrow> r)"
          by (rule "1.IH" [OF _ DOk f [symmetric] _ a(2) refl]) (use False a in simp_all)
        with a show ?thesis by (simp add: consume_frames_frame [OF DOk f] add.assoc)
      next
        case nok: False
        then show ?thesis by (auto simp: consume_frames_frame [OF DOk f] split: option.splits)
      qed
    qed (use False in \<open>simp_all add: consume_frames_bad\<close>)
  qed
qed

section \<open>Input\<close>

definition feed :: "bytes \<Rightarrow> ('ix, 'w, 'r) ReplicationSlave \<Rightarrow> ('ix, 'w, 'r) ReplicationSlave" where
  "feed x rs = rs\<lparr>rs_conn := map_option (\<lambda>c. c\<lparr>tc_input_buffer := tc_input_buffer c @ x\<rparr>) (rs_conn rs)\<rparr>"

lemma link_buf_feed [simp]: "rs_conn rs \<noteq> None \<Longrightarrow> link_buf (feed x rs) = link_buf rs @ x"
  by (auto simp: link_buf_def feed_def)

lemma feed_sel [simp]:
  "rs_state (feed x rs) = rs_state rs" "rs_engine (feed x rs) = rs_engine rs" "rs_fault (feed x rs) = rs_fault rs"
  "rs_rdb_fp (feed x rs) = rs_rdb_fp rs" "rs_rdb_remaining (feed x rs) = rs_rdb_remaining rs"
  "rs_backlog_remaining (feed x rs) = rs_backlog_remaining rs" "rs_backlog_buf (feed x rs) = rs_backlog_buf rs"
  "rs_stream_buf (feed x rs) = rs_stream_buf rs" "rs_files (feed x rs) = rs_files rs"
  "rs_conn (feed x rs) = None \<longleftrightarrow> rs_conn rs = None"
  by (simp_all add: feed_def)

lemma feed_feed: "feed y (feed x rs) = feed (x @ y) rs"
  by (simp add: feed_def option.map_comp comp_def cong: option.map_cong)

lemma feed_Nil: "feed [] rs = rs"
  by (simp add: feed_def option.map_ident)

lemma read_completed_feed:
  "link_buf rs = [] \<Longrightarrow> n = length x \<Longrightarrow> read_completed n (feed (x @ y) rs) = feed y rs"
  by (cases "rs_conn rs") (simp_all add: read_completed_def feed_def link_buf_def ReadCompleted_drop)

text \<open>What a chunk that arrives makes of the object.\<close>

definition take_in :: "('ix, 'w, 'r) slave_env \<Rightarrow> ('ix, 'w, 'r) ReplicationSlave \<Rightarrow> bytes \<Rightarrow> ('ix, 'w, 'r) ReplicationSlave" where
  "take_in env rs x = on_loop env (feed x rs)"

text \<open>
  The object \<open>rs\<close> awaits the unit \<open>c\<close>: whatever the chunks, once \<open>c\<close> is complete it is where \<open>rs'\<close> is with the
  bytes that followed \<open>c\<close>.
\<close>

definition awaits ::
  "('ix, 'w, 'r) slave_env \<Rightarrow> ('ix, 'w, 'r) ReplicationSlave \<Rightarrow> bytes \<Rightarrow> ('ix, 'w, 'r) ReplicationSlave \<Rightarrow> bool" where
  "awaits env rs c rs' \<longleftrightarrow>
     (\<forall>xs x y. strict_prefix (concat xs) c \<longrightarrow> concat xs @ x = c @ y \<longrightarrow>
        take_in env (foldl (take_in env) rs xs) x = take_in env rs' y)"

lemma split_at_unit:
  assumes "concat chunks = c @ rest" and "c \<noteq> []"
  shows "\<exists>xs x zs y. chunks = xs @ x # zs \<and> strict_prefix (concat xs) c \<and> concat xs @ x = c @ y \<and> rest = y @ concat zs"
  using assms
proof (induction chunks arbitrary: c)
  case (Cons a chunks)
  show ?case
  proof (cases "length c \<le> length a")
    case True
    with Cons.prems obtain y where y: "a = c @ y" "rest = y @ concat chunks"
      by (auto simp: append_eq_append_conv2)
    with Cons.prems(2) show ?thesis by (intro exI [of _ "[]"] exI [of _ a] exI [of _ chunks] exI [of _ y]) (simp add: strict_prefix_def)
  next
    case False
    with Cons.prems obtain c' where c': "c = a @ c'" "concat chunks = c' @ rest" "c' \<noteq> []"
      by (auto simp: append_eq_append_conv2)
    from Cons.IH [OF c'(2,3)] obtain xs x zs y where
      "chunks = xs @ x # zs" "strict_prefix (concat xs) c'" "concat xs @ x = c' @ y" "rest = y @ concat zs" by blast
    with c' show ?thesis by (intro exI [of _ "a # xs"] exI [of _ x] exI [of _ zs] exI [of _ y]) (simp add: strict_prefix_def)
  qed
qed simp

lemma awaits_chunks:
  assumes "awaits env rs c rs'" and "c \<noteq> []" and "concat chunks = c @ rest"
  shows "\<exists>chunks'. concat chunks' = rest \<and> chunks' \<noteq> [] \<and> foldl (take_in env) rs chunks = foldl (take_in env) rs' chunks'"
proof -
  from split_at_unit [OF assms(3,2)] obtain xs x zs y where
    s: "chunks = xs @ x # zs" "strict_prefix (concat xs) c" "concat xs @ x = c @ y" "rest = y @ concat zs" by blast
  then have "foldl (take_in env) rs chunks = foldl (take_in env) rs' (y # zs)"
    using assms(1) by (simp add: awaits_def)
  with s(4) show ?thesis by (intro exI [of _ "y # zs"]) simp
qed

text \<open>\<open>part p\<close> is where the object is when it has got the part \<open>p\<close> of the unit.\<close>

lemma parts_run:
  assumes "part [] = rs" and step: "\<And>p x. strict_prefix (p @ x) c \<Longrightarrow> take_in env (part p) x = part (p @ x)"
  shows "strict_prefix (concat xs) c \<Longrightarrow> foldl (take_in env) rs xs = part (concat xs)"
proof (induction xs rule: rev_induct)
  case (snoc x xs)
  then have "strict_prefix (concat xs) c" by (auto simp: strict_prefix_def dest: append_prefixD)
  with snoc step [of "concat xs" x] show ?case by simp
qed (simp add: assms(1))

lemma awaits_parts:
  assumes "part [] = rs"
    and step: "\<And>p x. strict_prefix (p @ x) c \<Longrightarrow> take_in env (part p) x = part (p @ x)"
    and go: "\<And>p x y. strict_prefix p c \<Longrightarrow> p @ x = c @ y \<Longrightarrow> take_in env (part p) x = take_in env rs' y"
  shows "awaits env rs c rs'"
  using parts_run [of part rs c env, OF assms(1,2)] go by (auto simp: awaits_def)

text \<open>Units that are left in the buffer until they are complete.\<close>

lemma awaits_whole:
  assumes wait: "\<And>p. strict_prefix p c \<Longrightarrow> on_step env (feed p rs) = (False, feed p rs)"
    and go: "\<And>y. on_step env (feed (c @ y) rs) = (True, feed y rs')"
  shows "awaits env rs c rs'"
proof (rule awaits_parts)
  show "feed [] rs = rs" by (rule feed_Nil)
next
  fix p x
  assume "strict_prefix (p @ x) c"
  from wait [OF this] show "take_in env (feed p rs) x = feed (p @ x) rs"
    by (subst take_in_def, subst on_loop.simps) (simp add: feed_feed)
next
  fix p x y
  assume "p @ x = c @ y"
  with go [of y] show "take_in env (feed p rs) x = take_in env rs' y"
    by (subst take_in_def, subst on_loop.simps) (simp add: feed_feed take_in_def)
qed


section \<open>Lines and headers\<close>

lemma find_lf_line: "LF \<notin> set pre \<Longrightarrow> find_lf (pre @ crlf @ y) = Some (length pre + 1)"
  by (auto simp: find_lf_def crlf_def Let_def takeWhile_append takeWhile_eq_all_conv)

lemma line_end_line: "LF \<notin> set pre \<Longrightarrow> line_end (pre @ crlf @ y) = Some (length pre + 1)"
  by (simp add: line_end_def find_lf_line) (simp add: crlf_def nth_append)

lemma strict_prefix_line:
  assumes "strict_prefix p (pre @ crlf)" and "LF \<notin> set pre"
  shows "LF \<notin> set p"
proof -
  have "strict_prefix p ((pre @ [CR]) @ [LF])" using assms(1) by (simp add: crlf_def)
  then have "prefix p (pre @ [CR])" unfolding strict_prefix_def prefix_snoc by blast
  with assms(2) show ?thesis by (auto dest: set_mono_prefix)
qed

lemma line_end_None:
  assumes "LF \<notin> set p"
  shows "line_end p = None"
proof -
  from assms have "takeWhile (\<lambda>c. c \<noteq> LF) p = p" by (auto simp: takeWhile_eq_all_conv)
  then show ?thesis unfolding line_end_def find_lf_def Let_def by (simp del: takeWhile_eq_all_conv)
qed

lemma strict_prefix_first: "strict_prefix p (c # cs) \<Longrightarrow> p \<noteq> [] \<Longrightarrow> p ! 0 = c"
  by (cases p) (auto simp: strict_prefix_def)

lemma on_step_conn_none [simp]: "link_buf rs = [] \<Longrightarrow> rs_conn rs \<noteq> None \<Longrightarrow> link_buf (feed p rs) = p"
  by simp

definition status_line :: "bytes \<Rightarrow> bytes" where
  "status_line w = ''+'' @ w @ crlf"

lemma awaits_status:
  assumes "rs_state rs = kWaitFullresync" and "rs_conn rs \<noteq> None" and "link_buf rs = []" and "LF \<notin> set w"
    and go: "\<And>y. HandleSyncReply w (feed y rs) = (True, feed y rs')"
  shows "awaits env rs (status_line w) rs'"
proof (rule awaits_whole)
  fix p assume p: "strict_prefix p (status_line w)"
  then have lf: "LF \<notin> set p" using strict_prefix_line [of p "''+'' @ w"] assms(4) by (simp add: status_line_def)
  have "p = [] \<or> p ! 0 = CHR ''+''" using strict_prefix_first [of p] p by (auto simp: status_line_def)
  then have "ConsumeSimpleString (feed p rs) = (None, feed p rs)"
    using assms(2,3) line_end_None [OF lf] by (auto simp: ConsumeSimpleString_def Let_def)
  with assms(1) show "on_step env (feed p rs) = (False, feed p rs)" by (simp add: on_step_def on_wait_def)
next
  fix y
  let ?d = "status_line w @ y"
  have e: "line_end ?d = Some (length w + 2)"
    using line_end_line [of "''+'' @ w" y] assms(4) by (simp add: status_line_def)
  have d: "\<not> length ?d < 3" "?d ! 0 = CHR ''+''" "slice 1 (length w + 2 - 2) ?d = w"
    by (simp_all add: status_line_def crlf_def slice_def)
  have r: "read_completed (length w + 2 + 1) (feed ?d rs) = feed y rs"
    by (rule read_completed_feed [OF assms(3)]) (simp add: status_line_def crlf_def)
  have "ConsumeSimpleString (feed ?d rs) = (Some w, feed y rs)"
    unfolding ConsumeSimpleString_def Let_def link_buf_feed [OF assms(2)] assms(3) append_Nil
    using d e r by simp
  with assms(1) go show "on_step env (feed ?d rs) = (True, feed y rs')" by (simp add: on_step_def on_wait_def)
qed

lemma c_str_digits:
  assumes "\<forall>c \<in> set ds. isdigit c"
  shows "\<exists>r. c_str (ds @ crlf @ y) = ds @ CR # r"
proof -
  have "\<forall>c \<in> set ds. c \<noteq> NUL" using assms by (auto simp: isdigit_neq)
  then show ?thesis by (auto simp: c_str_def crlf_def takeWhile_append takeWhile_eq_all_conv)
qed

lemma strtoll_header:
  assumes "n < 2 ^ 63"
  shows "\<exists>r. strtoll (c_str (dec_of_nat n @ crlf @ y)) = Some (int n, r)"
proof -
  obtain r where c: "c_str (dec_of_nat n @ crlf @ y) = dec_of_nat n @ CR # r"
    using c_str_digits [OF dec_of_nat_digits] by blast
  obtain d ds where eq: "dec_of_nat n = d # ds" by (cases "dec_of_nat n") simp_all
  have d: "isdigit d" using dec_of_nat_digits [of n] eq by simp
  then have nd: "\<not> isspace d" "d \<noteq> CHR ''-''" "d \<noteq> CHR ''+''" by (auto dest: isdigit_not_isspace isdigit_neq)
  have "\<not> isdigit CR" by (auto dest: isdigit_neq(1))
  then have t: "takeWhile isdigit (dec_of_nat n @ CR # r) = dec_of_nat n"
    using dec_of_nat_digits [of n] by (simp add: takeWhile_append2)
  have "scan_decimal (dec_of_nat n @ CR # r) = Some (False, dec_of_nat n, dropWhile isdigit (dec_of_nat n @ CR # r))"
    using eq nd t d by (auto simp: scan_decimal_def Let_def)
  with assms show ?thesis by (simp add: c strtoll_def)
qed

lemma bulk_header_waits:
  assumes "strict_prefix p (len_line n)" and "link_buf rs = []" and "rs_conn rs \<noteq> None"
  shows "TryConsumeBulkHeader (feed p rs) = (None, feed p rs)"
proof -
  have "LF \<notin> set (''$'' @ dec_of_nat n)" using dec_of_nat_digits [of n] by (auto dest: isdigit_neq(2))
  with assms(1) have "LF \<notin> set p" using strict_prefix_line [of p "''$'' @ dec_of_nat n"] by (simp add: len_line_def)
  with assms(2,3) show ?thesis by (simp add: TryConsumeBulkHeader_def line_end_None Let_def)
qed

lemma bulk_header_reads:
  assumes "n < 2 ^ 63" and "link_buf rs = []" and "rs_conn rs \<noteq> None"
  shows "TryConsumeBulkHeader (feed (len_line n @ y) rs) = (Some (int n), feed y rs)"
proof -
  let ?d = "len_line n @ y"
  have lf: "LF \<notin> set (''$'' @ dec_of_nat n)" using dec_of_nat_digits [of n] by (auto dest: isdigit_neq(2))
  have e: "line_end ?d = Some (length (dec_of_nat n) + 2)" using line_end_line [OF lf, of y] by (simp add: len_line_def)
  obtain r where s: "strtoll (c_str (drop 1 ?d)) = Some (int n, r)"
    using strtoll_header [OF assms(1), of y] by (auto simp: len_line_def)
  have "length (dec_of_nat n) \<noteq> 0" by simp
  then have d: "\<not> length ?d < 4" "?d ! 0 = CHR ''$''" unfolding len_line_def crlf_def by auto
  have q: "read_completed (length (dec_of_nat n) + 2 + 1) (feed ?d rs) = feed y rs"
    by (rule read_completed_feed [OF assms(2)]) (simp add: len_line_def crlf_def)
  show ?thesis
    unfolding TryConsumeBulkHeader_def Let_def link_buf_feed [OF assms(3)] assms(2) append_Nil
    using d e q s by simp
qed


section \<open>The RDB\<close>

definition rdb_part :: "host \<Rightarrow> nat \<Rightarrow> ('ix, 'w, 'r) ReplicationSlave \<Rightarrow> bytes \<Rightarrow> ('ix, 'w, 'r) ReplicationSlave" where
  "rdb_part ho n rs p =
     (if p = [] then rs
      else rs\<lparr>rs_rdb_fp := Some \<lparr>f_data = p, f_pos = length p, f_room = ho_room ho - length p\<rparr>,
              rs_rdb_remaining := int n - int (length p), rs_files := (rs_files rs)(kInTmpPath \<mapsto> [])\<rparr>)"

lemma f_store_new:
  "f_store \<lparr>f_data = p, f_pos = length p, f_room = r\<rparr> x = \<lparr>f_data = p @ x, f_pos = length p + length x, f_room = r - length x\<rparr>"
  by (simp add: f_store_def)

lemma feed_update:
  "feed y (rs\<lparr>rs_rdb_fp := a\<rparr>) = (feed y rs)\<lparr>rs_rdb_fp := a\<rparr>"
  "feed y (rs\<lparr>rs_rdb_remaining := b\<rparr>) = (feed y rs)\<lparr>rs_rdb_remaining := b\<rparr>"
  "feed y (rs\<lparr>rs_files := f\<rparr>) = (feed y rs)\<lparr>rs_files := f\<rparr>"
  "feed y (rs\<lparr>rs_backlog_buf := d\<rparr>) = (feed y rs)\<lparr>rs_backlog_buf := d\<rparr>"
  "feed y (rs\<lparr>rs_backlog_remaining := b\<rparr>) = (feed y rs)\<lparr>rs_backlog_remaining := b\<rparr>"
  "feed y (rs\<lparr>rs_engine := e\<rparr>) = (feed y rs)\<lparr>rs_engine := e\<rparr>"
  "feed y (rs\<lparr>rs_state := s\<rparr>) = (feed y rs)\<lparr>rs_state := s\<rparr>"
  "feed y (rs\<lparr>rs_repl_offset := o1\<rparr>) = (feed y rs)\<lparr>rs_repl_offset := o1\<rparr>"
  "feed y (rs\<lparr>rs_have_offset := o2\<rparr>) = (feed y rs)\<lparr>rs_have_offset := o2\<rparr>"
  "feed y (rs\<lparr>rs_master_replid := m\<rparr>) = (feed y rs)\<lparr>rs_master_replid := m\<rparr>"
  "feed y (rs\<lparr>rs_backoff_ms := bo\<rparr>) = (feed y rs)\<lparr>rs_backoff_ms := bo\<rparr>"
  "feed y (rs\<lparr>rs_stream_buf := sb\<rparr>) = (feed y rs)\<lparr>rs_stream_buf := sb\<rparr>"
  by (simp_all add: feed_def)

lemma WriteRdbChunk_part:
  assumes "rs_rdb_fp rs = None" and "ho_create ho kInTmpPath" and "length (p @ x) \<le> ho_room ho" and "x \<noteq> []"
  shows "WriteRdbChunk ho x (feed z (rdb_part ho n rs p)) =
     (True, (feed z (rdb_part ho n rs (p @ x)))\<lparr>rs_rdb_remaining := rs_rdb_remaining (rdb_part ho n rs p)\<rparr>)"
proof (cases "p = []")
  case True
  with assms f_store_new [of "[]" "ho_room ho" x] show ?thesis
    by (simp add: WriteRdbChunk_def open_rdb_def rdb_part_def WriteExact_room feed_update)
next
  case False
  with assms f_store_new [of p "ho_room ho - length p" x] show ?thesis
    by (simp add: WriteRdbChunk_def open_rdb_def rdb_part_def WriteExact_room feed_update)
qed

lemma on_loop_body_empty:
  "link_buf rs = [] \<Longrightarrow> rs_state rs = kRecvRdbBody \<or> rs_state rs = kRecvBacklogBody \<Longrightarrow> on_loop env rs = rs"
  by (subst on_loop.simps) (auto simp: on_step_def on_rdb_body_def on_backlog_body_def)

lemma read_completed_remaining:
  "read_completed k (rs\<lparr>rs_rdb_remaining := v\<rparr>) = (read_completed k rs)\<lparr>rs_rdb_remaining := v\<rparr>"
  by (simp add: read_completed_def)

lemma take_in_rdb:
  assumes rs: "rs_state rs = kRecvRdbBody" "rs_conn rs \<noteq> None" "link_buf rs = []" "rs_rdb_fp rs = None"
      "rs_rdb_remaining rs = int n"
    and ho: "ho_create (se_host env) kInTmpPath" "n \<le> ho_room (se_host env)"
    and p: "length p < n" "x \<noteq> []"
  shows "on_step env (feed x (rdb_part (se_host env) n rs p)) =
     (let k = min (length x) (n - length p);
          rs1 = feed (drop k x) (rdb_part (se_host env) n rs (p @ take k x))
      in if length p + k = n then finish_rdb env rs1 else (True, rs1))"
proof -
  let ?h = "se_host env" and ?rs = "feed x (rdb_part (se_host env) n rs p)"
  define k where "k = min (length x) (n - length p)"
  let ?q = "rdb_part ?h n rs (p @ take k x)"
  have k: "take_len (length x) (int n - int (length p)) = k" "take k x \<noteq> []" "length (p @ take k x) \<le> ho_room ?h"
    "length (p @ take k x) = length p + k" "length p + k \<le> n"
    using p ho by (auto simp: take_len_def k_def)
  have buf: "link_buf ?rs = x" and st: "rs_state ?rs = kRecvRdbBody"
    and rem: "rs_rdb_remaining (rdb_part ?h n rs p) = int n - int (length p)"
    using rs by (simp_all add: rdb_part_def)
  have remq: "rs_rdb_remaining ?q = int n - int (length p) - int k" using k by (auto simp: rdb_part_def)
  have w: "WriteRdbChunk ?h (take k x) ?rs = (True, (feed x ?q)\<lparr>rs_rdb_remaining := int n - int (length p)\<rparr>)"
    using WriteRdbChunk_part [OF rs(4) ho(1) k(3,2)] rem by simp
  have rq: "read_completed k (feed (take k x @ drop k x) ?q) = feed (drop k x) ?q"
    by (rule read_completed_feed) (use rs k in \<open>simp_all add: rdb_part_def\<close>)
  have r: "(read_completed k ((feed x ?q)\<lparr>rs_rdb_remaining := v\<rparr>))\<lparr>rs_rdb_remaining := int n - int (length p) - int k\<rparr>
      = feed (drop k x) ?q" for v
    using rq remq feed_sel(5) [of "drop k x" ?q] by (simp add: read_completed_remaining)
  have z: "int n - int (length p) - int k = 0 \<longleftrightarrow> length p + k = n" using k(5) by auto
  show ?thesis
    unfolding on_step_def st k_def [symmetric] Let_def
    using p(2) by (simp add: on_rdb_body_def buf rem k(1) w r remq z Let_def)
qed

text \<open>After the RDB: renamed into place and loaded.\<close>

definition rdb_done ::
  "'ix VNodeIndex \<Rightarrow> KvStore \<Rightarrow> bytes \<Rightarrow> ('ix, 'w, 'r) ReplicationSlave \<Rightarrow> ('ix, 'w, 'r) ReplicationSlave" where
  "rdb_done v m d rs =
     rs\<lparr>rs_rdb_fp := None, rs_rdb_remaining := 0, rs_files := (rs_files rs)(kInTmpPath := None, kInPath := Some d),
        rs_engine := (rs_engine rs)\<lparr>en_index := Some v, en_kv := Some m\<rparr>, rs_state := kRecvBacklogHeader\<rparr>"

lemma finish_rdb_image:
  assumes engine: "en_index (rs_engine rs) = Some u" "en_kv (rs_engine rs) = Some w"
    and ho: "ho_rename (se_host env)" and d: "d \<noteq> []"
    and load: "LoadFromPath (cl_usearch (se_classes env)) (se_host env)
      ((rs_files rs)(kInTmpPath := None, kInPath := Some d)) (se_view env) kInPath u w = (LoadStatus SmOk, v, m)"
  shows "finish_rdb env (feed y (rdb_part (se_host env) (length d) rs d)) = (True, feed y (rdb_done v m d rs))"
proof -
  let ?fs = "(rs_files rs)(kInTmpPath \<mapsto> d)"
  let ?r = "(feed y rs)\<lparr>rs_rdb_fp := None, rs_rdb_remaining := 0, rs_files := ?fs\<rparr>"
  have c: "close_rdb (feed y (rdb_part (se_host env) (length d) rs d)) = ?r"
    using d by (simp add: close_rdb_def rdb_part_def feed_update)
  have rn: "snd (AtomicRename (se_host env) kInTmpPath kInPath ?fs) = (rs_files rs)(kInTmpPath := None, kInPath := Some d)"
    using ho by (simp add: AtomicRename_def)
  have l: "load_rdb env (?r\<lparr>rs_files := (rs_files rs)(kInTmpPath := None, kInPath := Some d)\<rparr>) =
      (True, ?r\<lparr>rs_files := (rs_files rs)(kInTmpPath := None, kInPath := Some d),
                rs_engine := (rs_engine rs)\<lparr>en_index := Some v, en_kv := Some m\<rparr>\<rparr>)"
    unfolding load_rdb_def using engine load by simp
  have f: "rs_files ?r = ?fs" by simp
  have "FinishRdbAndLoad env (feed y (rdb_part (se_host env) (length d) rs d)) =
      (True, ?r\<lparr>rs_files := (rs_files rs)(kInTmpPath := None, kInPath := Some d),
                rs_engine := (rs_engine rs)\<lparr>en_index := Some v, en_kv := Some m\<rparr>\<rparr>)"
    unfolding FinishRdbAndLoad_def Let_def c f rn l using ho by simp
  then show ?thesis unfolding finish_rdb_def by (simp add: rdb_done_def feed_update)
qed

lemma take_in_rdb_part:
  assumes rs: "rs_state rs = kRecvRdbBody" "rs_conn rs \<noteq> None" "link_buf rs = []" "rs_rdb_fp rs = None"
      "rs_rdb_remaining rs = int (length d)"
    and ho: "ho_create (se_host env) kInTmpPath" "length d \<le> ho_room (se_host env)" and p: "strict_prefix (p @ x) d"
  shows "take_in env (rdb_part (se_host env) (length d) rs p) x = rdb_part (se_host env) (length d) rs (p @ x)"
proof -
  let ?rs = "rdb_part (se_host env) (length d) rs"
  have st: "rs_state (?rs q) = kRecvRdbBody" "link_buf (?rs q) = []" for q using rs by (simp_all add: rdb_part_def)
  have len: "length p + length x < length d" using prefix_length_less [OF p] by simp
  show "take_in env (?rs p) x = ?rs (p @ x)"
  proof (cases "x = []")
    case True
    with on_loop_body_empty [OF st(2) disjI1 [OF st(1)]] show ?thesis by (simp add: take_in_def feed_Nil)
  next
    case False
    have "on_step env (feed x (?rs p)) = (True, ?rs (p @ x))"
      using take_in_rdb [OF rs ho _ False] len by (simp add: Let_def feed_Nil)
    with on_loop_body_empty [OF st(2) disjI1 [OF st(1)]] show ?thesis
      unfolding take_in_def by (subst on_loop.simps) simp
  qed
qed

lemma rdb_part_Nil: "rdb_part ho n rs [] = rs"
  by (simp add: rdb_part_def)

lemma awaits_rdb:
  assumes rs: "rs_state rs = kRecvRdbBody" "rs_conn rs \<noteq> None" "link_buf rs = []" "rs_rdb_fp rs = None"
      "rs_rdb_remaining rs = int (length d)"
    and engine: "en_index (rs_engine rs) = Some u" "en_kv (rs_engine rs) = Some w"
    and ho: "ho_create (se_host env) kInTmpPath" "length d \<le> ho_room (se_host env)" "ho_rename (se_host env)"
    and load: "LoadFromPath (cl_usearch (se_classes env)) (se_host env)
      ((rs_files rs)(kInTmpPath := None, kInPath := Some d)) (se_view env) kInPath u w = (LoadStatus SmOk, v, m)"
  shows "awaits env rs d (rdb_done v m d rs)"
proof (rule awaits_parts [OF rdb_part_Nil take_in_rdb_part [OF rs ho(1,2)]])
  fix p x y
  assume p: "strict_prefix p d" "p @ x = d @ y"
  let ?rs = "rdb_part (se_host env) (length d) rs"
  have len: "length p < length d" using prefix_length_less [OF p(1)] .
  obtain q where q: "d = p @ q" "q \<noteq> []" using p(1) by (auto simp: strict_prefix_def prefix_def)
  with p have x: "x = q @ y" by simp
  then have "x \<noteq> []" using q by simp
  have "on_step env (feed x (?rs p)) = finish_rdb env (feed y (?rs d))"
    using take_in_rdb [OF rs ho(1,2) len \<open>x \<noteq> []\<close>] q x by (simp add: Let_def)
  also have "\<dots> = (True, feed y (rdb_done v m d rs))"
    by (rule finish_rdb_image [OF engine ho(3) _ load]) (use len in auto)
  finally show "take_in env (?rs p) x = take_in env (rdb_done v m d rs) y"
    unfolding take_in_def by (subst on_loop.simps) simp
qed

section \<open>The backlog\<close>

definition backlog_part :: "nat \<Rightarrow> ('ix, 'w, 'r) ReplicationSlave \<Rightarrow> bytes \<Rightarrow> ('ix, 'w, 'r) ReplicationSlave" where
  "backlog_part n rs p = rs\<lparr>rs_backlog_buf := p, rs_backlog_remaining := int n - int (length p)\<rparr>"

definition backlog_done ::
  "('ix, 'w, 'r) engine \<Rightarrow> nat \<Rightarrow> ('ix, 'w, 'r) ReplicationSlave \<Rightarrow> ('ix, 'w, 'r) ReplicationSlave" where
  "backlog_done en n rs = EnterStreaming (AdvanceOffset n
     (rs\<lparr>rs_backlog_remaining := 0, rs_backlog_buf := [], rs_engine := en\<rparr>))"

lemma take_in_backlog:
  assumes rs: "rs_state rs = kRecvBacklogBody" "rs_conn rs \<noteq> None" "link_buf rs = []"
    and p: "length p < n" "x \<noteq> []"
  shows "on_step env (feed x (backlog_part n rs p)) =
     (let k = min (length x) (n - length p); rs1 = feed (drop k x) (backlog_part n rs (p @ take k x))
      in if length p + k = n
         then (case ApplyBacklog (se_classes env) (p @ take k x) rs1 of
                 (False, rs2) \<Rightarrow> (False, rs2)
               | (True, rs2) \<Rightarrow> (True, EnterStreaming (rs2\<lparr>rs_backlog_buf := []\<rparr>)))
         else (True, rs1))"
proof -
  let ?k = "min (length x) (n - length p)"
  let ?rs = "feed x (backlog_part n rs p)"
  have buf: "link_buf ?rs = x" using rs by (simp add: backlog_part_def)
  have k: "take_len (length x) (int n - int (length p)) = ?k" using p by (auto simp: take_len_def)
  have st: "rs_state ?rs = kRecvBacklogBody" using rs by (simp add: backlog_part_def)
  have r: "read_completed j (feed x rs) = feed (drop j x) rs" if "j \<le> length x" for j
    using read_completed_feed [of rs j "take j x" "drop j x"] rs that by simp
  have upd: "read_completed j (r\<lparr>rs_backlog_remaining := v\<rparr>) = (read_completed j r)\<lparr>rs_backlog_remaining := v\<rparr>"
    "read_completed j (r\<lparr>rs_backlog_buf := b\<rparr>) = (read_completed j r)\<lparr>rs_backlog_buf := b\<rparr>"
    for j v b and r :: "('a, 'b, 'c) ReplicationSlave" by (simp_all add: read_completed_def)
  have bp: "feed z (backlog_part n rs q) =
      (feed z rs)\<lparr>rs_backlog_buf := q, rs_backlog_remaining := int n - int (length q)\<rparr>" for z q
    by (simp add: backlog_part_def feed_update)
  have len: "int n - int (length p + ?k) = 0 \<longleftrightarrow> length p + ?k = n" using p by auto
  show ?thesis
    unfolding on_step_def st using p(2) buf unfolding bp
    by (simp add: on_backlog_body_def k upd r Let_def)
qed

lemma AdvanceOffset_feed: "AdvanceOffset n (feed y rs) = feed y (AdvanceOffset n rs)"
  by (simp add: AdvanceOffset_def feed_update) (simp add: feed_def)

lemma AdvanceOffset_update:
  "AdvanceOffset n (rs\<lparr>rs_engine := e\<rparr>) = (AdvanceOffset n rs)\<lparr>rs_engine := e\<rparr>"
  "AdvanceOffset n (rs\<lparr>rs_backlog_buf := b\<rparr>) = (AdvanceOffset n rs)\<lparr>rs_backlog_buf := b\<rparr>"
  "AdvanceOffset n (rs\<lparr>rs_backlog_remaining := k\<rparr>) = (AdvanceOffset n rs)\<lparr>rs_backlog_remaining := k\<rparr>"
  "AdvanceOffset n (rs\<lparr>rs_stream_buf := b\<rparr>) = (AdvanceOffset n rs)\<lparr>rs_stream_buf := b\<rparr>"
  by (simp_all add: AdvanceOffset_def)

lemma awaits_backlog:
  assumes rs: "rs_state rs = kRecvBacklogBody" "rs_conn rs \<noteq> None" "link_buf rs = []" "rs_backlog_buf rs = []"
      "rs_backlog_remaining rs = int (length b)"
    and run: "consume_frames (se_classes env) 0 b (rs_engine rs) = (CfOk (length b), en)"
  shows "awaits env rs b (backlog_done en (length b) rs)"
proof (rule awaits_parts)
  show "backlog_part (length b) rs [] = rs" using rs by (simp add: backlog_part_def)
next
  fix p x
  assume p: "strict_prefix (p @ x) b"
  let ?rs = "backlog_part (length b) rs"
  have st: "rs_state (?rs q) = kRecvBacklogBody" "link_buf (?rs q) = []" for q
    using rs by (simp_all add: backlog_part_def)
  have len: "length p + length x < length b" using prefix_length_less [OF p] by simp
  show "take_in env (?rs p) x = ?rs (p @ x)"
  proof (cases "x = []")
    case True
    with on_loop_body_empty [OF st(2) disjI2 [OF st(1)]] show ?thesis by (simp add: take_in_def feed_Nil)
  next
    case False
    have "on_step env (feed x (?rs p)) = (True, ?rs (p @ x))"
      using take_in_backlog [OF rs(1-3) _ False, of p "length b" env] len by (simp add: Let_def feed_Nil)
    with on_loop_body_empty [OF st(2) disjI2 [OF st(1)]] show ?thesis
      unfolding take_in_def by (subst on_loop.simps) simp
  qed
next
  fix p x y
  assume p: "strict_prefix p b" "p @ x = b @ y"
  let ?rs = "backlog_part (length b) rs"
  have len: "length p < length b" using prefix_length_less [OF p(1)] .
  obtain q where q: "b = p @ q" "q \<noteq> []" using p(1) by (auto simp: strict_prefix_def prefix_def)
  with p have x: "x = q @ y" by simp
  then have "x \<noteq> []" using q by simp
  have "on_step env (feed x (?rs p)) =
      (case ApplyBacklog (se_classes env) b (feed y (?rs b)) of
         (False, rs2) \<Rightarrow> (False, rs2)
       | (True, rs2) \<Rightarrow> (True, EnterStreaming (rs2\<lparr>rs_backlog_buf := []\<rparr>)))"
    using take_in_backlog [OF rs(1-3) len \<open>x \<noteq> []\<close>, of env] q x by (simp add: Let_def)
  also have "ApplyBacklog (se_classes env) b (feed y (?rs b)) = (True, AdvanceOffset (length b) ((feed y (?rs b))\<lparr>rs_engine := en\<rparr>))"
    using run by (simp add: ApplyBacklog_def ConsumeStreamFrames_def backlog_part_def)
  finally have "on_step env (feed x (?rs p)) = (True, feed y (backlog_done en (length b) rs))"
    by (simp add: backlog_done_def EnterStreaming_def backlog_part_def AdvanceOffset_update feed_update AdvanceOffset_feed)
  then show "take_in env (?rs p) x = take_in env (backlog_done en (length b) rs) y"
    unfolding take_in_def by (subst on_loop.simps) simp
qed

section \<open>The stream\<close>

definition streamed ::
  "('ix, 'w, 'r) engine \<Rightarrow> nat \<Rightarrow> bytes \<Rightarrow> ('ix, 'w, 'r) ReplicationSlave \<Rightarrow> ('ix, 'w, 'r) ReplicationSlave" where
  "streamed en n rest rs = AdvanceOffset n (rs\<lparr>rs_engine := en, rs_stream_buf := rest\<rparr>)"

lemma take_in_stream:
  assumes "rs_state rs = kStreaming" and "rs_conn rs \<noteq> None" and "link_buf rs = []"
    and "consume_frames (se_classes env) 0 (rs_stream_buf rs @ x) (rs_engine rs) = (CfOk n, en)"
  shows "take_in env rs x = streamed en n (drop n (rs_stream_buf rs @ x)) rs"
proof -
  let ?rs1 = "read_completed (length x) ((feed x rs)\<lparr>rs_stream_buf := rs_stream_buf rs @ x\<rparr>)"
  have r: "?rs1 = rs\<lparr>rs_stream_buf := rs_stream_buf rs @ x\<rparr>"
    using read_completed_feed [of "rs\<lparr>rs_stream_buf := rs_stream_buf rs @ x\<rparr>" "length x" x "[]"] assms(3)
    by (simp add: feed_update feed_Nil)
  have "on_step env (feed x rs) = (False, DrainStreaming (se_classes env) (feed x rs))"
    using assms(1) by (simp add: on_step_def)
  moreover have "DrainStreaming (se_classes env) (feed x rs) = streamed en n (drop n (rs_stream_buf rs @ x)) rs"
    unfolding DrainStreaming_def Let_def link_buf_feed [OF assms(2)] assms(3) append_Nil feed_sel r
    using assms(4) by (simp add: ConsumeStreamFrames_def streamed_def)
  ultimately show ?thesis unfolding take_in_def by (subst on_loop.simps) simp
qed

lemma AdvanceOffset_add: "AdvanceOffset k (AdvanceOffset n rs) = AdvanceOffset (n + k) rs"
  by (simp add: AdvanceOffset_def mod_add_left_eq add.assoc)

lemma streamed_streamed: "streamed en2 k r2 (streamed en1 n r1 rs) = streamed en2 (n + k) r2 rs"
  by (simp add: streamed_def AdvanceOffset_update AdvanceOffset_add)

lemma stream_chunks:
  assumes "rs_state rs = kStreaming" and "rs_conn rs \<noteq> None" and "link_buf rs = []" and "chunks \<noteq> []"
    and "consume_frames (se_classes env) 0 (rs_stream_buf rs @ concat chunks) (rs_engine rs) = (CfOk n, en)"
  shows "foldl (take_in env) rs chunks = streamed en n (drop n (rs_stream_buf rs @ concat chunks)) rs"
  using assms
proof (induction chunks arbitrary: rs n)
  case (Cons x chunks)
  show ?case
  proof (cases chunks)
    case Nil
    with take_in_stream [OF Cons.prems(1-3), of env x n en] Cons.prems(5) show ?thesis by simp
  next
    case cons: (Cons y ys)
    let ?cl = "se_classes env" and ?b = "rs_stream_buf rs @ x"
    obtain r1 en1 where c: "consume_frames ?cl 0 ?b (rs_engine rs) = (r1, en1)" by fastforce
    obtain m where m: "r1 = CfOk m"
      using consume_frames_error [OF c, of "concat chunks"] Cons.prems(5) by (cases r1) auto
    note c = c [unfolded m]
    note a = consume_frames_append [OF c, of "concat chunks"]
    obtain r2 en2 where c2: "consume_frames ?cl 0 (drop m ?b @ concat chunks) en1 = (r2, en2)" by fastforce
    from a Cons.prems(5) consume_frames_shift [of ?cl m 0 "drop m ?b @ concat chunks" en1] c2
    obtain k where k: "r2 = CfOk k" "n = m + k" "en2 = en" by (cases r2) auto
    let ?rs1 = "streamed en1 m (drop m ?b) rs"
    have s: "rs_state ?rs1 = kStreaming" "rs_conn ?rs1 \<noteq> None" "link_buf ?rs1 = []" "rs_stream_buf ?rs1 = drop m ?b"
      "rs_engine ?rs1 = en1"
      using Cons.prems(1-3) by (simp_all add: streamed_def AdvanceOffset_def link_buf_def)
    have "foldl (take_in env) ?rs1 chunks = streamed en k (drop k (rs_stream_buf ?rs1 @ concat chunks)) ?rs1"
      by (rule Cons.IH [OF s(1-3)]) (use s c2 k cons in simp_all)
    moreover have "take_in env rs x = ?rs1" by (rule take_in_stream [OF Cons.prems(1-3) c])
    moreover have "drop k (drop m ?b @ concat chunks) = drop n (?b @ concat chunks)"
    proof -
      have "drop m ?b @ concat chunks = drop m (?b @ concat chunks)" using a by simp
      then show ?thesis unfolding k(2) by (simp only: drop_drop add.commute)
    qed
    ultimately show ?thesis using s k by (simp add: streamed_streamed)
  qed
qed simp

section \<open>A full resynchronisation\<close>

lemma c_str_dec_of_nat [simp]: "c_str (dec_of_nat n) = dec_of_nat n"
  using dec_of_nat_digits [of n] by (auto simp: c_str_def takeWhile_eq_all_conv dest: isdigit_neq(5))

definition fullresync_reply :: "bytes \<Rightarrow> nat \<Rightarrow> bytes" where
  "fullresync_reply replid start = kFullresyncWord @ replid @ '' '' @ dec_of_nat start"

lemma fullresync_header_status: "fullresync_header replid start n = status_line (fullresync_reply replid start) @ len_line n"
  by (simp add: fullresync_header_def status_line_def fullresync_reply_def kFullresyncWord_def AppendSimpleString_def
      AppendCRLF_def)

text \<open>Where the header of the answer leaves the object.\<close>

definition resync_begun :: "bytes \<Rightarrow> nat \<Rightarrow> ('ix, 'w, 'r) ReplicationSlave \<Rightarrow> ('ix, 'w, 'r) ReplicationSlave" where
  "resync_begun replid start rs =
     rs\<lparr>rs_master_replid := replid, rs_repl_offset := start, rs_have_offset := True, rs_state := kRecvRdbHeader\<rparr>"

lemma HandleSyncReply_fullresync:
  assumes "replid \<noteq> []" and "CHR '' '' \<notin> set replid" and "start < 2 ^ 64"
  shows "HandleSyncReply (fullresync_reply replid start) rs = (True, resync_begun replid start rs)"
proof -
  let ?rest = "replid @ CHR '' '' # dec_of_nat start"
  have r: "drop (length kFullresyncWord) (fullresync_reply replid start) = ?rest"
    "take (length kFullresyncWord) (fullresync_reply replid start) = kFullresyncWord"
    "fullresync_reply replid start \<noteq> ''CONTINUE''"
    by (simp_all add: fullresync_reply_def) (simp add: kFullresyncWord_def)
  have sp: "takeWhile (\<lambda>c. c \<noteq> CHR '' '') ?rest = replid"
    using assms(2) by (subst takeWhile_append2) auto
  have "length ?rest > length replid + 1" by simp
  with assms r sp show ?thesis
    by (simp add: HandleSyncReply_def strtoull_dec_of_nat resync_begun_def Let_def)
qed

lemma awaits_fullresync_line:
  assumes "rs_state rs = kWaitFullresync" and "rs_conn rs \<noteq> None" and "link_buf rs = []"
    and "replid \<noteq> []" and "CHR '' '' \<notin> set replid" and "LF \<notin> set replid" and "start < 2 ^ 64"
  shows "awaits env rs (status_line (fullresync_reply replid start)) (resync_begun replid start rs)"
proof (rule awaits_status [OF assms(1-3)])
  show "LF \<notin> set (fullresync_reply replid start)"
    using assms(6) dec_of_nat_digits [of start] isdigit_neq(2) by (auto simp: fullresync_reply_def kFullresyncWord_def)
  show "HandleSyncReply (fullresync_reply replid start) (feed y rs) = (True, feed y (resync_begun replid start rs))" for y
    by (simp add: HandleSyncReply_fullresync [OF assms(4,5,7)] resync_begun_def feed_update)
qed

lemma awaits_rdb_header:
  assumes "rs_state rs = kRecvRdbHeader" and "rs_conn rs \<noteq> None" and "link_buf rs = []" and "0 < n" and "n < 2 ^ 63"
  shows "awaits env rs (len_line n) (rs\<lparr>rs_rdb_remaining := int n, rs_state := kRecvRdbBody\<rparr>)"
proof (rule awaits_whole)
  fix p
  assume "strict_prefix p (len_line n)"
  with bulk_header_waits [OF _ assms(3,2)] assms(1) show "on_step env (feed p rs) = (False, feed p rs)"
    by (simp add: on_step_def on_rdb_header_def)
next
  fix y
  show "on_step env (feed (len_line n @ y) rs) = (True, feed y (rs\<lparr>rs_rdb_remaining := int n, rs_state := kRecvRdbBody\<rparr>))"
    using bulk_header_reads [OF assms(5,3,2), of y] assms(1,4)
    by (simp add: on_step_def on_rdb_header_def Let_def feed_update)
qed

definition backlog_begun :: "nat \<Rightarrow> ('ix, 'w, 'r) ReplicationSlave \<Rightarrow> ('ix, 'w, 'r) ReplicationSlave" where
  "backlog_begun n rs =
     (let rs1 = rs\<lparr>rs_backlog_remaining := int n, rs_backlog_buf := [], rs_state := kRecvBacklogBody\<rparr>
      in if n = 0 then EnterStreaming rs1 else rs1)"

lemma awaits_backlog_header:
  assumes "rs_state rs = kRecvBacklogHeader" and "rs_conn rs \<noteq> None" and "link_buf rs = []" and "n < 2 ^ 63"
  shows "awaits env rs (len_line n) (backlog_begun n rs)"
proof (rule awaits_whole)
  fix p
  assume "strict_prefix p (len_line n)"
  with bulk_header_waits [OF _ assms(3,2)] assms(1) show "on_step env (feed p rs) = (False, feed p rs)"
    by (simp add: on_step_def on_backlog_header_def)
next
  fix y
  show "on_step env (feed (len_line n @ y) rs) = (True, feed y (backlog_begun n rs))"
    using bulk_header_reads [OF assms(4,3,2), of y] assms(1)
    by (simp add: on_step_def on_backlog_header_def backlog_begun_def EnterStreaming_def Let_def feed_update)
qed

lemma len_line_not_Nil: "len_line n \<noteq> []" and status_line_not_Nil: "status_line w \<noteq> []"
  by (simp_all add: len_line_def status_line_def)

text \<open>The object after the whole backlog, empty or not.\<close>

lemma backlog_arrives:
  assumes rs: "rs_state rs = kRecvBacklogHeader" "rs_conn rs \<noteq> None" "link_buf rs = []"
    and b: "length b < 2 ^ 63" "consume_frames (se_classes env) 0 b (rs_engine rs) = (CfOk (length b), en)"
    and c: "concat chunks = len_line (length b) @ b @ rest"
  shows "\<exists>chunks'. concat chunks' = rest \<and> chunks' \<noteq> []
     \<and> foldl (take_in env) rs chunks = foldl (take_in env) (backlog_done en (length b) rs) chunks'"
proof -
  from awaits_chunks [OF awaits_backlog_header [OF rs b(1)] len_line_not_Nil c] obtain cs1 where
    1: "concat cs1 = b @ rest" "cs1 \<noteq> []"
      "foldl (take_in env) rs chunks = foldl (take_in env) (backlog_begun (length b) rs) cs1" by blast
  show ?thesis
  proof (cases "b = []")
    case True
    with b(2) have en: "en = rs_engine rs" by (simp add: consume_frames_wait)
    have "backlog_begun (length b) rs = backlog_done en (length b) rs"
      using True en by (simp add: backlog_begun_def backlog_done_def AdvanceOffset_def EnterStreaming_def)
    with 1 True show ?thesis by auto
  next
    case False
    let ?rs = "backlog_begun (length b) rs"
    have s: "rs_state ?rs = kRecvBacklogBody" "rs_conn ?rs \<noteq> None" "link_buf ?rs = []" "rs_backlog_buf ?rs = []"
      "rs_backlog_remaining ?rs = int (length b)" "rs_engine ?rs = rs_engine rs"
      using False rs by (simp_all add: backlog_begun_def)
    from awaits_chunks [OF awaits_backlog [OF s(1-5)] False 1(1)] b(2) s(6) obtain cs2 where
      "concat cs2 = rest" "cs2 \<noteq> []"
      "foldl (take_in env) ?rs cs1 = foldl (take_in env) (backlog_done en (length b) ?rs) cs2" by metis
    moreover have "backlog_done en (length b) ?rs = backlog_done en (length b) rs"
      using False by (simp add: backlog_begun_def backlog_done_def AdvanceOffset_def EnterStreaming_def)
    ultimately show ?thesis using 1(3) by auto
  qed
qed

lemma full_resync_chunks:
  assumes rs: "rs_state rs = kWaitFullresync" "rs_conn rs \<noteq> None" "link_buf rs = []" "rs_rdb_fp rs = None"
      "rs_stream_buf rs = []" "en_index (rs_engine rs) = Some u" "en_kv (rs_engine rs) = Some w"
    and header: "replid \<noteq> []" "CHR '' '' \<notin> set replid" "LF \<notin> set replid" "start < 2 ^ 64"
    and ho: "ho_create (se_host env) kInTmpPath" "length d \<le> ho_room (se_host env)" "ho_rename (se_host env)"
    and d: "d \<noteq> []" "length d < 2 ^ 63" "length b < 2 ^ 63"
    and load: "LoadFromPath (cl_usearch (se_classes env)) (se_host env)
      ((rs_files rs)(kInTmpPath := None, kInPath := Some d)) (se_view env) kInPath u w = (LoadStatus SmOk, v, m)"
    and b: "consume_frames (se_classes env) 0 b ((rs_engine rs)\<lparr>en_index := Some v, en_kv := Some m\<rparr>) = (CfOk (length b), en1)"
    and f: "consume_frames (se_classes env) 0 f en1 = (CfOk n, en2)"
    and chunks: "concat chunks = fullresync_header replid start (length d) @ d @ len_line (length b) @ b @ f"
  shows "foldl (take_in env) rs chunks =
     streamed en2 n (drop n f) (backlog_done en1 (length b) (rdb_done v m d
       ((resync_begun replid start rs)\<lparr>rs_rdb_remaining := int (length d), rs_state := kRecvRdbBody\<rparr>)))"
proof -
  let ?rs1 = "resync_begun replid start rs"
  let ?rs2 = "?rs1\<lparr>rs_rdb_remaining := int (length d), rs_state := kRecvRdbBody\<rparr>"
  let ?rs3 = "rdb_done v m d ?rs2"
  let ?rs4 = "backlog_done en1 (length b) ?rs3"
  have c0: "concat chunks = status_line (fullresync_reply replid start) @ (len_line (length d) @ d @ len_line (length b) @ b @ f)"
    using chunks by (simp add: fullresync_header_status)
  have s1: "rs_state ?rs1 = kRecvRdbHeader" "rs_conn ?rs1 \<noteq> None" "link_buf ?rs1 = []"
    using rs by (simp_all add: resync_begun_def)
  have s2: "rs_state ?rs2 = kRecvRdbBody" "rs_conn ?rs2 \<noteq> None" "link_buf ?rs2 = []" "rs_rdb_fp ?rs2 = None"
    "rs_rdb_remaining ?rs2 = int (length d)" "en_index (rs_engine ?rs2) = Some u" "en_kv (rs_engine ?rs2) = Some w"
    "rs_files ?rs2 = rs_files rs" "rs_engine ?rs2 = rs_engine rs" "rs_stream_buf ?rs2 = []"
    using rs by (simp_all add: resync_begun_def)
  have s3: "rs_state ?rs3 = kRecvBacklogHeader" "rs_conn ?rs3 \<noteq> None" "link_buf ?rs3 = []"
    "rs_engine ?rs3 = (rs_engine rs)\<lparr>en_index := Some v, en_kv := Some m\<rparr>" "rs_stream_buf ?rs3 = []"
    using s2 by (simp_all add: rdb_done_def)
  have s4: "rs_state ?rs4 = kStreaming" "rs_conn ?rs4 \<noteq> None" "link_buf ?rs4 = []" "rs_engine ?rs4 = en1" "rs_stream_buf ?rs4 = []"
    using s3 by (simp_all add: backlog_done_def EnterStreaming_def AdvanceOffset_def link_buf_def)
  from awaits_chunks [OF awaits_fullresync_line [OF rs(1-3) header] status_line_not_Nil c0]
  obtain cs1 where 1: "concat cs1 = len_line (length d) @ (d @ len_line (length b) @ b @ f)"
    "foldl (take_in env) rs chunks = foldl (take_in env) ?rs1 cs1" by blast
  have "0 < length d" using d(1) by simp
  from awaits_chunks [OF awaits_rdb_header [OF s1 this d(2)] len_line_not_Nil 1(1)]
  obtain cs2 where 2: "concat cs2 = d @ (len_line (length b) @ b @ f)"
    "foldl (take_in env) ?rs1 cs1 = foldl (take_in env) ?rs2 cs2" by blast
  have "LoadFromPath (cl_usearch (se_classes env)) (se_host env)
      ((rs_files ?rs2)(kInTmpPath := None, kInPath := Some d)) (se_view env) kInPath u w = (LoadStatus SmOk, v, m)"
    using load s2(8) by simp
  from awaits_chunks [OF awaits_rdb [OF s2(1-7) ho this] d(1) 2(1)]
  obtain cs3 where 3: "concat cs3 = len_line (length b) @ b @ f"
    "foldl (take_in env) ?rs2 cs2 = foldl (take_in env) ?rs3 cs3" by blast
  from backlog_arrives [OF s3(1-3) d(3) b [folded s3(4)] 3(1)]
  obtain cs4 where 4: "concat cs4 = f" "cs4 \<noteq> []" "foldl (take_in env) ?rs3 cs3 = foldl (take_in env) ?rs4 cs4" by blast
  from stream_chunks [OF s4(1-3) 4(2)] f 4(1) s4(4,5) have "foldl (take_in env) ?rs4 cs4 = streamed en2 n (drop n f) ?rs4"
    by simp
  with 1 2 3 4 show ?thesis by simp
qed

section \<open>Readable events\<close>

abbreviation readable :: IoEvents where
  "readable \<equiv> \<lparr>ev_in = True, ev_out = False, ev_err = False\<rparr>"

text \<open>Each event: what \<^verbatim>\<open>recv\<close> returns until it would block.\<close>

fun slave_receives ::
  "('ix, 'w, 'r) slave_env \<Rightarrow> bytes list list \<Rightarrow> ('ix, 'w, 'r) ReplicationSlave \<Rightarrow> ('ix, 'w, 'r) ReplicationSlave option" where
  "slave_receives env [] rs = Some rs"
| "slave_receives env (e # es) rs =
     Option.bind (slave_io env readable (kernel_answers [] (map RvData e) rs)) (slave_receives env es)"

definition event_ok :: "bytes list \<Rightarrow> bool" where
  "event_ok e \<longleftrightarrow> e \<noteq> [] \<and> (\<forall>c \<in> set e. c \<noteq> [] \<and> length c \<le> 4096)"

lemma read_loop_data:
  assumes "\<forall>x \<in> set e. x \<noteq> [] \<and> length x \<le> 4096"
  shows "read_loop (map RvData e) d c = (Some (d \<or> e \<noteq> []), c\<lparr>tc_input_buffer := tc_input_buffer c @ concat e, tc_reads := []\<rparr>)"
  using assms by (induction e arbitrary: d c) (auto simp: MessageBuffer_Recv_def)

text \<open>An open link with nothing left over from the kernel.\<close>

definition link_open :: "('ix, 'w, 'r) ReplicationSlave \<Rightarrow> bool" where
  "link_open rs \<longleftrightarrow> slave_linked rs \<and> body_ok rs \<and> rs_fault rs = None
     \<and> (\<exists>c. rs_conn rs = Some c \<and> \<not> tc_closed c \<and> tc_writes c = [] \<and> tc_reads c = [])"

lemma slave_io_take_in:
  assumes "link_open rs" and "event_ok e"
  shows "slave_io env readable (kernel_answers [] (map RvData e) rs) = Some (take_in env rs (concat e))"
proof -
  from assms(1) obtain c where c: "rs_conn rs = Some c" "\<not> tc_closed c" "tc_writes c = []" "tc_reads c = []"
    and l: "slave_linked rs" "body_ok rs" "rs_fault rs = None" by (auto simp: link_open_def)
  let ?c = "c\<lparr>tc_reads := map RvData e\<rparr>" and ?c1 = "c\<lparr>tc_input_buffer := tc_input_buffer c @ concat e\<rparr>"
  have rd: "read_loop (map RvData e) False ?c = (Some True, ?c1)"
    using read_loop_data [of e False ?c] assms(2) c(4) by (simp add: event_ok_def)
  have k: "kernel_answers [] (map RvData e) rs = rs\<lparr>rs_conn := Some ?c\<rparr>" using c(1,3) by (simp add: kernel_answers_def)
  have fd: "rs\<lparr>rs_conn := Some ?c1\<rparr> = feed (concat e) rs" using c(1) by (simp add: feed_def)
  have lc: "slave_linked (feed (concat e) rs)" "body_ok (feed (concat e) rs)"
    using linked_conn [OF l(1), of ?c1] l c(1) unfolding fd [symmetric]
    by (auto simp: slave_linked_def slave_base_def conn_good_def)
  have "rs_conn (take_in env rs (concat e)) \<noteq> None"
    using on_loop_kept [OF lc, of env] by (simp add: take_in_def kept_def)
  then obtain c2 where c2: "rs_conn (take_in env rs (concat e)) = Some c2" by auto
  have self: "r\<lparr>rs_conn := Some c2\<rparr> = r" if "rs_conn r = Some c2" for r :: "('a, 'b, 'c) ReplicationSlave"
  proof -
    have "r\<lparr>rs_conn := rs_conn r\<rparr> = r" by simp
    then show ?thesis unfolding that .
  qed
  have "Slave_OnReadable env (feed (concat e) rs) = take_in env rs (concat e)"
    using lc(1) c(1) by (simp add: Slave_OnReadable_def take_in_def slave_linked_def)
  then have h: "HandleRead (slave_callbacks env) (rs\<lparr>rs_conn := Some ?c\<rparr>, ?c) = (take_in env rs (concat e), c2)"
    using rd fd l(1) c2 by (simp add: HandleRead_def slave_callbacks_def slave_linked_def Let_def)
  then show ?thesis unfolding k using l(3) c(2) self [OF c2] by (simp add: slave_io_def HandleIO_def)
qed

text \<open>Once failed, or with a fault, it stays so.\<close>

lemma consume_failed_fault [simp]: "rs_fault rs \<noteq> None \<Longrightarrow> rs_fault (consume_failed r rs) \<noteq> None"
  by (auto simp: consume_failed_def split: consume_end.split)

lemma fault_stays:
  "rs_fault rs = Some y \<Longrightarrow> finish_rdb env rs = (b, rs1) \<Longrightarrow> \<exists>z. rs_fault rs1 = Some z"
  "rs_fault rs = Some y \<Longrightarrow> ApplyBacklog cl bs rs = (b, rs1) \<Longrightarrow> \<exists>z. rs_fault rs1 = Some z"
  "rs_fault rs = Some y \<Longrightarrow> \<exists>z. rs_fault (DrainStreaming cl rs) = Some z"
  "rs_fault rs = Some y \<Longrightarrow> WriteRdbChunk ho x rs = (b, rs1) \<Longrightarrow> rs_fault rs1 = Some y"
  "rs_fault rs = Some y \<Longrightarrow> ConsumeSimpleString rs = (s, rs1) \<Longrightarrow> rs_fault rs1 = Some y"
  "rs_fault rs = Some y \<Longrightarrow> TryConsumeBulkHeader rs = (len, rs1) \<Longrightarrow> rs_fault rs1 = Some y"
  "rs_fault rs = Some y \<Longrightarrow> HandleSyncReply w rs = (b, rs1) \<Longrightarrow> rs_fault rs1 = Some y"
  by (auto simp: finish_rdb_def FinishRdbAndLoad_def load_rdb_def ApplyBacklog_def DrainStreaming_def WriteRdbChunk_def
      open_rdb_def ConsumeSimpleString_def TryConsumeBulkHeader_def HandleSyncReply_def consume_failed_def Let_def
      split: if_splits option.splits prod.splits bool.splits consume_end.splits list.splits)

lemma on_step_fault:
  assumes "rs_fault rs = Some y" and "on_step env rs = (b, rs1)"
  shows "\<exists>z. rs_fault rs1 = Some z"
proof (cases "rs_state rs")
  case kWaitFullresync
  obtain s rs2 where t: "ConsumeSimpleString rs = (s, rs2)" by fastforce
  note f = fault_stays(5) [OF assms(1) t]
  show ?thesis
  proof (cases s)
    case None
    with kWaitFullresync t f assms(2) show ?thesis by (simp add: on_step_def on_wait_def)
  next
    case (Some w)
    with kWaitFullresync t assms(2) have "HandleSyncReply w rs2 = (b, rs1)" by (simp add: on_step_def on_wait_def)
    from fault_stays(7) [OF f this] show ?thesis by simp
  qed
next
  case kRecvRdbHeader
  obtain s rs2 where t: "TryConsumeBulkHeader rs = (s, rs2)" by fastforce
  note f = fault_stays(6) [OF assms(1) t]
  have g: "\<exists>z. rs_fault r = Some z" if "finish_rdb env (rs2\<lparr>rs_rdb_remaining := n, rs_state := kRecvRdbBody\<rparr>) = (b, r)" for n r
    by (rule fault_stays(1) [OF _ that]) (simp add: f)
  from kRecvRdbHeader t f assms(2) g show ?thesis
    by (cases s) (auto simp: on_step_def on_rdb_header_def Let_def split: if_splits)
next
  case kRecvBacklogHeader
  obtain s rs2 where t: "TryConsumeBulkHeader rs = (s, rs2)" by fastforce
  note f = fault_stays(6) [OF assms(1) t]
  from kRecvBacklogHeader t f assms(2) show ?thesis
    by (cases s) (auto simp: on_step_def on_backlog_header_def Let_def split: if_splits)
next
  case kRecvRdbBody
  let ?n = "take_len (length (link_buf rs)) (rs_rdb_remaining rs)"
  obtain a rs2 where w: "WriteRdbChunk (se_host env) (take ?n (link_buf rs)) rs = (a, rs2)" by fastforce
  note f = fault_stays(4) [OF assms(1) w]
  have g: "\<exists>z. rs_fault r = Some z" if "finish_rdb env ((read_completed ?n rs2)\<lparr>rs_rdb_remaining := v\<rparr>) = (b, r)" for v r
    by (rule fault_stays(1) [OF _ that]) (simp add: f)
  from kRecvRdbBody w f assms g show ?thesis
    by (cases a) (auto simp: on_step_def on_rdb_body_def Let_def split: if_splits)
next
  case kRecvBacklogBody
  let ?n = "take_len (length (link_buf rs)) (rs_backlog_remaining rs)"
  let ?rs2 = "(read_completed ?n (rs\<lparr>rs_backlog_buf := rs_backlog_buf rs @ take ?n (link_buf rs)\<rparr>))
      \<lparr>rs_backlog_remaining := rs_backlog_remaining rs - int ?n\<rparr>"
  obtain a rs3 where ap: "ApplyBacklog (se_classes env) (rs_backlog_buf ?rs2) ?rs2 = (a, rs3)" by fastforce
  have "rs_fault ?rs2 = Some y" using assms(1) by simp
  from fault_stays(2) [OF this ap] kRecvBacklogBody ap assms show ?thesis
    by (cases a) (auto simp: on_step_def on_backlog_body_def Let_def split: if_splits)
next
  case kStreaming
  with assms fault_stays(3) [OF assms(1)] show ?thesis by (auto simp: on_step_def)
qed (use assms in \<open>auto simp: on_step_def\<close>)

lemma on_loop_fault: "rs_fault rs = Some y \<Longrightarrow> \<exists>z. rs_fault (on_loop env rs) = Some z"
proof (induction env rs arbitrary: y rule: on_loop.induct)
  case (1 env rs)
  obtain b rs1 where s: "on_step env rs = (b, rs1)" by fastforce
  note f = on_step_fault [OF "1.prems" s]
  show ?case
  proof (cases b)
    case True
    with "1.IH" [OF s [symmetric]] f have "\<exists>z. rs_fault (on_loop env rs1) = Some z" by auto
    with True s show ?thesis by (subst on_loop.simps) simp
  next
    case False
    with f s show ?thesis by (subst on_loop.simps) simp
  qed
qed

lemma take_in_gave_up:
  assumes "gave_up rs"
  shows "gave_up (take_in env rs x)"
proof (cases "rs_fault rs")
  case None
  with assms have f: "slave_failed rs" by (simp add: gave_up_def)
  then have "take_in env rs x = feed x rs"
    unfolding take_in_def by (subst on_loop.simps) (simp add: on_step_def slave_failed_def)
  moreover have "slave_failed (feed x rs)"
    using f by (auto simp: slave_failed_def slave_base_def feed_def)
  ultimately show ?thesis by (simp add: gave_up_def)
next
  case (Some y)
  with on_loop_fault [of "feed x rs" y env] show ?thesis by (auto simp: gave_up_def take_in_def)
qed

lemma foldl_gave_up: "gave_up rs \<Longrightarrow> gave_up (foldl (take_in env) rs xs)"
  by (induction xs arbitrary: rs) (simp_all add: take_in_gave_up)

lemma link_open_not_gave_up: "link_open rs \<Longrightarrow> \<not> gave_up rs"
  by (auto simp: link_open_def gave_up_def slave_failed_def slave_linked_def)

lemma linked_feed [simp]: "slave_linked rs \<Longrightarrow> slave_linked (feed x rs)" "body_ok (feed x rs) = body_ok rs" "link_of (feed x rs) = link_of rs"
  by (auto simp: slave_linked_def slave_base_def feed_def body_ok_def link_of_def option.map_comp comp_def cong: option.map_cong)

lemma take_in_open:
  assumes "link_open rs" and "\<not> gave_up (take_in env rs x)"
  shows "link_open (take_in env rs x)"
proof -
  from assms(1) obtain c where c: "rs_conn rs = Some c" "\<not> tc_closed c" "tc_writes c = []" "tc_reads c = []"
    and l: "slave_linked rs" "body_ok rs" by (auto simp: link_open_def)
  have k: "kept (feed x rs) (take_in env rs x)" "slave_linked (take_in env rs x)" "body_ok (take_in env rs x)"
    "rs_fault (take_in env rs x) = None"
    using on_loop_kept [of "feed x rs" env] l assms(2) by (auto simp: take_in_def gave_up_def)
  then have lk: "link_of (take_in env rs x) = link_of rs"
    using linked_feed(3) [of x rs] by (auto simp: kept_def slave_failed_def slave_linked_def)
  with c(1) obtain c1 where c1: "rs_conn (take_in env rs x) = Some c1" "c1\<lparr>tc_input_buffer := []\<rparr> = c\<lparr>tc_input_buffer := []\<rparr>"
    by (auto simp: link_of_def)
  from arg_cong [OF c1(2), of tc_closed] arg_cong [OF c1(2), of tc_writes] arg_cong [OF c1(2), of tc_reads] c c1(1) k
  show ?thesis by (simp add: link_open_def)
qed

lemma foldl_open:
  assumes "link_open rs" and "\<not> gave_up (foldl (take_in env) rs xs)"
  shows "link_open (foldl (take_in env) rs xs)"
  using assms
proof (induction xs arbitrary: rs)
  case (Cons x xs)
  have "\<not> gave_up (take_in env rs x)" using Cons.prems(2) foldl_gave_up [of "take_in env rs x" env xs] by auto
  with Cons.IH [OF take_in_open [OF Cons.prems(1)]] Cons.prems(2) show ?case by simp
qed simp

lemma slave_receives_chunks:
  assumes "link_open rs" and "\<forall>e \<in> set es. event_ok e" and "\<not> gave_up (foldl (take_in env) rs (map concat es))"
  shows "slave_receives env es rs = Some (foldl (take_in env) rs (map concat es))"
  using assms
proof (induction es arbitrary: rs)
  case (Cons e es)
  let ?rs1 = "take_in env rs (concat e)"
  have "\<not> gave_up ?rs1" using Cons.prems(3) foldl_gave_up by auto
  from take_in_open [OF Cons.prems(1) this] Cons.IH [of ?rs1] slave_io_take_in [OF Cons.prems(1), of e env] Cons.prems(2,3)
  show ?case by simp
qed simp

text \<open>A new connection whose request goes out whole.\<close>

lemma TryConnect_open:
  assumes "slave_base rs" and "rs_fault rs = None" and "length (psync_request (ResetLink rs)) \<le> n"
    and "rs1 = TryConnect (new_link (Some [IoSent n])) rs"
  shows "link_open rs1" and "rs_conn rs1 = Some ((TcpConn_new [] [])\<lparr>tc_wire := psync_request (ResetLink rs)\<rparr>)"
    and "rs1 = (ResetLink rs)\<lparr>rs_conn := rs_conn rs1, rs_state := kWaitFullresync, rs_read_cb := True, rs_close_cb := True\<rparr>"
proof -
  have go: "\<not> rs_stopping rs" "rs_ready rs" using assms(1) by (simp_all add: slave_base_def)
  have ne: "psync_request (ResetLink rs) \<noteq> []" by (simp add: psync_request_def Let_def)
  have e: "rs1 = (ResetLink rs)\<lparr>rs_conn := Some ((TcpConn_new [] [])\<lparr>tc_wire := psync_request (ResetLink rs)\<rparr>),
      rs_state := kWaitFullresync, rs_read_cb := True, rs_close_cb := True\<rparr>"
    using go ne assms(3)
    by (simp add: assms(4) TryConnect_def new_link_def TcpConn_Send_def TcpConn_new_def next_write_def Let_def)
  then show "rs_conn rs1 = Some ((TcpConn_new [] [])\<lparr>tc_wire := psync_request (ResetLink rs)\<rparr>)"
    "rs1 = (ResetLink rs)\<lparr>rs_conn := rs_conn rs1, rs_state := kWaitFullresync, rs_read_cb := True, rs_close_cb := True\<rparr>"
    by simp_all
  note r = ResetLink_fields(1) [OF assms(1)] ResetLink_fields(2-) [of rs]
  have i: "tc_inv ((TcpConn_new [] [])\<lparr>tc_wire := w\<rparr>)" for w by (simp add: TcpConn_new_def tc_inv_def)
  show "link_open rs1"
    using r i assms(2) by (simp add: e link_open_def slave_linked_def slave_base_def body_ok_def) (simp add: TcpConn_new_def)
qed

lemma TryConnect_waits:
  assumes "slave_base rs" and "rs_fault rs = None" and "length (psync_request (ResetLink rs)) \<le> n"
    and "rs1 = TryConnect (new_link (Some [IoSent n])) rs"
  shows "rs_state rs1 = kWaitFullresync" "rs_conn rs1 \<noteq> None" "link_buf rs1 = []" "rs_rdb_fp rs1 = None"
    "rs_stream_buf rs1 = []" "rs_engine rs1 = rs_engine rs" "rs_repl_offset rs1 = rs_repl_offset rs"
    "rs_master_replid rs1 = rs_master_replid rs" "rs_have_offset rs1 = rs_have_offset rs" "rs_fault rs1 = None"
proof -
  note r = ResetLink_fields [of rs] and e = TryConnect_open(3) [OF assms]
  show "rs_conn rs1 \<noteq> None" "link_buf rs1 = []"
    using TryConnect_open(2) [OF assms] by (simp_all add: link_buf_def TcpConn_new_def)
  show "rs_state rs1 = kWaitFullresync" "rs_rdb_fp rs1 = None" "rs_stream_buf rs1 = []" "rs_engine rs1 = rs_engine rs"
    "rs_repl_offset rs1 = rs_repl_offset rs" "rs_master_replid rs1 = rs_master_replid rs"
    "rs_have_offset rs1 = rs_have_offset rs" "rs_fault rs1 = None"
    using r assms(2) by (subst e, simp)+
qed

section \<open>Concrete objects\<close>

definition sample_slave_env :: "(flat_index, bytes, unit) slave_env" where
  "sample_slave_env = \<lparr>se_classes = sample_classes, se_host = good_host, se_view = False\<rparr>"

definition sample_slave :: "(flat_index, bytes, unit) ReplicationSlave" where
  "sample_slave = ReplicationSlave_new True (Some (VNodeIndex_new 4 0)) (Some []) (\<lambda>_. None)"

definition sample_linked :: "(flat_index, bytes, unit) ReplicationSlave" where
  "sample_linked = TryConnect (new_link (Some [IoSent 100])) sample_slave"

text \<open>One byte per event.\<close>

definition bytewise :: "bytes \<Rightarrow> bytes list list" where
  "bytewise = map (\<lambda>b. [[b]])"

lemma bytewise [simp]: "\<forall>e \<in> set (bytewise bs). event_ok e" "concat (concat (bytewise bs)) = bs"
  "bytewise bs = [] \<longleftrightarrow> bs = []"
  by (auto simp: bytewise_def event_ok_def comp_def)

lemma sample_slave_base: "slave_base sample_slave" "rs_fault sample_slave = None"
  by (simp_all add: slave_base_def sample_slave_def ReplicationSlave_new_def kMinBackoffMs_def kMaxBackoffMs_def)

lemma sample_request: "length (psync_request (ResetLink sample_slave)) \<le> 100"
  using ResetLink_fields(12) [of sample_slave]
  by (simp add: psync_request_def sample_slave_def ReplicationSlave_new_def crlf_def)

lemmas sample_link = TryConnect_open [OF sample_slave_base sample_request sample_linked_def]

lemma sample_write_ok: "write_ok sample_set"
  by (simp add: write_ok_def sample_set_def is_write_def write_tokens.simps tokens_fit_def vector_max_size_def)

text \<open>Streaming, three bytes into a frame.\<close>

definition sample_streaming :: "(flat_index, bytes, unit) ReplicationSlave" where
  "sample_streaming = sample_linked\<lparr>rs_state := kStreaming, rs_master_replid := ''r'', rs_repl_offset := 5,
     rs_have_offset := True, rs_stream_buf := take 3 (write_frame sample_set)\<rparr>"

lemma link_open_state:
  assumes "link_open rs" and "s \<in> {kStreaming, kRecvRdbHeader, kRecvBacklogHeader}" and "rs_rdb_fp rs = None"
  shows "link_open (rs\<lparr>rs_state := s\<rparr>)"
  using assms by (auto simp: link_open_def body_ok_def intro: linked_state)

lemma sample_streaming_open:
  "link_open sample_streaming" "rs_state sample_streaming = kStreaming" "link_buf sample_streaming = []"
  "rs_have_offset sample_streaming" "rs_master_replid sample_streaming \<noteq> []"
  "length (psync_request sample_streaming) \<le> 100" "rs_stream_buf sample_streaming = take 3 (write_frame sample_set)"
  "rs_engine sample_streaming = rs_engine sample_slave"
proof -
  note t = TryConnect_waits [OF sample_slave_base sample_request sample_linked_def]
  show "link_open sample_streaming"
    using sample_link(1) t(4)
    by (simp add: sample_streaming_def link_open_def body_ok_def slave_linked_def slave_base_def)
  show "length (psync_request sample_streaming) \<le> 100"
    by (simp add: psync_request_def sample_streaming_def dec_of_nat.simps crlf_def)
  show "rs_state sample_streaming = kStreaming" "link_buf sample_streaming = []" "rs_have_offset sample_streaming"
    "rs_master_replid sample_streaming \<noteq> []" "rs_stream_buf sample_streaming = take 3 (write_frame sample_set)"
    "rs_engine sample_streaming = rs_engine sample_slave"
    using t by (simp_all add: sample_streaming_def link_buf_def)
qed

section \<open>What the replica ends up with\<close>

definition waits_for_more :: "bytes \<Rightarrow> bool" where
  "waits_for_more p \<longleftrightarrow> p = [] \<or> DecodeArrayOfBulk p = DNeedMore"

lemma consume_frames_complete:
  assumes "\<forall>c \<in> set cs. write_ok c" and "replay_ctxs cl cs e = Some e'" and "waits_for_more p"
  shows "consume_frames cl 0 (concat (map write_frame cs) @ p) e = (CfOk (length (concat (map write_frame cs))), e')"
  using consume_frames_writes [OF assms(1,2), of 0 p] consume_frames_wait [of p] assms(3) by (simp add: waits_for_more_def)

lemma concat_concat: "concat (concat xss) = concat (map concat xss)"
  by (induction xss) simp_all

lemma kInPath_not_Nil: "kInPath \<noteq> []"
  by (simp add: kInPath_def)

text \<open>
  C7. A full resynchronisation brings the replica to the master's data. After connecting, let the master
  answer as its side does: +FULLRESYNC with its id and an offset, the RDB of some stores, a backlog part and
  then frames, the last of them perhaps incomplete; however these bytes are cut into events and chunks, the
  replica ends up streaming, its stores are those of the RDB with every complete frame of the backlog and of
  the stream applied to them in order, its offset is the announced one plus the bytes of these frames, and the
  incomplete frame is kept for later. Whatever the stores held before is gone. The temporary file can be
  created and has room, and the frames can be applied to the loaded stores.
\<close>

theorem full_resync_converges:
  assumes "slave_base rs0" and "rs_fault rs0 = None" and "length (psync_request (ResetLink rs0)) \<le> n"
    and "rs = TryConnect (new_link (Some [IoSent n])) rs0"
    and "en_index (rs_engine rs0) = Some u" and "en_kv (rs_engine rs0) = Some w"
    and "api = cl_usearch (se_classes env)" and "snapshot_fits api v m" and "index_saved api same v"
    and "ho_create (se_host env) kInTmpPath" and "length (rdb_image api v m) \<le> ho_room (se_host env)"
    and "ho_rename (se_host env)"
    and "replid \<noteq> []" and "CHR '' '' \<notin> set replid" and "LF \<notin> set replid" and "start < 2 ^ 64"
    and "\<forall>c \<in> set (cs @ ds). write_ok c" and "backlog = concat (map write_frame cs)" and "length backlog < 2 ^ 63"
    and "waits_for_more p"
    and "\<forall>v'. cache_restored same v v' \<longrightarrow>
      replay_ctxs (se_classes env) (cs @ ds) ((rs_engine rs0)\<lparr>en_index := Some v', en_kv := Some m\<rparr>) = Some (result v')"
    and "\<forall>e \<in> set events. event_ok e"
    and "concat (concat events) = fullresync_header replid start (length (rdb_image api v m)) @ rdb_image api v m
      @ len_line (length backlog) @ backlog @ concat (map write_frame ds) @ p"
  shows "\<exists>v' rs'. cache_restored same v v' \<and> slave_receives env events rs = Some rs'
     \<and> rs_state rs' = kStreaming \<and> rs_fault rs' = None \<and> rs_engine rs' = result v'
     \<and> rs_master_replid rs' = replid \<and> rs_have_offset rs' \<and> rs_stream_buf rs' = p
     \<and> rs_repl_offset rs' = (start + length (concat (map write_frame (cs @ ds)))) mod 2 ^ 64"
proof -
  let ?d = "rdb_image api v m" and ?cl = "se_classes env" and ?fs = "concat (map write_frame ds)"
  note t = TryConnect_waits [OF assms(1-4)]
  obtain v' where v': "LoadFromPath api (se_host env) ((rs_files rs)(kInTmpPath := None, kInPath := Some ?d))
      (se_view env) kInPath u w = (LoadStatus SmOk, v', m)" "cache_restored same v v'"
    using LoadFromPath_image [OF assms(8,9), where fs = "(rs_files rs)(kInTmpPath := None, kInPath := Some ?d)"
      and path = kInPath and ho = "se_host env" and view = "se_view env" and u = u and w = w] kInPath_not_Nil by auto
  let ?e = "(rs_engine rs)\<lparr>en_index := Some v', en_kv := Some m\<rparr>"
  have "replay_ctxs ?cl (cs @ ds) ?e = Some (result v')" using assms(21) v'(2) t(6) by simp
  then obtain e1 where e1: "replay_ctxs ?cl cs ?e = Some e1" "replay_ctxs ?cl ds e1 = Some (result v')"
    by (auto simp: replay_ctxs_append split: bind_splits)
  have ok: "\<forall>c \<in> set cs. write_ok c" "\<forall>c \<in> set ds. write_ok c" using assms(17) by simp_all
  have b: "consume_frames ?cl 0 backlog ?e = (CfOk (length backlog), e1)"
    using consume_frames_complete [OF ok(1) e1(1), of "[]"] assms(18) by (simp add: waits_for_more_def)
  have f: "consume_frames ?cl 0 (?fs @ p) e1 = (CfOk (length ?fs), result v')"
    by (rule consume_frames_complete [OF ok(2) e1(2) assms(20)])
  have d: "?d \<noteq> []" "length ?d < 2 ^ 63" using length_rdb_image [of api v m] assms(8) by (auto simp: snapshot_fits_def)
  have chunks: "concat (map concat events) = fullresync_header replid start (length ?d) @ ?d @ len_line (length backlog) @ backlog @ (?fs @ p)"
    using assms(23) by (simp only: concat_concat)
  have uw: "en_index (rs_engine rs) = Some u" "en_kv (rs_engine rs) = Some w" using assms(5,6) t(6) by simp_all
  have load: "LoadFromPath (cl_usearch ?cl) (se_host env) ((rs_files rs)(kInTmpPath := None, kInPath := Some ?d))
      (se_view env) kInPath u w = (LoadStatus SmOk, v', m)" using v'(1) assms(7) by simp
  let ?rs' = "foldl (take_in env) rs (map concat events)"
  note run = full_resync_chunks [OF t(1-5) uw assms(13-16) assms(10-12) d assms(19) load b f chunks]
  have s: "rs_state ?rs' = kStreaming" "rs_fault ?rs' = None" "rs_engine ?rs' = result v'" "rs_master_replid ?rs' = replid"
    "rs_have_offset ?rs'" "rs_stream_buf ?rs' = p"
    "rs_repl_offset ?rs' = (start + length (concat (map write_frame (cs @ ds)))) mod 2 ^ 64"
    using t(10) assms(16,18) unfolding run
    by (simp_all add: streamed_def backlog_done_def rdb_done_def resync_begun_def EnterStreaming_def AdvanceOffset_def
        mod_add_left_eq add.assoc)
  have "\<not> gave_up ?rs'" using s by (simp add: gave_up_def slave_failed_def)
  from slave_receives_chunks [OF TryConnect_open(1) [OF assms(1-4)] assms(22) this] s v'(2) show ?thesis by blast
qed

theorem full_resync_converges_witness:
  "\<exists>v' rs'. cache_restored (=) sample_cache v'
     \<and> slave_receives sample_slave_env
          (bytewise (fullresync_header ''r'' 5 (length (rdb_image flat_api sample_cache sample_kv))
             @ rdb_image flat_api sample_cache sample_kv @ len_line (length (write_frame sample_set)) @ write_frame sample_set))
          sample_linked = Some rs'
     \<and> rs_state rs' = kStreaming \<and> rs_engine rs' = (rs_engine sample_slave)\<lparr>en_index := Some v', en_kv := Some [(''k'', ''v'')]\<rparr>"
proof -
  have "replay_ctxs sample_classes ([sample_set] @ []) ((rs_engine sample_slave)\<lparr>en_index := Some v', en_kv := Some sample_kv\<rparr>)
      = Some ((rs_engine sample_slave)\<lparr>en_index := Some v', en_kv := Some [(''k'', ''v'')]\<rparr>)" for v'
    by (simp add: ApplyMutation_def apply_set_def sample_set_def sample_slave_def ReplicationSlave_new_def KvStore_Set_def
        sample_kv_def um_find_def um_put_def)
  moreover have "length (write_frame sample_set) < 2 ^ 63"
    by (simp add: resp_array_def resp_bulk_def sample_set_def write_tokens.simps dec_of_nat.simps crlf_def)
  ultimately show ?thesis
    using full_resync_converges [OF sample_slave_base sample_request sample_linked_def, of "VNodeIndex_new 4 0" "[]" flat_api
        sample_slave_env sample_cache sample_kv "(=)" "''r''" 5 "[sample_set]" "[]" "write_frame sample_set" "[]"
        "\<lambda>v'. (rs_engine sample_slave)\<lparr>en_index := Some v', en_kv := Some [(''k'', ''v'')]\<rparr>"
        "bytewise (fullresync_header ''r'' 5 (length (rdb_image flat_api sample_cache sample_kv))
          @ rdb_image flat_api sample_cache sample_kv @ len_line (length (write_frame sample_set)) @ write_frame sample_set)"]
      sample_snapshot_fits sample_index_saved sample_snapshot_length sample_write_ok
    by (auto simp: sample_slave_env_def sample_classes_def good_host_def waits_for_more_def sample_slave_def ReplicationSlave_new_def)
qed

section \<open>After the link is lost\<close>

text \<open>The event in which the master's end is closed: \<^verbatim>\<open>recv\<close> returns 0.\<close>

abbreviation link_lost :: "('ix, 'w, 'r) slave_env \<Rightarrow> ('ix, 'w, 'r) ReplicationSlave \<Rightarrow> ('ix, 'w, 'r) ReplicationSlave option" where
  "link_lost env rs \<equiv> slave_io env readable (kernel_answers [] [RvEof] rs)"

lemma link_lost_fails:
  assumes "slave_linked rs" and "body_ok rs" and "rs_fault rs = None" and "rs_conn rs = Some c" and "\<not> tc_closed c"
  shows "\<exists>rs1. link_lost env rs = Some rs1 \<and> slave_failed rs1 \<and> rs_fault rs1 = None \<and> rs_engine rs1 = rs_engine rs
     \<and> rs_repl_offset rs1 = rs_repl_offset rs \<and> rs_master_replid rs1 = rs_master_replid rs
     \<and> rs_have_offset rs1 = rs_have_offset rs \<and> rs_reconnect_timer rs1 = Some (rs_backoff_ms rs)"
proof -
  let ?c = "c\<lparr>tc_writes := [], tc_reads := []\<rparr>" and ?cbs = "slave_callbacks env"
  let ?rs = "rs\<lparr>rs_conn := Some (c\<lparr>tc_writes := [], tc_reads := [RvEof]\<rparr>)\<rparr>"
  have cg: "conn_good ?c" using assms(1,4) by (simp add: slave_linked_def slave_base_def conn_good_def tc_inv_def split: option.splits)
  then have cg': "conn_good (c\<lparr>tc_writes := [], tc_reads := [RvEof]\<rparr>)" by (simp add: conn_good_def tc_inv_def split: option.splits)
  have l: "slave_linked ?rs" using linked_conn [OF assms(1) cg'] .
  obtain c1 where c1: "TcpConn_Close ?cbs (?rs, ?c) = (cb_close ?cbs ?rs, c1)" "tc_closed c1" "conn_good c1"
    using Close_no_done [of ?c ?cbs ?rs] cg assms(5) by (auto simp: conn_good_def)
  have cb: "cb_close ?cbs ?rs = Slave_Fail ?rs" using l by (simp add: slave_callbacks_def slave_linked_def slave_base_def)
  have "HandleRead ?cbs (?rs, c\<lparr>tc_writes := [], tc_reads := [RvEof]\<rparr>) = (Slave_Fail ?rs, c1)"
    using c1(1) cb by (simp add: HandleRead_def)
  then have io: "link_lost env rs = Some ((Slave_Fail ?rs)\<lparr>rs_conn := Some c1\<rparr>)"
    using assms(3-5) c1(2) by (simp add: slave_io_def kernel_answers_def HandleIO_def)
  have f: "slave_failed ((Slave_Fail ?rs)\<lparr>rs_conn := Some c1\<rparr>)"
    using Slave_Fail_failed [OF l] c1(2,3) by (auto simp: slave_failed_def slave_base_def conn_good_def)
  have k: "rs_engine (Slave_Fail ?rs) = rs_engine rs" "rs_repl_offset (Slave_Fail ?rs) = rs_repl_offset rs"
    "rs_master_replid (Slave_Fail ?rs) = rs_master_replid rs" "rs_have_offset (Slave_Fail ?rs) = rs_have_offset rs"
    "rs_reconnect_timer (Slave_Fail ?rs) = Some (rs_backoff_ms rs)"
    using l by (auto simp: Slave_Fail_def ScheduleReconnect_def CancelReconnectTimer_def close_rdb_def slave_linked_def
        slave_base_def Let_def split: option.splits)
  show ?thesis using io f k assms(3) by (intro exI [of _ "(Slave_Fail ?rs)\<lparr>rs_conn := Some c1\<rparr>"]) simp
qed

lemma awaits_continue:
  assumes "rs_state rs = kWaitFullresync" and "rs_conn rs \<noteq> None" and "link_buf rs = []"
  shows "awaits env rs (status_line ''CONTINUE'') (EnterStreaming rs)"
  by (rule awaits_status [OF assms]) (simp_all add: HandleSyncReply_def EnterStreaming_def feed_update)

text \<open>From any state of the link, with the offset known: what reconnecting and \<^verbatim>\<open>+CONTINUE\<close> lead to.\<close>

lemma lost_then_continue:
  assumes linked: "slave_linked rs" "body_ok rs" "rs_fault rs = None" "rs_conn rs = Some c" "\<not> tc_closed c"
    and known: "rs_have_offset rs" "rs_master_replid rs \<noteq> []"
    and lost: "link_lost env rs = Some rs1"
    and again: "rs2 = reconnect_fired (new_link (Some [IoSent n])) rs1" "length (psync_request rs) \<le> n"
    and frames: "\<forall>c \<in> set cs. write_ok c" "replay_ctxs (se_classes env) cs (rs_engine rs) = Some e" "waits_for_more p"
    and events: "\<forall>ev \<in> set events. event_ok ev"
      "concat (concat events) = status_line ''CONTINUE'' @ concat (map write_frame cs) @ p"
  shows "map_option tc_wire (rs_conn rs2) = Some (psync_request rs)
     \<and> (\<exists>rs'. slave_receives env events rs2 = Some rs' \<and> rs_state rs' = kStreaming \<and> rs_fault rs' = None
          \<and> rs_engine rs' = e \<and> rs_stream_buf rs' = p
          \<and> rs_repl_offset rs' = (rs_repl_offset rs + length (concat (map write_frame cs))) mod 2 ^ 64)"
proof -
  from link_lost_fails [OF linked, of env] lost have f: "slave_failed rs1" "rs_fault rs1 = None" "rs_engine rs1 = rs_engine rs"
    "rs_repl_offset rs1 = rs_repl_offset rs" "rs_master_replid rs1 = rs_master_replid rs"
    "rs_have_offset rs1 = rs_have_offset rs" "rs_reconnect_timer rs1 = Some (rs_backoff_ms rs)" by auto
  let ?rs1 = "rs1\<lparr>rs_reconnect_timer := None\<rparr>"
  have b: "slave_base ?rs1" using f(1) by (simp add: slave_failed_def slave_base_def)
  have rq: "psync_request (ResetLink ?rs1) = psync_request rs"
    using ResetLink_fields(9,11,12) [of ?rs1] f(4-6) by (simp add: psync_request_def)
  have rs2: "rs2 = TryConnect (new_link (Some [IoSent n])) ?rs1" using again(1) f(2,7) by (simp add: reconnect_fired_def)
  have n: "length (psync_request (ResetLink ?rs1)) \<le> n" and ff: "rs_fault ?rs1 = None" using again(2) rq f(2) by simp_all
  note t = TryConnect_waits [OF b ff n rs2] and o = TryConnect_open [OF b ff n rs2]
  have off: "rs_repl_offset rs < 2 ^ 64" using linked(1) by (simp add: slave_linked_def slave_base_def)
  have run0: "concat (map concat events) = status_line ''CONTINUE'' @ (concat (map write_frame cs) @ p)"
    using events(2) by (simp only: concat_concat)
  from awaits_chunks [OF awaits_continue [OF t(1-3)] status_line_not_Nil run0] obtain cs1 where
    1: "concat cs1 = concat (map write_frame cs) @ p" "cs1 \<noteq> []"
      "foldl (take_in env) rs2 (map concat events) = foldl (take_in env) (EnterStreaming rs2) cs1" by blast
  let ?rs3 = "EnterStreaming rs2"
  have s: "rs_state ?rs3 = kStreaming" "rs_conn ?rs3 \<noteq> None" "link_buf ?rs3 = []" "rs_stream_buf ?rs3 = []"
    "rs_engine ?rs3 = rs_engine rs"
    using t f(3) by (simp_all add: EnterStreaming_def)
  have "consume_frames (se_classes env) 0 (rs_stream_buf ?rs3 @ concat cs1) (rs_engine ?rs3)
      = (CfOk (length (concat (map write_frame cs))), e)"
    using consume_frames_complete [OF frames] s(4,5) 1(1) by simp
  from stream_chunks [OF s(1-3) 1(2) this] 1 s(4) have run: "foldl (take_in env) rs2 (map concat events) =
      streamed e (length (concat (map write_frame cs))) p ?rs3" by simp
  let ?rs' = "foldl (take_in env) rs2 (map concat events)"
  have r: "rs_state ?rs' = kStreaming" "rs_fault ?rs' = None" "rs_engine ?rs' = e" "rs_stream_buf ?rs' = p"
    "rs_repl_offset ?rs' = (rs_repl_offset rs + length (concat (map write_frame cs))) mod 2 ^ 64"
    using t f off unfolding run by (auto simp: streamed_def AdvanceOffset_def EnterStreaming_def)
  then have "\<not> gave_up ?rs'" by (simp add: gave_up_def slave_failed_def)
  from slave_receives_chunks [OF o(1) events(1) this] r o(2) rq show ?thesis by auto
qed

lemma interrupted_resync:
  assumes rs: "rs_state rs = kWaitFullresync" "rs_conn rs \<noteq> None" "link_buf rs = []" "rs_rdb_fp rs = None"
    and header: "replid \<noteq> []" "CHR '' '' \<notin> set replid" "LF \<notin> set replid" "start < 2 ^ 64"
    and ho: "ho_create (se_host env) kInTmpPath" "length d \<le> ho_room (se_host env)"
    and q: "strict_prefix q d" "length d < 2 ^ 63"
    and chunks: "concat chunks = fullresync_header replid start (length d) @ q"
  shows "foldl (take_in env) rs chunks = rdb_part (se_host env) (length d)
     ((resync_begun replid start rs)\<lparr>rs_rdb_remaining := int (length d), rs_state := kRecvRdbBody\<rparr>) q"
proof -
  let ?rs1 = "resync_begun replid start rs"
  let ?rs2 = "?rs1\<lparr>rs_rdb_remaining := int (length d), rs_state := kRecvRdbBody\<rparr>"
  have d: "0 < length d" using prefix_length_less [OF q(1)] by linarith
  have c0: "concat chunks = status_line (fullresync_reply replid start) @ (len_line (length d) @ q)"
    using chunks by (simp add: fullresync_header_status)
  have s1: "rs_state ?rs1 = kRecvRdbHeader" "rs_conn ?rs1 \<noteq> None" "link_buf ?rs1 = []"
    using rs by (simp_all add: resync_begun_def)
  have s2: "rs_state ?rs2 = kRecvRdbBody" "rs_conn ?rs2 \<noteq> None" "link_buf ?rs2 = []" "rs_rdb_fp ?rs2 = None"
    "rs_rdb_remaining ?rs2 = int (length d)"
    using rs by (simp_all add: resync_begun_def)
  from awaits_chunks [OF awaits_fullresync_line [OF rs(1-3) header] status_line_not_Nil c0]
  obtain cs1 where 1: "concat cs1 = len_line (length d) @ q"
    "foldl (take_in env) rs chunks = foldl (take_in env) ?rs1 cs1" by blast
  from awaits_chunks [OF awaits_rdb_header [OF s1 d q(2)] len_line_not_Nil 1(1)]
  obtain cs2 where 2: "concat cs2 = q" "foldl (take_in env) ?rs1 cs1 = foldl (take_in env) ?rs2 cs2" by blast
  have "foldl (take_in env) ?rs2 cs2 = rdb_part (se_host env) (length d) ?rs2 (concat cs2)"
    by (rule parts_run [where c = d, OF rdb_part_Nil take_in_rdb_part [OF s2 ho]]) (use q(1) 2(1) in simp_all)
  with 1 2 show ?thesis by simp
qed

text \<open>
  C8. Losing the link loses nothing. Take a replica that is streaming, perhaps in the middle of a frame,
  and the rest of the stream up to any point. Either it receives this rest; or its link is lost, the timer
  fires, it connects again (its request names the id and its offset) and the master answers +CONTINUE and sends
  the stream from that offset on: both ways it ends with the same stores, the same offset and the same
  incomplete frame.
\<close>

theorem reconnect_equals_no_loss:
  assumes "link_open rs" and "rs_state rs = kStreaming" and "link_buf rs = []"
    and "rs_have_offset rs" and "rs_master_replid rs \<noteq> []"
    and "link_lost env rs = Some rs1" and "rs2 = reconnect_fired (new_link (Some [IoSent n])) rs1"
    and "length (psync_request rs) \<le> n"
    and "\<forall>c \<in> set cs. write_ok c" and "replay_ctxs (se_classes env) cs (rs_engine rs) = Some e" and "waits_for_more p"
    and "rs_stream_buf rs @ rest = concat (map write_frame cs) @ p"
    and "\<forall>ev \<in> set (events @ events'). event_ok ev" and "events \<noteq> []" and "concat (concat events) = rest"
    and "concat (concat events') = status_line ''CONTINUE'' @ concat (map write_frame cs) @ p"
  shows "map_option tc_wire (rs_conn rs2) = Some (psync_request rs)
    \<and> (\<exists>ra rb. slave_receives env events rs = Some ra \<and> slave_receives env events' rs2 = Some rb
         \<and> rs_engine ra = e \<and> rs_engine rb = e \<and> rs_repl_offset rb = rs_repl_offset ra \<and> rs_stream_buf rb = rs_stream_buf ra
         \<and> rs_state ra = kStreaming \<and> rs_state rb = kStreaming)"
proof -
  from assms(1) obtain c where l: "slave_linked rs" "body_ok rs" "rs_fault rs = None" "rs_conn rs = Some c" "\<not> tc_closed c"
    by (auto simp: link_open_def)
  have ev: "\<forall>ev \<in> set events. event_ok ev" "\<forall>ev \<in> set events'. event_ok ev" using assms(13) by simp_all
  note B = lost_then_continue [OF l assms(4-11) ev(2) assms(16)]
  have off: "rs_repl_offset rs < 2 ^ 64" using l(1) by (simp add: slave_linked_def slave_base_def)
  have c: "consume_frames (se_classes env) 0 (rs_stream_buf rs @ concat (map concat events)) (rs_engine rs)
      = (CfOk (length (concat (map write_frame cs))), e)"
    using consume_frames_complete [OF assms(9-11)] assms(12,15) by (simp flip: concat_concat)
  have ne: "map concat events \<noteq> []" "rs_conn rs \<noteq> None" using assms(14) l(4) by simp_all
  let ?ra = "foldl (take_in env) rs (map concat events)"
  have ra: "?ra = streamed e (length (concat (map write_frame cs))) p rs"
    using stream_chunks [OF assms(2) ne(2) assms(3) ne(1) c] assms(12,15) by (simp flip: concat_concat)
  have r: "rs_state ?ra = kStreaming" "rs_fault ?ra = None" "rs_engine ?ra = e" "rs_stream_buf ?ra = p"
    "rs_repl_offset ?ra = (rs_repl_offset rs + length (concat (map write_frame cs))) mod 2 ^ 64"
    using assms(2) l(3) off unfolding ra by (auto simp: streamed_def AdvanceOffset_def)
  then have "\<not> gave_up ?ra" by (simp add: gave_up_def slave_failed_def)
  from slave_receives_chunks [OF assms(1) ev(1) this] B r show ?thesis by auto
qed

theorem reconnect_equals_no_loss_witness:
  "\<exists>rs1 ra rb. link_lost sample_slave_env sample_streaming = Some rs1
     \<and> slave_receives sample_slave_env (bytewise (drop 3 (write_frame sample_set))) sample_streaming = Some ra
     \<and> slave_receives sample_slave_env (bytewise (status_line ''CONTINUE'' @ write_frame sample_set))
         (reconnect_fired (new_link (Some [IoSent 100])) rs1) = Some rb
     \<and> rs_engine rb = rs_engine ra \<and> rs_repl_offset rb = rs_repl_offset ra"
proof -
  note o = sample_streaming_open
  from o(1) obtain c where l: "slave_linked sample_streaming" "body_ok sample_streaming" "rs_fault sample_streaming = None"
    "rs_conn sample_streaming = Some c" "\<not> tc_closed c" by (auto simp: link_open_def)
  from link_lost_fails [OF l] obtain rs1 where lost: "link_lost sample_slave_env sample_streaming = Some rs1" by blast
  have "replay_ctxs (se_classes sample_slave_env) [sample_set] (rs_engine sample_streaming)
      = Some ((rs_engine sample_slave)\<lparr>en_kv := Some [(''k'', ''v'')]\<rparr>)"
    by (simp add: o ApplyMutation_def apply_set_def sample_set_def sample_slave_def ReplicationSlave_new_def KvStore_Set_def
        um_find_def um_put_def um_emplace_def)
  moreover have "length (write_frame sample_set) > 3"
    by (simp add: resp_array_def resp_bulk_def sample_set_def write_tokens.simps dec_of_nat.simps crlf_def)
  ultimately show ?thesis
    using reconnect_equals_no_loss [OF o(1-5) lost refl o(6), of "[sample_set]" _ "[]" "drop 3 (write_frame sample_set)"
        "bytewise (drop 3 (write_frame sample_set))" "bytewise (status_line ''CONTINUE'' @ write_frame sample_set)"]
      sample_write_ok lost o(7) by (fastforce simp: waits_for_more_def)
qed

text \<open>
  C40. An interrupted full resynchronisation is taken for a finished one. The replica stores the announced
  id and offset when it has read the +FULLRESYNC line, before the RDB. When the link is lost before the RDB is
  complete, it asks for a partial resynchronisation from that offset; a master that grants it (+CONTINUE) leaves
  it streaming on its old stores with the frames since the offset applied: the data set of the RDB is never
  loaded.
\<close>

theorem interrupted_resync_misses_dataset:
  assumes "slave_base rs0" and "rs_fault rs0 = None" and "length (psync_request (ResetLink rs0)) \<le> n"
    and "rs = TryConnect (new_link (Some [IoSent n])) rs0"
    and "replid \<noteq> []" and "CHR '' '' \<notin> set replid" and "LF \<notin> set replid" and "start < 2 ^ 64"
    and "ho_create (se_host env) kInTmpPath" and "length rdb \<le> ho_room (se_host env)"
    and "strict_prefix q rdb" and "length rdb < 2 ^ 63"
    and "\<forall>ev \<in> set (events @ events'). event_ok ev"
    and "concat (concat events) = fullresync_header replid start (length rdb) @ q"
    and "\<forall>c \<in> set cs. write_ok c" and "replay_ctxs (se_classes env) cs (rs_engine rs0) = Some e" and "waits_for_more p"
    and "concat (concat events') = status_line ''CONTINUE'' @ concat (map write_frame cs) @ p"
  shows "\<exists>ra rb. slave_receives env events rs = Some ra \<and> link_lost env ra = Some rb
     \<and> (\<forall>k. length (psync_request ra) \<le> k \<longrightarrow>
          map_option tc_wire (rs_conn (reconnect_fired (new_link (Some [IoSent k])) rb)) = Some (psync_request ra)
          \<and> (\<exists>rc. slave_receives env events' (reconnect_fired (new_link (Some [IoSent k])) rb) = Some rc
                \<and> rs_state rc = kStreaming \<and> rs_engine rc = e))"
proof -
  note t = TryConnect_waits [OF assms(1-4)] and o = TryConnect_open(1) [OF assms(1-4)]
  have ev: "\<forall>ev \<in> set events. event_ok ev" "\<forall>ev \<in> set events'. event_ok ev" using assms(13) by simp_all
  have cc: "concat (map concat events) = fullresync_header replid start (length rdb) @ q"
    using assms(14) by (simp only: concat_concat)
  let ?ra = "foldl (take_in env) rs (map concat events)"
  note run = interrupted_resync [OF t(1-4) assms(5-8) assms(9-12) cc]
  have s: "rs_state ?ra = kRecvRdbBody" "rs_fault ?ra = None" "rs_engine ?ra = rs_engine rs0" "rs_have_offset ?ra"
    "rs_master_replid ?ra \<noteq> []"
    using t assms(5) unfolding run by (simp_all add: rdb_part_def resync_begun_def)
  then have ng: "\<not> gave_up ?ra" by (simp add: gave_up_def slave_failed_def)
  from foldl_open [OF o ng] obtain c where l: "slave_linked ?ra" "body_ok ?ra" "rs_fault ?ra = None" "rs_conn ?ra = Some c" "\<not> tc_closed c"
    by (auto simp: link_open_def)
  from link_lost_fails [OF l, of env] obtain rb where rb: "link_lost env ?ra = Some rb" by blast
  have m: "map_option tc_wire (rs_conn (reconnect_fired (new_link (Some [IoSent k])) rb)) = Some (psync_request ?ra)
      \<and> (\<exists>rc. slave_receives env events' (reconnect_fired (new_link (Some [IoSent k])) rb) = Some rc \<and> rs_state rc = kStreaming
          \<and> rs_engine rc = e)" if "length (psync_request ?ra) \<le> k" for k
  proof -
    have "replay_ctxs (se_classes env) cs (rs_engine ?ra) = Some e" using assms(16) s(3) by simp
    from lost_then_continue [OF l s(4,5) rb refl that assms(15) this assms(17) ev(2) assms(18)] show ?thesis by blast
  qed
  show ?thesis
    by (intro exI [of _ ?ra] exI [of _ rb] conjI allI impI slave_receives_chunks [OF o ev(1) ng] rb m [THEN conjunct1]
        m [THEN conjunct2])
qed

theorem interrupted_resync_misses_dataset_witness:
  "\<exists>ra rb rc. slave_receives sample_slave_env (bytewise (fullresync_header ''r'' 5 1)) sample_linked = Some ra
     \<and> link_lost sample_slave_env ra = Some rb
     \<and> slave_receives sample_slave_env (bytewise (status_line ''CONTINUE''))
         (reconnect_fired (new_link (Some [IoSent (length (psync_request ra))])) rb) = Some rc
     \<and> rs_state rc = kStreaming \<and> rs_engine rc = rs_engine sample_slave"
  using interrupted_resync_misses_dataset [OF sample_slave_base sample_request sample_linked_def, of "''r''" 5 sample_slave_env
      "''x''" "[]" "bytewise (fullresync_header ''r'' 5 1)" "bytewise (status_line ''CONTINUE'')" "[]"
      "rs_engine sample_slave" "[]"]
  by (fastforce simp: sample_slave_env_def good_host_def waits_for_more_def)

section \<open>Links that never recover\<close>

lemma dead_link_stays:
  assumes "(slave_step env)\<^sup>*\<^sup>* rs rs'" and "rs_state rs = kWaitFullresync" and "rs_reconnect_timer rs = None"
    and "rs_conn rs = Some c" and "tc_closed c"
  shows "rs_state rs' = kWaitFullresync \<and> rs_reconnect_timer rs' = None \<and> (\<exists>c'. rs_conn rs' = Some c' \<and> tc_closed c')
    \<and> rs_engine rs' = rs_engine rs"
  using assms(1)
proof (induction rule: rtranclp_induct)
  case (step rs1 rs2)
  from step.hyps(2) step.IH show ?case
    by cases (auto simp: slave_io_def kernel_answers_def HandleIO_def split: if_splits)
qed (use assms in simp)

text \<open>
  A request that cannot be sent strands the replica. When the send of PSYNC on the new connection fails,
  it closes the connection before the close callback is set: the object stays in kWaitFullresync with a closed
  connection and no timer, and nothing that can happen from there on changes that.
\<close>

lemma psync_send_failure_strands:
  assumes "slave_base rs0" and "rs = TryConnect (new_link (Some (IoErr # ws))) rs0" and "(slave_step env)\<^sup>*\<^sup>* rs rs'"
  shows "rs_state rs' = kWaitFullresync \<and> rs_reconnect_timer rs' = None \<and> (\<exists>c. rs_conn rs' = Some c \<and> tc_closed c)
    \<and> rs_engine rs' = rs_engine rs0"
proof -
  have go: "\<not> rs_stopping rs0" "rs_ready rs0" using assms(1) by (simp_all add: slave_base_def)
  have ne: "psync_request (ResetLink rs0) \<noteq> []" by (simp add: psync_request_def Let_def)
  note r = ResetLink_fields [of rs0]
  have "rs_state rs = kWaitFullresync" "rs_reconnect_timer rs = None" "\<exists>c. rs_conn rs = Some c \<and> tc_closed c"
    "rs_engine rs = rs_engine rs0"
    using go ne r by (auto simp: assms(2) TryConnect_def new_link_def TcpConn_Send_def TcpConn_new_def next_write_def
        TcpConn_Close_def ClearSendFile_def clear_file_def DisableWrite_def Let_def)
  with dead_link_stays [OF assms(3)] show ?thesis by metis
qed

text \<open>
  An error line of the master in place of a bulk header is never answered. In the two states that wait
  for a bulk header an error reply, such as the master's -ERR backlog lost, and everything after it stays in the
  input buffer: the replica neither fails nor schedules a reconnection, and processes nothing any more.
\<close>

lemma master_error_ignored:
  assumes "link_open rs" and "rs_state rs = kRecvRdbHeader \<or> rs_state rs = kRecvBacklogHeader"
    and "link_buf rs = []" and "\<forall>ev \<in> set events. event_ok ev" and "concat (concat events) = AppendError [] msg @ later"
  shows "\<exists>rs'. slave_receives env events rs = Some rs' \<and> rs_state rs' = rs_state rs \<and> rs_reconnect_timer rs' = None
    \<and> rs_engine rs' = rs_engine rs \<and> link_buf rs' = AppendError [] msg @ later"
proof -
  let ?s = "AppendError [] msg @ later"
  have conn: "rs_conn rs \<noteq> None" using assms(1) by (auto simp: link_open_def)
  have quiet: "on_loop env (feed p rs) = feed p rs" if "prefix p ?s" for p
  proof -
    have "p = [] \<or> p ! 0 = CHR ''-''" using that by (cases p) (auto simp: AppendError_def AppendCRLF_def)
    then have "TryConsumeBulkHeader (feed p rs) = (None, feed p rs)"
      using assms(3) conn by (auto simp: TryConsumeBulkHeader_def)
    with assms(2) show ?thesis
      by (subst on_loop.simps) (auto simp: on_step_def on_rdb_header_def on_backlog_header_def)
  qed
  have run: "prefix (concat xs) ?s \<Longrightarrow> foldl (take_in env) rs xs = feed (concat xs) rs" for xs
  proof (induction xs rule: rev_induct)
    case (snoc x xs)
    then have "prefix (concat xs) ?s" by (auto dest: append_prefixD)
    with snoc quiet [of "concat xs @ x"] show ?case by (simp add: take_in_def feed_feed)
  qed (simp add: feed_Nil)
  have c: "concat (map concat events) = ?s" using assms(5) by (simp only: concat_concat)
  have fin: "foldl (take_in env) rs (map concat events) = feed ?s rs" using run [of "map concat events"] c by simp
  have "\<not> gave_up (feed ?s rs)" using assms(1) by (auto simp: gave_up_def link_open_def slave_failed_def slave_linked_def)
  with slave_receives_chunks [OF assms(1,4), of env] fin have "slave_receives env events rs = Some (feed ?s rs)" by simp
  moreover have "rs_reconnect_timer (feed ?s rs) = None" using assms(1) by (simp add: feed_def link_open_def slave_linked_def)
  ultimately show ?thesis using assms(3) conn by simp
qed

end
