(* ===== verification/Config.thy ===== *)
theory Config
  imports Vemory_Prelude
begin

text \<open>
  The settings (src/src/util/Config.cc, src/include/vemory/util/Config.h): the INI file, its parser and its
  errors, and the command line (src/src/Vemory.cc).
\<close>

section \<open>Data\<close>

datatype AofFsyncPolicy = kNo | kEverySec | kAlways

datatype AofIoMode = kAuto | kThread | kIoUring

record Config =
  cf_port :: nat
  cf_bind :: bytes
  cf_log_level :: bytes
  cf_kv_reserve :: nat
  cf_default_capacity :: nat
  cf_max_entries :: nat
  cf_persistence_dir :: bytes
  cf_load_on_startup :: bool
  cf_aof :: bool
  cf_aof_fsync :: AofFsyncPolicy
  cf_aof_io :: AofIoMode
  cf_aof_flush_interval_ms :: nat
  cf_slaveof :: bool
  cf_slaveof_host :: bytes
  cf_slaveof_port :: nat
  cf_warnings :: "bytes list"

definition Config_init :: Config where
  "Config_init =
     \<lparr>cf_port = 8888, cf_bind = ''0.0.0.0'', cf_log_level = ''info'', cf_kv_reserve = 100000,
      cf_default_capacity = 1024, cf_max_entries = 0, cf_persistence_dir = ''data'', cf_load_on_startup = False,
      cf_aof = False, cf_aof_fsync = kEverySec, cf_aof_io = kAuto, cf_aof_flush_interval_ms = 1000,
      cf_slaveof = False, cf_slaveof_host = [], cf_slaveof_port = 0, cf_warnings = []\<rparr>"

section \<open>Text helpers\<close>

definition Trim :: "bytes \<Rightarrow> bytes" where
  "Trim s = rev (dropWhile isspace (rev (dropWhile isspace s)))"

definition ToLower :: "bytes \<Rightarrow> bytes" where
  "ToLower s = map tolower s"

definition ParseUint :: "bytes \<Rightarrow> nat option" where
  "ParseUint text =
     (if text = [] then None
      else case strtoull (c_str text) of
             None \<Rightarrow> None
           | Some (v, rest) \<Rightarrow> if rest \<noteq> [] then None else Some v)"

definition IsKnownSection :: "bytes \<Rightarrow> bool" where
  "IsKnownSection section \<longleftrightarrow> section = ''server'' \<or> section = ''logging'' \<or> section = ''storage''
     \<or> section = ''index'' \<or> section = ''persistence''"

definition ParseBool :: "bytes \<Rightarrow> bool option" where
  "ParseBool text =
     (let lower = ToLower text
      in if lower = ''true'' \<or> lower = ''1'' \<or> lower = ''yes'' \<or> lower = ''on'' then Some True
         else if lower = ''false'' \<or> lower = ''0'' \<or> lower = ''no'' \<or> lower = ''off'' then Some False
         else None)"

definition IsValidLogLevel :: "bytes \<Rightarrow> bool" where
  "IsValidLogLevel level \<longleftrightarrow> level = ''trace'' \<or> level = ''debug'' \<or> level = ''info'' \<or> level = ''warn''
     \<or> level = ''error'' \<or> level = ''critical'' \<or> level = ''off''"

section \<open>One key\<close>

definition unknown_key :: "bytes \<Rightarrow> bytes \<Rightarrow> Config \<Rightarrow> Config" where
  "unknown_key section key cfg = cfg\<lparr>cf_warnings := cf_warnings cfg @ [''unknown key '' @ section @ ''.'' @ key]\<rparr>"

definition apply_server :: "bytes \<Rightarrow> bytes \<Rightarrow> Config \<Rightarrow> bytes + Config" where
  "apply_server key value cfg =
     (if key = ''port'' then
        (case ParseUint value of
           Some v \<Rightarrow> if v = 0 \<or> 65535 < v then Inl (''invalid server.port: '' @ value) else Inr (cfg\<lparr>cf_port := v\<rparr>)
         | None \<Rightarrow> Inl (''invalid server.port: '' @ value))
      else if key = ''bind'' then
        (if value = [] then Inl ''invalid server.bind: empty'' else Inr (cfg\<lparr>cf_bind := value\<rparr>))
      else Inr (unknown_key ''server'' key cfg))"

definition apply_logging :: "bytes \<Rightarrow> bytes \<Rightarrow> Config \<Rightarrow> bytes + Config" where
  "apply_logging key value cfg =
     (if key = ''level'' then
        (let level = ToLower value
         in if \<not> IsValidLogLevel level then Inl (''invalid logging.level: '' @ value)
            else Inr (cfg\<lparr>cf_log_level := level\<rparr>))
      else Inr (unknown_key ''logging'' key cfg))"

definition apply_storage :: "bytes \<Rightarrow> bytes \<Rightarrow> Config \<Rightarrow> bytes + Config" where
  "apply_storage key value cfg =
     (if key = ''kv_reserve'' then
        (case ParseUint value of
           None \<Rightarrow> Inl (''invalid storage.kv_reserve: '' @ value)
         | Some v \<Rightarrow> Inr (cfg\<lparr>cf_kv_reserve := v\<rparr>))
      else Inr (unknown_key ''storage'' key cfg))"

definition apply_index :: "bytes \<Rightarrow> bytes \<Rightarrow> Config \<Rightarrow> bytes + Config" where
  "apply_index key value cfg =
     (if key = ''default_capacity'' then
        (case ParseUint value of
           Some v \<Rightarrow> if v = 0 then Inl (''invalid index.default_capacity: '' @ value) else Inr (cfg\<lparr>cf_default_capacity := v\<rparr>)
         | None \<Rightarrow> Inl (''invalid index.default_capacity: '' @ value))
      else if key = ''max_entries'' then
        (case ParseUint value of
           None \<Rightarrow> Inl (''invalid index.max_entries: '' @ value)
         | Some v \<Rightarrow> Inr (cfg\<lparr>cf_max_entries := v\<rparr>))
      else Inr (unknown_key ''index'' key cfg))"

definition parse_fsync :: "bytes \<Rightarrow> AofFsyncPolicy option" where
  "parse_fsync value =
     (let lower = ToLower value
      in if lower = ''no'' then Some kNo else if lower = ''everysec'' then Some kEverySec
         else if lower = ''always'' then Some kAlways else None)"

definition parse_io :: "bytes \<Rightarrow> AofIoMode option" where
  "parse_io value =
     (let lower = ToLower value
      in if lower = ''auto'' then Some kAuto else if lower = ''thread'' then Some kThread
         else if lower = ''iouring'' then Some kIoUring else None)"

definition apply_persistence :: "bytes \<Rightarrow> bytes \<Rightarrow> Config \<Rightarrow> bytes + Config" where
  "apply_persistence key value cfg =
     (if key = ''dir'' then Inr (cfg\<lparr>cf_persistence_dir := value\<rparr>)
      else if key = ''load_on_startup'' then
        (case ParseBool value of
           None \<Rightarrow> Inl (''invalid persistence.load_on_startup: '' @ value)
         | Some v \<Rightarrow> Inr (cfg\<lparr>cf_load_on_startup := v\<rparr>))
      else if key = ''aof'' then
        (case ParseBool value of
           None \<Rightarrow> Inl (''invalid persistence.aof: '' @ value)
         | Some v \<Rightarrow> Inr (cfg\<lparr>cf_aof := v\<rparr>))
      else if key = ''aof_fsync'' then
        (case parse_fsync value of
           None \<Rightarrow> Inl (''invalid persistence.aof_fsync: '' @ value @ '' (expected no|everysec|always)'')
         | Some p \<Rightarrow> Inr (cfg\<lparr>cf_aof_fsync := p\<rparr>))
      else if key = ''aof_io'' then
        (case parse_io value of
           None \<Rightarrow> Inl (''invalid persistence.aof_io: '' @ value @ '' (expected auto|thread|iouring)'')
         | Some p \<Rightarrow> Inr (cfg\<lparr>cf_aof_io := p\<rparr>))
      else if key = ''aof_flush_interval_ms'' then
        (case ParseUint value of
           Some v \<Rightarrow> if v < 1 \<or> 600000 < v then Inl (''invalid persistence.aof_flush_interval_ms: '' @ value)
                     else Inr (cfg\<lparr>cf_aof_flush_interval_ms := v\<rparr>)
         | None \<Rightarrow> Inl (''invalid persistence.aof_flush_interval_ms: '' @ value))
      else Inr (unknown_key ''persistence'' key cfg))"

definition ApplyKey :: "bytes \<Rightarrow> bytes \<Rightarrow> bytes \<Rightarrow> Config \<Rightarrow> bytes + Config" where
  "ApplyKey section key value cfg =
     (if \<not> IsKnownSection section then Inr cfg
      else if section = ''server'' then apply_server key value cfg
      else if section = ''logging'' then apply_logging key value cfg
      else if section = ''storage'' then apply_storage key value cfg
      else if section = ''index'' then apply_index key value cfg
      else apply_persistence key value cfg)"

section \<open>The file\<close>

text \<open>\<^verbatim>\<open>std::getline\<close> to the end of the file.\<close>

fun getlines :: "bytes \<Rightarrow> bytes list" where
  "getlines [] = []"
| "getlines (c # cs) =
     (if c = LF then [] # getlines cs
      else case getlines cs of
             [] \<Rightarrow> [[c]]
           | l # ls \<Rightarrow> (c # l) # ls)"

text \<open>The variables of the loop; \<open>ls_warned\<close> are the sections already warned of.\<close>

record load_state =
  ls_cfg :: Config
  ls_section :: bytes
  ls_warned :: "bytes list"

definition load_init :: load_state where
  "load_init = \<lparr>ls_cfg = Config_init, ls_section = [], ls_warned = []\<rparr>"

definition at_line :: "nat \<Rightarrow> bytes \<Rightarrow> bytes" where
  "at_line line_no what = ''line '' @ dec_of_nat line_no @ '': '' @ what"

definition load_section :: "nat \<Rightarrow> bytes \<Rightarrow> load_state \<Rightarrow> bytes + load_state" where
  "load_section line_no trimmed ls =
     (if last trimmed \<noteq> CHR '']'' \<or> length trimmed < 3 then Inl (at_line line_no ''bad section header'')
      else let section = ToLower (Trim (slice 1 (length trimmed - 2) trimmed))
           in if section = [] then Inl (at_line line_no ''empty section name'')
              else if \<not> IsKnownSection section \<and> section \<notin> set (ls_warned ls)
              then Inr (ls\<lparr>ls_section := section, ls_warned := section # ls_warned ls,
                          ls_cfg := (ls_cfg ls)\<lparr>cf_warnings := cf_warnings (ls_cfg ls) @ [''unknown section ['' @ section @ '']'']\<rparr>\<rparr>)
              else Inr (ls\<lparr>ls_section := section\<rparr>))"

definition load_key :: "nat \<Rightarrow> bytes \<Rightarrow> load_state \<Rightarrow> bytes + load_state" where
  "load_key line_no trimmed ls =
     (if CHR ''='' \<notin> set trimmed then Inl (at_line line_no ''expected key = value'')
      else if ls_section ls = [] then Inl (at_line line_no ''key outside of section'')
      else let key = ToLower (Trim (takeWhile (\<lambda>c. c \<noteq> CHR ''='') trimmed));
               value = Trim (tl (dropWhile (\<lambda>c. c \<noteq> CHR ''='') trimmed))
           in if key = [] then Inl (at_line line_no ''empty key'')
              else case ApplyKey (ls_section ls) key value (ls_cfg ls) of
                     Inl e \<Rightarrow> Inl (if e \<noteq> [] then at_line line_no e else e)
                   | Inr cfg \<Rightarrow> Inr (ls\<lparr>ls_cfg := cfg\<rparr>))"

definition load_line :: "nat \<Rightarrow> bytes \<Rightarrow> load_state \<Rightarrow> bytes + load_state" where
  "load_line line_no line ls =
     (let trimmed = Trim line
      in if trimmed = [] \<or> hd trimmed = CHR ''#'' \<or> hd trimmed = CHR '';'' then Inr ls
         else if hd trimmed = CHR ''['' then load_section line_no trimmed ls
         else load_key line_no trimmed ls)"

fun load_lines :: "nat \<Rightarrow> bytes list \<Rightarrow> load_state \<Rightarrow> bytes + load_state" where
  "load_lines n [] ls = Inr ls"
| "load_lines n (line # lines) ls =
     (case load_line (n + 1) line ls of Inl e \<Rightarrow> Inl e | Inr ls' \<Rightarrow> load_lines (n + 1) lines ls')"

text \<open>\<open>file\<close> is what the path holds, None when it cannot be opened.\<close>

definition LoadConfig :: "bytes \<Rightarrow> bytes option \<Rightarrow> bytes + Config" where
  "LoadConfig path file =
     (case file of
        None \<Rightarrow> Inl (''cannot open config file: '' @ path)
      | Some text \<Rightarrow>
          (case load_lines 0 (getlines text) load_init of
             Inl e \<Rightarrow> Inl e
           | Inr ls \<Rightarrow> Inr (ls_cfg ls)))"

section \<open>The command line\<close>

definition ParsePortArg :: "bytes \<Rightarrow> nat option" where
  "ParsePortArg text =
     (case strtoll text of
        None \<Rightarrow> None
      | Some (port, rest) \<Rightarrow> if rest \<noteq> [] \<or> port \<le> 0 \<or> 65535 < port then None else Some (nat port))"

record Args =
  ag_config_path :: bytes
  ag_port_override :: bool
  ag_port :: nat
  ag_slaveof :: bool
  ag_slaveof_host :: bytes
  ag_slaveof_port :: nat

definition Args_init :: Args where
  "Args_init = \<lparr>ag_config_path = [], ag_port_override = False, ag_port = 8888, ag_slaveof = False,
     ag_slaveof_host = [], ag_slaveof_port = 0\<rparr>"

text \<open>The message is the first line written to the error stream; the usage text follows it.\<close>

datatype args_result = ArgsOk Args | ArgsError bytes | ArgsHelp

text \<open>The loop over \<^verbatim>\<open>argv[i]\<close>, \<^verbatim>\<open>argv[i + 1]\<close>, \<dots>\<close>

fun ParseArgs :: "bytes list \<Rightarrow> Args \<Rightarrow> args_result" where
  "ParseArgs [] ag = ArgsOk ag"
| "ParseArgs (arg # args) ag =
     (if arg = ''-c'' then
        (case args of
           [] \<Rightarrow> ArgsError ''Missing path after -c''
         | path # rest \<Rightarrow> ParseArgs rest (ag\<lparr>ag_config_path := path\<rparr>))
      else if arg = ''--slaveof'' then
        (case args of
           host # port # rest \<Rightarrow>
             (case ParsePortArg port of
                None \<Rightarrow> ArgsError (''Invalid --slaveof port: '' @ port)
              | Some p \<Rightarrow> ParseArgs rest (ag\<lparr>ag_slaveof := True, ag_slaveof_host := host, ag_slaveof_port := p\<rparr>))
         | _ \<Rightarrow> ArgsError ''Usage: --slaveof <host> <port>'')
      else if arg = ''-h'' \<or> arg = ''--help'' then ArgsHelp
      else if arg \<noteq> [] \<and> hd arg = CHR ''-'' then ArgsError (''Unknown option: '' @ arg)
      else if ag_port_override ag then ArgsError (''Unexpected argument: '' @ arg)
      else case ParsePortArg arg of
             None \<Rightarrow> ArgsError (''Invalid port: '' @ arg)
           | Some p \<Rightarrow> ParseArgs args (ag\<lparr>ag_port := p, ag_port_override := True\<rparr>))"

text \<open>The settings \<^verbatim>\<open>main\<close> runs with.\<close>

definition with_args :: "Args \<Rightarrow> Config \<Rightarrow> Config" where
  "with_args ag cfg =
     (if ag_port_override ag then cfg\<lparr>cf_port := ag_port ag\<rparr> else cfg)
       \<lparr>cf_slaveof := ag_slaveof ag, cf_slaveof_host := ag_slaveof_host ag, cf_slaveof_port := ag_slaveof_port ag\<rparr>"

datatype startup = StartHelp | StartFailure bytes | StartConfig Config

definition read_settings :: "(bytes \<Rightarrow> bytes option) \<Rightarrow> bytes list \<Rightarrow> startup" where
  "read_settings fs argv =
     (case ParseArgs argv Args_init of
        ArgsHelp \<Rightarrow> StartHelp
      | ArgsError e \<Rightarrow> StartFailure e
      | ArgsOk ag \<Rightarrow>
          if ag_config_path ag \<noteq> [] then
            (case LoadConfig (ag_config_path ag) (fs (ag_config_path ag)) of
               Inl e \<Rightarrow> StartFailure (''Config error: '' @ e)
             | Inr cfg \<Rightarrow> StartConfig (with_args ag cfg))
          else StartConfig (with_args ag Config_init))"

end
