(* ===== verification/AofThread.thy ===== *)
theory AofThread
  imports Config Stdio
begin

text \<open>
  The classic AOF writer (src/src/persist/ThreadAofWriter.cc) over the bounded queue
  (src/include/vemory/util/BlockingQueue.h): a client thread that enqueues, flushes and stops, and a flush
  thread that writes batches. The two run interleaved, one step per region guarded by a mutex or access to an
  atomic; what the file system answers and the clock are chosen by the environment in each step.
\<close>

section \<open>The queue\<close>

record 'a BlockingQueue =
  bq_capacity :: nat
  bq_cancelled :: bool
  bq_items :: "'a list"

definition BlockingQueue_new :: "nat \<Rightarrow> 'a BlockingQueue" where
  "BlockingQueue_new capacity = \<lparr>bq_capacity = (if capacity < 1 then 1 else capacity), bq_cancelled = False, bq_items = []\<rparr>"

text \<open>None: the caller waits.\<close>

definition Queue_Push :: "'a \<Rightarrow> 'a BlockingQueue \<Rightarrow> (bool \<times> 'a BlockingQueue) option" where
  "Queue_Push x q =
     (if \<not> (length (bq_items q) < bq_capacity q \<or> bq_cancelled q) then None
      else if bq_cancelled q then Some (False, q)
      else Some (True, q\<lparr>bq_items := bq_items q @ [x]\<rparr>))"

text \<open>\<^verbatim>\<open>PopWaitFor\<close> when it returns: with the front, or nothing on a timeout and on a cancelled empty queue.\<close>

definition Queue_PopWaitFor :: "'a BlockingQueue \<Rightarrow> 'a option \<times> 'a BlockingQueue" where
  "Queue_PopWaitFor q =
     (case bq_items q of [] \<Rightarrow> (None, q) | x # xs \<Rightarrow> (Some x, q\<lparr>bq_items := xs\<rparr>))"

definition Queue_Pop :: "'a BlockingQueue \<Rightarrow> ('a option \<times> 'a BlockingQueue) option" where
  "Queue_Pop q =
     (if bq_items q = [] \<and> \<not> bq_cancelled q then None else Some (Queue_PopWaitFor q))"

definition Queue_Cancel :: "'a BlockingQueue \<Rightarrow> 'a BlockingQueue" where
  "Queue_Cancel q = q\<lparr>bq_cancelled := True\<rparr>"

section \<open>The writer\<close>

definition kQueueCapacity :: nat where
  "kQueueCapacity = 1024"

definition kMaxBatch :: nat where
  "kMaxBatch = 32"

text \<open>Where the flush thread is, with the frames it has taken off the queue.\<close>

datatype flush_pc =
    FpWait                 \<comment> \<open>about to wait for a frame\<close>
  | FpNone                 \<comment> \<open>the wait gave nothing\<close>
  | FpBatch "bytes list"   \<comment> \<open>collecting\<close>
  | FpTaken "bytes list"   \<comment> \<open>about to look at the failure flag\<close>
  | FpWrite "bytes list"   \<comment> \<open>about to lock the file\<close>
  | FpDone nat             \<comment> \<open>written or skipped\<close>
  | FpFail nat             \<comment> \<open>failed, the file still locked\<close>
  | FpCancel
  | FpDrain
  | FpDrop
  | FpExit

text \<open>Where the client is; the boolean of a flush says that it belongs to \<^verbatim>\<open>Stop\<close>.\<close>

datatype client_pc =
    CIdle
  | CCount bytes     \<comment> \<open>accepted by the checks of \<^verbatim>\<open>Enqueue\<close>\<close>
  | CPush bytes
  | CUndo bytes
  | CWait bool       \<comment> \<open>\<^verbatim>\<open>Flush\<close> waits for the drain\<close>
  | CCheck bool
  | CSync bool
  | CEnd bool
  | CCancel
  | CJoin
  | CClose

datatype client_return = REnqueue bytes bool | RFlush bool | RStop

text \<open>
  \<open>ta_disk\<close> is what the path holds while the file is closed, \<open>ta_durable\<close> how much of the file the last
  successful sync covered. The last two fields are history: the frames \<^verbatim>\<open>Enqueue\<close> has accepted and the calls
  that have returned.
\<close>

record ThreadAofWriter =
  ta_fsync :: AofFsyncPolicy
  ta_fp :: "FILE option"
  ta_disk :: bytes
  ta_durable :: nat
  ta_queue :: "bytes BlockingQueue"
  ta_io_failed :: bool
  ta_stopped :: bool
  ta_dirty :: bool
  ta_last_fsync :: nat
  ta_pending :: nat
  ta_flush :: flush_pc
  ta_client :: client_pc
  ta_accepted :: "bytes list"
  ta_returned :: "client_return list"

text \<open>What the system answers; the clock is in milliseconds.\<close>

record aof_env =
  ae_create_directories :: bool
  ae_fopen :: bool
  ae_room :: nat
  ae_fflush :: bool
  ae_sync :: bool
  ae_now :: nat

definition ThreadAofWriter_new :: "bytes \<Rightarrow> AofFsyncPolicy \<Rightarrow> nat \<Rightarrow> ThreadAofWriter" where
  "ThreadAofWriter_new disk fsync now =
     \<lparr>ta_fsync = fsync, ta_fp = None, ta_disk = disk, ta_durable = length disk,
      ta_queue = BlockingQueue_new kQueueCapacity, ta_io_failed = False, ta_stopped = False, ta_dirty = False,
      ta_last_fsync = now, ta_pending = 0, ta_flush = FpWait, ta_client = CIdle, ta_accepted = [], ta_returned = []\<rparr>"

definition aof_contents :: "ThreadAofWriter \<Rightarrow> bytes" where
  "aof_contents w = (case ta_fp w of None \<Rightarrow> ta_disk w | Some f \<Rightarrow> f_data f)"

definition DecPendingN :: "nat \<Rightarrow> ThreadAofWriter \<Rightarrow> ThreadAofWriter" where
  "DecPendingN n w = w\<lparr>ta_pending := (if ta_pending w \<le> n then 0 else ta_pending w - n)\<rparr>"

definition EnsureOpen :: "aof_env \<Rightarrow> ThreadAofWriter \<Rightarrow> bool \<times> ThreadAofWriter" where
  "EnsureOpen ae w =
     (if ta_fp w \<noteq> None then (True, w)
      else if \<not> ae_create_directories ae then (False, w)
      else if \<not> ae_fopen ae then (False, w)
      else (True, w\<lparr>ta_fp := Some \<lparr>f_data = ta_disk w, f_pos = length (ta_disk w), f_room = ae_room ae\<rparr>\<rparr>))"

fun write_frames :: "bytes list \<Rightarrow> FILE \<Rightarrow> bool \<times> FILE" where
  "write_frames [] f = (True, f)"
| "write_frames (x # xs) f =
     (if x = [] then (False, f)
      else case WriteExact f x of (ok, f1) \<Rightarrow> if ok then write_frames xs f1 else (False, f1))"

definition WriteBatch :: "aof_env \<Rightarrow> bytes list \<Rightarrow> ThreadAofWriter \<Rightarrow> bool \<times> ThreadAofWriter" where
  "WriteBatch ae frames w =
     (if frames = [] then (False, w)
      else case write_frames frames (the (ta_fp w)) of
             (ok, f) \<Rightarrow>
               let w1 = w\<lparr>ta_fp := Some f\<rparr>
               in if \<not> ok then (False, w1)
                  else if \<not> ae_fflush ae then (False, w1)
                  else (True, w1\<lparr>ta_dirty := True\<rparr>))"

definition SyncFile :: "aof_env \<Rightarrow> ThreadAofWriter \<Rightarrow> bool \<times> ThreadAofWriter" where
  "SyncFile ae w =
     (if ta_fsync w = kNo then (True, w)
      else if ta_fp w = None \<or> \<not> ta_dirty w then (True, w)
      else if \<not> ae_sync ae then (False, w)
      else (True, w\<lparr>ta_dirty := False, ta_last_fsync := ae_now ae, ta_durable := length (aof_contents w)\<rparr>))"

text \<open>\<open>sync_or_fail\<close>: a failed sync sets the flag.\<close>

definition sync_or_fail :: "aof_env \<Rightarrow> ThreadAofWriter \<Rightarrow> ThreadAofWriter" where
  "sync_or_fail ae w = (case SyncFile ae w of (ok, w1) \<Rightarrow> if ok then w1 else w1\<lparr>ta_io_failed := True\<rparr>)"

definition MaybeSyncAfterBatch :: "aof_env \<Rightarrow> ThreadAofWriter \<Rightarrow> ThreadAofWriter" where
  "MaybeSyncAfterBatch ae w =
     (if ta_fsync w = kAlways then sync_or_fail ae w
      else if ta_fsync w \<noteq> kEverySec then w
      else if ae_now ae - ta_last_fsync w < 1000 then w
      else sync_or_fail ae w)"

subsection \<open>The flush thread\<close>

definition cancel_queue :: "ThreadAofWriter \<Rightarrow> ThreadAofWriter" where
  "cancel_queue w = w\<lparr>ta_queue := Queue_Cancel (ta_queue w)\<rparr>"

text \<open>The branch after a wait that gave nothing.\<close>

definition flush_idle :: "aof_env \<Rightarrow> ThreadAofWriter \<Rightarrow> ThreadAofWriter" where
  "flush_idle ae w =
     (if bq_cancelled (ta_queue w) then w\<lparr>ta_flush := FpExit\<rparr>
      else let w1 = (if ta_fsync w = kEverySec \<and> \<not> ta_io_failed w
                     then (case SyncFile ae w of
                             (True, w2) \<Rightarrow> w2
                           | (False, w2) \<Rightarrow> cancel_queue (w2\<lparr>ta_io_failed := True\<rparr>))
                     else w)
           in w1\<lparr>ta_flush := FpWait\<rparr>)"

definition flush_write :: "aof_env \<Rightarrow> bytes list \<Rightarrow> ThreadAofWriter \<Rightarrow> ThreadAofWriter" where
  "flush_write ae b w =
     (case EnsureOpen ae w of
        (False, w1) \<Rightarrow> w1\<lparr>ta_io_failed := True, ta_flush := FpFail (length b)\<rparr>
      | (True, w1) \<Rightarrow>
          (case WriteBatch ae b w1 of
             (False, w2) \<Rightarrow> w2\<lparr>ta_io_failed := True, ta_flush := FpFail (length b)\<rparr>
           | (True, w2) \<Rightarrow>
               let w3 = MaybeSyncAfterBatch ae w2
               in w3\<lparr>ta_flush := (if ta_io_failed w3 then FpFail (length b) else FpDone (length b))\<rparr>))"

text \<open>One step of \<^verbatim>\<open>FlushLoop\<close>; None when the thread has ended.\<close>

definition flush_step :: "aof_env \<Rightarrow> ThreadAofWriter \<Rightarrow> ThreadAofWriter option" where
  "flush_step ae w =
     (case ta_flush w of
        FpWait \<Rightarrow>
          (case Queue_PopWaitFor (ta_queue w) of
             (None, q) \<Rightarrow> Some (w\<lparr>ta_queue := q, ta_flush := FpNone\<rparr>)
           | (Some x, q) \<Rightarrow> Some (w\<lparr>ta_queue := q, ta_flush := FpBatch [x]\<rparr>))
      | FpNone \<Rightarrow> Some (flush_idle ae w)
      | FpBatch b \<Rightarrow>
          if length b < kMaxBatch
          then (case Queue_PopWaitFor (ta_queue w) of
                  (None, q) \<Rightarrow> Some (w\<lparr>ta_queue := q, ta_flush := FpTaken b\<rparr>)
                | (Some x, q) \<Rightarrow> Some (w\<lparr>ta_queue := q, ta_flush := FpBatch (b @ [x])\<rparr>))
          else Some (w\<lparr>ta_flush := FpTaken b\<rparr>)
      | FpTaken b \<Rightarrow> Some (w\<lparr>ta_flush := (if ta_io_failed w then FpDone (length b) else FpWrite b)\<rparr>)
      | FpWrite b \<Rightarrow> Some (flush_write ae b w)
      | FpDone n \<Rightarrow> Some ((DecPendingN n w)\<lparr>ta_flush := FpWait\<rparr>)
      | FpFail n \<Rightarrow> Some ((DecPendingN n w)\<lparr>ta_flush := FpCancel\<rparr>)
      | FpCancel \<Rightarrow> Some ((cancel_queue w)\<lparr>ta_flush := FpDrain\<rparr>)
      | FpDrain \<Rightarrow>
          map_option (\<lambda>(x, q). w\<lparr>ta_queue := q, ta_flush := (if x = None then FpExit else FpDrop)\<rparr>)
            (Queue_Pop (ta_queue w))
      | FpDrop \<Rightarrow> Some ((DecPendingN 1 w)\<lparr>ta_flush := FpDrain\<rparr>)
      | FpExit \<Rightarrow> None)"

subsection \<open>The client\<close>

text \<open>The flush thread holds the file's mutex between two of its steps.\<close>

fun locks_file :: "flush_pc \<Rightarrow> bool" where
  "locks_file (FpFail n) = True"
| "locks_file FpCancel = True"
| "locks_file FpDrain = True"
| "locks_file FpDrop = True"
| "locks_file _ = False"

definition client_return :: "client_return \<Rightarrow> ThreadAofWriter \<Rightarrow> ThreadAofWriter" where
  "client_return r w = w\<lparr>ta_client := CIdle, ta_returned := ta_returned w @ [r]\<rparr>"

text \<open>A flush ends: it returns, or \<^verbatim>\<open>Stop\<close>, which ignores the result, goes on.\<close>

definition flush_returns :: "bool \<Rightarrow> bool \<Rightarrow> ThreadAofWriter \<Rightarrow> ThreadAofWriter" where
  "flush_returns stopping ok w = (if stopping then w\<lparr>ta_client := CCancel\<rparr> else client_return (RFlush ok) w)"

text \<open>The calls: the checks of \<^verbatim>\<open>Enqueue\<close>, the start of \<^verbatim>\<open>Flush\<close>, and \<^verbatim>\<open>Stop\<close> up to its flush.\<close>

definition Enqueue_start :: "bytes \<Rightarrow> ThreadAofWriter \<Rightarrow> ThreadAofWriter" where
  "Enqueue_start frame w =
     (if ta_stopped w \<or> ta_io_failed w \<or> bq_cancelled (ta_queue w) then client_return (REnqueue frame False) w
      else w\<lparr>ta_client := CCount frame\<rparr>)"

definition Flush_start :: "ThreadAofWriter \<Rightarrow> ThreadAofWriter" where
  "Flush_start w = w\<lparr>ta_client := CWait False\<rparr>"

definition Stop_start :: "ThreadAofWriter \<Rightarrow> ThreadAofWriter" where
  "Stop_start w = (if ta_stopped w then client_return RStop w else w\<lparr>ta_stopped := True, ta_client := CWait True\<rparr>)"

text \<open>The following steps of a call; None when it has to wait.\<close>

definition client_step :: "aof_env \<Rightarrow> ThreadAofWriter \<Rightarrow> ThreadAofWriter option" where
  "client_step ae w =
     (case ta_client w of
        CIdle \<Rightarrow> None
      | CCount x \<Rightarrow> Some (w\<lparr>ta_pending := ta_pending w + 1, ta_client := CPush x\<rparr>)
      | CPush x \<Rightarrow>
          (case Queue_Push x (ta_queue w) of
             None \<Rightarrow> None
           | Some (True, q) \<Rightarrow> Some (client_return (REnqueue x True) (w\<lparr>ta_queue := q, ta_accepted := ta_accepted w @ [x]\<rparr>))
           | Some (False, q) \<Rightarrow> Some (w\<lparr>ta_queue := q, ta_client := CUndo x\<rparr>))
      | CUndo x \<Rightarrow> Some (client_return (REnqueue x False) (DecPendingN 1 w))
      | CWait s \<Rightarrow> if ta_pending w = 0 then Some (w\<lparr>ta_client := CCheck s\<rparr>) else None
      | CCheck s \<Rightarrow> Some (if ta_io_failed w then flush_returns s False w else w\<lparr>ta_client := CSync s\<rparr>)
      | CSync s \<Rightarrow>
          if ta_fsync w = kNo then Some (w\<lparr>ta_client := CEnd s\<rparr>)
          else if locks_file (ta_flush w) then None
          else if ta_fp w \<noteq> None \<and> ta_dirty w
          then (case SyncFile ae w of
                  (True, w1) \<Rightarrow> Some (w1\<lparr>ta_client := CEnd s\<rparr>)
                | (False, w1) \<Rightarrow> Some (flush_returns s False (w1\<lparr>ta_io_failed := True\<rparr>)))
          else Some (w\<lparr>ta_client := CEnd s\<rparr>)
      | CEnd s \<Rightarrow> Some (flush_returns s (\<not> ta_io_failed w) w)
      | CCancel \<Rightarrow> Some ((cancel_queue w)\<lparr>ta_client := CJoin\<rparr>)
      | CJoin \<Rightarrow> if ta_flush w = FpExit then Some (w\<lparr>ta_client := CClose\<rparr>) else None
      | CClose \<Rightarrow> Some (client_return RStop (w\<lparr>ta_fp := None, ta_disk := aof_contents w\<rparr>)))"

section \<open>Runs\<close>

inductive aof_step :: "ThreadAofWriter \<Rightarrow> ThreadAofWriter \<Rightarrow> bool" where
  flush: "flush_step ae w = Some w' \<Longrightarrow> aof_step w w'"
| client: "client_step ae w = Some w' \<Longrightarrow> aof_step w w'"
| enqueue: "ta_client w = CIdle \<Longrightarrow> aof_step w (Enqueue_start frame w)"
| do_flush: "ta_client w = CIdle \<Longrightarrow> aof_step w (Flush_start w)"
| stop: "ta_client w = CIdle \<Longrightarrow> aof_step w (Stop_start w)"

definition aof_init :: "ThreadAofWriter \<Rightarrow> bool" where
  "aof_init w \<longleftrightarrow> (\<exists>disk fsync now. w = ThreadAofWriter_new disk fsync now)"

interpretation aof: transition_system aof_init aof_step .

section \<open>Concrete runs\<close>

datatype aof_act = AFlush aof_env | AClient aof_env | AEnqueue bytes | ADoFlush | AStop

fun do_act :: "aof_act \<Rightarrow> ThreadAofWriter \<Rightarrow> ThreadAofWriter option" where
  "do_act (AFlush ae) w = flush_step ae w"
| "do_act (AClient ae) w = client_step ae w"
| "do_act (AEnqueue x) w = (if ta_client w = CIdle then Some (Enqueue_start x w) else None)"
| "do_act ADoFlush w = (if ta_client w = CIdle then Some (Flush_start w) else None)"
| "do_act AStop w = (if ta_client w = CIdle then Some (Stop_start w) else None)"

fun aof_acts :: "aof_act list \<Rightarrow> ThreadAofWriter \<Rightarrow> ThreadAofWriter option" where
  "aof_acts [] w = Some w"
| "aof_acts (a # as) w = (case do_act a w of None \<Rightarrow> None | Some w' \<Rightarrow> aof_acts as w')"

lemma do_act_step: "do_act a w = Some w' \<Longrightarrow> aof_step w w'"
  by (cases a) (auto intro: aof_step.intros split: if_splits)

lemma aof_acts_steps: "aof_acts as w = Some w' \<Longrightarrow> aof_step\<^sup>*\<^sup>* w w'"
  by (induction as arbitrary: w)
     (auto split: option.splits intro: converse_rtranclp_into_rtranclp dest: do_act_step)

text \<open>A file system that answers every call.\<close>

definition good_disk :: aof_env where
  "good_disk = \<lparr>ae_create_directories = True, ae_fopen = True, ae_room = 1000, ae_fflush = True, ae_sync = True, ae_now = 5\<rparr>"

text \<open>Two frames are enqueued; the flush thread writes them in one batch.\<close>

definition sample_acts :: "aof_act list" where
  "sample_acts = [AEnqueue ''ab'', AClient good_disk, AFlush good_disk, AClient good_disk, AFlush good_disk, AFlush good_disk,
     AEnqueue ''c'', AClient good_disk, AClient good_disk,
     AFlush good_disk, AFlush good_disk, AFlush good_disk, AFlush good_disk, AFlush good_disk, AFlush good_disk]"

lemmas queue_defs = Queue_PopWaitFor_def Queue_Pop_def Queue_Push_def Queue_Cancel_def cancel_queue_def DecPendingN_def

lemmas aof_eval = do_act.simps flush_step_def client_step_def Enqueue_start_def Flush_start_def Stop_start_def
  ThreadAofWriter_new_def BlockingQueue_new_def queue_defs kQueueCapacity_def kMaxBatch_def client_return_def flush_returns_def
  flush_idle_def flush_write_def EnsureOpen_def WriteBatch_def WriteExact_def fwrite_def f_store_def SyncFile_def sync_or_fail_def
  MaybeSyncAfterBatch_def aof_contents_def good_disk_def Let_def

definition flushed_acts :: "aof_act list" where
  "flushed_acts = sample_acts @ [ADoFlush, AClient good_disk, AClient good_disk, AClient good_disk]"

text \<open>One frame is accepted and \<^verbatim>\<open>Flush\<close> waits for it.\<close>

definition waiting_acts :: "aof_act list" where
  "waiting_acts = [AEnqueue ''ab'', AClient good_disk, AClient good_disk, ADoFlush]"

end
