(* ===== verification/AofInv.thy ===== *)
theory AofInv
  imports AofThread
begin

text \<open>
  The invariants of the thread writer's runs, step by step: the counter of pending frames, where the two threads can
  be at the same time, and what the file holds.
\<close>

section \<open>The counter and the threads\<close>

fun carried :: "flush_pc \<Rightarrow> bytes list" where
  "carried (FpBatch b) = b"
| "carried (FpTaken b) = b"
| "carried (FpWrite b) = b"
| "carried _ = []"

fun held :: "flush_pc \<Rightarrow> nat" where
  "held (FpBatch b) = length b"
| "held (FpTaken b) = length b"
| "held (FpWrite b) = length b"
| "held (FpDone n) = n"
| "held (FpFail n) = n"
| "held FpDrop = 1"
| "held _ = 0"

fun client_held :: "client_pc \<Rightarrow> nat" where
  "client_held (CPush x) = 1"
| "client_held (CUndo x) = 1"
| "client_held _ = 0"

fun drained :: "client_pc \<Rightarrow> bool" where
  "drained (CCheck s) = True"
| "drained (CSync s) = True"
| "drained (CEnd s) = True"
| "drained CCancel = True"
| "drained CJoin = True"
| "drained CClose = True"
| "drained _ = False"

fun at_end :: "flush_pc \<Rightarrow> bool" where
  "at_end FpDrain = True"
| "at_end FpDrop = True"
| "at_end FpExit = True"
| "at_end _ = False"

fun has_frames :: "flush_pc \<Rightarrow> bool" where
  "has_frames (FpBatch b) = (b \<noteq> [])"
| "has_frames (FpTaken b) = (b \<noteq> [])"
| "has_frames (FpWrite b) = (b \<noteq> [])"
| "has_frames (FpDone n) = (n \<noteq> 0)"
| "has_frames (FpFail n) = (n \<noteq> 0)"
| "has_frames _ = True"

fun writes :: "flush_pc \<Rightarrow> bool" where
  "writes (FpWrite b) = True"
| "writes _ = False"

fun syncs :: "client_pc \<Rightarrow> bool" where
  "syncs (CSync s) = True"
| "syncs (CEnd s) = True"
| "syncs _ = False"

text \<open>The counter, the queue and where the two threads are.\<close>

definition count_ok :: "ThreadAofWriter \<Rightarrow> bool" where
  "count_ok w \<longleftrightarrow> ta_pending w = length (bq_items (ta_queue w)) + held (ta_flush w) + client_held (ta_client w)
     \<and> (drained (ta_client w) \<longrightarrow> ta_pending w = 0) \<and> has_frames (ta_flush w)"

definition threads_ok :: "ThreadAofWriter \<Rightarrow> bool" where
  "threads_ok w \<longleftrightarrow> (locks_file (ta_flush w) \<longrightarrow> ta_io_failed w)
     \<and> (writes (ta_flush w) \<longrightarrow> \<not> ta_io_failed w)
     \<and> (at_end (ta_flush w) \<longrightarrow> bq_cancelled (ta_queue w))
     \<and> (ta_flush w = FpExit \<longrightarrow> bq_items (ta_queue w) = [])
     \<and> (ta_flush w = FpNone \<longrightarrow> bq_cancelled (ta_queue w) \<longrightarrow> bq_items (ta_queue w) = [])
     \<and> (ta_client w = CJoin \<longrightarrow> bq_cancelled (ta_queue w))
     \<and> (ta_client w = CClose \<longrightarrow> ta_flush w = FpExit)
     \<and> (syncs (ta_client w) \<longrightarrow> \<not> locks_file (ta_flush w))"

lemma count_ok_init: "count_ok (ThreadAofWriter_new d fs now)" and threads_ok_init: "threads_ok (ThreadAofWriter_new d fs now)"
  by (simp_all add: count_ok_def threads_ok_def ThreadAofWriter_new_def BlockingQueue_new_def)

lemma flush_idle_keeps [simp]:
  "ta_pending (flush_idle ae w) = ta_pending w" "ta_client (flush_idle ae w) = ta_client w"
  "bq_items (ta_queue (flush_idle ae w)) = bq_items (ta_queue w)" "ta_fp (flush_idle ae w) = ta_fp w"
  "ta_disk (flush_idle ae w) = ta_disk w" "ta_accepted (flush_idle ae w) = ta_accepted w"
  "ta_fsync (flush_idle ae w) = ta_fsync w" "ta_returned (flush_idle ae w) = ta_returned w"
  "ta_flush (flush_idle ae w) = (if bq_cancelled (ta_queue w) then FpExit else FpWait)"
  by (simp_all add: flush_idle_def SyncFile_def cancel_queue_def Queue_Cancel_def Let_def)

lemma flush_idle_flags:
  "bq_cancelled (ta_queue w) \<Longrightarrow> bq_cancelled (ta_queue (flush_idle ae w))"
  "ta_io_failed w \<Longrightarrow> ta_io_failed (flush_idle ae w)"
  by (simp_all add: flush_idle_def Let_def)

lemma MaybeSync_keeps [simp]:
  "ta_pending (MaybeSyncAfterBatch ae w) = ta_pending w" "ta_client (MaybeSyncAfterBatch ae w) = ta_client w"
  "ta_queue (MaybeSyncAfterBatch ae w) = ta_queue w" "ta_fp (MaybeSyncAfterBatch ae w) = ta_fp w"
  "ta_disk (MaybeSyncAfterBatch ae w) = ta_disk w" "ta_accepted (MaybeSyncAfterBatch ae w) = ta_accepted w"
  "ta_fsync (MaybeSyncAfterBatch ae w) = ta_fsync w" "ta_returned (MaybeSyncAfterBatch ae w) = ta_returned w"
  "ta_io_failed w \<Longrightarrow> ta_io_failed (MaybeSyncAfterBatch ae w)"
  by (simp_all add: MaybeSyncAfterBatch_def sync_or_fail_def SyncFile_def)

text \<open>The ways a batch can end.\<close>

lemma flush_write_cases:
  obtains (closed) "ta_fp w = None" "flush_write ae b w = w\<lparr>ta_io_failed := True, ta_flush := FpFail (length b)\<rparr>"
  | (failed) w1 f where "EnsureOpen ae w = (True, w1)" "f = snd (write_frames b (the (ta_fp w1))) \<or> f = the (ta_fp w1)"
      "flush_write ae b w = w1\<lparr>ta_fp := Some f, ta_io_failed := True, ta_flush := FpFail (length b)\<rparr>"
  | (written) w1 f w2 where "EnsureOpen ae w = (True, w1)" "write_frames b (the (ta_fp w1)) = (True, f)"
      "w2 = MaybeSyncAfterBatch ae (w1\<lparr>ta_fp := Some f, ta_dirty := True\<rparr>)"
      "flush_write ae b w = w2\<lparr>ta_flush := (if ta_io_failed w2 then FpFail (length b) else FpDone (length b))\<rparr>"
proof -
  obtain o1 w1 where o: "EnsureOpen ae w = (o1, w1)" by fastforce
  show thesis
  proof (cases o1)
    case False
    with o have "ta_fp w = None" "w1 = w" by (auto simp: EnsureOpen_def split: if_splits)
    with False o closed show ?thesis by (simp add: flush_write_def)
  next
    case True
    then obtain f0 where f0: "ta_fp w1 = Some f0" using o by (auto simp: EnsureOpen_def split: if_splits)
    then have self: "w1\<lparr>ta_fp := Some f0\<rparr> = w1" by (metis ThreadAofWriter.surjective ThreadAofWriter.update_convs(2))
    obtain ok f where wf: "write_frames b f0 = (ok, f)" by fastforce
    consider "b = []" | "b \<noteq> []" "\<not> (ok \<and> ae_fflush ae)" | "b \<noteq> []" "ok" "ae_fflush ae" by blast
    then show ?thesis
    proof cases
      case 1
      with True o f0 self failed [of w1 f0] show ?thesis by (simp add: flush_write_def WriteBatch_def)
    next
      case 2
      with True o f0 wf failed [of w1 f] show ?thesis by (auto simp: flush_write_def WriteBatch_def Let_def)
    next
      case 3
      with True o f0 wf written [of w1 f] show ?thesis by (simp add: flush_write_def WriteBatch_def Let_def)
    qed
  qed
qed

lemma EnsureOpen_open:
  assumes "EnsureOpen ae w = (True, w1)"
  shows "\<exists>f. w1 = w\<lparr>ta_fp := Some f\<rparr> \<and> f_data f = aof_contents w \<and> (ta_fp w = Some f \<or> ta_fp w = None \<and> f_pos f = length (f_data f))"
proof (cases "ta_fp w")
  case None
  with assms show ?thesis by (auto simp: EnsureOpen_def aof_contents_def split: if_splits)
next
  case (Some f)
  then have "w1 = w\<lparr>ta_fp := Some f\<rparr>" using assms by (simp add: EnsureOpen_def)
  with Some show ?thesis by (simp add: aof_contents_def)
qed

lemma flush_write_keeps:
  "ta_pending (flush_write ae b w) = ta_pending w \<and> ta_client (flush_write ae b w) = ta_client w
   \<and> ta_queue (flush_write ae b w) = ta_queue w \<and> ta_accepted (flush_write ae b w) = ta_accepted w
   \<and> ta_fsync (flush_write ae b w) = ta_fsync w \<and> ta_returned (flush_write ae b w) = ta_returned w
   \<and> (ta_flush (flush_write ae b w) = FpDone (length b)
       \<or> ta_flush (flush_write ae b w) = FpFail (length b) \<and> ta_io_failed (flush_write ae b w))
   \<and> (ta_io_failed w \<longrightarrow> ta_io_failed (flush_write ae b w))"
proof (cases rule: flush_write_cases [of w ae b])
  case (failed w1 f)
  with EnsureOpen_open [OF failed(1)] show ?thesis by auto
next
  case (written w1 f w2)
  with EnsureOpen_open [OF written(1)] show ?thesis by auto
qed auto

lemma flush_step_count:
  assumes "flush_step ae w = Some w'" and "count_ok w"
  shows "count_ok w'"
proof (cases "ta_flush w")
  case (FpWrite b)
  then have w': "w' = flush_write ae b w" using assms(1) by (simp add: flush_step_def)
  have "b \<noteq> []" using assms(2) FpWrite by (simp add: count_ok_def)
  with flush_write_keeps [of ae b w] assms(2) FpWrite show ?thesis unfolding w' by (auto simp: count_ok_def)
next
  case FpWait
  with assms show ?thesis by (auto simp: flush_step_def count_ok_def queue_defs split: list.splits)
next
  case (FpBatch b)
  with assms show ?thesis by (auto simp: flush_step_def count_ok_def queue_defs split: list.splits if_splits)
next
  case FpDrain
  with assms show ?thesis by (auto simp: flush_step_def count_ok_def queue_defs split: list.splits if_splits)
qed (use assms in \<open>auto simp: flush_step_def count_ok_def queue_defs\<close>)

lemma client_step_count:
  assumes "client_step ae w = Some w'" and "count_ok w"
  shows "count_ok w'"
proof (cases "ta_client w")
  case (CPush x)
  with assms show ?thesis
    by (auto simp: client_step_def client_return_def count_ok_def queue_defs split: if_splits)
next
  case (CSync s)
  with assms show ?thesis
    by (auto simp: client_step_def client_return_def flush_returns_def count_ok_def SyncFile_def split: if_splits)
qed (use assms in \<open>auto simp: client_step_def client_return_def flush_returns_def count_ok_def queue_defs split: if_splits\<close>)

lemma drained_idle:
  assumes "count_ok w" and "drained (ta_client w)"
  shows "bq_items (ta_queue w) = [] \<and> held (ta_flush w) = 0 \<and> carried (ta_flush w) = []"
  using assms by (cases "ta_flush w") (auto simp: count_ok_def)

lemma syncs_drained: "syncs c \<Longrightarrow> drained c"
  by (cases c) simp_all

lemma flush_step_threads:
  assumes "flush_step ae w = Some w'" and "count_ok w" and "threads_ok w"
  shows "threads_ok w'"
proof (cases "ta_flush w")
  case FpNone
  then have w': "w' = flush_idle ae w" using assms(1) by (simp add: flush_step_def)
  show ?thesis
    unfolding w' using assms(3) FpNone flush_idle_flags [of w ae] by (simp add: threads_ok_def)
next
  case (FpWrite b)
  then have w': "w' = flush_write ae b w" using assms(1) by (simp add: flush_step_def)
  have "\<not> drained (ta_client w)" using drained_idle [OF assms(2)] FpWrite assms(2) by (auto simp: count_ok_def)
  then have c: "\<not> syncs (ta_client w)" "ta_client w \<noteq> CClose" using syncs_drained by auto
  let ?v = "flush_write ae b w"
  have v: "ta_client ?v = ta_client w" "ta_queue ?v = ta_queue w" using flush_write_keeps [of ae b w] by simp_all
  consider "ta_flush ?v = FpDone (length b)" | "ta_flush ?v = FpFail (length b)" "ta_io_failed ?v"
    using flush_write_keeps [of ae b w] by blast
  then show ?thesis unfolding w' using v assms(3) c by cases (simp_all add: threads_ok_def)
next
  case FpWait
  with assms(1,3) show ?thesis by (auto simp: flush_step_def threads_ok_def queue_defs split: list.splits)
next
  case (FpBatch b)
  with assms(1,3) show ?thesis by (auto simp: flush_step_def threads_ok_def queue_defs split: list.splits if_splits)
next
  case FpDrain
  with assms(1,3) show ?thesis by (auto simp: flush_step_def threads_ok_def queue_defs split: list.splits if_splits)
qed (use assms(1,3) in \<open>auto simp: flush_step_def threads_ok_def queue_defs split: if_splits\<close>)

lemma client_step_threads:
  assumes "client_step ae w = Some w'" and "count_ok w" and "threads_ok w"
  shows "threads_ok w'"
proof (cases "ta_client w")
  case (CPush x)
  show ?thesis
  proof (cases "bq_cancelled (ta_queue w)")
    case True
    then have "w' = w\<lparr>ta_client := CUndo x\<rparr>" using assms(1) CPush by (simp add: client_step_def Queue_Push_def)
    then show ?thesis using assms(3) CPush by (simp add: threads_ok_def)
  next
    case False
    then have "w' = client_return (REnqueue x True)
        (w\<lparr>ta_queue := (ta_queue w)\<lparr>bq_items := bq_items (ta_queue w) @ [x]\<rparr>, ta_accepted := ta_accepted w @ [x]\<rparr>)"
      using assms(1) CPush by (simp add: client_step_def Queue_Push_def split: if_splits)
    then show ?thesis using assms(3) CPush False by (auto simp: client_return_def threads_ok_def)
  qed
next
  case (CCheck s)
  with assms(1,3) show ?thesis
    by (auto simp: client_step_def client_return_def flush_returns_def threads_ok_def split: if_splits)
next
  case (CSync s)
  with drained_idle [OF assms(2)] assms(2) have "\<not> writes (ta_flush w)" by (cases "ta_flush w") (auto simp: count_ok_def)
  obtain ok w1 where sf: "SyncFile ae w = (ok, w1)" by fastforce
  then have w1: "ta_flush w1 = ta_flush w" "ta_queue w1 = ta_queue w" "ta_io_failed w1 = ta_io_failed w"
    by (auto simp: SyncFile_def split: if_splits)
  have "ta_flush w' = ta_flush w \<and> ta_queue w' = ta_queue w
    \<and> (ta_client w' = CEnd s \<and> ta_io_failed w' = ta_io_failed w \<or> ta_client w' \<in> {CIdle, CCancel} \<and> ta_io_failed w')"
    using assms(1) CSync sf w1
    by (cases ok) (auto simp: client_step_def client_return_def flush_returns_def split: if_splits)
  with \<open>\<not> writes (ta_flush w)\<close> CSync assms(3) show ?thesis by (elim conjE disjE) (auto simp: threads_ok_def)
next
  case CCancel
  with drained_idle [OF assms(2)] assms(1,3) show ?thesis
    by (auto simp: client_step_def threads_ok_def queue_defs)
next
  case (CUndo x)
  then have "w' = client_return (REnqueue x False) (DecPendingN 1 w)" using assms(1) by (simp add: client_step_def)
  with assms(3) CUndo show ?thesis by (simp add: client_return_def threads_ok_def DecPendingN_def)
next
  case (CWait s)
  with assms(1) have "w' = w\<lparr>ta_client := CCheck s\<rparr>" by (simp add: client_step_def split: if_splits)
  with assms(3) CWait show ?thesis by (simp add: threads_ok_def)
next
  case (CEnd s)
  then have "w' = flush_returns s (\<not> ta_io_failed w) w" using assms(1) by (simp add: client_step_def)
  with assms(3) CEnd show ?thesis by (cases s) (simp_all add: client_return_def flush_returns_def threads_ok_def)
next
  case CJoin
  with assms(1) have "w' = w\<lparr>ta_client := CClose\<rparr>" "ta_flush w = FpExit" by (simp_all add: client_step_def split: if_splits)
  with assms(3) CJoin show ?thesis by (simp add: threads_ok_def)
next
  case (CCount x)
  then have "w' = w\<lparr>ta_pending := ta_pending w + 1, ta_client := CPush x\<rparr>" using assms(1) by (simp add: client_step_def)
  with assms(3) CCount show ?thesis by (simp add: threads_ok_def)
next
  case CClose
  then have "w' = client_return RStop (w\<lparr>ta_fp := None, ta_disk := aof_contents w\<rparr>)" using assms(1) by (simp add: client_step_def)
  with assms(3) CClose show ?thesis by (simp add: client_return_def threads_ok_def)
next
  case CIdle
  with assms(1) show ?thesis by (simp add: client_step_def)
qed

section \<open>The file\<close>

text \<open>The file holds the old contents and a prefix of the accepted frames; the whole frames, while nothing failed.\<close>

definition file_ok :: "bytes \<Rightarrow> ThreadAofWriter \<Rightarrow> bool" where
  "file_ok d w \<longleftrightarrow> (\<forall>f. ta_fp w = Some f \<longrightarrow> f_pos f = length (f_data f))
     \<and> prefix (aof_contents w) (d @ concat (ta_accepted w)) \<and> prefix d (aof_contents w)
     \<and> (\<not> ta_io_failed w \<longrightarrow> (\<exists>out. ta_accepted w = out @ carried (ta_flush w) @ bq_items (ta_queue w)
           \<and> aof_contents w = d @ concat out))"

lemma write_frames_appends:
  assumes "f_pos f = length (f_data f)" and "write_frames b f = (ok, f')"
  shows "f_pos f' = length (f_data f') \<and> (\<exists>p. prefix p (concat b) \<and> f_data f' = f_data f @ p \<and> (ok \<longrightarrow> p = concat b))"
  using assms
proof (induction b f rule: write_frames.induct)
  case (2 x xs f)
  show ?case
  proof (cases "x = []")
    case True
    with "2.prems" show ?thesis by (auto intro!: exI [of _ "[]"])
  next
    case False
    obtain o1 f1 where w: "WriteExact f x = (o1, f1)" by fastforce
    let ?n = "min (length x) (f_room f)"
    have f1: "f1 = f_store f (take ?n x)" "o1 \<longleftrightarrow> ?n = length x" using w by (auto simp: WriteExact_def fwrite_def Let_def)
    have d1: "f_data f1 = f_data f @ take ?n x" "f_pos f1 = length (f_data f1)"
      using f1 "2.prems"(1) by (simp_all add: f_store_end f_store_at_end)
    show ?thesis
    proof (cases o1)
      case True
      with f1 have x: "take ?n x = x" by simp
      have "write_frames xs f1 = (ok, f')" using "2.prems"(2) False w True by simp
      from "2.IH" [OF False w [symmetric] True d1(2) this] obtain p where
        "f_pos f' = length (f_data f')" "prefix p (concat xs)" "f_data f' = f_data f1 @ p" "ok \<longrightarrow> p = concat xs" by blast
      with d1(1) x show ?thesis by (auto intro!: exI [of _ "x @ p"])
    next
      case nok: False
      with "2.prems"(2) False w have "\<not> ok" "f' = f1" by auto
      with d1 show ?thesis by (auto intro!: exI [of _ "take ?n x"] prefix_prefix take_is_prefix)
    qed
  qed
qed (auto intro!: exI [of _ "[]"])

lemma aof_contents_update [simp]:
  "aof_contents (w\<lparr>ta_queue := a\<rparr>) = aof_contents w" "aof_contents (w\<lparr>ta_flush := b\<rparr>) = aof_contents w"
  "aof_contents (w\<lparr>ta_client := c\<rparr>) = aof_contents w" "aof_contents (w\<lparr>ta_pending := n\<rparr>) = aof_contents w"
  "aof_contents (w\<lparr>ta_io_failed := e\<rparr>) = aof_contents w" "aof_contents (w\<lparr>ta_dirty := g\<rparr>) = aof_contents w"
  "aof_contents (w\<lparr>ta_durable := h\<rparr>) = aof_contents w" "aof_contents (w\<lparr>ta_last_fsync := i\<rparr>) = aof_contents w"
  "aof_contents (w\<lparr>ta_accepted := j\<rparr>) = aof_contents w" "aof_contents (w\<lparr>ta_returned := k\<rparr>) = aof_contents w"
  "aof_contents (w\<lparr>ta_stopped := l\<rparr>) = aof_contents w"
  "aof_contents (w\<lparr>ta_fp := Some f\<rparr>) = f_data f" "aof_contents (w\<lparr>ta_fp := None, ta_disk := x\<rparr>) = x"
  by (simp_all add: aof_contents_def split: option.split)

lemma flush_idle_contents [simp]: "aof_contents (flush_idle ae w) = aof_contents w"
  by (simp add: aof_contents_def split: option.split)

lemma MaybeSync_contents [simp]: "aof_contents (MaybeSyncAfterBatch ae w) = aof_contents w"
  by (simp add: aof_contents_def split: option.split)

lemma flush_write_file:
  assumes "file_ok d w" and "ta_flush w = FpWrite b" and "\<not> ta_io_failed w"
  shows "file_ok d (flush_write ae b w)"
proof -
  from assms obtain out where out: "ta_accepted w = out @ b @ bq_items (ta_queue w)" "aof_contents w = d @ concat out"
    by (auto simp: file_ok_def)
  have opened: "\<exists>f. w1 = w\<lparr>ta_fp := Some f\<rparr> \<and> f_data f = d @ concat out \<and> f_pos f = length (f_data f)"
    if "EnsureOpen ae w = (True, w1)" for w1
    using EnsureOpen_open [OF that] assms(1) out(2) by (auto simp: file_ok_def)
  show ?thesis
  proof (cases rule: flush_write_cases [of w ae b])
    case closed
    with assms(1) show ?thesis by (simp add: file_ok_def)
  next
    case (failed w1 f')
    from opened [OF failed(1)] obtain f where f: "w1 = w\<lparr>ta_fp := Some f\<rparr>" "f_data f = d @ concat out" "f_pos f = length (f_data f)"
      by blast
    obtain ok f1 where "write_frames b f = (ok, f1)" by fastforce
    with write_frames_appends [OF f(3) this] failed(2) f obtain p where
      "prefix p (concat b)" "f_data f' = d @ concat out @ p" "f_pos f' = length (f_data f')"
      by (auto simp: f(1) intro: that [of "[]"])
    with failed(3) f(1) out(1) show ?thesis by (auto simp: file_ok_def intro: prefix_prefix)
  next
    case (written w1 f' w2)
    from opened [OF written(1)] obtain f where f: "w1 = w\<lparr>ta_fp := Some f\<rparr>" "f_data f = d @ concat out" "f_pos f = length (f_data f)"
      by blast
    from written(2) f(1) have "write_frames b f = (True, f')" by simp
    from write_frames_appends [OF f(3) this] f(2) have f': "f_data f' = d @ concat out @ concat b" "f_pos f' = length (f_data f')"
      by auto
    have w2: "aof_contents w2 = d @ concat (out @ b)" "ta_accepted w2 = (out @ b) @ bq_items (ta_queue w2)" "ta_fp w2 = Some f'"
      using f' out by (simp_all add: written(3) f(1))
    show ?thesis
      unfolding written(4) file_ok_def using w2 f'(2) by (auto intro!: exI [of _ "out @ b"])
  qed
qed

lemma flush_step_file:
  assumes "flush_step ae w = Some w'" and "file_ok d w" and "threads_ok w"
  shows "file_ok d w'"
proof (cases "ta_flush w")
  case (FpWrite b)
  then have "w' = flush_write ae b w" using assms(1) by (simp add: flush_step_def)
  with flush_write_file [OF assms(2) FpWrite] assms(3) FpWrite show ?thesis by (simp add: threads_ok_def)
next
  case FpWait
  with assms(1,2) show ?thesis by (auto simp: flush_step_def file_ok_def queue_defs split: list.splits)
next
  case (FpBatch b)
  with assms(1,2) show ?thesis by (auto simp: flush_step_def file_ok_def queue_defs split: list.splits if_splits)
next
  case FpNone
  then have w': "w' = flush_idle ae w" using assms(1) by (simp add: flush_step_def)
  show ?thesis unfolding w' using assms(2) FpNone flush_idle_flags(2) [of w ae] by (auto simp: file_ok_def)
next
  case FpDrain
  with assms(1-3) show ?thesis by (auto simp: flush_step_def file_ok_def threads_ok_def queue_defs split: list.splits if_splits)
qed (use assms(1-3) in \<open>auto simp: flush_step_def file_ok_def threads_ok_def queue_defs\<close>)

lemma client_step_file:
  assumes "client_step ae w = Some w'" and "file_ok d w"
  shows "file_ok d w'"
proof (cases "ta_client w")
  case (CPush x)
  with assms show ?thesis
    by (auto simp: client_step_def client_return_def file_ok_def queue_defs split: if_splits intro: prefix_prefix simp flip: append_assoc)
next
  case (CSync s)
  with assms show ?thesis
    by (auto simp: client_step_def client_return_def flush_returns_def file_ok_def SyncFile_def split: if_splits)
next
  case (CCheck s)
  with assms show ?thesis
    by (auto simp: client_step_def client_return_def flush_returns_def file_ok_def split: if_splits)
qed (use assms in \<open>auto simp: client_step_def client_return_def flush_returns_def file_ok_def queue_defs split: if_splits\<close>)

end
