(* ===== verification/AofRuns.thy ===== *)
theory AofRuns
  imports AofInv
begin

text \<open>
  What a sync covers, the invariant of every run of the thread writer, and what the file holds in a run and when
  \<^verbatim>\<open>Flush\<close> or \<^verbatim>\<open>Stop\<close> returns.
\<close>

section \<open>What a sync covers\<close>

text \<open>The client is past the sync of its flush.\<close>

fun settled :: "client_pc \<Rightarrow> bool" where
  "settled (CEnd s) = True"
| "settled CCancel = True"
| "settled CJoin = True"
| "settled CClose = True"
| "settled _ = False"

definition sync_ok :: "ThreadAofWriter \<Rightarrow> bool" where
  "sync_ok w \<longleftrightarrow> (\<not> ta_io_failed w \<longrightarrow>
       (\<not> ta_dirty w \<longrightarrow> ta_durable w = length (aof_contents w))
     \<and> (ta_fsync w \<noteq> kNo \<longrightarrow> (settled (ta_client w) \<longrightarrow> \<not> ta_dirty w) \<and> (ta_dirty w \<longrightarrow> ta_fp w \<noteq> None)))"

lemma sync_ok_failed: "ta_io_failed w \<Longrightarrow> sync_ok w"
  by (simp add: sync_ok_def)

lemma sync_ok_cong:
  assumes "sync_ok w" and "ta_io_failed w' = ta_io_failed w" and "ta_dirty w' = ta_dirty w"
    and "ta_durable w' = ta_durable w" and "ta_fsync w' = ta_fsync w" and "ta_fp w' = ta_fp w" and "ta_disk w' = ta_disk w"
    and "settled (ta_client w') \<longrightarrow> settled (ta_client w)"
  shows "sync_ok w'"
proof -
  have "aof_contents w' = aof_contents w" using assms(6,7) by (simp add: aof_contents_def split: option.split)
  with assms show ?thesis by (simp add: sync_ok_def)
qed

lemma SyncFile_sync_ok:
  assumes "SyncFile ae w = (True, w')" and "sync_ok w"
  shows "sync_ok w' \<and> (ta_fsync w \<noteq> kNo \<longrightarrow> \<not> ta_io_failed w \<longrightarrow> \<not> ta_dirty w')"
  using assms by (auto simp: SyncFile_def sync_ok_def split: if_splits)

lemma sync_or_fail_sync_ok:
  assumes "sync_ok w"
  shows "sync_ok (sync_or_fail ae w)"
proof -
  obtain ok w1 where s: "SyncFile ae w = (ok, w1)" by fastforce
  show ?thesis
  proof (cases ok)
    case True
    with SyncFile_sync_ok [of ae w w1] s assms show ?thesis by (simp add: sync_or_fail_def)
  qed (simp add: sync_or_fail_def s sync_ok_failed)
qed

lemma MaybeSync_sync_ok: "sync_ok w \<Longrightarrow> sync_ok (MaybeSyncAfterBatch ae w)"
  by (simp add: MaybeSyncAfterBatch_def sync_or_fail_sync_ok)

lemma flush_step_sync:
  assumes "flush_step ae w = Some w'" and "count_ok w" and "sync_ok w"
  shows "sync_ok w'"
proof (cases "ta_flush w")
  case (FpWrite b)
  then have w': "w' = flush_write ae b w" using assms(1) by (simp add: flush_step_def)
  have "\<not> drained (ta_client w)" using drained_idle [OF assms(2)] FpWrite assms(2) by (auto simp: count_ok_def)
  then have c: "\<not> settled (ta_client w)" by (cases "ta_client w") auto
  show ?thesis
  proof (cases rule: flush_write_cases [of w ae b])
    case (written w1 f w2)
    obtain f0 where "w1 = w\<lparr>ta_fp := Some f0\<rparr>" using EnsureOpen_open [OF written(1)] by blast
    then have "sync_ok (w1\<lparr>ta_fp := Some f, ta_dirty := True\<rparr>)" using c by (simp add: sync_ok_def)
    then have "sync_ok w2" unfolding written(3) by (rule MaybeSync_sync_ok)
    then show ?thesis unfolding w' written(4) by (rule sync_ok_cong) simp_all
  qed (simp_all add: w' sync_ok_failed)
next
  case FpNone
  obtain ok w1 where s: "SyncFile ae w = (ok, w1)" by fastforce
  show ?thesis
  proof (cases "bq_cancelled (ta_queue w) \<or> ta_fsync w \<noteq> kEverySec \<or> ta_io_failed w")
    case True
    then have "w' = w\<lparr>ta_flush := ta_flush w'\<rparr>" using assms(1) FpNone by (auto simp: flush_step_def flush_idle_def)
    then obtain p where "w' = w\<lparr>ta_flush := p\<rparr>" by blast
    with sync_ok_cong [OF assms(3), of w'] show ?thesis by simp
  next
    case False
    then have w': "w' = (if ok then w1 else cancel_queue (w1\<lparr>ta_io_failed := True\<rparr>))\<lparr>ta_flush := FpWait\<rparr>"
      using assms(1) FpNone s by (auto simp: flush_step_def flush_idle_def)
    show ?thesis
    proof (cases ok)
      case True
      with SyncFile_sync_ok [of ae w w1] s assms(3) have "sync_ok w1" by simp
      then show ?thesis using True unfolding w' by (auto intro: sync_ok_cong)
    qed (simp add: w' cancel_queue_def sync_ok_failed)
  qed
qed (use assms(1) in \<open>auto simp: flush_step_def queue_defs split: list.splits if_splits intro!: sync_ok_cong [OF assms(3)]\<close>)

lemma client_step_sync:
  assumes "client_step ae w = Some w'" and "sync_ok w"
  shows "sync_ok w'"
proof (cases "ta_client w")
  case (CSync s)
  obtain ok w1 where sf: "SyncFile ae w = (ok, w1)" by fastforce
  consider "ok" "w' = w1\<lparr>ta_client := CEnd s\<rparr>" | "ta_io_failed w'" | "w' = w\<lparr>ta_client := CEnd s\<rparr>" "ta_fsync w = kNo \<or> ta_fp w = None \<or> \<not> ta_dirty w"
    using assms(1) CSync sf
    by (cases ok) (auto simp: client_step_def flush_returns_def client_return_def split: if_splits)
  then show ?thesis
  proof cases
    case 1
    with SyncFile_sync_ok [of ae w w1] sf assms(2) have "sync_ok w1" "ta_fsync w \<noteq> kNo \<longrightarrow> \<not> ta_io_failed w \<longrightarrow> \<not> ta_dirty w1" by simp_all
    moreover have "ta_fsync w1 = ta_fsync w" "ta_io_failed w1 = ta_io_failed w" using sf by (auto simp: SyncFile_def split: if_splits)
    ultimately show ?thesis unfolding 1(2) by (simp add: sync_ok_def)
  next
    case 3
    with assms(2) show ?thesis by (auto simp: sync_ok_def)
  qed (rule sync_ok_failed)
next
  case (CCheck s)
  with assms show ?thesis
    by (cases s) (auto simp: client_step_def client_return_def flush_returns_def sync_ok_def split: if_splits)
next
  case (CEnd s)
  with assms show ?thesis
    by (cases s) (auto simp: client_step_def client_return_def flush_returns_def sync_ok_def)
next
  case (CPush x)
  with assms(1) show ?thesis
    by (auto simp: client_step_def client_return_def queue_defs split: if_splits intro!: sync_ok_cong [OF assms(2)])
next
  case CClose
  with assms show ?thesis by (auto simp: client_step_def client_return_def sync_ok_def)
qed (use assms in \<open>auto simp: client_step_def client_return_def queue_defs split: if_splits intro!: sync_ok_cong [OF assms(2)]\<close>)

section \<open>Every run\<close>

definition queue_ok :: "ThreadAofWriter \<Rightarrow> bool" where
  "queue_ok w \<longleftrightarrow> bq_capacity (ta_queue w) = kQueueCapacity \<and> length (bq_items (ta_queue w)) \<le> kQueueCapacity"

text \<open>At most one batch is off the queue, and with the policy \<^verbatim>\<open>always\<close> nothing written stays unsynced.\<close>

definition batch_ok :: "ThreadAofWriter \<Rightarrow> bool" where
  "batch_ok w \<longleftrightarrow> length (carried (ta_flush w)) \<le> kMaxBatch
     \<and> (ta_fsync w = kAlways \<longrightarrow> \<not> ta_io_failed w \<longrightarrow> \<not> ta_dirty w)"

definition aof_inv :: "bytes \<Rightarrow> ThreadAofWriter \<Rightarrow> bool" where
  "aof_inv d w \<longleftrightarrow> count_ok w \<and> threads_ok w \<and> file_ok d w \<and> sync_ok w \<and> queue_ok w \<and> batch_ok w"

lemma aof_inv_new: "aof_inv d (ThreadAofWriter_new d fs now)"
proof -
  have "sync_ok (ThreadAofWriter_new d fs now)" "queue_ok (ThreadAofWriter_new d fs now)" "file_ok d (ThreadAofWriter_new d fs now)"
    "batch_ok (ThreadAofWriter_new d fs now)"
    by (simp_all add: batch_ok_def sync_ok_def queue_ok_def file_ok_def ThreadAofWriter_new_def BlockingQueue_new_def aof_contents_def kQueueCapacity_def)
  then show ?thesis by (simp add: aof_inv_def count_ok_init threads_ok_init)
qed

lemma flush_idle_capacity [simp]: "bq_capacity (ta_queue (flush_idle ae w)) = bq_capacity (ta_queue w)"
  by (simp add: flush_idle_def SyncFile_def cancel_queue_def Queue_Cancel_def Let_def)

lemma flush_step_queue:
  assumes "flush_step ae w = Some w'" and "queue_ok w"
  shows "queue_ok w'"
proof (cases "ta_flush w")
  case (FpWrite b)
  with assms flush_write_keeps [of ae b w] show ?thesis by (auto simp: flush_step_def queue_ok_def)
qed (use assms in \<open>auto simp: flush_step_def queue_ok_def queue_defs split: list.splits if_splits\<close>)

lemma flush_step_batch:
  assumes "flush_step ae w = Some w'" and "batch_ok w"
  shows "batch_ok w'"
proof (cases "ta_flush w")
  case (FpWrite b)
  then have w': "w' = flush_write ae b w" using assms(1) by (simp add: flush_step_def)
  have *: "carried (ta_flush (flush_write ae b w)) = []" using flush_write_keeps [of ae b w] by auto
  show ?thesis
  proof (cases rule: flush_write_cases [of w ae b])
    case (written w1 f w2)
    have "ta_fsync w2 = kAlways \<longrightarrow> \<not> ta_io_failed w2 \<longrightarrow> \<not> ta_dirty w2"
      by (auto simp: written(3) MaybeSyncAfterBatch_def sync_or_fail_def SyncFile_def)
    then show ?thesis using * unfolding w' by (simp add: batch_ok_def) (simp add: written(4))
  qed (use * w' in \<open>simp_all add: batch_ok_def\<close>)
next
  case FpNone
  with assms show ?thesis
    by (auto simp: flush_step_def batch_ok_def) (auto simp: flush_idle_def split: if_splits)
qed (use assms in \<open>auto simp: flush_step_def batch_ok_def queue_defs kMaxBatch_def split: list.splits if_splits\<close>)

lemma client_step_batch:
  assumes "client_step ae w = Some w'" and "batch_ok w"
  shows "batch_ok w'"
  using assms
  by (cases "ta_client w")
     (auto simp: client_step_def batch_ok_def client_return_def flush_returns_def queue_defs SyncFile_def split: if_splits)

lemma SyncFile_queue: "ta_queue (snd (SyncFile ae w)) = ta_queue w"
  by (simp add: SyncFile_def)

lemma client_step_queue:
  assumes "client_step ae w = Some w'" and "queue_ok w"
  shows "queue_ok w'"
proof (cases "ta_client w")
  case (CSync s)
  with assms SyncFile_queue [of ae w] show ?thesis
    by (auto simp: client_step_def queue_ok_def client_return_def flush_returns_def split: if_splits bool.splits prod.splits)
qed (use assms in \<open>auto simp: client_step_def queue_ok_def client_return_def flush_returns_def queue_defs split: if_splits\<close>)

lemma aof_inv_history [simp]:
  "aof_inv d (w\<lparr>ta_returned := r\<rparr>) = aof_inv d w" "aof_inv d (w\<lparr>ta_stopped := b\<rparr>) = aof_inv d w"
  by (simp_all add: aof_inv_def count_ok_def threads_ok_def file_ok_def sync_ok_def queue_ok_def batch_ok_def)

lemma file_ok_client [simp]: "file_ok d (w\<lparr>ta_client := c\<rparr>) = file_ok d w"
  by (simp add: file_ok_def)

lemma aof_inv_call:
  assumes "aof_inv d w" and "ta_client w = CIdle" and "c = CIdle \<or> c = CCount x \<or> c = CWait s"
  shows "aof_inv d (w\<lparr>ta_client := c\<rparr>)"
proof -
  have c: "client_held c = 0" "\<not> drained c" "\<not> settled c" "\<not> syncs c" "c \<noteq> CJoin" "c \<noteq> CClose" using assms(3) by auto
  from assms(1) have inv: "count_ok w" "threads_ok w" "file_ok d w" "sync_ok w" "queue_ok w" "batch_ok w" by (simp_all add: aof_inv_def)
  have "count_ok (w\<lparr>ta_client := c\<rparr>)" using inv(1) assms(2) c by (simp add: count_ok_def)
  moreover have "threads_ok (w\<lparr>ta_client := c\<rparr>)" using inv(2) c by (simp add: threads_ok_def)
  moreover have "sync_ok (w\<lparr>ta_client := c\<rparr>)" using c by (intro sync_ok_cong [OF inv(4)]) simp_all
  ultimately show ?thesis using inv(3,5,6) by (simp add: aof_inv_def queue_ok_def batch_ok_def)
qed

lemma start_inv:
  assumes "aof_inv d w" and "ta_client w = CIdle"
  shows "aof_inv d (Enqueue_start x w)" and "aof_inv d (Flush_start w)" and "aof_inv d (Stop_start w)"
proof -
  show "aof_inv d (Enqueue_start x w)"
    using aof_inv_call [OF assms, of CIdle] aof_inv_call [OF assms, of "CCount x" x] by (simp add: Enqueue_start_def client_return_def)
  show "aof_inv d (Flush_start w)" using aof_inv_call [OF assms, of "CWait False" _ False] by (simp add: Flush_start_def)
  show "aof_inv d (Stop_start w)"
    using aof_inv_call [OF assms, of CIdle] aof_inv_call [of d "w\<lparr>ta_stopped := True\<rparr>" "CWait True" _ True] assms
    by (simp add: Stop_start_def client_return_def)
qed

lemma aof_step_inv: "aof_step w w' \<Longrightarrow> aof_inv d w \<Longrightarrow> aof_inv d w'"
proof (induction rule: aof_step.induct)
  case (flush ae w w')
  then show ?case
    unfolding aof_inv_def by (blast intro: flush_step_count flush_step_threads flush_step_file flush_step_sync flush_step_queue flush_step_batch)
next
  case (client ae w w')
  then show ?case
    unfolding aof_inv_def by (blast intro: client_step_count client_step_threads client_step_file client_step_sync client_step_queue client_step_batch)
qed (blast intro: start_inv)+

lemma aof_run_inv:
  assumes "aof_step\<^sup>*\<^sup>* (ThreadAofWriter_new d fs now) w"
  shows "aof_inv d w"
  using assms aof_step_inv aof_inv_new by (rule aof.steps_invariant)

lemma aof_step_fsync: "aof_step w w' \<Longrightarrow> ta_fsync w' = ta_fsync w"
proof (induction rule: aof_step.induct)
  case (flush ae w w')
  show ?case
  proof (cases "ta_flush w")
    case (FpWrite b)
    with flush flush_write_keeps [of ae b w] show ?thesis by (auto simp: flush_step_def)
  qed (use flush in \<open>auto simp: flush_step_def queue_defs split: list.splits if_splits\<close>)
next
  case (client ae w w')
  then show ?case
    by (cases "ta_client w")
       (auto simp: client_step_def client_return_def flush_returns_def queue_defs SyncFile_def split: if_splits)
qed (simp_all add: Enqueue_start_def Flush_start_def Stop_start_def client_return_def)

lemma aof_run_fsync:
  assumes "aof_step\<^sup>*\<^sup>* (ThreadAofWriter_new d fs now) w"
  shows "ta_fsync w = fs"
  by (rule aof.steps_invariant [OF assms, where P = "\<lambda>w. ta_fsync w = fs"]) (simp_all add: aof_step_fsync, simp add: ThreadAofWriter_new_def)

text \<open>Only the last step of a flush that saw no failure returns true.\<close>

lemma flush_keeps_returned:
  assumes "flush_step ae w = Some w'"
  shows "ta_returned w' = ta_returned w"
proof (cases "ta_flush w")
  case (FpWrite b)
  with assms flush_write_keeps [of ae b w] show ?thesis by (auto simp: flush_step_def)
qed (use assms in \<open>auto simp: flush_step_def queue_defs split: list.splits if_splits\<close>)

lemma flush_true_cases:
  assumes "aof_step w w'" and "ta_returned w' = ta_returned w @ [RFlush True]"
  shows "ta_client w = CEnd False \<and> \<not> ta_io_failed w \<and> w' = client_return (RFlush True) w"
  using assms
proof (induction rule: aof_step.induct)
  case (flush ae w w')
  with flush_keeps_returned [OF flush(1)] show ?case by simp
next
  case (client ae w w')
  then show ?case
    by (cases "ta_client w")
       (auto simp: client_step_def client_return_def flush_returns_def queue_defs SyncFile_def split: if_splits)
qed (simp_all add: Enqueue_start_def Flush_start_def Stop_start_def client_return_def split: if_splits)

lemma close_cases:
  assumes "aof_step w w'" and "ta_client w = CClose" and "ta_flush w = FpExit"
  shows "w' = client_return RStop (w\<lparr>ta_fp := None, ta_disk := aof_contents w\<rparr>)"
  using assms by cases (simp_all add: flush_step_def client_step_def)

lemma settled_drained: "settled c \<Longrightarrow> drained c"
  by (cases c) simp_all

lemma settled_contents:
  assumes "aof_inv d w" and "settled (ta_client w)" and "\<not> ta_io_failed w"
  shows "aof_contents w = d @ concat (ta_accepted w) \<and> (ta_fsync w \<noteq> kNo \<longrightarrow> ta_durable w = length (aof_contents w))"
proof -
  have c: "count_ok w" "file_ok d w" "sync_ok w" using assms(1) by (simp_all add: aof_inv_def)
  from drained_idle [OF c(1) settled_drained [OF assms(2)]] have "bq_items (ta_queue w) = []" "carried (ta_flush w) = []" by simp_all
  with c(2) assms(3) have "aof_contents w = d @ concat (ta_accepted w)" by (auto simp: file_ok_def)
  with c(3) assms(2,3) show ?thesis by (auto simp: sync_ok_def)
qed

text \<open>
  C14. When \<^verbatim>\<open>Flush\<close> returns true, and when \<^verbatim>\<open>Stop\<close> has closed the file without a failure, the file holds
  what it held at the start followed by every frame \<^verbatim>\<open>Enqueue\<close> has accepted, whole and in order, however
  the two threads were interleaved and whatever the clock said; unless the policy is \<^verbatim>\<open>no\<close>, all of it has been
  synced.
\<close>

theorem aof_flush_durable:
  assumes "aof_step\<^sup>*\<^sup>* (ThreadAofWriter_new d fs now) w" and "aof_step w w'"
    and "ta_returned w' = ta_returned w @ [RFlush True] \<or> ta_client w = CClose \<and> \<not> ta_io_failed w"
  shows "aof_contents w' = d @ concat (ta_accepted w') \<and> (fs \<noteq> kNo \<longrightarrow> ta_durable w' = length (aof_contents w'))"
proof -
  have inv: "aof_inv d w" using assms(1) by (rule aof_run_inv)
  have fs: "ta_fsync w = fs" using assms(1) by (rule aof_run_fsync)
  show ?thesis
    using assms(3)
  proof
    assume "ta_returned w' = ta_returned w @ [RFlush True]"
    with flush_true_cases [OF assms(2)] have c: "settled (ta_client w)" "\<not> ta_io_failed w" "w' = client_return (RFlush True) w" by simp_all
    from settled_contents [OF inv c(1,2)] fs show ?thesis by (simp add: c(3) client_return_def)
  next
    assume c: "ta_client w = CClose \<and> \<not> ta_io_failed w"
    then have "ta_flush w = FpExit" using inv by (simp add: aof_inv_def threads_ok_def)
    from close_cases [OF assms(2) _ this] c have "w' = client_return RStop (w\<lparr>ta_fp := None, ta_disk := aof_contents w\<rparr>)" by simp
    with settled_contents [OF inv] c fs show ?thesis by (simp add: client_return_def)
  qed
qed

theorem aof_flush_durable_witness:
  "\<exists>w w'. aof_acts flushed_acts (ThreadAofWriter_new ''x'' kEverySec 0) = Some w \<and> aof_step w w'
     \<and> ta_accepted w' = [''ab'', ''c''] \<and> aof_contents w' = ''xabc'' \<and> ta_durable w' = 4"
proof -
  obtain w where w: "aof_acts flushed_acts (ThreadAofWriter_new ''x'' kEverySec 0) = Some w"
    "ta_client w = CEnd False" "\<not> ta_io_failed w" "ta_accepted w = [''ab'', ''c'']"
    by (simp add: flushed_acts_def sample_acts_def aof_eval)
  let ?w' = "client_return (RFlush True) w"
  have s: "aof_step w ?w'" using w(2,3) by (intro aof_step.client [of good_disk]) (simp add: client_step_def flush_returns_def)
  have "ta_returned ?w' = ta_returned w @ [RFlush True]" "ta_accepted ?w' = [''ab'', ''c'']" using w(4) by (simp_all add: client_return_def)
  with aof_flush_durable [OF aof_acts_steps [OF w(1)] s] have "aof_contents ?w' = ''xabc''" "ta_durable ?w' = 4" by simp_all
  with w(1) s \<open>ta_accepted ?w' = [''ab'', ''c'']\<close> show ?thesis by blast
qed

lemma aof_run_prefix:
  assumes "aof_step\<^sup>*\<^sup>* (ThreadAofWriter_new d fs now) w"
  shows "prefix (aof_contents w) (d @ concat (ta_accepted w))"
  using aof_run_inv [OF assms] by (simp add: aof_inv_def file_ok_def)

text \<open>
  C32. At every moment of every run the file holds what it held at the start followed by a prefix, perhaps cut
  inside a frame, of the accepted frames in order, also after a failed write or sync. While nothing has failed no
  frame is cut and at most 1056 accepted frames (the queue and one batch) are missing; with the policy
  \<^verbatim>\<open>always\<close> everything in the file has then been synced.
\<close>

theorem aof_file_prefix:
  assumes "aof_step\<^sup>*\<^sup>* (ThreadAofWriter_new d fs now) w"
  shows "(\<exists>p. aof_contents w = d @ p \<and> prefix p (concat (ta_accepted w)))
    \<and> (\<not> ta_io_failed w \<longrightarrow> (\<exists>out rest. ta_accepted w = out @ rest \<and> aof_contents w = d @ concat out \<and> length rest \<le> 1056)
         \<and> (fs = kAlways \<longrightarrow> ta_durable w = length (aof_contents w)))"
proof -
  have inv: "file_ok d w" "sync_ok w" "queue_ok w" "batch_ok w" using aof_run_inv [OF assms] by (simp_all add: aof_inv_def)
  have fs: "ta_fsync w = fs" using assms by (rule aof_run_fsync)
  have p: "\<exists>p. aof_contents w = d @ p \<and> prefix p (concat (ta_accepted w))"
    using inv(1) by (auto simp: file_ok_def prefix_def)
  have "\<exists>out rest. ta_accepted w = out @ rest \<and> aof_contents w = d @ concat out \<and> length rest \<le> 1056" if "\<not> ta_io_failed w"
  proof -
    obtain out where "ta_accepted w = out @ carried (ta_flush w) @ bq_items (ta_queue w)" "aof_contents w = d @ concat out"
      using inv(1) \<open>\<not> ta_io_failed w\<close> by (auto simp: file_ok_def)
    moreover have "length (carried (ta_flush w) @ bq_items (ta_queue w)) \<le> 1056"
      using inv(3,4) by (simp add: queue_ok_def batch_ok_def kQueueCapacity_def kMaxBatch_def)
    ultimately show ?thesis by blast
  qed
  moreover have "ta_durable w = length (aof_contents w)" if "\<not> ta_io_failed w" "fs = kAlways"
    using inv(2,4) fs that by (simp add: sync_ok_def batch_ok_def)
  ultimately show ?thesis using p by blast
qed

theorem aof_file_prefix_witness:
  "\<exists>w p. aof_acts waiting_acts (ThreadAofWriter_new ''x'' kAlways 0) = Some w \<and> ta_accepted w = [''ab'']
     \<and> aof_contents w = ''x'' @ p \<and> prefix p ''ab'' \<and> ta_durable w = length (aof_contents w)"
proof -
  obtain w where w: "aof_acts waiting_acts (ThreadAofWriter_new ''x'' kAlways 0) = Some w" "\<not> ta_io_failed w" "ta_accepted w = [''ab'']"
    by (simp add: waiting_acts_def aof_eval)
  from aof_file_prefix [OF aof_acts_steps [OF w(1)]] w show ?thesis by auto
qed

end
