(* ===== verification/AofLive.thy ===== *)
theory AofLive
  imports AofRuns
begin

text \<open>
  No call of the thread writer waits for ever: a measure on the state bounds the steps of the flush thread until
  the client can go on.
\<close>

section \<open>The client is never left waiting\<close>

text \<open>A bound on the steps of the flush thread before it next waits for an empty queue or ends.\<close>

fun flush_rank :: "bool \<Rightarrow> flush_pc \<Rightarrow> nat" where
  "flush_rank c FpExit = 0"
| "flush_rank c FpDrain = 1"
| "flush_rank c FpNone = (if c then 1 else 4)"
| "flush_rank c FpDrop = 2"
| "flush_rank c FpWait = 3"
| "flush_rank c FpCancel = 4"
| "flush_rank c (FpDone n) = 5"
| "flush_rank c (FpFail n) = 5"
| "flush_rank c (FpWrite b) = 7"
| "flush_rank c (FpTaken b) = 8"
| "flush_rank c (FpBatch b) = 9"

definition flush_work :: "ThreadAofWriter \<Rightarrow> nat" where
  "flush_work w = 10 * length (bq_items (ta_queue w)) + flush_rank (bq_cancelled (ta_queue w)) (ta_flush w)"

text \<open>The flush thread running on its own.\<close>

fun flush_run :: "aof_env list \<Rightarrow> ThreadAofWriter \<Rightarrow> ThreadAofWriter option" where
  "flush_run [] w = Some w"
| "flush_run (ae # aes) w = (case flush_step ae w of None \<Rightarrow> None | Some w' \<Rightarrow> flush_run aes w')"

definition client_ready :: "ThreadAofWriter \<Rightarrow> bool" where
  "client_ready w \<longleftrightarrow> (\<forall>ae. client_step ae w \<noteq> None)"

text \<open>What a blocked client is waiting for.\<close>

lemma client_blocked:
  assumes "\<not> client_ready w" and "ta_client w \<noteq> CIdle" and "aof_inv d w"
  shows "bq_items (ta_queue w) \<noteq> [] \<and> \<not> at_end (ta_flush w) \<or> held (ta_flush w) \<noteq> 0
    \<or> bq_cancelled (ta_queue w) \<and> ta_flush w \<noteq> FpExit"
proof -
  from assms(3) have inv: "count_ok w" "threads_ok w" "queue_ok w" by (simp_all add: aof_inv_def)
  from assms(1) obtain ae where b: "client_step ae w = None" by (auto simp: client_ready_def)
  show ?thesis
  proof (cases "ta_client w")
    case (CPush x)
    with b have q: "bq_capacity (ta_queue w) \<le> length (bq_items (ta_queue w))" "\<not> bq_cancelled (ta_queue w)"
      by (auto simp: client_step_def Queue_Push_def split: if_splits)
    then show ?thesis using inv(2,3) by (auto simp: queue_ok_def kQueueCapacity_def threads_ok_def)
  next
    case (CWait s)
    with b have "0 < ta_pending w" by (auto simp: client_step_def split: if_splits)
    with inv(1) CWait have p: "bq_items (ta_queue w) \<noteq> [] \<or> held (ta_flush w) \<noteq> 0" by (auto simp: count_ok_def)
    show ?thesis
    proof (cases "at_end (ta_flush w)")
      case True
      with inv(2) have "bq_cancelled (ta_queue w)" by (simp add: threads_ok_def)
      moreover have "ta_flush w = FpExit \<longrightarrow> bq_items (ta_queue w) = []" using inv(2) by (simp add: threads_ok_def)
      ultimately show ?thesis using p by auto
    qed (use p in auto)
  next
    case (CSync s)
    with inv(2) have "\<not> locks_file (ta_flush w)" by (simp add: threads_ok_def)
    with b CSync show ?thesis by (auto simp: client_step_def split: if_splits prod.splits bool.splits)
  next
    case CJoin
    with b inv(2) show ?thesis by (auto simp: client_step_def threads_ok_def split: if_splits)
  qed (use b assms(2) in \<open>simp_all add: client_step_def\<close>)
qed

lemma flush_write_progress:
  "ta_queue (flush_write ae b w) = ta_queue w" "flush_rank c (ta_flush (flush_write ae b w)) = 5"
  using flush_write_keeps [of ae b w] by auto

lemma flush_progress:
  assumes "\<not> client_ready w" and "ta_client w \<noteq> CIdle" and "aof_inv d w"
  shows "\<exists>w'. flush_step ae w = Some w' \<and> flush_work w' < flush_work w \<and> ta_client w' = ta_client w"
proof -
  note b = client_blocked [OF assms]
  from assms(3) have thr: "threads_ok w" by (simp add: aof_inv_def)
  show ?thesis
  proof (cases "ta_flush w")
    case FpWait
    with b show ?thesis
      by (cases "bq_items (ta_queue w)") (auto simp: flush_step_def flush_work_def queue_defs)
  next
    case FpNone
    have c: "bq_cancelled (ta_queue w) \<Longrightarrow> bq_cancelled (ta_queue (flush_idle ae w))" by (rule flush_idle_flags)
    have "flush_rank (bq_cancelled (ta_queue (flush_idle ae w))) (ta_flush (flush_idle ae w)) < flush_rank (bq_cancelled (ta_queue w)) FpNone"
      using c by simp
    with FpNone show ?thesis by (simp add: flush_step_def flush_work_def)
  next
    case (FpBatch l)
    then show ?thesis
      by (cases "bq_items (ta_queue w)") (simp_all add: flush_step_def flush_work_def queue_defs)
  next
    case (FpWrite l)
    with flush_write_keeps [of ae l w] show ?thesis
      by (auto simp: flush_step_def flush_work_def flush_write_progress)
  next
    case FpDrain
    with thr have "bq_cancelled (ta_queue w)" by (simp add: threads_ok_def)
    with FpDrain show ?thesis
      by (cases "bq_items (ta_queue w)") (simp_all add: flush_step_def flush_work_def queue_defs)
  next
    case FpExit
    with thr b have False by (auto simp: threads_ok_def)
    then show ?thesis ..
  qed (auto simp: flush_step_def flush_work_def queue_defs)
qed

lemma flush_run_ready:
  assumes "aof_inv d w" and "ta_client w \<noteq> CIdle" and "flush_work w \<le> length aes"
  shows "\<exists>k w'. k \<le> flush_work w \<and> flush_run (take k aes) w = Some w' \<and> ta_client w' = ta_client w \<and> client_ready w'"
  using assms
proof (induction aes arbitrary: w)
  case Nil
  have "client_ready w"
    using flush_progress [OF _ Nil(2) Nil(1)] Nil(3) by fastforce
  then show ?case by (intro exI [of _ 0] exI [of _ w]) simp
next
  case (Cons ae aes)
  show ?case
  proof (cases "client_ready w")
    case True
    then show ?thesis by (intro exI [of _ 0] exI [of _ w]) simp
  next
    case False
    from flush_progress [OF this Cons.prems(2,1)] obtain w1 where
      w1: "flush_step ae w = Some w1" "flush_work w1 < flush_work w" "ta_client w1 = ta_client w" by blast
    have "aof_inv d w1" using aof_step_inv [OF aof_step.flush [OF w1(1)] Cons.prems(1)] .
    from Cons.IH [OF this] w1 Cons.prems(2,3) obtain k w' where
      "k \<le> flush_work w1" "flush_run (take k aes) w1 = Some w'" "ta_client w' = ta_client w" "client_ready w'" by auto
    with w1 show ?thesis by (intro exI [of _ "Suc k"] exI [of _ w']) simp
  qed
qed

lemma flush_work_bound: "queue_ok w \<Longrightarrow> flush_work w \<le> 10249"
proof -
  assume q: "queue_ok w"
  have "flush_rank (bq_cancelled (ta_queue w)) (ta_flush w) \<le> 9" by (cases "ta_flush w") simp_all
  with q show ?thesis by (simp add: flush_work_def queue_ok_def kQueueCapacity_def)
qed

text \<open>
  C15. The client is never left waiting: in every state of every run in which a call has not returned, after at most
  10249 steps of the flush thread alone, whatever the files and the clock answer, the client can take its next
  step. So neither a full queue, nor the wait for the drain, nor the join of \<^verbatim>\<open>Stop\<close> blocks for ever, also when
  opening, writing or syncing fails.
\<close>

theorem aof_client_not_stuck:
  assumes "aof_step\<^sup>*\<^sup>* (ThreadAofWriter_new d fs now) w" and "ta_client w \<noteq> CIdle" and "10249 \<le> length aes"
  shows "\<exists>k w'. k \<le> 10249 \<and> flush_run (take k aes) w = Some w' \<and> ta_client w' = ta_client w
    \<and> (\<forall>ae. client_step ae w' \<noteq> None)"
proof -
  have inv: "aof_inv d w" using assms(1) by (rule aof_run_inv)
  then have "flush_work w \<le> 10249" by (intro flush_work_bound) (simp add: aof_inv_def)
  with flush_run_ready [OF inv assms(2), of aes] assms(3) show ?thesis
    unfolding client_ready_def by (meson le_trans)
qed

theorem aof_client_not_stuck_witness:
  "\<exists>w k w'. aof_acts waiting_acts (ThreadAofWriter_new ''x'' kEverySec 0) = Some w \<and> ta_client w = CWait False \<and> ta_pending w = 1
     \<and> k \<le> 10249 \<and> flush_run (take k (replicate 10249 good_disk)) w = Some w' \<and> ta_client w' = CWait False
     \<and> (\<forall>ae. client_step ae w' \<noteq> None)"
proof -
  obtain w where w: "aof_acts waiting_acts (ThreadAofWriter_new ''x'' kEverySec 0) = Some w" "ta_client w = CWait False" "ta_pending w = 1"
    by (simp add: waiting_acts_def aof_eval)
  from aof_client_not_stuck [OF aof_acts_steps [OF w(1)], of "replicate 10249 good_disk"] w show ?thesis
    by simp
qed

end
