(* ===== verification/Settings.thy ===== *)
theory Settings
  imports Config
begin

text \<open>
  What the settings promise: the bounds of every accepted configuration, the line an error names, the round trip
  through a written file, and the command line.
\<close>

section \<open>Bounds\<close>

text \<open>What the rest of the program relies on.\<close>

definition config_ok :: "Config \<Rightarrow> bool" where
  "config_ok cfg \<longleftrightarrow> 0 < cf_port cfg \<and> cf_port cfg < 2 ^ 16 \<and> cf_bind cfg \<noteq> [] \<and> IsValidLogLevel (cf_log_level cfg)
     \<and> cf_kv_reserve cfg < 2 ^ 64 \<and> 0 < cf_default_capacity cfg \<and> cf_default_capacity cfg < 2 ^ 64
     \<and> cf_max_entries cfg < 2 ^ 64 \<and> 0 < cf_aof_flush_interval_ms cfg \<and> cf_aof_flush_interval_ms cfg \<le> 600000"

lemma config_ok_init: "config_ok Config_init"
  by (simp add: config_ok_def Config_init_def IsValidLogLevel_def)

lemma strtoull_range: "strtoull s = Some (v, rest) \<Longrightarrow> v < 2 ^ 64"
  by (auto simp: strtoull_def Let_def split: option.splits if_splits)

lemma ParseUint_range: "ParseUint s = Some v \<Longrightarrow> v < 2 ^ 64"
  by (auto simp: ParseUint_def dest: strtoull_range split: if_splits option.splits)

lemma config_ok_update:
  assumes "config_ok cfg"
  shows "0 < v \<Longrightarrow> v \<le> 65535 \<Longrightarrow> config_ok (cfg\<lparr>cf_port := v\<rparr>)"
    and "b \<noteq> [] \<Longrightarrow> config_ok (cfg\<lparr>cf_bind := b\<rparr>)"
    and "IsValidLogLevel l \<Longrightarrow> config_ok (cfg\<lparr>cf_log_level := l\<rparr>)"
    and "ParseUint t = Some v \<Longrightarrow> config_ok (cfg\<lparr>cf_kv_reserve := v\<rparr>)"
    and "ParseUint t = Some v \<Longrightarrow> 0 < v \<Longrightarrow> config_ok (cfg\<lparr>cf_default_capacity := v\<rparr>)"
    and "ParseUint t = Some v \<Longrightarrow> config_ok (cfg\<lparr>cf_max_entries := v\<rparr>)"
    and "0 < v \<Longrightarrow> v \<le> 600000 \<Longrightarrow> config_ok (cfg\<lparr>cf_aof_flush_interval_ms := v\<rparr>)"
    and "config_ok (cfg\<lparr>cf_persistence_dir := d\<rparr>)" and "config_ok (cfg\<lparr>cf_load_on_startup := x\<rparr>)"
    and "config_ok (cfg\<lparr>cf_aof := x\<rparr>)" and "config_ok (cfg\<lparr>cf_aof_fsync := p\<rparr>)" and "config_ok (cfg\<lparr>cf_aof_io := q\<rparr>)"
    and "config_ok (cfg\<lparr>cf_warnings := ws\<rparr>)"
  using assms by (simp_all add: config_ok_def ParseUint_range [simplified])

lemmas apply_defs = apply_server_def apply_logging_def apply_storage_def apply_index_def apply_persistence_def unknown_key_def

lemma ApplyKey_ok:
  assumes "ApplyKey section key value cfg = Inr cfg'" and "config_ok cfg"
  shows "config_ok cfg'"
proof -
  note u = config_ok_update [OF assms(2)]
  have "config_ok c" if "apply_server key value cfg = Inr c" for c
    using that by (auto simp: apply_server_def unknown_key_def split: if_splits option.splits intro: u)
  moreover have "config_ok c" if "apply_logging key value cfg = Inr c" for c
    using that by (auto simp: apply_logging_def unknown_key_def Let_def split: if_splits intro: u)
  moreover have "config_ok c" if "apply_storage key value cfg = Inr c" for c
    using that by (auto simp: apply_storage_def unknown_key_def split: if_splits option.splits intro: u)
  moreover have "config_ok c" if "apply_index key value cfg = Inr c" for c
    using that by (auto simp: apply_index_def unknown_key_def split: if_splits option.splits intro: u)
  moreover have "config_ok c" if "apply_persistence key value cfg = Inr c" for c
    using that by (auto simp: apply_persistence_def unknown_key_def split: if_splits option.splits intro: u)
  ultimately show ?thesis using assms by (simp add: ApplyKey_def split: if_splits)
qed

lemma load_line_ok:
  assumes "load_line n line ls = Inr ls'" and "config_ok (ls_cfg ls)"
  shows "config_ok (ls_cfg ls')"
proof -
  from assms show ?thesis
    by (auto simp: load_line_def load_section_def load_key_def Let_def dest: ApplyKey_ok intro: config_ok_update split: if_splits sum.splits)
qed

lemma load_lines_ok: "load_lines n lines ls = Inr ls' \<Longrightarrow> config_ok (ls_cfg ls) \<Longrightarrow> config_ok (ls_cfg ls')"
  by (induction n lines ls rule: load_lines.induct) (auto dest: load_line_ok split: sum.splits)

lemma config_bounds: "LoadConfig path file = Inr cfg \<Longrightarrow> config_ok cfg"
  by (auto simp: LoadConfig_def load_init_def config_ok_init dest!: load_lines_ok split: option.splits sum.splits)

text \<open>The ports of the command line.\<close>

definition args_ok :: "Args \<Rightarrow> bool" where
  "args_ok ag \<longleftrightarrow> (ag_port_override ag \<longrightarrow> 0 < ag_port ag \<and> ag_port ag \<le> 65535)
     \<and> (ag_slaveof ag \<longrightarrow> 0 < ag_slaveof_port ag \<and> ag_slaveof_port ag \<le> 65535)"

lemma ParsePortArg_range: "ParsePortArg s = Some p \<Longrightarrow> 0 < p \<and> p \<le> 65535"
  by (auto simp: ParsePortArg_def split: option.splits if_splits)

lemma ParseArgs_ok: "ParseArgs args ag = ArgsOk ag' \<Longrightarrow> args_ok ag \<Longrightarrow> args_ok ag'"
proof (induction args ag rule: ParseArgs.induct)
  case (2 arg args ag)
  show ?case
  proof (cases "arg = ''-c''")
    case True
    with "2.prems"(1) obtain path rest where a: "args = path # rest" "ParseArgs rest (ag\<lparr>ag_config_path := path\<rparr>) = ArgsOk ag'"
      by (auto split: list.splits)
    from "2.IH"(1) [OF True a] "2.prems"(2) show ?thesis by (simp add: args_ok_def)
  next
    case c: False
    show ?thesis
    proof (cases "arg = ''--slaveof''")
      case True
      with c "2.prems"(1) obtain host port rest p where a: "args = host # port # rest" "ParsePortArg port = Some p"
          "ParseArgs rest (ag\<lparr>ag_slaveof := True, ag_slaveof_host := host, ag_slaveof_port := p\<rparr>) = ArgsOk ag'"
        by (auto split: list.splits option.splits)
      from "2.IH"(2) [OF c True a(1) refl a(2,3)] "2.prems"(2) ParsePortArg_range [OF a(2)] show ?thesis by (simp add: args_ok_def)
    next
      case s: False
      with c "2.prems"(1) have n: "\<not> (arg = ''-h'' \<or> arg = ''--help'')" "\<not> (arg \<noteq> [] \<and> hd arg = CHR ''-'')" "\<not> ag_port_override ag"
        by (auto split: if_splits)
      with c s "2.prems"(1) obtain p where a: "ParsePortArg arg = Some p" "ParseArgs args (ag\<lparr>ag_port := p, ag_port_override := True\<rparr>) = ArgsOk ag'"
        by (auto split: option.splits)
      from "2.IH"(3) [OF c s n a] "2.prems"(2) ParsePortArg_range [OF a(1)] show ?thesis by (simp add: args_ok_def)
    qed
  qed
qed simp

lemma read_settings_ok:
  assumes "read_settings fs argv = StartConfig cfg"
  shows "config_ok cfg" and "cf_slaveof cfg \<longrightarrow> 0 < cf_slaveof_port cfg \<and> cf_slaveof_port cfg < 2 ^ 16"
proof -
  from assms obtain ag where a: "ParseArgs argv Args_init = ArgsOk ag"
    by (auto simp: read_settings_def split: args_result.splits)
  have "\<exists>c. config_ok c \<and> cfg = with_args ag c"
    using assms config_ok_init by (auto simp: read_settings_def a split: sum.splits if_splits dest: config_bounds)
  then obtain c where c: "config_ok c" "cfg = with_args ag c" by blast
  have "args_ok ag" using ParseArgs_ok [OF a] by (simp add: args_ok_def Args_init_def)
  with c show "config_ok cfg" and "cf_slaveof cfg \<longrightarrow> 0 < cf_slaveof_port cfg \<and> cf_slaveof_port cfg < 2 ^ 16"
    by (auto simp: with_args_def args_ok_def config_ok_def)
qed

text \<open>
  C34. Whatever the command line and the configuration file, the settings the server starts with lie within the
  bounds the rest of the program relies on: the port fits 16 bits and is not 0, the bind address is not empty, the
  log level is one of the seven, the sizes fit a 64-bit word, the index capacity is positive, the flush interval
  lies between 1 ms and 10 minutes; and a replica has a port of its master.
\<close>

theorem settings_bounds:
  assumes "read_settings fs argv = StartConfig cfg"
  shows "config_ok cfg \<and> (cf_slaveof cfg \<longrightarrow> 0 < cf_slaveof_port cfg \<and> cf_slaveof_port cfg < 2 ^ 16)"
  using read_settings_ok [OF assms] by blast

theorem settings_bounds_witness:
  "\<exists>cfg. read_settings (\<lambda>_. None) [''--slaveof'', ''h'', ''70'', ''81''] = StartConfig cfg \<and> cf_slaveof cfg \<and> config_ok cfg
     \<and> cf_slaveof_port cfg < 2 ^ 16"
proof -
  have p: "ParsePortArg ''70'' = Some 70" "ParsePortArg ''81'' = Some 81"
    by (simp_all add: ParsePortArg_def strtoll_def scan_decimal_def isspace_def isdigit_def digit_val_def ascii_def)
  obtain cfg where cfg: "read_settings (\<lambda>_. None) [''--slaveof'', ''h'', ''70'', ''81''] = StartConfig cfg" "cf_slaveof cfg"
    by (simp add: read_settings_def p with_args_def Args_init_def)
  with settings_bounds [OF cfg(1)] show ?thesis by auto
qed

section \<open>Errors\<close>

lemma ApplyKey_error: "ApplyKey section key value cfg = Inl e \<Longrightarrow> e \<noteq> []"
  by (auto simp: ApplyKey_def apply_server_def apply_logging_def apply_storage_def apply_index_def apply_persistence_def
      unknown_key_def Let_def split: if_splits option.splits)

lemma load_line_error:
  assumes "load_line n line ls = Inl e"
  shows "\<exists>what. e = at_line n what"
  using assms
  by (auto simp: load_line_def load_section_def load_key_def Let_def dest: ApplyKey_error split: if_splits sum.splits)

lemma load_lines_error:
  assumes "load_lines n lines ls = Inl e"
  shows "\<exists>k ls' what. k < length lines \<and> load_lines n (take k lines) ls = Inr ls'
    \<and> load_line (n + k + 1) (lines ! k) ls' = Inl e \<and> e = at_line (n + k + 1) what"
  using assms
proof (induction n lines ls rule: load_lines.induct)
  case (2 n line lines ls)
  show ?case
  proof (cases "load_line (n + 1) line ls")
    case (Inl e1)
    with 2(2) have "load_line (n + 1) line ls = Inl e" by simp
    with load_line_error [OF this] show ?thesis by (intro exI [of _ 0] exI [of _ ls]) auto
  next
    case (Inr ls1)
    with 2(2) have "load_lines (n + 1) lines ls1 = Inl e" by simp
    from "2.IH" [OF Inr this] obtain k ls' what where "k < length lines" "load_lines (n + 1) (take k lines) ls1 = Inr ls'"
      "load_line (n + 1 + k + 1) (lines ! k) ls' = Inl e" "e = at_line (n + 1 + k + 1) what" by blast
    with Inr show ?thesis by (intro exI [of _ "Suc k"] exI [of _ ls'] exI [of _ what]) simp
  qed
qed simp

text \<open>
  A file that is refused is refused because of one line: the lines before it are accepted, the error is the one
  this line gives after them, and it begins with this line's number, counted from 1, comments and empty lines
  included.
\<close>

lemma config_error_names_line:
  assumes "LoadConfig path (Some text) = Inl e"
  shows "\<exists>k ls what. k < length (getlines text) \<and> load_lines 0 (take k (getlines text)) load_init = Inr ls
    \<and> load_line (k + 1) (getlines text ! k) ls = Inl e \<and> e = ''line '' @ dec_of_nat (k + 1) @ '': '' @ what"
proof -
  from assms have "load_lines 0 (getlines text) load_init = Inl e" by (simp add: LoadConfig_def split: sum.splits)
  from load_lines_error [OF this] show ?thesis by (auto simp: at_line_def)
qed

section \<open>Writing and reading back\<close>

lemma getlines_line: "LF \<notin> set l \<Longrightarrow> getlines (l @ LF # rest) = l # getlines rest"
  by (induction l) auto

lemma getlines_concat: "\<forall>l \<in> set ls. LF \<notin> set l \<Longrightarrow> getlines (concat (map (\<lambda>l. l @ [LF]) ls)) = ls"
  by (induction ls) (auto simp: getlines_line)

definition trimmed :: "bytes \<Rightarrow> bool" where
  "trimmed s \<longleftrightarrow> s = [] \<or> \<not> isspace (hd s) \<and> \<not> isspace (last s)"

lemma Trim_trimmed: "trimmed s \<Longrightarrow> Trim s = s"
proof (cases "s = []")
  case False
  assume "trimmed s"
  with False have t: "\<not> isspace (hd s)" "\<not> isspace (last s)" by (simp_all add: trimmed_def)
  have "dropWhile isspace s = s" using t(1) False by (cases s) simp_all
  moreover have "dropWhile isspace (rev s) = rev s" using t(2) False by (cases s rule: rev_cases) simp_all
  ultimately show ?thesis by (simp add: Trim_def)
qed (simp add: Trim_def)

text \<open>A key as the keys of the file are: lower case, no space, no sign that starts another kind of line.\<close>

definition plain_key :: "bytes \<Rightarrow> bool" where
  "plain_key k \<longleftrightarrow> k \<noteq> [] \<and> hd k \<notin> {CHR ''#'', CHR '';'', CHR ''[''}
     \<and> (\<forall>c \<in> set k. \<not> isspace c \<and> c \<noteq> CHR ''='' \<and> tolower c = c)"

lemma isspace_space: "isspace (CHR '' '')" and not_isspace_eq: "\<not> isspace (CHR ''='')"
  by (simp_all add: isspace_def ascii_def)

lemma plain_key_Trim: "plain_key k \<Longrightarrow> Trim (k @ '' '') = k"
proof -
  assume k: "plain_key k"
  then have d: "dropWhile isspace (k @ '' '') = k @ '' ''" by (cases k) (auto simp: plain_key_def)
  have "dropWhile isspace (rev k) = rev k"
    using k by (cases k rule: rev_cases) (auto simp: plain_key_def)
  then show ?thesis unfolding Trim_def d by (simp add: isspace_space)
qed

lemma load_key_plain:
  assumes "plain_key k" and "L = k @ '' ='' @ v'" and "Trim v' = v" and "ls_section ls \<noteq> []"
  shows "load_key n L ls =
    (case ApplyKey (ls_section ls) k v (ls_cfg ls) of Inl e \<Rightarrow> Inl (at_line n e) | Inr cfg \<Rightarrow> Inr (ls\<lparr>ls_cfg := cfg\<rparr>))"
proof -
  have k: "k \<noteq> []" "\<forall>c \<in> set k. c \<noteq> CHR ''=''" "map tolower k = k"
    using assms(1) by (auto simp: plain_key_def intro: map_idI)
  have "takeWhile (\<lambda>c. c \<noteq> CHR ''='') L = k @ '' ''" "dropWhile (\<lambda>c. c \<noteq> CHR ''='') L = CHR ''='' # v'" "CHR ''='' \<in> set L"
    using k(2) by (simp_all add: assms(2) takeWhile_append dropWhile_append)
  then show ?thesis
    using assms(3,4) k ApplyKey_error [of "ls_section ls" k v "ls_cfg ls"] plain_key_Trim [OF assms(1)]
    by (cases "ApplyKey (ls_section ls) k v (ls_cfg ls)") (simp_all add: load_key_def ToLower_def Let_def)
qed

lemma load_line_plain:
  assumes "plain_key k" and "trimmed v" and "ls_section ls \<noteq> []"
  shows "load_line n (k @ '' = '' @ v) ls =
    (case ApplyKey (ls_section ls) k v (ls_cfg ls) of Inl e \<Rightarrow> Inl (at_line n e) | Inr cfg \<Rightarrow> Inr (ls\<lparr>ls_cfg := cfg\<rparr>))"
proof -
  have k: "k \<noteq> []" "\<not> isspace (hd k)" using assms(1) by (auto simp: plain_key_def)
  obtain v' where t: "Trim (k @ '' = '' @ v) = k @ '' ='' @ v'" and v': "Trim v' = v"
  proof (cases "v = []")
    case True
    have "dropWhile isspace (k @ '' = '') = k @ '' = ''" using k by (cases k) auto
    then have "Trim (k @ '' = '' @ v) = k @ '' ='' @ []" using True by (simp add: Trim_def isspace_space not_isspace_eq)
    moreover have "Trim [] = v" using True by (simp add: Trim_def)
    ultimately show thesis by (rule that)
  next
    case False
    then have "trimmed (k @ '' = '' @ v)" using assms(2) k by (simp add: trimmed_def)
    then have "Trim (k @ '' = '' @ v) = k @ '' ='' @ ('' '' @ v)" by (simp add: Trim_trimmed)
    moreover have "Trim ('' '' @ v) = v" using Trim_trimmed [OF assms(2)] by (simp add: Trim_def isspace_space)
    ultimately show thesis by (rule that)
  qed
  obtain L where L: "L = k @ '' ='' @ v'" by simp
  then have "L \<noteq> []" "hd L = hd k" using k(1) by simp_all
  then have "load_line n (k @ '' = '' @ v) ls = load_key n L ls"
    unfolding load_line_def t L [symmetric] Let_def using assms(1) by (simp add: plain_key_def)
  with load_key_plain [OF assms(1) L v' assms(3)] show ?thesis by simp
qed

lemma load_line_section:
  assumes "plain_key s" and "IsKnownSection s"
  shows "load_line n (''['' @ s @ '']'') ls = Inr (ls\<lparr>ls_section := s\<rparr>)"
proof -
  have s: "s \<noteq> []" "map tolower s = s" "trimmed s"
    using assms(1) by (auto simp: plain_key_def trimmed_def intro: map_idI)
  have "trimmed (''['' @ s @ '']'')" by (simp add: trimmed_def isspace_def ascii_def)
  from Trim_trimmed [OF this] Trim_trimmed [OF s(3)] s(1,2) assms(2) show ?thesis
    by (auto simp: load_line_def load_section_def slice_def ToLower_def Let_def)
qed

text \<open>The file that holds a configuration, section by section.\<close>

definition fsync_text :: "AofFsyncPolicy \<Rightarrow> bytes" where
  "fsync_text p = (case p of kNo \<Rightarrow> ''no'' | kEverySec \<Rightarrow> ''everysec'' | kAlways \<Rightarrow> ''always'')"

definition io_text :: "AofIoMode \<Rightarrow> bytes" where
  "io_text m = (case m of kAuto \<Rightarrow> ''auto'' | kThread \<Rightarrow> ''thread'' | kIoUring \<Rightarrow> ''iouring'')"

definition bool_text :: "bool \<Rightarrow> bytes" where
  "bool_text b = (if b then ''true'' else ''false'')"

type_synonym ini_section = "bytes \<times> (bytes \<times> bytes) list"

definition config_sections :: "Config \<Rightarrow> ini_section list" where
  "config_sections cfg =
     [(''server'', [(''port'', dec_of_nat (cf_port cfg)), (''bind'', cf_bind cfg)]),
      (''logging'', [(''level'', cf_log_level cfg)]),
      (''storage'', [(''kv_reserve'', dec_of_nat (cf_kv_reserve cfg))]),
      (''index'', [(''default_capacity'', dec_of_nat (cf_default_capacity cfg)), (''max_entries'', dec_of_nat (cf_max_entries cfg))]),
      (''persistence'',
        [(''dir'', cf_persistence_dir cfg), (''load_on_startup'', bool_text (cf_load_on_startup cfg)),
         (''aof'', bool_text (cf_aof cfg)), (''aof_fsync'', fsync_text (cf_aof_fsync cfg)), (''aof_io'', io_text (cf_aof_io cfg)),
         (''aof_flush_interval_ms'', dec_of_nat (cf_aof_flush_interval_ms cfg))])]"

definition section_lines :: "ini_section \<Rightarrow> bytes list" where
  "section_lines s = (''['' @ fst s @ '']'') # map (\<lambda>(k, v). k @ '' = '' @ v) (snd s)"

definition ini_text :: "ini_section list \<Rightarrow> bytes" where
  "ini_text ss = concat (map (\<lambda>l. l @ [LF]) (concat (map section_lines ss)))"

text \<open>What one line can hold.\<close>

definition writable :: "bytes \<Rightarrow> bool" where
  "writable s \<longleftrightarrow> trimmed s \<and> LF \<notin> set s"

lemma ToLower_values:
  "IsValidLogLevel l \<Longrightarrow> ToLower l = l" "ToLower (fsync_text p) = fsync_text p" "ToLower (io_text m) = io_text m"
  "ToLower (bool_text b) = bool_text b"
proof -
  have t: "tolower c = c" if "97 \<le> ascii c" for c using that by (simp add: tolower_def)
  show "IsValidLogLevel l \<Longrightarrow> ToLower l = l"
    by (auto simp: IsValidLogLevel_def ToLower_def t ascii_def)
  show "ToLower (fsync_text p) = fsync_text p" by (cases p) (simp_all add: fsync_text_def ToLower_def t ascii_def)
  show "ToLower (io_text m) = io_text m" by (cases m) (simp_all add: io_text_def ToLower_def t ascii_def)
  show "ToLower (bool_text b) = bool_text b" by (cases b) (simp_all add: bool_text_def ToLower_def t ascii_def)
qed

lemma ParseUint_dec: "n < 2 ^ 64 \<Longrightarrow> ParseUint (dec_of_nat n) = Some n"
proof -
  assume "n < 2 ^ 64"
  have "c_str (dec_of_nat n) = dec_of_nat n"
    using dec_of_nat_digits [of n] isdigit_neq(5) by (auto simp: c_str_def takeWhile_eq_all_conv)
  with strtoull_dec_of_nat [OF \<open>n < 2 ^ 64\<close>] show ?thesis by (simp add: ParseUint_def)
qed

lemma writable_values:
  "writable (dec_of_nat n)" "IsValidLogLevel l \<Longrightarrow> writable l" "writable (fsync_text p)" "writable (io_text m)" "writable (bool_text b)"
proof -
  have "isdigit (hd (dec_of_nat n))" "isdigit (last (dec_of_nat n))"
    using dec_of_nat_digits [of n] by (simp_all add: list.set_sel(1))
  then show "writable (dec_of_nat n)"
    using dec_of_nat_digits [of n] isdigit_not_isspace isdigit_neq(2) by (auto simp: writable_def trimmed_def)
  show "IsValidLogLevel l \<Longrightarrow> writable l"
    by (auto simp: IsValidLogLevel_def writable_def trimmed_def isspace_def ascii_def)
  show "writable (fsync_text p)" by (cases p) (simp_all add: fsync_text_def writable_def trimmed_def isspace_def ascii_def)
  show "writable (io_text m)" by (cases m) (simp_all add: io_text_def writable_def trimmed_def isspace_def ascii_def)
  show "writable (bool_text b)" by (cases b) (simp_all add: bool_text_def writable_def trimmed_def isspace_def ascii_def)
qed

text \<open>What a list of sections means: every key applied in turn.\<close>

fun apply_keys :: "bytes \<Rightarrow> (bytes \<times> bytes) list \<Rightarrow> Config \<Rightarrow> bytes + Config" where
  "apply_keys s [] cfg = Inr cfg"
| "apply_keys s ((k, v) # kvs) cfg =
     (case ApplyKey s k v cfg of Inl e \<Rightarrow> Inl e | Inr cfg' \<Rightarrow> apply_keys s kvs cfg')"

fun apply_sections :: "ini_section list \<Rightarrow> Config \<Rightarrow> bytes + Config" where
  "apply_sections [] cfg = Inr cfg"
| "apply_sections ((s, kvs) # ss) cfg =
     (case apply_keys s kvs cfg of Inl e \<Rightarrow> Inl e | Inr cfg' \<Rightarrow> apply_sections ss cfg')"

definition plain_section :: "ini_section \<Rightarrow> bool" where
  "plain_section s \<longleftrightarrow> plain_key (fst s) \<and> IsKnownSection (fst s) \<and> (\<forall>(k, v) \<in> set (snd s). plain_key k \<and> writable v)"

lemma load_lines_append:
  "load_lines n (xs @ ys) ls =
     (case load_lines n xs ls of Inl e \<Rightarrow> Inl e | Inr ls' \<Rightarrow> load_lines (n + length xs) ys ls')"
  by (induction n xs ls rule: load_lines.induct) (auto split: sum.split)

lemma load_lines_keys:
  assumes "\<forall>(k, v) \<in> set kvs. plain_key k \<and> writable v" and "ls_section ls \<noteq> []"
    and "apply_keys (ls_section ls) kvs (ls_cfg ls) = Inr cfg"
  shows "load_lines n (map (\<lambda>(k, v). k @ '' = '' @ v) kvs) ls = Inr (ls\<lparr>ls_cfg := cfg\<rparr>)"
  using assms
proof (induction kvs arbitrary: n ls)
  case (Cons kv kvs)
  obtain k v where kv: "kv = (k, v)" by fastforce
  then obtain c where c: "ApplyKey (ls_section ls) k v (ls_cfg ls) = Inr c" "apply_keys (ls_section ls) kvs c = Inr cfg"
    using Cons.prems(3) by (auto split: sum.splits)
  have "load_line (n + 1) (k @ '' = '' @ v) ls = Inr (ls\<lparr>ls_cfg := c\<rparr>)"
    using load_line_plain [of k v ls "n + 1"] Cons.prems(1,2) c(1) kv by (simp add: writable_def)
  with Cons.IH [of "ls\<lparr>ls_cfg := c\<rparr>" "n + 1"] Cons.prems(1,2) c(2) kv show ?case by simp
qed simp

lemma load_lines_sections:
  assumes "\<forall>s \<in> set ss. plain_section s" and "apply_sections ss (ls_cfg ls) = Inr cfg"
  shows "\<exists>ls'. load_lines n (concat (map section_lines ss)) ls = Inr ls' \<and> ls_cfg ls' = cfg"
  using assms
proof (induction ss arbitrary: n ls)
  case (Cons s ss)
  obtain sec kvs where s: "s = (sec, kvs)" by fastforce
  with Cons.prems(1) have p: "plain_key sec" "IsKnownSection sec" "\<forall>(k, v) \<in> set kvs. plain_key k \<and> writable v" "sec \<noteq> []"
    by (auto simp: plain_section_def plain_key_def)
  obtain c where c: "apply_keys sec kvs (ls_cfg ls) = Inr c" "apply_sections ss c = Inr cfg"
    using Cons.prems(2) s by (auto split: sum.splits)
  let ?ls1 = "ls\<lparr>ls_section := sec\<rparr>"
  have "load_lines (n + 1) (map (\<lambda>(k, v). k @ '' = '' @ v) kvs) ?ls1 = Inr (?ls1\<lparr>ls_cfg := c\<rparr>)"
    using load_lines_keys [OF p(3), of ?ls1 c] p(4) c(1) by simp
  with load_line_section [OF p(1,2), of "n + 1" ls]
  have "load_lines n (section_lines s) ls = Inr (?ls1\<lparr>ls_cfg := c\<rparr>)" by (simp add: section_lines_def s)
  with Cons.IH [of "?ls1\<lparr>ls_cfg := c\<rparr>" "n + length (section_lines s)"] Cons.prems(1) c(2) show ?case
    by (simp add: load_lines_append)
qed simp

lemma section_lines_plain:
  assumes "plain_section s" and "l \<in> set (section_lines s)"
  shows "LF \<notin> set l"
proof -
  have k: "LF \<notin> set k" if "plain_key k" for k
  proof -
    have "isspace LF" by (simp add: isspace_def ascii_def)
    with that show ?thesis unfolding plain_key_def by blast
  qed
  have s: "plain_key (fst s)" "\<forall>(k, v) \<in> set (snd s). plain_key k \<and> writable v" using assms(1) by (simp_all add: plain_section_def)
  from assms(2) consider "l = ''['' @ fst s @ '']''" | kv v where "(kv, v) \<in> set (snd s)" "l = kv @ '' = '' @ v"
    by (auto simp: section_lines_def)
  then show ?thesis
  proof cases
    case 1
    with k [OF s(1)] show ?thesis by simp
  next
    case (2 kv v)
    with s(2) have "plain_key kv" "writable v" by auto
    with k [of kv] 2(2) show ?thesis by (simp add: writable_def)
  qed
qed

lemma config_file_meaning:
  assumes "\<forall>s \<in> set ss. plain_section s" and "apply_sections ss Config_init = Inr cfg"
  shows "LoadConfig path (Some (ini_text ss)) = Inr cfg"
proof -
  have "getlines (ini_text ss) = concat (map section_lines ss)"
    unfolding ini_text_def using assms(1) section_lines_plain by (intro getlines_concat) auto
  with load_lines_sections [OF assms(1), of load_init cfg 0] assms(2) show ?thesis
    by (auto simp: LoadConfig_def load_init_def)
qed

lemma plain_names:
  "plain_key ''server''" "plain_key ''port''" "plain_key ''bind''" "plain_key ''logging''" "plain_key ''level''"
  "plain_key ''storage''" "plain_key ''kv_reserve''" "plain_key ''index''" "plain_key ''default_capacity''"
  "plain_key ''max_entries''" "plain_key ''persistence''" "plain_key ''dir''" "plain_key ''load_on_startup''"
  "plain_key ''aof''" "plain_key ''aof_fsync''" "plain_key ''aof_io''" "plain_key ''aof_flush_interval_ms''"
  by (simp_all add: plain_key_def isspace_def tolower_def ascii_def)

lemma parse_values:
  "ParseBool (bool_text b) = Some b" "parse_fsync (fsync_text p) = Some p" "parse_io (io_text m) = Some m"
proof -
  show "ParseBool (bool_text b) = Some b" unfolding ParseBool_def ToLower_values by (simp add: bool_text_def)
  show "parse_fsync (fsync_text p) = Some p" unfolding parse_fsync_def ToLower_values by (cases p) (simp_all add: fsync_text_def)
  show "parse_io (io_text m) = Some m" unfolding parse_io_def ToLower_values by (cases m) (simp_all add: io_text_def)
qed

text \<open>
  C35. A configuration within the bounds, without warnings and without replication settings, whose address and
  directory fit on a line, survives being written to a file, one section after the other, and read back.
\<close>

theorem config_roundtrip:
  assumes "config_ok cfg" and "writable (cf_bind cfg)" and "writable (cf_persistence_dir cfg)"
    and "cfg = cfg\<lparr>cf_slaveof := False, cf_slaveof_host := [], cf_slaveof_port := 0, cf_warnings := []\<rparr>"
  shows "LoadConfig path (Some (ini_text (config_sections cfg))) = Inr cfg"
proof (rule config_file_meaning)
  show "\<forall>s \<in> set (config_sections cfg). plain_section s"
    using assms(1-3) plain_names writable_values
    by (simp add: config_sections_def plain_section_def IsKnownSection_def config_ok_def)
next
  have b: "cf_port cfg < 2 ^ 64" "cf_port cfg \<le> 65535" "cf_port cfg \<noteq> 0" "cf_kv_reserve cfg < 2 ^ 64" "cf_default_capacity cfg < 2 ^ 64"
    "cf_default_capacity cfg \<noteq> 0" "cf_max_entries cfg < 2 ^ 64" "cf_aof_flush_interval_ms cfg < 2 ^ 64"
    "1 \<le> cf_aof_flush_interval_ms cfg" "cf_aof_flush_interval_ms cfg \<le> 600000" "cf_bind cfg \<noteq> []" "IsValidLogLevel (cf_log_level cfg)"
    using assms(1) by (simp_all add: config_ok_def)
  note u = ParseUint_dec [OF b(1)] ParseUint_dec [OF b(4)] ParseUint_dec [OF b(5)] ParseUint_dec [OF b(7)] ParseUint_dec [OF b(8)]
  have "apply_sections (config_sections cfg) Config_init = Inr
     \<lparr>cf_port = cf_port cfg, cf_bind = cf_bind cfg, cf_log_level = cf_log_level cfg, cf_kv_reserve = cf_kv_reserve cfg,
      cf_default_capacity = cf_default_capacity cfg, cf_max_entries = cf_max_entries cfg,
      cf_persistence_dir = cf_persistence_dir cfg, cf_load_on_startup = cf_load_on_startup cfg, cf_aof = cf_aof cfg,
      cf_aof_fsync = cf_aof_fsync cfg, cf_aof_io = cf_aof_io cfg, cf_aof_flush_interval_ms = cf_aof_flush_interval_ms cfg,
      cf_slaveof = False, cf_slaveof_host = [], cf_slaveof_port = 0, cf_warnings = []\<rparr>"
    using b by (simp add: config_sections_def ApplyKey_def IsKnownSection_def apply_server_def apply_logging_def
        apply_storage_def apply_index_def apply_persistence_def u ToLower_values parse_values Config_init_def)
  also have "\<dots> = Inr cfg" using assms(4) by (cases cfg) simp
  finally show "apply_sections (config_sections cfg) Config_init = Inr cfg" .
qed

theorem config_roundtrip_witness:
  "LoadConfig ''f'' (Some (ini_text (config_sections (Config_init\<lparr>cf_port := 7000, cf_bind := ''a b'', cf_persistence_dir := []\<rparr>)))) =
     Inr (Config_init\<lparr>cf_port := 7000, cf_bind := ''a b'', cf_persistence_dir := []\<rparr>)"
  by (rule config_roundtrip)
     (simp_all add: config_ok_def Config_init_def IsValidLogLevel_def writable_def trimmed_def isspace_def ascii_def)

end
