(* ===== verification/Server.thy ===== *)
theory Server
  imports Settings AofThread Snapshot Dispatch ReplicationSlave
begin

text \<open>
  From the command line to the running server: \<^verbatim>\<open>main\<close> (src/src/Vemory.cc), \<^verbatim>\<open>MakeAofWriter\<close>
  (src/src/persist/AofWriter.cc) and the listening socket (src/src/net/TcpServer.cc).
\<close>

section \<open>The listening socket\<close>

text \<open>What the system calls answer.\<close>

record net_env =
  ne_socket :: bool
  ne_inet_pton :: "bytes \<Rightarrow> bool"
  ne_reuseaddr :: bool
  ne_reuseport :: bool
  ne_bind :: bool
  ne_listen :: bool

text \<open>\<^verbatim>\<open>TcpServer::Start\<close> returns nothing; the result here says whether the socket listens.\<close>

definition TcpServer_Start :: "net_env \<Rightarrow> bytes \<Rightarrow> bool" where
  "TcpServer_Start ne addr =
     (if \<not> ne_socket ne then False
      else if \<not> (addr = [] \<or> addr = ''0.0.0.0'') \<and> \<not> ne_inet_pton ne (c_str addr) then False
      else if \<not> ne_reuseaddr ne then False
      else if \<not> ne_reuseport ne then False
      else if \<not> ne_bind ne then False
      else if \<not> ne_listen ne then False
      else True)"

datatype accept_result = Accepted int | AcceptEmpty | AcceptFailed

text \<open>The connections made by one readiness event, from the answers of \<^verbatim>\<open>accept4\<close>, and the answers left.\<close>

fun HandleAccept :: "accept_result list \<Rightarrow> int list \<times> accept_result list" where
  "HandleAccept [] = ([], [])"
| "HandleAccept (Accepted fd # rs) = (case HandleAccept rs of (fds, rest) \<Rightarrow> (fd # fds, rest))"
| "HandleAccept (AcceptEmpty # rs) = ([], rs)"
| "HandleAccept (AcceptFailed # rs) = ([], rs)"

section \<open>The AOF writer\<close>

text \<open>
  \<^verbatim>\<open>MakeAofWriter\<close>; \<open>uring\<close> is what \<^verbatim>\<open>TryMakeIoUringAofWriter\<close> gives, asked for only when the mode is
  not \<^verbatim>\<open>thread\<close>.
\<close>

definition MakeAofWriter :: "'u option \<Rightarrow> bytes \<Rightarrow> AofFsyncPolicy \<Rightarrow> nat \<Rightarrow> AofIoMode \<Rightarrow> 'u + ThreadAofWriter" where
  "MakeAofWriter uring disk fsync now mode =
     (if mode = kThread then Inr (ThreadAofWriter_new disk fsync now)
      else case uring of
             Some u \<Rightarrow> Inl u
           | None \<Rightarrow> Inr (ThreadAofWriter_new disk fsync now))"

section \<open>Start-up\<close>

text \<open>
  The machine the server starts on. \<open>mc_reserve\<close>: whether that many buckets can be had; \<open>mc_link\<close>: whether
  connecting to the master succeeds, and then what writing to it answers.
\<close>

record ('ix, 'w, 'r) machine =
  mc_classes :: "('ix, 'w, 'r) classes"
  mc_host :: host
  mc_files :: files
  mc_reserve :: "nat \<Rightarrow> bool"
  mc_net :: net_env
  mc_writer :: "AofFsyncPolicy \<Rightarrow> AofIoMode \<Rightarrow> nat \<Rightarrow> bytes \<Rightarrow> 'w"
  mc_master :: 'r
  mc_link :: "write_answer list option"
  mc_rdb_mmap :: bool

record ('ix, 'w, 'r) Server =
  sv_config :: Config
  sv_snapshot :: SnapshotManager
  sv_commands :: "('ix, 'w, 'r, unit) CommandHandler"
  sv_slave :: "('ix, 'w, 'r) ReplicationSlave option"
  sv_listening :: bool

text \<open>\<open>SvThrown\<close>: an exception ends the process; \<open>SvHang\<close>: a replayed mutation does not return (it does).\<close>

datatype 'a outcome = SvHelp | SvFailure bytes | SvThrown | SvHang | SvRunning 'a

definition mmap_view :: "('ix, 'w, 'r) machine \<Rightarrow> Config \<Rightarrow> bool" where
  "mmap_view mc cfg = (if mc_rdb_mmap mc then cf_slaveof cfg else False)"

text \<open>Loading the snapshot: what is in the stores when the start goes on.\<close>

definition load_on_start ::
  "('ix, 'w, 'r) machine \<Rightarrow> Config \<Rightarrow> 'ix VNodeIndex \<Rightarrow> KvStore \<Rightarrow> ('ix VNodeIndex \<times> KvStore) outcome" where
  "load_on_start mc cfg v m =
     (if cf_load_on_startup cfg \<and> cf_persistence_dir cfg \<noteq> [] then
        (case Snapshot_Load (cl_usearch (mc_classes mc)) (mc_host mc) (mc_files mc) (mmap_view mc cfg) (cf_persistence_dir cfg) v m of
           (LoadStatus st, v', m') \<Rightarrow>
             if st = SmOk then SvRunning (v', m')
             else if st = SmIoError then SvRunning (v', m')
             else SvFailure ''Failed to load snapshot''
         | (LoadThrow, _, _) \<Rightarrow> SvThrown)
      else SvRunning (v, m))"

definition replay_on_start ::
  "('ix, 'w, 'r) machine \<Rightarrow> 'w WalManager \<Rightarrow> ('ix, 'w, 'r) engine \<Rightarrow> ('ix, 'w, 'r) engine outcome" where
  "replay_on_start mc wal en =
     (if wm_enabled wal then
        (case WalManager_Replay (mc_classes mc) wal (mc_files mc (wm_path wal)) en of
           None \<Rightarrow> SvHang
         | Some (RpLengthError, _) \<Rightarrow> SvThrown
         | Some (RpStatus st, en') \<Rightarrow>
             if st = WmOk then SvRunning en'
             else if st = WmNotConfigured then SvRunning en'
             else SvFailure ''Failed to replay AOF'')
      else SvRunning en)"

definition start_slave ::
  "('ix, 'w, 'r) machine \<Rightarrow> Config \<Rightarrow> ('ix, 'w, 'r) engine \<Rightarrow> ('ix, 'w, 'r) ReplicationSlave option outcome" where
  "start_slave mc cfg en =
     (if cf_slaveof cfg then
        (case Slave_Start (mc_host mc) (map_option (\<lambda>ws. TcpConn_new ws []) (mc_link mc)) (cf_slaveof_host cfg) (cf_slaveof_port cfg)
                (ReplicationSlave_new True (en_index en) (en_kv en) (mc_files mc)) of
           (ok, rs) \<Rightarrow> if ok then SvRunning (Some rs) else SvFailure ''Failed to start replication slave'')
      else SvRunning None)"

definition outcome_bind :: "'a outcome \<Rightarrow> ('a \<Rightarrow> 'b outcome) \<Rightarrow> 'b outcome" where
  "outcome_bind r f =
     (case r of SvHelp \<Rightarrow> SvHelp | SvFailure e \<Rightarrow> SvFailure e | SvThrown \<Rightarrow> SvThrown | SvHang \<Rightarrow> SvHang | SvRunning x \<Rightarrow> f x)"

definition server_wal :: "('ix, 'w, 'r) machine \<Rightarrow> Config \<Rightarrow> 'w WalManager" where
  "server_wal mc cfg =
     WalManager_new (mc_writer mc (cf_aof_fsync cfg) (cf_aof_io cfg) (cf_aof_flush_interval_ms cfg)) (cf_persistence_dir cfg) (cf_aof cfg)"

text \<open>The objects \<^verbatim>\<open>main\<close> gives to its command handler.\<close>

definition server_engine :: "('ix, 'w, 'r) machine \<Rightarrow> Config \<Rightarrow> 'ix VNodeIndex \<Rightarrow> KvStore \<Rightarrow> ('ix, 'w, 'r) engine" where
  "server_engine mc cfg v m =
     \<lparr>en_index = Some v, en_kv = Some m, en_wal = Some (server_wal mc cfg),
      en_repl = (if cf_slaveof cfg then None else Some (mc_master mc))\<rparr>"

definition start_server :: "('ix, 'w, 'r) machine \<Rightarrow> Config \<Rightarrow> ('ix, 'w, 'r) Server outcome" where
  "start_server mc cfg =
     (if \<not> mc_reserve mc (cf_kv_reserve cfg) then SvThrown
      else let v = VNodeIndex_new (cf_default_capacity cfg) (cf_max_entries cfg);
               snapshot = (SnapshotManager_new (cf_persistence_dir cfg))\<lparr>sm_usearch_mmap_view := mmap_view mc cfg\<rparr>
           in outcome_bind (load_on_start mc cfg v [])
                (\<lambda>(v1, m1).
                   outcome_bind
                     (replay_on_start mc (server_wal mc cfg) (server_engine mc cfg v1 m1))
                     (\<lambda>en. outcome_bind (start_slave mc cfg en)
                        (\<lambda>slave. SvRunning
                           \<lparr>sv_config = cfg, sv_snapshot = snapshot,
                            sv_commands = CommandHandler_new en (Some ()) (cf_slaveof cfg),
                            sv_slave = slave, sv_listening = TcpServer_Start (mc_net mc) (cf_bind cfg)\<rparr>))))"

definition main :: "('ix, 'w, 'r) machine \<Rightarrow> bytes list \<Rightarrow> ('ix, 'w, 'r) Server outcome" where
  "main mc argv =
     (case read_settings (mc_files mc) argv of
        StartHelp \<Rightarrow> SvHelp
      | StartFailure e \<Rightarrow> SvFailure e
      | StartConfig cfg \<Rightarrow> start_server mc cfg)"

end
