(* ===== verification/Startup.thy ===== *)
theory Startup
  imports Server SlaveLink
begin

text \<open>
  What the start of the server gives: it always ends, in one of four ways, and the AOF is replayed on top of the
  snapshot.
\<close>

section \<open>Replay at the start\<close>

lemma prefix_of_frames:
  assumes "prefix p (concat (map f cs))"
  shows "\<exists>k q. k \<le> length cs \<and> p = concat (map f (take k cs)) @ q
    \<and> (k < length cs \<and> strict_prefix q (f (cs ! k)) \<or> k = length cs \<and> q = [])"
  using assms
proof (induction cs arbitrary: p)
  case (Cons c cs)
  show ?case
  proof (cases "prefix (f c) p")
    case True
    then obtain p1 where p: "p = f c @ p1" by (auto simp: prefix_def)
    with Cons.prems have "prefix p1 (concat (map f cs))" by simp
    from Cons.IH [OF this] obtain k q where k: "k \<le> length cs" "p1 = concat (map f (take k cs)) @ q"
      "k < length cs \<and> strict_prefix q (f (cs ! k)) \<or> k = length cs \<and> q = []" by blast
    then show ?thesis using p by (intro exI [of _ "Suc k"] exI [of _ q]) auto
  next
    case False
    from Cons.prems have "prefix p (f c @ concat (map f cs))" by simp
    then have "prefix p (f c)" using False
      by (metis prefix_append prefix_order.order_refl prefixI)
    with False have "strict_prefix p (f c)" by (auto simp: strict_prefix_def)
    then show ?thesis by (intro exI [of _ 0] exI [of _ p]) simp
  qed
qed simp

text \<open>A log cut anywhere replays like the frames that lie whole in what is left.\<close>

lemma replay_cut_log:
  assumes "\<forall>c \<in> set cs. write_ok c" and "replay_ctxs cl cs e \<noteq> None"
    and "prefix p (concat (map (the \<circ> EncodeWriteCommand) cs))"
  shows "\<exists>k e'. k \<le> length cs \<and> replay_ctxs cl (take k cs) e = Some e'
     \<and> replay_loop cl p e = Some (RpStatus WmOk, e')
     \<and> length (concat (map (the \<circ> EncodeWriteCommand) (take k cs))) \<le> length p
     \<and> (k < length cs \<longrightarrow> length p < length (concat (map (the \<circ> EncodeWriteCommand) (take (Suc k) cs))))"
proof -
  let ?f = "the \<circ> EncodeWriteCommand"
  have frame: "?f c = write_frame c" if "c \<in> set cs" for c
    using that assms(1) EncodeWriteCommand_tokens by (auto simp: write_ok_def)
  from prefix_of_frames [OF assms(3)] obtain k q where k: "k \<le> length cs" "p = concat (map ?f (take k cs)) @ q"
    "k < length cs \<and> strict_prefix q (?f (cs ! k)) \<or> k = length cs \<and> q = []" by blast
  have "replay_ctxs cl (take k cs @ drop k cs) e \<noteq> None" using assms(2) unfolding append_take_drop_id .
  then obtain e' where e': "replay_ctxs cl (take k cs) e = Some e'"
    unfolding replay_ctxs_append by (cases "replay_ctxs cl (take k cs) e") auto
  have ok: "\<forall>c \<in> set (take k cs). write_ok c" using assms(1) by (meson in_set_takeD)
  have "map ?f (take k cs) = map write_frame (take k cs)" using frame by (meson in_set_takeD map_eq_conv)
  with k(2) have buf: "p = concat (map write_frame (take k cs)) @ q" by (metis (no_types))
  have "replay_loop cl p e = Some (RpStatus WmOk, e')"
  proof (cases "k < length cs")
    case True
    then have c: "write_ok (cs ! k)" "?f (cs ! k) = write_frame (cs ! k)" using assms(1) frame nth_mem by blast+
    with True k(3) have "strict_prefix q (write_frame (cs ! k))" by simp
    from replay_loop_truncated [OF ok e' c(1) this] show ?thesis by (simp add: buf)
  next
    case False
    with k(3) have "q = []" by simp
    with replay_loop_frames [OF ok e', of "[]"] show ?thesis by (simp add: buf)
  qed
  moreover have "length p < length (concat (map ?f (take (Suc k) cs)))" if "k < length cs"
  proof -
    have "strict_prefix q (?f (cs ! k))" using k(3) that by simp
    then have "length q < length (?f (cs ! k))" by (rule prefix_length_less)
    then show ?thesis unfolding take_Suc_conv_app_nth [OF that] k(2) by simp
  qed
  ultimately show ?thesis using k(1,2) e' by auto
qed


lemma ApplyMutation_replay_returns: "ApplyMutation cl c kAofReplay e \<noteq> None"
  by (cases "cmd c") (simp_all add: ApplyMutation_def apply_vset_def)

lemma replay_loop_returns: "\<exists>r e'. replay_loop cl buf e = Some (r, e') \<and> r \<noteq> RpStatus WmNotConfigured"
proof (induction cl buf e rule: replay_loop.induct)
  case (1 cl buf e)
  show ?case
  proof (cases "buf = []")
    case False
    show ?thesis
    proof (cases "DecodeArrayOfBulk buf")
      case (DOk tokens consumed)
      obtain fs ctx where ctx: "FromTokens (- 1) tokens default_RequestContext = (fs, ctx)" by fastforce
      obtain ar e1 where app: "ApplyMutation cl ctx kAofReplay (e\<lparr>en_wal := None, en_repl := None\<rparr>) = Some (ar, e1)"
        using ApplyMutation_replay_returns [of cl ctx "e\<lparr>en_wal := None, en_repl := None\<rparr>"] by auto
      show ?thesis
      proof (cases "fs = RcOk \<and> ar_ok ar")
        case True
        then have "replay_loop cl buf e = replay_loop cl (drop consumed buf) (e1\<lparr>en_wal := en_wal e, en_repl := en_repl e\<rparr>)"
          using False DOk ctx app by (subst replay_loop.simps) (simp add: Let_def)
        with "1.IH" [OF False DOk ctx [symmetric]] True app show ?thesis by simp
      next
        case nok: False
        then show ?thesis using False DOk ctx app by (subst replay_loop.simps) (auto simp: Let_def)
      qed
    qed (use False in \<open>subst replay_loop.simps; simp\<close>)+
  qed (subst replay_loop.simps, simp)
qed

lemma replay_loop_not_None: "replay_loop cl buf e \<noteq> None"
  using replay_loop_returns [of cl buf e] by auto

lemma replay_loop_frames_ok:
  assumes "\<forall>c \<in> set cs. write_ok c" and "replay_loop cl (concat (map write_frame cs) @ rest) e = Some (RpStatus WmOk, e1)"
  shows "\<exists>e'. replay_ctxs cl cs e = Some e' \<and> replay_loop cl rest e' = Some (RpStatus WmOk, e1)"
  using assms
proof (induction cs arbitrary: e)
  case (Cons c cs)
  then have ok: "write_ok c" by simp
  obtain ar e2 where app: "ApplyMutation cl c kAofReplay e = Some (ar, e2)"
    using ApplyMutation_replay_returns [of cl c e] by auto
  let ?buf = "write_frame c @ concat (map write_frame cs) @ rest"
  have w: "is_write (cmd c)" using ok by (simp add: write_ok_def)
  note dec = write_frame_decodes [OF ok EncodeWriteCommand_tokens [OF w]]
  note sinks = replay_sinks [OF app]
  have "e2\<lparr>en_wal := None, en_repl := None, en_wal := en_wal e, en_repl := en_repl e\<rparr> = e2"
    using sinks(2,3) by simp
  then have step: "replay_loop cl ?buf e = (if ar_ok ar then replay_loop cl (concat (map write_frame cs) @ rest) e2 else Some (RpStatus WmError, e2))"
    using dec(1) [of "concat (map write_frame cs) @ rest"] dec(2) [of "- 1" default_RequestContext]
    by (subst replay_loop.simps)
       (simp add: Let_def ApplyMutation_write_part [OF w] sinks(1) [of None None])
  have ar: "ar_ok ar"
  proof (rule ccontr)
    assume "\<not> ar_ok ar"
    with step Cons.prems(2) show False by simp
  qed
  with step Cons.prems(2) have "replay_loop cl (concat (map write_frame cs) @ rest) e2 = Some (RpStatus WmOk, e1)" by simp
  from Cons.IH [OF _ this] Cons.prems(1) app ar show ?case by simp
qed simp

lemma replay_ctxs_last_set:
  assumes "replay_ctxs cl (cs @ [c]) e = Some e'" and "cmd c = kSet"
  shows "\<exists>m. en_kv e' = Some m \<and> um_find m (key c) = Some (element c)"
proof -
  from assms(1) obtain e1 where "replay_ctxs cl [c] e1 = Some e'" by (auto simp: replay_ctxs_append split: bind_splits)
  then obtain ar where "ApplyMutation cl c kAofReplay e1 = Some (ar, e')" "ar_ok ar" by (auto split: option.splits if_splits)
  with assms(2) show ?thesis
    by (auto simp: ApplyMutation_def apply_set_def Let_def KvStore_Set_def umap_simps split: option.splits if_splits prod.splits)
qed

text \<open>Replay leaves the sinks of the engine alone.\<close>

lemma replay_loop_repl: "replay_loop cl buf e = Some (r, e') \<Longrightarrow> en_repl e' = en_repl e"
proof (induction cl buf e rule: replay_loop.induct)
  case (1 cl buf e)
  show ?case
  proof (cases "buf = []")
    case True
    with "1.prems" show ?thesis by (simp add: replay_loop.simps [of cl buf])
  next
    case False
    show ?thesis
    proof (cases "DecodeArrayOfBulk buf")
      case (DOk tokens consumed)
      obtain fs ctx where ctx: "FromTokens (- 1) tokens default_RequestContext = (fs, ctx)" by fastforce
      obtain ar e1 where app: "ApplyMutation cl ctx kAofReplay (e\<lparr>en_wal := None, en_repl := None\<rparr>) = Some (ar, e1)"
        using ApplyMutation_replay_returns [of cl ctx "e\<lparr>en_wal := None, en_repl := None\<rparr>"] by auto
      show ?thesis
      proof (cases "fs = RcOk \<and> ar_ok ar")
        case True
        then have "replay_loop cl buf e = replay_loop cl (drop consumed buf) (e1\<lparr>en_wal := en_wal e, en_repl := en_repl e\<rparr>)"
          using False DOk ctx app by (subst replay_loop.simps) (simp add: Let_def)
        with "1.IH" [OF False DOk ctx [symmetric]] "1.prems" True app show ?thesis by simp
      next
        case nok: False
        then show ?thesis using "1.prems" False DOk ctx app by (auto simp: replay_loop.simps [of cl buf] Let_def split: if_splits)
      qed
    qed (use "1.prems" False in \<open>simp_all add: replay_loop.simps [of cl buf]\<close>)
  qed
qed

lemma replay_on_start_repl:
  assumes "replay_on_start mc wal en = SvRunning en'"
  shows "en_repl en' = en_repl en"
  using assms
  by (auto simp: replay_on_start_def WalManager_Replay_def dest: replay_loop_repl
      split: if_splits option.splits prod.splits replay_result.splits)

text \<open>The ways a start succeeds.\<close>

lemma start_server_cases:
  assumes "start_server mc cfg = SvRunning sv"
  obtains v1 m1 en slave where
    "load_on_start mc cfg (VNodeIndex_new (cf_default_capacity cfg) (cf_max_entries cfg)) [] = SvRunning (v1, m1)"
    "replay_on_start mc (server_wal mc cfg) (server_engine mc cfg v1 m1) = SvRunning en"
    "start_slave mc cfg en = SvRunning slave" "sv_config sv = cfg"
    "sv_commands sv = CommandHandler_new en (Some ()) (cf_slaveof cfg)" "sv_slave sv = slave"
    "sv_listening sv = TcpServer_Start (mc_net mc) (cf_bind cfg)"
  using assms
  by (auto simp: start_server_def Let_def outcome_bind_def split: if_splits outcome.splits prod.splits)

lemma server_wal_on:
  assumes "cf_aof cfg" and "cf_persistence_dir cfg \<noteq> []"
  shows "wm_enabled (server_wal mc cfg) \<and> wm_path (server_wal mc cfg) = cf_persistence_dir cfg @ ''/appendonly.aof''"
  using assms by (simp add: server_wal_def WalManager_new_def Let_def)

lemma replay_on_start_ok:
  assumes "cf_aof cfg" and "cf_persistence_dir cfg \<noteq> []" and "mc_files mc (cf_persistence_dir cfg @ ''/appendonly.aof'') = Some buf"
  shows "replay_on_start mc (server_wal mc cfg) (server_engine mc cfg v m) = SvRunning en \<longleftrightarrow>
    replay_loop (mc_classes mc) buf (server_engine mc cfg v m) = Some (RpStatus WmOk, en)"
proof -
  have st: "replay_loop (mc_classes mc) buf e \<noteq> Some (RpStatus WmNotConfigured, en)" for e en
    using replay_loop_returns [of "mc_classes mc" buf e] by auto
  have "WalManager_Replay (mc_classes mc) (server_wal mc cfg) (Some buf) (server_engine mc cfg v m) = replay_loop (mc_classes mc) buf (server_engine mc cfg v m)"
    using server_wal_on [OF assms(1,2), of mc] by (simp add: WalManager_Replay_def server_engine_def)
  with server_wal_on [OF assms(1,2), of mc] assms(3) show ?thesis
    by (auto simp: replay_on_start_def st split: option.splits prod.splits replay_result.splits if_splits)
qed

lemma start_not_hang: "start_server mc cfg \<noteq> SvHang"
proof -
  have r: "replay_on_start mc wal en \<noteq> SvHang" for wal en
    by (auto simp: replay_on_start_def WalManager_Replay_def replay_loop_not_None split: option.splits replay_result.splits)
  have l: "load_on_start mc cfg v m \<noteq> SvHang" for v m
    by (auto simp: load_on_start_def split: prod.splits load_result.splits)
  have s: "start_slave mc cfg en \<noteq> SvHang" for en by (auto simp: start_slave_def split: prod.splits)
  show ?thesis
    using r l s by (auto simp: start_server_def Let_def outcome_bind_def split: outcome.splits prod.splits)
qed

text \<open>A machine with an empty file system but for one AOF, and memory for everything.\<close>

definition sample_machine :: "bytes \<Rightarrow> (flat_index, bytes, unit) machine" where
  "sample_machine aof =
     \<lparr>mc_classes = sample_classes, mc_host = good_host, mc_files = (\<lambda>_. None)(''data/appendonly.aof'' \<mapsto> aof), mc_reserve = (\<lambda>_. True),
      mc_net = \<lparr>ne_socket = True, ne_inet_pton = (\<lambda>_. True), ne_reuseaddr = True, ne_reuseport = True, ne_bind = False, ne_listen = True\<rparr>,
      mc_writer = (\<lambda>_ _ _ _. []), mc_master = (), mc_link = None, mc_rdb_mmap = True\<rparr>"

definition aof_config :: Config where
  "aof_config = Config_init\<lparr>cf_aof := True\<rparr>"

text \<open>
  C33. The start of the server always ends: with the usage text, a message, an exception, or a running server. The
  settings of a running server are within bounds; a replica has a replication object in a state its event handlers
  start from, serves clients read-only and refuses PSYNC, and any other server has none and answers PSYNC.
\<close>

theorem server_start_ends:
  "main mc argv \<noteq> SvHang \<and> (\<forall>sv. main mc argv = SvRunning sv \<longrightarrow>
     config_ok (sv_config sv) \<and> ch_replica_readonly (sv_commands sv) = cf_slaveof (sv_config sv)
     \<and> (ch_register (sv_commands sv) kPsync \<noteq> None \<longleftrightarrow> \<not> cf_slaveof (sv_config sv))
     \<and> (case sv_slave sv of None \<Rightarrow> \<not> cf_slaveof (sv_config sv)
         | Some rs \<Rightarrow> cf_slaveof (sv_config sv) \<and> slave_init rs))"
proof -
  have "config_ok (sv_config sv) \<and> ch_replica_readonly (sv_commands sv) = cf_slaveof (sv_config sv)
     \<and> (ch_register (sv_commands sv) kPsync \<noteq> None \<longleftrightarrow> \<not> cf_slaveof (sv_config sv))
     \<and> (case sv_slave sv of None \<Rightarrow> \<not> cf_slaveof (sv_config sv)
         | Some rs \<Rightarrow> cf_slaveof (sv_config sv) \<and> slave_init rs)"
    if run: "main mc argv = SvRunning sv" for sv
  proof -
    from run obtain cfg where cfg: "read_settings (mc_files mc) argv = StartConfig cfg" "start_server mc cfg = SvRunning sv"
      by (auto simp: main_def split: startup.splits)
    from start_server_cases [OF cfg(2)] obtain v1 m1 en slave where
      c: "replay_on_start mc (server_wal mc cfg) (server_engine mc cfg v1 m1) = SvRunning en"
        "start_slave mc cfg en = SvRunning slave" "sv_commands sv = CommandHandler_new en (Some ()) (cf_slaveof cfg)"
        "sv_slave sv = slave" "sv_config sv = cfg" by metis
    have "en_repl en = en_repl (server_engine mc cfg v1 m1)" using replay_on_start_repl [OF c(1)] .
    then have "en_repl en \<noteq> None \<longleftrightarrow> \<not> cf_slaveof cfg" by (simp add: server_engine_def)
    moreover have h: "ch_replica_readonly (CommandHandler_new en (Some ()) (cf_slaveof cfg)) = cf_slaveof cfg"
      "ch_register (CommandHandler_new en (Some ()) (cf_slaveof cfg)) kPsync \<noteq> None \<longleftrightarrow> en_repl en \<noteq> None"
      by (simp add: CommandHandler_new_def Let_def) (simp add: CommandHandler_new_register)
    moreover have "slave_init rs" if "Slave_Start (mc_host mc) (map_option (\<lambda>ws. TcpConn_new ws []) (mc_link mc))
        (cf_slaveof_host cfg) (cf_slaveof_port cfg) (ReplicationSlave_new True (en_index en) (en_kv en) (mc_files mc)) = (True, rs)" for rs
      using that unfolding slave_init_def new_link_def by blast
    then have "case slave of None \<Rightarrow> \<not> cf_slaveof cfg | Some rs \<Rightarrow> cf_slaveof cfg \<and> slave_init rs"
      using c(2) by (auto simp: start_slave_def split: if_splits prod.splits)
    ultimately show ?thesis
      unfolding c(3-5) using read_settings_ok(1) [OF cfg(1)] h by simp
  qed
  moreover have "main mc argv \<noteq> SvHang" using start_not_hang by (auto simp: main_def split: startup.splits)
  ultimately show ?thesis by blast
qed

theorem server_start_ends_witness:
  "\<exists>sv. main (sample_machine []) [] = SvRunning sv \<and> config_ok (sv_config sv) \<and> sv_slave sv = None
     \<and> ch_register (sv_commands sv) kPsync \<noteq> None"
proof -
  obtain sv where sv: "main (sample_machine []) [] = SvRunning sv" "\<not> cf_slaveof (sv_config sv)"
    by (simp add: main_def read_settings_def start_server_def outcome_bind_def load_on_start_def replay_on_start_def
        start_slave_def server_wal_def WalManager_new_def with_args_def Args_init_def Config_init_def sample_machine_def Let_def)
  with server_start_ends [of "sample_machine []" "[]"] show ?thesis by (auto split: option.splits)
qed


lemma sample_write_fields: "write_ok sample_set" "cmd sample_set = kSet" "key sample_set = ''k''" "element sample_set = ''v''"
  by (simp_all add: write_ok_def sample_set_def is_write_def write_tokens.simps tokens_fit_def vector_max_size_def)

text \<open>\<^verbatim>\<open>TcpServer::Start\<close> reports nothing: when the port is taken the server runs on without listening.\<close>

lemma server_runs_without_listening:
  "\<exists>sv. start_server (sample_machine (the (EncodeWriteCommand sample_set))) aof_config = SvRunning sv \<and> \<not> sv_listening sv"
proof -
  let ?mc = "sample_machine (the (EncodeWriteCommand sample_set))" and ?e = "server_engine (sample_machine (the (EncodeWriteCommand sample_set))) aof_config (VNodeIndex_new 1024 0) []"
  have c: "cf_aof aof_config" "cf_persistence_dir aof_config \<noteq> []" "mc_files ?mc (cf_persistence_dir aof_config @ ''/appendonly.aof'') = Some (write_frame sample_set)"
    using sample_write_fields(1) by (simp_all add: aof_config_def Config_init_def sample_machine_def EncodeWriteCommand_tokens write_ok_def)
  have r: "replay_ctxs (mc_classes ?mc) [sample_set] ?e = Some (?e\<lparr>en_kv := Some [(''k'', ''v'')]\<rparr>)"
    by (simp add: ApplyMutation_def apply_set_def sample_set_def server_engine_def KvStore_Set_def um_find_def um_emplace_def)
  have "replay_loop (mc_classes ?mc) (write_frame sample_set) ?e = Some (RpStatus WmOk, ?e\<lparr>en_kv := Some [(''k'', ''v'')]\<rparr>)"
    using replay_loop_frames [OF _ r, of "[]"] sample_write_fields(1) by simp
  then have "replay_on_start ?mc (server_wal ?mc aof_config) ?e = SvRunning (?e\<lparr>en_kv := Some [(''k'', ''v'')]\<rparr>)"
    using replay_on_start_ok [OF c] by simp
  moreover have "load_on_start ?mc aof_config (VNodeIndex_new 1024 0) [] = SvRunning (VNodeIndex_new 1024 0, [])"
    "mc_reserve ?mc (cf_kv_reserve aof_config)" "cf_default_capacity aof_config = 1024" "cf_max_entries aof_config = 0" "\<not> cf_slaveof aof_config"
    "\<not> TcpServer_Start (mc_net ?mc) (cf_bind aof_config)"
    by (simp_all add: load_on_start_def aof_config_def Config_init_def sample_machine_def TcpServer_Start_def)
  ultimately show ?thesis
    by (simp add: start_server_def outcome_bind_def start_slave_def)
qed


end
