(* ===== verification/Timer.thy ===== *)
theory Timer
  imports Vemory_Prelude "HOL-Library.Multiset"
begin

text \<open>
  The timers (src/include/vemory/util/Timer.h) and the loop that serves them
  (src/include/vemory/net/EventLoop.h). What a callback does is code of other components: the interface
  \<open>timer_user\<close> says what the timer loop relies on of it.
\<close>

section \<open>Model\<close>

text \<open>A node with its address; a callback is named, what it does is a parameter of the loop.\<close>

record 'c TimerNode =
  tn_addr :: nat
  tn_timeout :: nat
  tn_callback :: 'c

text \<open>\<open>tm_map\<close> is the multimap in its iteration order; \<open>tm_next\<close> is above every address given out.\<close>

record 'c Timer =
  tm_map :: "(nat \<times> 'c TimerNode) list"
  tm_next :: nat

definition Timer_new :: "'c Timer" where
  "Timer_new = \<lparr>tm_map = [], tm_next = 0\<rparr>"

text \<open>\<^verbatim>\<open>std::multimap::insert\<close>: behind the entries of an equal key.\<close>

definition mm_insert :: "nat \<Rightarrow> 'v \<Rightarrow> (nat \<times> 'v) list \<Rightarrow> (nat \<times> 'v) list" where
  "mm_insert k v m = takeWhile (\<lambda>e. fst e \<le> k) m @ (k, v) # dropWhile (\<lambda>e. fst e \<le> k) m"

definition at_addr :: "nat \<Rightarrow> nat \<times> 'c TimerNode \<Rightarrow> bool" where
  "at_addr a e \<longleftrightarrow> tn_addr (snd e) = a"

definition mm_erase :: "nat \<Rightarrow> (nat \<times> 'c TimerNode) list \<Rightarrow> (nat \<times> 'c TimerNode) list" where
  "mm_erase a m = takeWhile (\<lambda>e. \<not> at_addr a e) m @ tl (dropWhile (\<lambda>e. \<not> at_addr a e) m)"

text \<open>The iterator behind the one at an address; None is the end.\<close>

definition mm_after :: "nat \<Rightarrow> (nat \<times> 'c TimerNode) list \<Rightarrow> nat option" where
  "mm_after a m = (case tl (dropWhile (\<lambda>e. \<not> at_addr a e) m) of [] \<Rightarrow> None | e # _ \<Rightarrow> Some (tn_addr (snd e)))"

definition mm_begin :: "(nat \<times> 'c TimerNode) list \<Rightarrow> nat option" where
  "mm_begin m = (case m of [] \<Rightarrow> None | e # _ \<Rightarrow> Some (tn_addr (snd e)))"

text \<open>The result is the address of the new node.\<close>

definition AddTimeout :: "nat \<Rightarrow> nat \<Rightarrow> 'c \<Rightarrow> 'c Timer \<Rightarrow> nat \<times> 'c Timer" where
  "AddTimeout now diff cb tm =
     (let node = \<lparr>tn_addr = tm_next tm, tn_timeout = (now + diff) mod 2 ^ 64, tn_callback = cb\<rparr>;
          m = (if tm_map tm = [] \<or> tn_timeout node < fst (last (tm_map tm))
               then mm_insert (tn_timeout node) node (tm_map tm)
               else tm_map tm @ [(tn_timeout node, node)])
      in (tn_addr node, \<lparr>tm_map = m, tm_next = tm_next tm + 1\<rparr>))"

text \<open>None: the node has been deleted before, so its deadline is read from freed memory.\<close>

definition DelTimeout :: "nat \<Rightarrow> 'c Timer \<Rightarrow> 'c Timer option" where
  "DelTimeout a tm =
     (case find (at_addr a) (tm_map tm) of
        None \<Rightarrow> None
      | Some e \<Rightarrow>
          (case find (at_addr a) (filter (\<lambda>e'. fst e' = tn_timeout (snd e)) (tm_map tm)) of
             None \<Rightarrow> Some tm
           | Some _ \<Rightarrow> Some (tm\<lparr>tm_map := mm_erase a (tm_map tm)\<rparr>)))"

text \<open>\<^verbatim>\<open>static_cast<int>\<close> of an unsigned 64-bit number.\<close>

definition to_int32 :: "int \<Rightarrow> int" where
  "to_int32 x = (x + 2 ^ 31) mod 2 ^ 32 - 2 ^ 31"

definition WaitTime :: "nat \<Rightarrow> 'c Timer \<Rightarrow> int" where
  "WaitTime now tm =
     (case tm_map tm of
        [] \<Rightarrow> -1
      | e # _ \<Rightarrow> let diff = (int (fst e) - int now) mod 2 ^ 64 in if 0 < diff then to_int32 diff else 0)"

text \<open>
  \<^verbatim>\<open>HandleTimeout\<close>. A callback runs on the state \<open>'s\<close> of the program and the timers. The clock is read before
  every callback and by it: each pair holds two readings, and when they are used up the loop is still running. The
  nodes fired are kept as history. \<open>TickDangling\<close>: the iterator's node has been deleted under it.
\<close>

datatype ('s, 'c) tick = TickDone "'c TimerNode list" 's "'c Timer" | TickRunning | TickDangling

fun tick_from ::
  "('c \<Rightarrow> nat \<Rightarrow> 's \<Rightarrow> 'c Timer \<Rightarrow> 's \<times> 'c Timer) \<Rightarrow> (nat \<times> nat) list \<Rightarrow> nat option \<Rightarrow> 'c TimerNode list
     \<Rightarrow> 's \<Rightarrow> 'c Timer \<Rightarrow> ('s, 'c) tick" where
  "tick_from fire clock None fired s tm = TickDone fired s tm"
| "tick_from fire [] (Some a) fired s tm = TickRunning"
| "tick_from fire ((t, t') # clock) (Some a) fired s tm =
     (case find (at_addr a) (tm_map tm) of
        None \<Rightarrow> TickDangling
      | Some (k, n) \<Rightarrow>
          if \<not> k \<le> t then TickDone fired s tm
          else case fire (tn_callback n) t' s tm of
                 (s1, tm1) \<Rightarrow>
                   if find (at_addr a) (tm_map tm1) = None then TickDangling
                   else tick_from fire clock (mm_after a (tm_map tm1)) (fired @ [n]) s1
                          (tm1\<lparr>tm_map := mm_erase a (tm_map tm1)\<rparr>))"

definition HandleTimeout ::
  "('c \<Rightarrow> nat \<Rightarrow> 's \<Rightarrow> 'c Timer \<Rightarrow> 's \<times> 'c Timer) \<Rightarrow> (nat \<times> nat) list \<Rightarrow> 's \<Rightarrow> 'c Timer \<Rightarrow> ('s, 'c) tick" where
  "HandleTimeout fire clock s tm = tick_from fire clock (mm_begin (tm_map tm)) [] s tm"

section \<open>The multimap\<close>

definition tm_wf :: "'c Timer \<Rightarrow> bool" where
  "tm_wf tm \<longleftrightarrow> sorted (map fst (tm_map tm)) \<and> distinct (map (tn_addr \<circ> snd) (tm_map tm))
     \<and> (\<forall>e \<in> set (tm_map tm). fst e = tn_timeout (snd e) \<and> tn_addr (snd e) < tm_next tm)"

lemma Timer_new_wf: "tm_wf Timer_new"
  by (simp add: tm_wf_def Timer_new_def)

lemma set_mm_insert: "set (mm_insert k v m) = insert (k, v) (set m)"
  unfolding mm_insert_def by (metis Un_insert_right list.simps(15) set_append takeWhile_dropWhile_id)

lemma sorted_mm_insert:
  assumes "sorted (map fst m)"
  shows "sorted (map fst (mm_insert k v m))"
proof -
  have "sorted (map fst (takeWhile (\<lambda>e. fst e \<le> k) m @ dropWhile (\<lambda>e. fst e \<le> k) m))" using assms by simp
  then have s: "sorted (map fst (takeWhile (\<lambda>e. fst e \<le> k) m))" "sorted (map fst (dropWhile (\<lambda>e. fst e \<le> k) m))"
    "\<forall>x \<in> set (takeWhile (\<lambda>e. fst e \<le> k) m). \<forall>y \<in> set (dropWhile (\<lambda>e. fst e \<le> k) m). fst x \<le> fst y"
    unfolding map_append sorted_append by auto
  have "fst x \<le> k" if "x \<in> set (takeWhile (\<lambda>e. fst e \<le> k) m)" for x using that by (rule set_takeWhileD [THEN conjunct2])
  moreover have "k \<le> fst y" if "y \<in> set (dropWhile (\<lambda>e. fst e \<le> k) m)" for y
  proof (cases "dropWhile (\<lambda>e. fst e \<le> k) m")
    case (Cons z zs)
    then have "k < fst z" by (metis hd_dropWhile list.distinct(1) list.sel(1) not_le)
    with s(2) Cons that show ?thesis by auto
  next
    case Nil
    with that show ?thesis by (metis empty_iff empty_set)
  qed
  ultimately show ?thesis using s by (auto simp: mm_insert_def sorted_append)
qed

text \<open>Both ways of inserting put the new entry behind those due no later.\<close>

lemma AddTimeout_map:
  assumes "sorted (map fst (tm_map tm))"
  shows "tm_map (snd (AddTimeout now diff cb tm)) =
    mm_insert ((now + diff) mod 2 ^ 64) \<lparr>tn_addr = tm_next tm, tn_timeout = (now + diff) mod 2 ^ 64, tn_callback = cb\<rparr> (tm_map tm)"
proof (cases "tm_map tm = [] \<or> (now + diff) mod 2 ^ 64 < fst (last (tm_map tm))")
  case False
  have "fst e \<le> fst (last (tm_map tm))" if "e \<in> set (tm_map tm)" for e
    using that assms by (cases "tm_map tm" rule: rev_cases) (auto simp: sorted_append)
  with False have "\<forall>e \<in> set (tm_map tm). fst e \<le> (now + diff) mod 2 ^ 64" by (meson le_trans linorder_not_less)
  then have w: "takeWhile (\<lambda>e. fst e \<le> (now + diff) mod 2 ^ 64) (tm_map tm) = tm_map tm"
    "dropWhile (\<lambda>e. fst e \<le> (now + diff) mod 2 ^ 64) (tm_map tm) = []"
    by (blast intro: takeWhile_eq_all_conv [THEN iffD2], blast intro: dropWhile_eq_Nil_conv [THEN iffD2])
  show ?thesis unfolding mm_insert_def w using False by (simp add: AddTimeout_def Let_def)
qed (simp add: AddTimeout_def Let_def)

text \<open>The entries due before a time.\<close>

definition soon :: "nat \<Rightarrow> (nat \<times> 'v) list \<Rightarrow> (nat \<times> 'v) list" where
  "soon l m = filter (\<lambda>e. fst e < l) m"

lemma soon_takeWhile: "sorted (map fst m) \<Longrightarrow> soon l m = takeWhile (\<lambda>e. fst e < l) m"
proof (induction m)
  case (Cons a m)
  show ?case
  proof (cases "fst a < l")
    case False
    with Cons.prems have "\<forall>e \<in> set (a # m). \<not> fst e < l" by auto
    then have "soon l (a # m) = []" unfolding soon_def by (rule filter_False)
    with False show ?thesis by simp
  qed (use Cons in \<open>simp add: soon_def\<close>)
qed (simp add: soon_def)

lemma soon_split:
  assumes "sorted (map fst m)"
  obtains far where "m = soon l m @ far" "\<forall>e \<in> set far. l \<le> fst e"
proof
  let ?far = "dropWhile (\<lambda>e. fst e < l) m"
  show "m = soon l m @ ?far" using assms by (simp add: soon_takeWhile)
  have srt: "sorted (map fst ?far)" using assms by (metis sorted_append map_append takeWhile_dropWhile_id)
  show "\<forall>e \<in> set ?far. l \<le> fst e"
  proof (cases ?far)
    case Nil
    then show ?thesis by (metis empty_iff list.set(1))
  next
    case (Cons z zs)
    then have "l \<le> fst z" by (metis hd_dropWhile list.distinct(1) list.sel(1) not_le)
    with Cons srt show ?thesis by auto
  qed
qed

lemma soon_mm_insert: "l \<le> k \<Longrightarrow> soon l (mm_insert k v m) = soon l m"
  by (metis (no_types, lifting) soon_def mm_insert_def filter.simps(2) filter_append fst_conv not_le takeWhile_dropWhile_id)

lemma AddTimeout_wf:
  assumes "tm_wf tm"
  shows "tm_wf (snd (AddTimeout now diff cb tm))"
proof -
  let ?tm = "snd (AddTimeout now diff cb tm)"
  let ?node = "\<lparr>tn_addr = tm_next tm, tn_timeout = (now + diff) mod 2 ^ 64, tn_callback = cb\<rparr>"
  have m: "tm_map ?tm = mm_insert ((now + diff) mod 2 ^ 64) ?node (tm_map tm)"
    by (rule AddTimeout_map) (use assms in \<open>simp add: tm_wf_def\<close>)
  have nx: "tm_next ?tm = tm_next tm + 1" by (simp add: AddTimeout_def Let_def)
  obtain a d where d: "tm_map tm = a @ d" "mm_insert ((now + diff) mod 2 ^ 64) ?node (tm_map tm) = a @ ((now + diff) mod 2 ^ 64, ?node) # d"
    by (metis mm_insert_def takeWhile_dropWhile_id)
  have "tn_addr (snd e) \<noteq> tm_next tm" if "e \<in> set (a @ d)" for e
    using assms that unfolding tm_wf_def d(1) by (metis nat_neq_iff)
  moreover have "distinct (map (tn_addr \<circ> snd) (a @ d))" using assms d(1) by (simp add: tm_wf_def)
  ultimately have "distinct (map (tn_addr \<circ> snd) (mm_insert ((now + diff) mod 2 ^ 64) ?node (tm_map tm)))"
    unfolding d(2) by fastforce
  then show ?thesis using assms m nx sorted_mm_insert by (auto simp: tm_wf_def set_mm_insert less_Suc_eq)
qed

text \<open>The callbacks that are waiting.\<close>

definition pending :: "'c Timer \<Rightarrow> 'c multiset" where
  "pending tm = mset (map (tn_callback \<circ> snd) (tm_map tm))"

lemma pending_AddTimeout:
  assumes "tm_wf tm"
  shows "pending (snd (AddTimeout now diff cb tm)) = add_mset cb (pending tm)"
proof -
  obtain a d where "tm_map tm = a @ d" "tm_map (snd (AddTimeout now diff cb tm)) = a @ ((now + diff) mod 2 ^ 64,
      \<lparr>tn_addr = tm_next tm, tn_timeout = (now + diff) mod 2 ^ 64, tn_callback = cb\<rparr>) # d"
    using assms by (metis AddTimeout_map mm_insert_def takeWhile_dropWhile_id tm_wf_def)
  then show ?thesis by (simp add: pending_def)
qed

lemma soon_AddTimeout:
  assumes "tm_wf tm" and "now + diff < 2 ^ 64" and "l \<le> now + diff"
  shows "soon l (tm_map (snd (AddTimeout now diff cb tm))) = soon l (tm_map tm)"
  using assms by (simp add: AddTimeout_map tm_wf_def soon_mm_insert)

text \<open>The first node and the iterator that stands on it.\<close>

lemma at_head:
  "find (at_addr (tn_addr (snd e))) (e # m) = Some e" "mm_erase (tn_addr (snd e)) (e # m) = m"
  "mm_after (tn_addr (snd e)) (e # m) = mm_begin m"
  by (simp_all add: at_addr_def mm_erase_def mm_after_def mm_begin_def)

lemma tick_from_step:
  assumes "tm_map tm = e # m"
  shows "tick_from fire ((t, t') # clock) (Some (tn_addr (snd e))) fired s tm =
    (if \<not> fst e \<le> t then TickDone fired s tm
     else case fire (tn_callback (snd e)) t' s tm of
            (s1, tm1) \<Rightarrow>
              if find (at_addr (tn_addr (snd e))) (tm_map tm1) = None then TickDangling
              else tick_from fire clock (mm_after (tn_addr (snd e)) (tm_map tm1)) (fired @ [snd e]) s1
                     (tm1\<lparr>tm_map := mm_erase (tn_addr (snd e)) (tm_map tm1)\<rparr>))"
proof (cases e)
  case (Pair k n)
  show ?thesis using assms unfolding Pair snd_conv by (simp add: at_addr_def)
qed

lemma soon_head:
  assumes "sorted (map fst m)" and "soon l m = e # es"
  obtains m' where "m = e # m'" "soon l m' = es"
  using assms by (cases m) (auto simp: soon_takeWhile split: if_splits)

lemma tm_wf_tl: "tm_wf tm \<Longrightarrow> tm_map tm = e # m \<Longrightarrow> tm_wf (tm\<lparr>tm_map := m\<rparr>)"
  by (simp add: tm_wf_def)

section \<open>The loop over the due timers\<close>

text \<open>
  What the loop relies on of its callbacks: they keep the program's invariant, which ties it to the callbacks
  waiting besides the one that runs, and the well-formed map, and the deadlines they add lie at least \<open>low\<close>
  milliseconds ahead.
\<close>

locale timer_user =
  fixes fire :: "'c \<Rightarrow> nat \<Rightarrow> 's \<Rightarrow> 'c Timer \<Rightarrow> 's \<times> 'c Timer"
    and ok :: "'s \<Rightarrow> 'c multiset \<Rightarrow> bool"
    and low :: nat
  assumes fire_ok: "ok s (pending tm) \<Longrightarrow> c \<in># pending tm \<Longrightarrow> tm_wf tm \<Longrightarrow> t < 2 ^ 63 \<Longrightarrow> fire c t s tm = (s1, tm1) \<Longrightarrow>
    ok s1 (pending tm1 - {#c#}) \<and> tm_wf tm1 \<and> (\<forall>l \<le> t + low. soon l (tm_map tm1) = soon l (tm_map tm))"
begin

lemma tick_from_fires:
  assumes "ok s (pending tm)" and "tm_wf tm" and "length (soon (lo + low) (tm_map tm)) < length clock" and "hi < lo + low" and "hi < 2 ^ 63"
    and "\<forall>(t, t') \<in> set clock. lo \<le> t \<and> t \<le> hi \<and> lo \<le> t' \<and> t' \<le> hi"
  shows "\<exists>n s' tm'. tick_from fire clock (mm_begin (tm_map tm)) fired s tm
      = TickDone (fired @ map snd (take n (soon (lo + low) (tm_map tm)))) s' tm'
    \<and> ok s' (pending tm') \<and> tm_wf tm' \<and> soon (lo + low) (tm_map tm') = drop n (soon (lo + low) (tm_map tm))
    \<and> (\<forall>e \<in> set (take n (soon (lo + low) (tm_map tm))). fst e \<le> hi)
    \<and> (\<forall>e \<in> set (tm_map tm'). lo < fst e)"
  using assms
proof (induction clock arbitrary: s tm fired)
  case Nil
  then show ?case by simp
next
  case (Cons p clock)
  obtain t t' where p: "p = (t, t')" by fastforce
  with Cons.prems have t: "lo \<le> t" "t \<le> hi" "lo \<le> t'" "t' \<le> hi" by auto
  have srt: "sorted (map fst (tm_map tm))" using Cons.prems by (simp add: tm_wf_def)
  show ?case
  proof (cases "tm_map tm")
    case Nil
    with Cons.prems show ?thesis by (auto simp: mm_begin_def soon_def intro!: exI [of _ 0])
  next
    case (Cons e m)
    show ?thesis
    proof (cases "fst e \<le> t")
      case False
      have "\<forall>e \<in> set (tm_map tm). lo < fst e" using False Cons srt t by auto
      moreover have "tick_from fire (p # clock) (mm_begin (tm_map tm)) fired s tm = TickDone fired s tm"
        using False by (simp add: Cons mm_begin_def p tick_from_step [OF Cons] del: tick_from.simps)
      ultimately show ?thesis using Cons.prems by (intro exI [of _ 0]) simp
    next
      case True
      let ?l = "lo + low"
      have near: "fst e < ?l" using True t Cons.prems by simp
      then have D: "soon ?l (tm_map tm) = e # soon ?l m" using Cons by (simp add: soon_def)
      obtain s1 tm1 where f: "fire (tn_callback (snd e)) t' s tm = (s1, tm1)" by fastforce
      have "tn_callback (snd e) \<in># pending tm" using Cons by (simp add: pending_def)
      from fire_ok [OF _ this _ _ f] Cons.prems t
      have s1: "ok s1 (pending tm1 - {#tn_callback (snd e)#})" "tm_wf tm1" "soon ?l (tm_map tm1) = e # soon ?l m" using D by auto
      from s1(2,3) obtain m1 where m1: "tm_map tm1 = e # m1" "soon ?l m1 = soon ?l m"
        by (auto simp: tm_wf_def elim: soon_head)
      let ?tm = "tm1\<lparr>tm_map := m1\<rparr>"
      have "tm_wf ?tm" using s1(2) m1(1) by (rule tm_wf_tl)
      moreover have "ok s1 (pending ?tm)" using s1(1) m1(1) by (simp add: pending_def)
      ultimately obtain n s' tm' where
        r: "tick_from fire clock (mm_begin m1) (fired @ [snd e]) s1 ?tm
            = TickDone ((fired @ [snd e]) @ map snd (take n (soon ?l m))) s' tm'"
          "ok s' (pending tm')" "tm_wf tm'" "soon ?l (tm_map tm') = drop n (soon ?l m)"
          "\<forall>e \<in> set (take n (soon ?l m)). fst e \<le> hi" "\<forall>e \<in> set (tm_map tm'). lo < fst e"
        using Cons.IH [of s1 ?tm "fired @ [snd e]"] Cons.prems m1(2) D by auto
      have "tick_from fire (p # clock) (mm_begin (tm_map tm)) fired s tm
          = TickDone (fired @ map snd (take (Suc n) (soon ?l (tm_map tm)))) s' tm'"
        using True f r(1) D
        by (simp add: Cons p tick_from_step [OF Cons] m1(1) at_head at_addr_def mm_begin_def [of "e # m"] del: tick_from.simps)
      with r(2-6) D True t show ?thesis by (intro exI [of _ "Suc n"]) auto
    qed
  qed
qed

lemma HandleTimeout_fires:
  assumes "ok s (pending tm)" and "tm_wf tm" and "length (tm_map tm) < length clock" and "hi < lo + low" and "hi < 2 ^ 63"
    and "\<forall>(t, t') \<in> set clock. lo \<le> t \<and> t \<le> hi \<and> lo \<le> t' \<and> t' \<le> hi"
  shows "\<exists>n s' tm'. HandleTimeout fire clock s tm = TickDone (map snd (take n (tm_map tm))) s' tm'
    \<and> ok s' (pending tm') \<and> tm_wf tm' \<and> (\<forall>e \<in> set (take n (tm_map tm)). fst e \<le> hi)
    \<and> (\<forall>e \<in> set (drop n (tm_map tm)). lo < fst e) \<and> (\<forall>e \<in> set (tm_map tm'). lo < fst e)"
proof -
  let ?d = "soon (lo + low) (tm_map tm)"
  have "length ?d < length clock" using assms(3) by (simp add: soon_def) (meson le_less_trans length_filter_le)
  with tick_from_fires [OF assms(1,2) _ assms(4-6), of "[]"] obtain n s' tm' where
    r: "HandleTimeout fire clock s tm = TickDone (map snd (take n ?d)) s' tm'" "ok s' (pending tm')" "tm_wf tm'"
      "\<forall>e \<in> set (take n ?d). fst e \<le> hi" "\<forall>e \<in> set (tm_map tm'). lo < fst e"
      and left: "soon (lo + low) (tm_map tm') = drop n ?d" by (auto simp: HandleTimeout_def)
  obtain far where far: "tm_map tm = ?d @ far" "\<forall>e \<in> set far. lo + low \<le> fst e"
    using soon_split [of "tm_map tm" "lo + low"] assms(2) unfolding tm_wf_def by blast
  have "0 < low" using assms(3,4,6) by (cases clock) auto
  with far(2) have "\<forall>e \<in> set far. lo < fst e" by auto
  moreover have "\<forall>e \<in> set (drop n ?d). lo < fst e" using r(5) unfolding left [symmetric] by (simp add: soon_def)
  moreover have "take (min n (length ?d)) (tm_map tm) = take n ?d" "drop (min n (length ?d)) (tm_map tm) = drop n ?d @ far"
    by (subst far(1), simp add: min_def)+
  ultimately show ?thesis using r(1-5)
    by (intro exI [of _ "min n (length ?d)"] exI [of _ s'] exI [of _ tm']) auto
qed

end

section \<open>How long the loop may sleep\<close>

lemma to_int32_small: "- (2 ^ 31) \<le> x \<Longrightarrow> x < 2 ^ 31 \<Longrightarrow> to_int32 (x mod 2 ^ 64) = x"
proof -
  assume x: "- (2 ^ 31) \<le> x" "x < 2 ^ 31"
  have "(x mod 2 ^ 64 + 2 ^ 31) mod 2 ^ 32 = (x + 2 ^ 31) mod (2 ^ 32 :: int)"
    by (metis (no_types) mod_add_left_eq mod_mod_cancel le_imp_power_dvd numeral_le_iff semiring_norm(70,71,68,69))
  also have "\<dots> = x + 2 ^ 31" using x by (intro mod_pos_pos_trivial) auto
  finally show ?thesis by (simp add: to_int32_def)
qed

lemma WaitTime_exact:
  assumes "tm_map tm = e # m" and "\<bar>int (fst e) - int now\<bar> < 2 ^ 31"
  shows "WaitTime now tm = int (fst e) - int now"
proof -
  let ?x = "int (fst e) - int now"
  have "to_int32 (?x mod 2 ^ 64) = ?x" using assms(2) by (intro to_int32_small) auto
  moreover have "?x = 0" if "\<not> 0 < ?x mod 2 ^ 64"
  proof -
    have "?x mod 2 ^ 64 = 0" using that by (metis pos_mod_sign zero_less_numeral zero_less_power le_less)
    then show ?thesis using calculation by (simp add: to_int32_def)
  qed
  ultimately show ?thesis using assms(1) by (auto simp: WaitTime_def Let_def)
qed

end
