(* ===== verification/EventLoop.thy ===== *)
theory EventLoop
  imports Timer ReplicationMaster SlaveLink
begin

text \<open>
  The loop that serves descriptors and timers (src/include/vemory/net/EventLoop.h), and the process' two
  timers: the one that reaps a saving child and the one that reconnects a replica. \<^verbatim>\<open>epoll_wait\<close> is the
  environment: what it answers is an input, and what its documentation promises is a predicate. The handlers
  and the idle callback are arguments of the loop, as they are set by other components.
\<close>

section \<open>Model\<close>

definition kMaxEvents :: nat where
  "kMaxEvents = 1024"

datatype 'e wait_answer = Ready "'e list" | Interrupted | WaitFailed

text \<open>With a negative timeout \<^verbatim>\<open>epoll_wait\<close> returns only for an event, a signal or an error.\<close>

definition answer_ok :: "int \<Rightarrow> 'e wait_answer \<Rightarrow> bool" where
  "answer_ok timeout a \<longleftrightarrow> (case a of Ready evs \<Rightarrow> length evs \<le> kMaxEvents \<and> (evs = [] \<longrightarrow> 0 \<le> timeout) | _ \<Rightarrow> True)"

text \<open>What one turn of the loop meets: the clock when it asks how long to wait, the answer, the clock of its timers.\<close>

record 'e turn =
  tu_now :: nat
  tu_answer :: "'e wait_answer"
  tu_clock :: "(nat \<times> nat) list"

datatype ('s, 'c) loop_end = LoopReturned 's "'c Timer" | LoopRunning 's "'c Timer" | LoopInTimers | LoopDangling

fun Run ::
  "('e \<Rightarrow> 's \<times> 'c Timer \<Rightarrow> 's \<times> 'c Timer) \<Rightarrow> ('s \<times> 'c Timer \<Rightarrow> 's \<times> 'c Timer)
     \<Rightarrow> ('c \<Rightarrow> nat \<Rightarrow> 's \<Rightarrow> 'c Timer \<Rightarrow> 's \<times> 'c Timer) \<Rightarrow> 'e turn list \<Rightarrow> 's \<Rightarrow> 'c Timer \<Rightarrow> ('s, 'c) loop_end" where
  "Run handler idle fire [] s tm = LoopRunning s tm"
| "Run handler idle fire (u # us) s tm =
     (case tu_answer u of
        Interrupted \<Rightarrow> Run handler idle fire us s tm
      | WaitFailed \<Rightarrow> LoopReturned s tm
      | Ready evs \<Rightarrow>
          (case fold handler evs (s, tm) of
             (s1, tm1) \<Rightarrow>
               (case HandleTimeout fire (tu_clock u) s1 tm1 of
                  TickRunning \<Rightarrow> LoopInTimers
                | TickDangling \<Rightarrow> LoopDangling
                | TickDone fired s2 tm2 \<Rightarrow> (case idle (s2, tm2) of (s3, tm3) \<Rightarrow> Run handler idle fire us s3 tm3))))"

subsection \<open>The timers of the process\<close>

datatype timer_callback = CbReap | CbReconnect

record ('ix, 'w, 'r) process =
  pc_sm :: SnapshotManager
  pc_files :: files
  pc_rm :: ReplicationMaster
  pc_slave :: "('ix, 'w, 'r) ReplicationSlave option"

text \<open>What the kernel answers a callback that runs at a time: to \<^verbatim>\<open>waitpid\<close>, \<^verbatim>\<open>fork\<close>, opening the RDB, connecting.\<close>

record timer_env =
  te_wait :: "nat \<Rightarrow> wait_result"
  te_fork :: "nat \<Rightarrow> int"
  te_rdb :: "nat \<Rightarrow> bytes option"
  te_link :: "nat \<Rightarrow> write_answer list option"

text \<open>
  The two lambdas with the timers they arm: the reap timer 100 milliseconds ahead, the reconnect timer by the
  delay that \<^verbatim>\<open>ScheduleReconnect\<close> took.
\<close>

definition reap_lambda ::
  "timer_env \<Rightarrow> nat \<Rightarrow> ('ix, 'w, 'r) process \<Rightarrow> timer_callback Timer \<Rightarrow> ('ix, 'w, 'r) process \<times> timer_callback Timer" where
  "reap_lambda env t p tm =
     (case reap_timer_fired (te_wait env t) (pc_files p) (pc_sm p) of
        (sm, fs, ev) \<Rightarrow>
          (case (case ev of
                   None \<Rightarrow> (pc_rm p, sm)
                 | Some (ok, path) \<Rightarrow> OnSaveDone (te_fork env t) (te_rdb env t) ok path (pc_rm p, sm)) of
             (rm1, sm1) \<Rightarrow>
               (p\<lparr>pc_sm := sm1, pc_files := fs, pc_rm := rm1\<rparr>,
                if sm_reap_timer sm1 then snd (AddTimeout t 100 CbReap tm) else tm)))"

definition reconnect_lambda ::
  "timer_env \<Rightarrow> nat \<Rightarrow> ('ix, 'w, 'r) process \<Rightarrow> timer_callback Timer \<Rightarrow> ('ix, 'w, 'r) process \<times> timer_callback Timer" where
  "reconnect_lambda env t p tm =
     (case pc_slave p of
        None \<Rightarrow> (p, tm)
      | Some rs \<Rightarrow>
          let rs1 = reconnect_fired (new_link (te_link env t)) rs
          in (p\<lparr>pc_slave := Some rs1\<rparr>,
              case rs_reconnect_timer rs1 of None \<Rightarrow> tm | Some delay \<Rightarrow> snd (AddTimeout t delay CbReconnect tm)))"

definition run_callback ::
  "timer_env \<Rightarrow> timer_callback \<Rightarrow> nat \<Rightarrow> ('ix, 'w, 'r) process \<Rightarrow> timer_callback Timer
     \<Rightarrow> ('ix, 'w, 'r) process \<times> timer_callback Timer" where
  "run_callback env c = (case c of CbReap \<Rightarrow> reap_lambda env | CbReconnect \<Rightarrow> reconnect_lambda env)"

section \<open>The timers and the flags of their owners\<close>

text \<open>A node waits in the map exactly while its owner holds a pointer to it; the replica is in order.\<close>

definition reconnect_armed :: "('ix, 'w, 'r) process \<Rightarrow> bool" where
  "reconnect_armed p \<longleftrightarrow> (\<exists>rs d. pc_slave p = Some rs \<and> rs_reconnect_timer rs = Some d)"

definition process_ok :: "('ix, 'w, 'r) process \<Rightarrow> timer_callback multiset \<Rightarrow> bool" where
  "process_ok p cbs \<longleftrightarrow> count cbs CbReap = (if sm_reap_timer (pc_sm p) then 1 else 0)
     \<and> count cbs CbReconnect = (if reconnect_armed p then 1 else 0)
     \<and> (\<forall>rs. pc_slave p = Some rs \<longrightarrow> slave_inv rs \<and> rs_fault rs = None)"

lemma reconnect_fired_cases:
  assumes "slave_inv rs" and "rs_fault rs = None" and "rs_reconnect_timer rs = Some d"
  shows "slave_inv (reconnect_fired (new_link link) rs) \<and> rs_fault (reconnect_fired (new_link link) rs) = None
    \<and> (\<forall>d'. rs_reconnect_timer (reconnect_fired (new_link link) rs) = Some d' \<longrightarrow> 1000 \<le> d' \<and> d' \<le> 60000)"
proof -
  have "slave_failed rs" using assms by (auto simp: slave_inv_def slave_good_def slave_linked_def split: option.splits)
  then have "slave_base (rs\<lparr>rs_reconnect_timer := None\<rparr>)" by (simp add: slave_failed_def slave_base_def)
  with TryConnect_inv [of "rs\<lparr>rs_reconnect_timer := None\<rparr>" link] assms
  have r: "slave_inv (reconnect_fired (new_link link) rs)" "rs_fault (reconnect_fired (new_link link) rs) = None"
    by (simp_all add: reconnect_fired_def)
  then show ?thesis
    by (auto simp: slave_inv_def slave_good_def slave_linked_def slave_failed_def kMinBackoffMs_def kMaxBackoffMs_def
        split: option.splits)
qed

lemma reap_lambda_ok:
  fixes p :: "('ix, 'w, 'r) process"
  assumes "process_ok p (pending tm)" and "CbReap \<in># pending tm" and "tm_wf tm" and "t < 2 ^ 63"
    and "reap_lambda env t p tm = (p1, tm1)"
  shows "process_ok p1 (pending tm1 - {#CbReap#}) \<and> tm_wf tm1 \<and> (\<forall>l \<le> t + 100. soon l (tm_map tm1) = soon l (tm_map tm))"
proof -
  have armed: "count (pending tm) CbReap = 1" using assms(1,2) by (auto simp: process_ok_def count_eq_zero_iff split: if_splits)
  obtain sm1 where tm1: "tm1 = (if sm_reap_timer sm1 then snd (AddTimeout t 100 CbReap tm) else tm)"
    and p1: "pc_sm p1 = sm1" "pc_slave p1 = pc_slave p"
    using assms(5) by (auto simp: reap_lambda_def split: prod.splits)
  have r: "reconnect_armed p1 = reconnect_armed p" by (simp add: reconnect_armed_def p1)
  have pend: "pending tm1 - {#CbReap#} = (if sm_reap_timer sm1 then pending tm else pending tm - {#CbReap#})"
    using assms(3) by (simp add: tm1 pending_AddTimeout)
  have "process_ok p1 (pending tm1 - {#CbReap#})" unfolding pend using assms(1) armed by (simp add: process_ok_def p1 r)
  moreover have "tm_wf tm1 \<and> (\<forall>l \<le> t + 100. soon l (tm_map tm1) = soon l (tm_map tm))"
    using assms(3,4) by (simp add: tm1 AddTimeout_wf soon_AddTimeout)
  ultimately show ?thesis by blast
qed

lemma reconnect_lambda_ok:
  fixes p :: "('ix, 'w, 'r) process"
  assumes "process_ok p (pending tm)" and "CbReconnect \<in># pending tm" and "tm_wf tm" and "t < 2 ^ 63"
    and "reconnect_lambda env t p tm = (p1, tm1)"
  shows "process_ok p1 (pending tm1 - {#CbReconnect#}) \<and> tm_wf tm1
    \<and> (\<forall>l \<le> t + 100. soon l (tm_map tm1) = soon l (tm_map tm))"
proof -
  have "reconnect_armed p" and one: "count (pending tm) CbReconnect = 1"
    using assms(1,2) by (auto simp: process_ok_def count_eq_zero_iff split: if_splits)
  then obtain rs d where rs: "pc_slave p = Some rs" "rs_reconnect_timer rs = Some d" by (auto simp: reconnect_armed_def)
  let ?rs = "reconnect_fired (new_link (te_link env t)) rs"
  have "slave_inv ?rs \<and> rs_fault ?rs = None \<and> (\<forall>d'. rs_reconnect_timer ?rs = Some d' \<longrightarrow> 1000 \<le> d' \<and> d' \<le> 60000)"
    using assms(1) rs by (intro reconnect_fired_cases) (auto simp: process_ok_def)
  then have inv: "slave_inv ?rs" "rs_fault ?rs = None" and d: "\<And>d'. rs_reconnect_timer ?rs = Some d' \<Longrightarrow> 1000 \<le> d' \<and> d' \<le> 60000"
    by auto
  have p1: "p1 = p\<lparr>pc_slave := Some ?rs\<rparr>"
    and tm1: "tm1 = (case rs_reconnect_timer ?rs of None \<Rightarrow> tm | Some delay \<Rightarrow> snd (AddTimeout t delay CbReconnect tm))"
    using assms(5) rs(1) by (simp_all add: reconnect_lambda_def Let_def)
  show ?thesis
  proof (cases "rs_reconnect_timer ?rs")
    case None
    with assms(1,3) one inv show ?thesis by (simp add: p1 tm1 process_ok_def reconnect_armed_def)
  next
    case (Some d')
    with d have "1000 \<le> d'" "d' \<le> 60000" by auto
    with Some assms(1,3,4) one inv show ?thesis
      by (simp add: p1 tm1 process_ok_def reconnect_armed_def pending_AddTimeout AddTimeout_wf soon_AddTimeout)
  qed
qed

interpretation timers: timer_user "run_callback env" process_ok 100 for env
proof
  fix p :: "('a, 'b, 'c) process" and tm t c p1 tm1
  assume "process_ok p (pending tm)" "c \<in># pending tm" "tm_wf tm" "t < 2 ^ 63" "run_callback env c t p tm = (p1, tm1)"
  then show "process_ok p1 (pending tm1 - {#c#}) \<and> tm_wf tm1 \<and> (\<forall>l \<le> t + 100. soon l (tm_map tm1) = soon l (tm_map tm))"
    by (cases c) (auto simp: run_callback_def dest: reap_lambda_ok reconnect_lambda_ok)
qed

text \<open>
  C24. The timers fire in order and none is left behind. Whatever the callbacks meet, a pass over the timers,
  all of whose clock readings lie less than 100 milliseconds apart, ends; it has run the callbacks of the
  nodes at the front of the map and no others, so in the order of their deadlines and of their arming, each
  once, never early, and none that was armed meanwhile; what is left is not yet due at the first reading; and
  afterwards a node waits exactly for each timer that its owner believes to be armed.
\<close>

theorem timers_fire_in_order:
  assumes "process_ok p (pending tm)" and "tm_wf tm" and "length (tm_map tm) < length clock"
    and "\<forall>(t, t') \<in> set clock. lo \<le> t \<and> t \<le> hi \<and> lo \<le> t' \<and> t' \<le> hi" and "hi < lo + 100" and "hi < 2 ^ 63"
  shows "\<exists>n p' tm'. HandleTimeout (run_callback env) clock p tm = TickDone (map snd (take n (tm_map tm))) p' tm'
    \<and> (\<forall>e \<in> set (take n (tm_map tm)). fst e \<le> hi) \<and> (\<forall>e \<in> set (drop n (tm_map tm)). lo < fst e)
    \<and> (\<forall>e \<in> set (tm_map tm'). lo < fst e) \<and> sorted (map fst (tm_map tm)) \<and> process_ok p' (pending tm') \<and> tm_wf tm'"
  using timers.HandleTimeout_fires [OF assms(1-3,5,6,4), of env] assms(2) by (auto simp: tm_wf_def)

text \<open>A process whose saving child still runs, with the reap timer due at 150.\<close>

definition sample_process :: "(unit, unit, unit) process" where
  "sample_process =
     \<lparr>pc_sm = (SnapshotManager_new [])\<lparr>sm_pending_save_path := ''r'', sm_child_pid := 7, sm_reap_timer := True\<rparr>,
      pc_files = (\<lambda>_. None), pc_rm = ReplicationMaster_new [], pc_slave = None\<rparr>"

definition sample_timers :: "timer_callback Timer" where
  "sample_timers = snd (AddTimeout 50 100 CbReap Timer_new)"

definition sample_timer_env :: timer_env where
  "sample_timer_env = \<lparr>te_wait = (\<lambda>_. WaitRunning), te_fork = (\<lambda>_. 8), te_rdb = (\<lambda>_. None), te_link = (\<lambda>_. None)\<rparr>"

lemma sample_timers_map:
  "tm_map sample_timers = [(150, \<lparr>tn_addr = 0, tn_timeout = 150, tn_callback = CbReap\<rparr>)]" "tm_wf sample_timers"
  "process_ok sample_process (pending sample_timers)"
proof -
  show m: "tm_map sample_timers = [(150, \<lparr>tn_addr = 0, tn_timeout = 150, tn_callback = CbReap\<rparr>)]"
    by (simp add: sample_timers_def AddTimeout_def Timer_new_def mm_insert_def Let_def)
  show "tm_wf sample_timers" unfolding sample_timers_def by (rule AddTimeout_wf [OF Timer_new_wf])
  show "process_ok sample_process (pending sample_timers)"
    by (simp add: process_ok_def pending_def m sample_process_def reconnect_armed_def)
qed

theorem timers_fire_in_order_witness:
  "\<exists>p' tm'. HandleTimeout (run_callback sample_timer_env) [(160, 160), (160, 161)] sample_process sample_timers
      = TickDone [\<lparr>tn_addr = 0, tn_timeout = 150, tn_callback = CbReap\<rparr>] p' tm' \<and> process_ok p' (pending tm')"
proof -
  obtain n p' tm' where r: "HandleTimeout (run_callback sample_timer_env) [(160, 160), (160, 161)] sample_process sample_timers
      = TickDone (map snd (take n (tm_map sample_timers))) p' tm'" "\<forall>e \<in> set (drop n (tm_map sample_timers)). 160 < fst e"
    "process_ok p' (pending tm')"
    using timers_fire_in_order [OF sample_timers_map(3,2), of "[(160, 160), (160, 161)]" 160 161 sample_timer_env]
    by (auto simp: sample_timers_map(1))
  then show ?thesis by (cases n) (auto simp: sample_timers_map(1))
qed

text \<open>
  C26. An overdue timer is not served on a quiet server. When the earliest deadline has passed between the
  last look at the timers and the question how long to wait, the timeout is negative, which \<^verbatim>\<open>epoll_wait\<close> takes
  for no timeout at all; so as long as no descriptor becomes ready and for up to 24 days, no
  turn of the loop runs that timer's callback or any other code: nothing changes.
\<close>

theorem overdue_timer_starves:
  assumes "tm_map tm = e # m"
    and "\<forall>u \<in> set us. fst e < tu_now u \<and> tu_now u < fst e + 2 ^ 31 \<and> answer_ok (WaitTime (tu_now u) tm) (tu_answer u)
      \<and> tu_answer u \<in> {Ready [], Interrupted}"
  shows "Run handler idle fire us s tm = LoopRunning s tm"
  using assms(2)
proof (induction us)
  case (Cons u us)
  from Cons.prems have "WaitTime (tu_now u) tm = int (fst e) - int (tu_now u)" by (intro WaitTime_exact [OF assms(1)]) auto
  with Cons.prems have "tu_answer u = Interrupted" by (auto simp: answer_ok_def)
  with Cons show ?case by simp
qed simp

theorem overdue_timer_starves_witness:
  "Run (\<lambda>_. undefined) (\<lambda>x. x) (run_callback sample_timer_env)
     [\<lparr>tu_now = 151, tu_answer = Interrupted, tu_clock = []\<rparr>, \<lparr>tu_now = 9000, tu_answer = Interrupted, tu_clock = []\<rparr>]
     sample_process sample_timers = LoopRunning sample_process sample_timers"
  by (rule overdue_timer_starves [OF sample_timers_map(1)]) (simp add: answer_ok_def)

text \<open>
  C25. Before its deadline a timer is waited for exactly: the timeout is the time that is left, down to 0 at the
  deadline itself, when it lies less than 24 days ahead; and when that time has passed and no descriptor was
  ready, the turn runs the callback.
\<close>

theorem sleeps_until_deadline:
  assumes "process_ok p (pending tm)" and "tm_wf tm" and "tm_map tm = e # m" and "tu_now u \<le> fst e" and "fst e < tu_now u + 2 ^ 31"
    and "tu_answer u = Ready []" and "length (tm_map tm) < length (tu_clock u)" and "fst e \<le> lo"
    and "\<forall>(t, t') \<in> set (tu_clock u). lo \<le> t \<and> t \<le> hi \<and> lo \<le> t' \<and> t' \<le> hi" and "hi < lo + 100" and "hi < 2 ^ 63"
  shows "WaitTime (tu_now u) tm = int (fst e - tu_now u)
    \<and> (\<exists>fired p' tm'. HandleTimeout (run_callback env) (tu_clock u) p tm = TickDone (snd e # fired) p' tm'
        \<and> Run handler idle (run_callback env) [u] p tm = (case idle (p', tm') of (p1, tm1) \<Rightarrow> LoopRunning p1 tm1))"
proof
  show "WaitTime (tu_now u) tm = int (fst e - tu_now u)"
    using WaitTime_exact [OF assms(3), of "tu_now u"] assms(4,5) by (simp add: of_nat_diff)
  obtain n p' tm' where r: "HandleTimeout (run_callback env) (tu_clock u) p tm = TickDone (map snd (take n (tm_map tm))) p' tm'"
    "\<forall>e \<in> set (drop n (tm_map tm)). lo < fst e"
    using timers.HandleTimeout_fires [OF assms(1,2,7,10,11,9), of env] by blast
  with assms(3,8) obtain k where "n = Suc k" by (cases n) auto
  with r(1) assms(3,6) show "\<exists>fired p' tm'. HandleTimeout (run_callback env) (tu_clock u) p tm = TickDone (snd e # fired) p' tm'
        \<and> Run handler idle (run_callback env) [u] p tm = (case idle (p', tm') of (p1, tm1) \<Rightarrow> LoopRunning p1 tm1)"
    by (cases "idle (p', tm')") simp
qed

theorem sleeps_until_deadline_witness:
  "WaitTime 100 sample_timers = 50
    \<and> (\<exists>fired p' tm'. HandleTimeout (run_callback sample_timer_env) [(150, 150), (150, 150)] sample_process sample_timers
          = TickDone (\<lparr>tn_addr = 0, tn_timeout = 150, tn_callback = CbReap\<rparr> # fired) p' tm')"
proof -
  let ?u = "\<lparr>tu_now = 100, tu_answer = Ready [], tu_clock = [(150, 150), (150, 150)]\<rparr> :: unit turn"
  have "WaitTime (tu_now ?u) sample_timers = int (150 - tu_now ?u)
    \<and> (\<exists>fired p' tm'. HandleTimeout (run_callback sample_timer_env) (tu_clock ?u) sample_process sample_timers
          = TickDone (\<lparr>tn_addr = 0, tn_timeout = 150, tn_callback = CbReap\<rparr> # fired) p' tm')"
    using sleeps_until_deadline [OF sample_timers_map(3,2,1), where u = ?u and lo = 150 and hi = 150
        and env = sample_timer_env and idle = "\<lambda>x. x" and handler = "\<lambda>_ x. x"]
    by (simp add: sample_timers_map(1) del: Run.simps) blast
  then show ?thesis by simp
qed

end
