(* ===== verification/IoUring.thy ===== *)
theory IoUring
  imports Config Wal
begin

text \<open>
  The inline AOF writer (src/src/persist/IoUringAofWriter.cc), the default one where liburing is available: a
  buffer and a list of writes in flight, all on the reactor thread. The kernel and liburing are the environment:
  what each call answers is an input that is part of the state. Of what the kernel does the model uses its
  documentation: the file is opened with \<^verbatim>\<open>O_APPEND\<close>, so every write lands at its end whatever offset it asks
  for; a completion with a positive result says that this many bytes are written; \<^verbatim>\<open>fdatasync\<close> covers the
  writes completed before it; an entry whose submission failed stays queued and goes out with a later one.
\<close>

section \<open>Model\<close>

definition kSoftFlush :: nat where
  "kSoftFlush = 4 * 1024"

definition kHardCap :: nat where
  "kHardCap = 1 * 1024 * 1024"

definition kMaxPending :: nat where
  "kMaxPending = 64"

definition kWaitCqeRetries :: nat where
  "kWaitCqeRetries = 64"

record PendingWrite =
  pw_buf :: bytes
  pw_bytes_total :: nat
  pw_bytes_written :: nat
  pw_offset :: nat
  pw_user_data :: nat

text \<open>
  The fields of the object; then the answers still to come, where the completions are grouped by the rounds in
  which peeking finds them; then the file with how much of it a sync has covered, and the queued entries that the
  object has forgotten. The last three fields are history: the bytes put into the buffer, the writes submitted,
  and of every completion seen the position of its write, its result and how much was outstanding.
\<close>

record InlineIoUringAofWriter =
  iu_fsync :: AofFsyncPolicy
  iu_flush_interval_ms :: nat
  iu_fd :: bool
  iu_aof_offset :: nat
  iu_ring_inited :: bool
  iu_aof_buf :: bytes
  iu_pending :: "PendingWrite list"
  iu_next_user_data :: nat
  iu_dirty :: bool
  iu_io_failed :: bool
  iu_stopped :: bool
  iu_last_flush :: nat
  iu_last_fsync :: nat
  iu_sqes :: "bool list"
  iu_submits :: "bool list"
  iu_waits :: "bool list"
  iu_cqes :: "(nat \<times> int) list list"
  iu_syncs :: "bool list"
  iu_clock :: "nat list"
  iu_file :: bytes
  iu_durable :: nat
  iu_stale :: "(nat \<times> bytes) list"
  iu_log :: bytes
  iu_sent :: "(nat \<times> bytes) list"
  iu_seen :: "(nat option \<times> int \<times> nat) list"

subsection \<open>Calls of the system\<close>

definition io_uring_get_sqe :: "InlineIoUringAofWriter \<Rightarrow> bool \<times> InlineIoUringAofWriter" where
  "io_uring_get_sqe w =
     (case iu_sqes w of [] \<Rightarrow> (False, w) | a # as \<Rightarrow> (a, w\<lparr>iu_sqes := as\<rparr>))"

definition io_uring_submit :: "InlineIoUringAofWriter \<Rightarrow> bool \<times> InlineIoUringAofWriter" where
  "io_uring_submit w =
     (case iu_submits w of [] \<Rightarrow> (False, w) | a # as \<Rightarrow> (a, w\<lparr>iu_submits := as\<rparr>))"

definition io_uring_wait_cqe :: "InlineIoUringAofWriter \<Rightarrow> bool \<times> InlineIoUringAofWriter" where
  "io_uring_wait_cqe w =
     (case iu_waits w of [] \<Rightarrow> (False, w) | a # as \<Rightarrow> (a, w\<lparr>iu_waits := as\<rparr>))"

definition fdatasync :: "InlineIoUringAofWriter \<Rightarrow> bool \<times> InlineIoUringAofWriter" where
  "fdatasync w =
     (case iu_syncs w of
        [] \<Rightarrow> (False, w)
      | a # as \<Rightarrow> (a, w\<lparr>iu_syncs := as, iu_durable := (if a then length (iu_file w) else iu_durable w)\<rparr>))"

definition steady_now :: "InlineIoUringAofWriter \<Rightarrow> nat \<times> InlineIoUringAofWriter" where
  "steady_now w = (case iu_clock w of [] \<Rightarrow> (0, w) | t # ts \<Rightarrow> (t, w\<lparr>iu_clock := ts\<rparr>))"

subsection \<open>The writer\<close>

definition Uring_SyncFile :: "InlineIoUringAofWriter \<Rightarrow> bool \<times> InlineIoUringAofWriter" where
  "Uring_SyncFile w =
     (if iu_fsync w = kNo then (True, w)
      else if \<not> iu_fd w \<or> \<not> iu_dirty w then (True, w)
      else case fdatasync w of
             (ok, w1) \<Rightarrow>
               if \<not> ok then (False, w1)
               else case steady_now w1 of (t, w2) \<Rightarrow> (True, w2\<lparr>iu_dirty := False, iu_last_fsync := t\<rparr>))"

text \<open>None is the index -1.\<close>

fun FindPending :: "nat \<Rightarrow> PendingWrite list \<Rightarrow> nat option" where
  "FindPending ud [] = None"
| "FindPending ud (p # ps) = (if pw_user_data p = ud then Some 0 else map_option Suc (FindPending ud ps))"

definition RemovePending :: "nat \<Rightarrow> InlineIoUringAofWriter \<Rightarrow> InlineIoUringAofWriter" where
  "RemovePending i w =
     (if length (iu_pending w) \<le> i then w
      else w\<lparr>iu_pending := take i (iu_pending w) @ drop (Suc i) (iu_pending w)\<rparr>)"

text \<open>The rest of a write that was cut short goes out again.\<close>

definition resubmit :: "nat \<Rightarrow> PendingWrite \<Rightarrow> InlineIoUringAofWriter \<Rightarrow> InlineIoUringAofWriter" where
  "resubmit i pw w =
     (case io_uring_get_sqe w of
        (got, w1) \<Rightarrow>
          (case (if got then (True, w1) else io_uring_get_sqe (snd (io_uring_submit w1))) of
             (got1, w2) \<Rightarrow>
               if got1
               then case io_uring_submit w2 of
                      (ok, w3) \<Rightarrow>
                        if ok then w3
                        else RemovePending i (w3\<lparr>iu_io_failed := True,
                               iu_stale := iu_stale w3 @ [(pw_user_data pw, drop (pw_bytes_written pw) (pw_buf pw))]\<rparr>)
               else RemovePending i (w2\<lparr>iu_io_failed := True\<rparr>)))"

text \<open>What the kernel has done to the file by the time of a completion.\<close>

definition landed :: "bytes \<Rightarrow> int \<Rightarrow> InlineIoUringAofWriter \<Rightarrow> InlineIoUringAofWriter" where
  "landed data res w = w\<lparr>iu_file := iu_file w @ take (nat res) data\<rparr>"

definition stale_landed :: "nat \<Rightarrow> int \<Rightarrow> InlineIoUringAofWriter \<Rightarrow> InlineIoUringAofWriter" where
  "stale_landed ud res w =
     (case map_of (iu_stale w) ud of
        None \<Rightarrow> w
      | Some data \<Rightarrow> (landed data res w)\<lparr>iu_stale := filter (\<lambda>e. fst e \<noteq> ud) (iu_stale w)\<rparr>)"

text \<open>One completion in the loop of \<^verbatim>\<open>PeekCompletions\<close>.\<close>

definition on_cqe :: "nat \<times> int \<Rightarrow> InlineIoUringAofWriter \<Rightarrow> InlineIoUringAofWriter" where
  "on_cqe c w =
     (case c of
        (ud, res) \<Rightarrow>
          (case FindPending ud (iu_pending w) of
             None \<Rightarrow> stale_landed ud res (w\<lparr>iu_seen := iu_seen w @ [(None, res, 0)]\<rparr>)
           | Some i \<Rightarrow>
               let pw = iu_pending w ! i;
                   rem = pw_bytes_total pw - pw_bytes_written pw;
                   w1 = landed (drop (pw_bytes_written pw) (pw_buf pw)) res (w\<lparr>iu_seen := iu_seen w @ [(Some i, res, rem)]\<rparr>)
               in if res < 0 then RemovePending i (w1\<lparr>iu_io_failed := True\<rparr>)
                  else if res = 0 then RemovePending i w1
                  else if nat res < rem
                  then let pw1 = pw\<lparr>pw_bytes_written := pw_bytes_written pw + nat res\<rparr>
                       in resubmit i pw1 (w1\<lparr>iu_pending := (iu_pending w1)[i := pw1]\<rparr>)
                  else RemovePending i (w1\<lparr>iu_dirty := True\<rparr>)))"

definition PeekCompletions :: "InlineIoUringAofWriter \<Rightarrow> InlineIoUringAofWriter" where
  "PeekCompletions w =
     (if \<not> iu_ring_inited w then w
      else case iu_cqes w of [] \<Rightarrow> w | cs # css \<Rightarrow> fold on_cqe cs (w\<lparr>iu_cqes := css\<rparr>))"

fun wait_for_slot :: "nat \<Rightarrow> InlineIoUringAofWriter \<Rightarrow> bool \<times> InlineIoUringAofWriter" where
  "wait_for_slot 0 w = (False, w)"
| "wait_for_slot (Suc n) w =
     (let w1 = PeekCompletions w
      in if length (iu_pending w1) < kMaxPending then (True, w1)
         else case io_uring_wait_cqe w1 of
                (ok, w2) \<Rightarrow>
                  if \<not> ok then (False, w2)
                  else let w3 = PeekCompletions w2
                       in if length (iu_pending w3) < kMaxPending then (True, w3) else wait_for_slot n w3)"

definition WaitForPendingSlot :: "InlineIoUringAofWriter \<Rightarrow> bool \<times> InlineIoUringAofWriter" where
  "WaitForPendingSlot w = wait_for_slot kWaitCqeRetries w"

text \<open>The argument is the number of tries left; no call passes a negative number for no limit.\<close>

fun DrainPending :: "nat \<Rightarrow> InlineIoUringAofWriter \<Rightarrow> bool \<times> InlineIoUringAofWriter" where
  "DrainPending 0 w = (iu_pending w = [], w)"
| "DrainPending (Suc n) w =
     (if iu_pending w = [] then (True, w)
      else let w1 = PeekCompletions w
           in if iu_pending w1 = [] then (True, w1)
              else case io_uring_wait_cqe w1 of
                     (ok, w2) \<Rightarrow> if \<not> ok then (False, w2) else DrainPending n (PeekCompletions w2))"

text \<open>The entry for a write: None when none can be had.\<close>

definition obtain_sqe :: "InlineIoUringAofWriter \<Rightarrow> bool \<times> InlineIoUringAofWriter" where
  "obtain_sqe w =
     (case io_uring_get_sqe w of
        (True, w1) \<Rightarrow> (True, w1)
      | (False, w1) \<Rightarrow>
          (case io_uring_submit w1 of
             (False, w2) \<Rightarrow> (False, w2)
           | (True, w2) \<Rightarrow>
               (case io_uring_get_sqe w2 of
                  (True, w3) \<Rightarrow> (True, w3)
                | (False, w3) \<Rightarrow>
                    (case WaitForPendingSlot w3 of
                       (False, w4) \<Rightarrow> (False, w4)
                     | (True, w4) \<Rightarrow> io_uring_get_sqe w4))))"

text \<open>The buffer becomes a write in flight, or comes back when it cannot be submitted.\<close>

definition send_buffer :: "InlineIoUringAofWriter \<Rightarrow> bool \<times> InlineIoUringAofWriter" where
  "send_buffer w =
     (let buf = iu_aof_buf w;
          pw = \<lparr>pw_buf = buf, pw_bytes_total = length buf, pw_bytes_written = 0, pw_offset = iu_aof_offset w,
                pw_user_data = iu_next_user_data w\<rparr>;
          w1 = w\<lparr>iu_aof_buf := [], iu_next_user_data := (iu_next_user_data w + 1) mod 2 ^ 64,
                 iu_aof_offset := iu_aof_offset w + length buf, iu_pending := iu_pending w @ [pw]\<rparr>
      in case io_uring_submit w1 of
           (ok, w2) \<Rightarrow>
             if \<not> ok
             then (False, w2\<lparr>iu_aof_offset := iu_aof_offset w2 - length buf, iu_aof_buf := buf, iu_pending := iu_pending w,
                             iu_stale := iu_stale w2 @ [(pw_user_data pw, buf)]\<rparr>)
             else case steady_now w2 of
                    (t, w3) \<Rightarrow> (True, w3\<lparr>iu_last_flush := t, iu_sent := iu_sent w3 @ [(pw_offset pw, buf)]\<rparr>))"

definition FlushBuffer :: "InlineIoUringAofWriter \<Rightarrow> bool \<times> InlineIoUringAofWriter" where
  "FlushBuffer w =
     (if \<not> iu_fd w \<or> \<not> iu_ring_inited w \<or> iu_aof_buf w = [] then (iu_aof_buf w = [] \<or> \<not> iu_io_failed w, w)
      else if iu_io_failed w then (False, w)
      else case (if kMaxPending \<le> length (iu_pending w) then WaitForPendingSlot w else (True, w)) of
             (ok, w1) \<Rightarrow>
               if \<not> ok then (False, w1)
               else case obtain_sqe w1 of (got, w2) \<Rightarrow> if \<not> got then (False, w2) else send_buffer w2)"

definition flush_if_any :: "InlineIoUringAofWriter \<Rightarrow> bool \<times> InlineIoUringAofWriter" where
  "flush_if_any w = (if iu_aof_buf w = [] then (True, w) else FlushBuffer w)"

definition append_buf :: "bytes \<Rightarrow> InlineIoUringAofWriter \<Rightarrow> InlineIoUringAofWriter" where
  "append_buf data w = w\<lparr>iu_aof_buf := iu_aof_buf w @ data, iu_log := iu_log w @ data\<rparr>"

text \<open>The pieces of a frame that is larger than the cap.\<close>

function flush_pieces :: "bytes \<Rightarrow> InlineIoUringAofWriter \<Rightarrow> bool \<times> InlineIoUringAofWriter" where
  "flush_pieces data w =
     (if data = [] then (True, w)
      else case FlushBuffer (append_buf (take kSoftFlush data) w) of
             (ok, w1) \<Rightarrow> if \<not> ok then (False, w1) else flush_pieces (drop kSoftFlush data) w1)"
  by pat_completeness auto
termination
  by (relation "measure (\<lambda>(data, w). length data)") (auto simp: kSoftFlush_def)

declare flush_pieces.simps [simp del]

text \<open>Making room in the buffer for a frame.\<close>

definition make_room :: "nat \<Rightarrow> InlineIoUringAofWriter \<Rightarrow> bool \<times> InlineIoUringAofWriter" where
  "make_room n w =
     (if \<not> kHardCap < length (iu_aof_buf w) + n then (True, w)
      else case FlushBuffer w of
             (False, w1) \<Rightarrow> (False, w1)
           | (True, w1) \<Rightarrow>
               if \<not> kHardCap < length (iu_aof_buf w1) + n then (True, w1)
               else case WaitForPendingSlot w1 of
                      (False, w2) \<Rightarrow> (False, w2)
                    | (True, w2) \<Rightarrow>
                        (case FlushBuffer w2 of
                           (False, w3) \<Rightarrow> (False, w3)
                         | (True, w3) \<Rightarrow> (\<not> kHardCap < length (iu_aof_buf w3) + n, w3)))"

definition Uring_Enqueue :: "InlineIoUringAofWriter \<Rightarrow> bytes \<Rightarrow> bool \<times> InlineIoUringAofWriter" where
  "Uring_Enqueue w frame =
     (if iu_stopped w \<or> iu_io_failed w then (False, w)
      else if frame = [] then (False, w)
      else if kHardCap < length frame
      then case flush_if_any w of
             (False, w1) \<Rightarrow> (False, w1)
           | (True, w1) \<Rightarrow>
               (case flush_pieces frame w1 of
                  (False, w2) \<Rightarrow> (False, w2)
                | (True, w2) \<Rightarrow> if iu_fsync w2 = kAlways then Uring_SyncFile w2 else (True, w2))
      else case make_room (length frame) w of
             (False, w1) \<Rightarrow> (False, w1)
           | (True, w1) \<Rightarrow>
               (let w2 = append_buf frame w1
                in case (if kSoftFlush \<le> length (iu_aof_buf w2) then FlushBuffer w2 else (True, w2)) of
                     (False, w3) \<Rightarrow> (False, w3)
                   | (True, w3) \<Rightarrow>
                       if iu_fsync w3 \<noteq> kAlways then (True, w3)
                       else case flush_if_any w3 of
                              (False, w4) \<Rightarrow> (False, w4)
                            | (True, w4) \<Rightarrow> Uring_SyncFile w4))"

definition Uring_Flush :: "InlineIoUringAofWriter \<Rightarrow> bool \<times> InlineIoUringAofWriter" where
  "Uring_Flush w =
     (if iu_io_failed w then (False, w)
      else case flush_if_any w of
             (False, w1) \<Rightarrow> (False, w1)
           | (True, w1) \<Rightarrow>
               (case DrainPending 200 w1 of
                  (False, w2) \<Rightarrow> (False, w2\<lparr>iu_io_failed := True\<rparr>)
                | (True, w2) \<Rightarrow>
                    (case (if iu_fsync w2 = kNo then (True, w2) else Uring_SyncFile w2) of
                       (False, w3) \<Rightarrow> (False, w3\<lparr>iu_io_failed := True\<rparr>)
                     | (True, w3) \<Rightarrow> (\<not> iu_io_failed w3, w3))))"

definition Uring_Stop :: "InlineIoUringAofWriter \<Rightarrow> InlineIoUringAofWriter" where
  "Uring_Stop w =
     (if iu_stopped w then w
      else let w1 = snd (Uring_Flush (w\<lparr>iu_stopped := True\<rparr>))
           in w1\<lparr>iu_ring_inited := False, iu_fd := False, iu_pending := []\<rparr>)"

definition Uring_failed :: "InlineIoUringAofWriter \<Rightarrow> bool" where
  "Uring_failed w = iu_io_failed w"

text \<open>The flush by time and the sync once a second.\<close>

definition timed_flush :: "nat \<Rightarrow> InlineIoUringAofWriter \<Rightarrow> InlineIoUringAofWriter" where
  "timed_flush now w =
     (if iu_aof_buf w \<noteq> [] \<and> iu_flush_interval_ms w \<le> now - iu_last_flush w then snd (FlushBuffer w) else w)"

definition timed_sync :: "nat \<Rightarrow> InlineIoUringAofWriter \<Rightarrow> InlineIoUringAofWriter" where
  "timed_sync now w =
     (if iu_fsync w = kEverySec \<and> iu_dirty w \<and> 1000 \<le> now - iu_last_fsync w
      then let w1 = snd (flush_if_any w);
               w2 = (if iu_pending w1 = [] then w1 else snd (DrainPending 50 w1))
           in if iu_dirty w2
              then case Uring_SyncFile w2 of (ok, w3) \<Rightarrow> if ok then w3 else w3\<lparr>iu_io_failed := True\<rparr>
              else w2
      else w)"

definition Uring_Poll :: "InlineIoUringAofWriter \<Rightarrow> InlineIoUringAofWriter" where
  "Uring_Poll w =
     (if iu_stopped w \<or> iu_io_failed w \<or> \<not> iu_ring_inited w then w
      else case steady_now (PeekCompletions w) of (now, w1) \<Rightarrow> timed_sync now (timed_flush now w1))"

text \<open>The constructor, and \<^verbatim>\<open>Init\<close> with what the system answers; None: the next kind of writer is tried.\<close>

record uring_init =
  ui_create_directories :: bool
  ui_open :: bool
  ui_lseek :: bool
  ui_queue_init :: bool

definition Uring_new :: "bytes \<Rightarrow> AofFsyncPolicy \<Rightarrow> int \<Rightarrow> nat \<Rightarrow> InlineIoUringAofWriter" where
  "Uring_new disk fsync flush_interval_ms now =
     \<lparr>iu_fsync = fsync, iu_flush_interval_ms = (if flush_interval_ms < 1 then 1000 else nat flush_interval_ms),
      iu_fd = False, iu_aof_offset = 0, iu_ring_inited = False, iu_aof_buf = [], iu_pending = [], iu_next_user_data = 1,
      iu_dirty = False, iu_io_failed = False, iu_stopped = False, iu_last_flush = now, iu_last_fsync = now,
      iu_sqes = [], iu_submits = [], iu_waits = [], iu_cqes = [], iu_syncs = [], iu_clock = [],
      iu_file = disk, iu_durable = length disk, iu_stale = [], iu_log = [], iu_sent = [], iu_seen = []\<rparr>"

definition Uring_Init :: "uring_init \<Rightarrow> InlineIoUringAofWriter \<Rightarrow> bool \<times> InlineIoUringAofWriter" where
  "Uring_Init ui w =
     (if \<not> ui_create_directories ui then (False, w)
      else if \<not> ui_open ui then (False, w)
      else let w1 = w\<lparr>iu_fd := True\<rparr>
           in if \<not> ui_lseek ui then (False, w1\<lparr>iu_fd := False\<rparr>)
              else let w2 = w1\<lparr>iu_aof_offset := length (iu_file w1)\<rparr>
                   in if \<not> ui_queue_init ui then (False, w2\<lparr>iu_fd := False\<rparr>)
                      else (True, w2\<lparr>iu_ring_inited := True\<rparr>))"

definition TryMakeIoUringAofWriter ::
  "uring_init \<Rightarrow> bytes \<Rightarrow> AofFsyncPolicy \<Rightarrow> int \<Rightarrow> nat \<Rightarrow> InlineIoUringAofWriter option" where
  "TryMakeIoUringAofWriter ui disk fsync flush_interval_ms now =
     (case Uring_Init ui (Uring_new disk fsync flush_interval_ms now) of (ok, w) \<Rightarrow> if ok then Some w else None)"

definition InlineIoUringAofWriter_table :: "InlineIoUringAofWriter AofWriter" where
  "InlineIoUringAofWriter_table =
     \<lparr>aw_Enqueue = Uring_Enqueue, aw_Flush = Uring_Flush, aw_Stop = Uring_Stop, aw_failed = Uring_failed, aw_Poll = Uring_Poll\<rparr>"

end
