(* ===== verification/IoUringRuns.thy ===== *)
theory IoUringRuns
  imports IoUring "HOL-Library.Sublist"
begin

text \<open>
  What holds in every run of the inline AOF writer, whatever the kernel answers, and what its default policy and
  its strictest policy give a client.
\<close>

section \<open>The shape shared by the loops\<close>

text \<open>New answers of the kernel.\<close>

definition uring_answers ::
  "bool list \<Rightarrow> bool list \<Rightarrow> bool list \<Rightarrow> (nat \<times> int) list list \<Rightarrow> bool list \<Rightarrow> nat list
     \<Rightarrow> InlineIoUringAofWriter \<Rightarrow> InlineIoUringAofWriter" where
  "uring_answers sqes submits waits cqes syncs clock w =
     w\<lparr>iu_sqes := sqes, iu_submits := submits, iu_waits := waits, iu_cqes := cqes, iu_syncs := syncs, iu_clock := clock\<rparr>"

lemma get_sqe_answers: "\<exists>a b c d e f. snd (io_uring_get_sqe w) = uring_answers a b c d e f w"
  and submit_answers: "\<exists>a b c d e f. snd (io_uring_submit w) = uring_answers a b c d e f w"
  and wait_answers: "\<exists>a b c d e f. snd (io_uring_wait_cqe w) = uring_answers a b c d e f w"
  and now_answers: "\<exists>a b c d e f. snd (steady_now w) = uring_answers a b c d e f w"
  and cqes_answers: "\<exists>a b c d e f. w\<lparr>iu_cqes := css\<rparr> = uring_answers a b c d e f w"
proof -
  have self: "w = uring_answers (iu_sqes w) (iu_submits w) (iu_waits w) (iu_cqes w) (iu_syncs w) (iu_clock w) w"
    by (simp add: uring_answers_def)
  have up: "w\<lparr>iu_sqes := x\<rparr> = uring_answers x (iu_submits w) (iu_waits w) (iu_cqes w) (iu_syncs w) (iu_clock w) w"
    "w\<lparr>iu_submits := x\<rparr> = uring_answers (iu_sqes w) x (iu_waits w) (iu_cqes w) (iu_syncs w) (iu_clock w) w"
    "w\<lparr>iu_waits := x\<rparr> = uring_answers (iu_sqes w) (iu_submits w) x (iu_cqes w) (iu_syncs w) (iu_clock w) w"
    "w\<lparr>iu_clock := y\<rparr> = uring_answers (iu_sqes w) (iu_submits w) (iu_waits w) (iu_cqes w) (iu_syncs w) y w" for x y
    by (simp_all add: uring_answers_def)
  show "\<exists>a b c d e f. snd (io_uring_get_sqe w) = uring_answers a b c d e f w"
    unfolding io_uring_get_sqe_def using self up(1) by (cases "iu_sqes w") (simp, blast, simp, blast)
  show "\<exists>a b c d e f. snd (io_uring_submit w) = uring_answers a b c d e f w"
    unfolding io_uring_submit_def using self up(2) by (cases "iu_submits w") (simp, blast, simp, blast)
  show "\<exists>a b c d e f. snd (io_uring_wait_cqe w) = uring_answers a b c d e f w"
    unfolding io_uring_wait_cqe_def using self up(3) by (cases "iu_waits w") (simp, blast, simp, blast)
  show "\<exists>a b c d e f. snd (steady_now w) = uring_answers a b c d e f w"
    unfolding steady_now_def using self up(4) by (cases "iu_clock w") (simp, blast, simp, blast)
  have "w\<lparr>iu_cqes := css\<rparr> = uring_answers (iu_sqes w) (iu_submits w) (iu_waits w) css (iu_syncs w) (iu_clock w) w"
    by (simp add: uring_answers_def)
  then show "\<exists>a b c d e f. w\<lparr>iu_cqes := css\<rparr> = uring_answers a b c d e f w" by blast
qed

text \<open>
  A relation between the states before and after that every single access to the ring, the file and the clock
  respects, every operation that only makes such accesses respects too.
\<close>

locale uring_ring =
  fixes R :: "InlineIoUringAofWriter \<Rightarrow> InlineIoUringAofWriter \<Rightarrow> bool"
  assumes R_refl: "R w w"
    and R_trans: "R w w1 \<Longrightarrow> R w1 w2 \<Longrightarrow> R w w2"
    and R_ring: "R w w1 \<Longrightarrow> iu_ring_inited w1 = iu_ring_inited w"
    and R_answers: "R w (uring_answers sqes submits waits cqes syncs clock w)"
    and R_cqe: "iu_ring_inited w \<Longrightarrow> R w (on_cqe x w)"
    and R_sync: "R w (snd (Uring_SyncFile w))"
    and R_failed: "R w (w\<lparr>iu_io_failed := True\<rparr>)"
begin

lemma R_calls:
  "R w (snd (io_uring_get_sqe w))" "R w (snd (io_uring_submit w))" "R w (snd (io_uring_wait_cqe w))"
  "R w (snd (steady_now w))" "R w (w\<lparr>iu_cqes := css\<rparr>)"
  by (metis R_answers get_sqe_answers, metis R_answers submit_answers, metis R_answers wait_answers,
      metis R_answers now_answers, metis R_answers cqes_answers)

lemma R_fold: "iu_ring_inited w \<Longrightarrow> R w (fold on_cqe cs w)"
proof (induction cs arbitrary: w)
  case (Cons c cs)
  have a: "R w (on_cqe c w)" using Cons.prems by (rule R_cqe)
  then have "iu_ring_inited (on_cqe c w)" using R_ring Cons.prems by blast
  then have "R (on_cqe c w) (fold on_cqe cs (on_cqe c w))" by (rule Cons.IH)
  with a show ?case by (auto intro: R_trans)
qed (simp add: R_refl)

lemma R_peek: "R w (PeekCompletions w)"
proof (cases "iu_ring_inited w")
  case True
  then have "R (w\<lparr>iu_cqes := css\<rparr>) (fold on_cqe cs (w\<lparr>iu_cqes := css\<rparr>))" for cs css by (intro R_fold) simp
  then have "R w (fold on_cqe cs (w\<lparr>iu_cqes := css\<rparr>))" for cs css using R_calls(5) R_trans by blast
  then show ?thesis by (auto simp: PeekCompletions_def R_refl split: list.split)
qed (simp add: PeekCompletions_def R_refl)

lemma R_wait: "R w (snd (wait_for_slot n w))"
proof (induction n arbitrary: w)
  case (Suc n)
  let ?w1 = "PeekCompletions w"
  obtain ok w2 where c: "io_uring_wait_cqe ?w1 = (ok, w2)" by fastforce
  have a: "R w ?w1" "R w w2" using R_peek R_trans R_calls(3) [of ?w1] c by auto
  then have b: "R w (PeekCompletions w2)" using R_peek R_trans by blast
  then have "R w (snd (wait_for_slot n (PeekCompletions w2)))" using Suc R_trans by blast
  with a b c show ?case by (simp add: Let_def)
qed (simp add: R_refl)

lemma R_WaitForPendingSlot: "R w (snd (WaitForPendingSlot w))"
  by (simp add: WaitForPendingSlot_def R_wait)

lemma R_drain: "R w (snd (DrainPending n w))"
proof (induction n arbitrary: w)
  case (Suc n)
  let ?w1 = "PeekCompletions w"
  obtain ok w2 where c: "io_uring_wait_cqe ?w1 = (ok, w2)" by fastforce
  have a: "R w ?w1" "R w w2" using R_peek R_trans R_calls(3) [of ?w1] c by auto
  then have "R w (PeekCompletions w2)" using R_peek R_trans by blast
  then have "R w (snd (DrainPending n (PeekCompletions w2)))" using Suc R_trans by blast
  with a c show ?case by (simp add: Let_def R_refl)
qed (simp add: R_refl)

lemma R_obtain: "R w (snd (obtain_sqe w))"
proof -
  obtain a1 w1 where 1: "io_uring_get_sqe w = (a1, w1)" by fastforce
  obtain a2 w2 where 2: "io_uring_submit w1 = (a2, w2)" by fastforce
  obtain a3 w3 where 3: "io_uring_get_sqe w2 = (a3, w3)" by fastforce
  obtain a4 w4 where 4: "WaitForPendingSlot w3 = (a4, w4)" by fastforce
  obtain a5 w5 where 5: "io_uring_get_sqe w4 = (a5, w5)" by fastforce
  have r: "R w w1" "R w1 w2" "R w2 w3" "R w3 w4" "R w4 w5"
    using R_calls(1) [of w] R_calls(2) [of w1] R_calls(1) [of w2] R_WaitForPendingSlot [of w3] R_calls(1) [of w4] 1 2 3 4 5
    by simp_all
  then have "R w w2" "R w w3" "R w w4" "R w w5" by (blast intro: R_trans)+
  with r(1) 1 2 3 4 5 show ?thesis by (simp add: obtain_sqe_def split: bool.split)
qed

end

text \<open>What those accesses leave alone.\<close>

definition same_buffer :: "InlineIoUringAofWriter \<Rightarrow> InlineIoUringAofWriter \<Rightarrow> bool" where
  "same_buffer w w' \<longleftrightarrow> iu_fsync w' = iu_fsync w \<and> iu_fd w' = iu_fd w \<and> iu_ring_inited w' = iu_ring_inited w
     \<and> iu_stopped w' = iu_stopped w \<and> (iu_io_failed w \<longrightarrow> iu_io_failed w') \<and> iu_aof_buf w' = iu_aof_buf w
     \<and> iu_log w' = iu_log w \<and> iu_sent w' = iu_sent w \<and> iu_aof_offset w' = iu_aof_offset w"

lemma same_buffer_calls:
  "same_buffer w (snd (io_uring_get_sqe w))" "same_buffer w (snd (io_uring_submit w))"
  by (simp_all add: same_buffer_def io_uring_get_sqe_def io_uring_submit_def split: list.split)

lemma same_buffer_trans: "same_buffer w w1 \<Longrightarrow> same_buffer w1 w2 \<Longrightarrow> same_buffer w w2"
  by (simp add: same_buffer_def)

lemma resubmit_same: "same_buffer w (resubmit i pw w)"
proof -
  obtain a1 w1 where 1: "io_uring_get_sqe w = (a1, w1)" by fastforce
  obtain a2 w2 where 2: "io_uring_submit w1 = (a2, w2)" by fastforce
  obtain a3 w3 where 3: "io_uring_get_sqe w2 = (a3, w3)" by fastforce
  obtain a4 w4 where 4: "io_uring_submit w1 = (a4, w4)" by fastforce
  obtain a5 w5 where 5: "io_uring_submit w3 = (a5, w5)" by fastforce
  have r: "same_buffer w w1" "same_buffer w1 w2" "same_buffer w2 w3" "same_buffer w1 w4" "same_buffer w3 w5"
    using same_buffer_calls(1) [of w] same_buffer_calls(2) [of w1] same_buffer_calls(1) [of w2] same_buffer_calls(2) [of w3]
      1 2 3 4 5 by simp_all
  then have "same_buffer w w3" "same_buffer w w4" "same_buffer w w5" by (blast intro: same_buffer_trans)+
  with 1 2 3 4 5 show ?thesis
    by (auto simp: resubmit_def RemovePending_def same_buffer_def)
qed

lemma on_cqe_same: "same_buffer w (on_cqe c w)"
proof -
  obtain ud res where c: "c = (ud, res)" by fastforce
  show ?thesis
  proof (cases "FindPending ud (iu_pending w)")
    case None
    then show ?thesis by (simp add: on_cqe_def c stale_landed_def landed_def same_buffer_def split: option.split)
  next
    case (Some i)
    have "same_buffer w' w \<Longrightarrow> same_buffer w' (resubmit j pw w)" for w' w j pw using resubmit_same same_buffer_trans by blast
    then show ?thesis using Some
      by (auto simp: on_cqe_def c landed_def Let_def RemovePending_def same_buffer_def)
  qed
qed

lemma Uring_SyncFile_same: "same_buffer w (snd (Uring_SyncFile w))"
  by (simp add: Uring_SyncFile_def fdatasync_def steady_now_def same_buffer_def split: list.split)

interpretation same: uring_ring same_buffer
proof
  show "same_buffer w w1 \<Longrightarrow> same_buffer w1 w2 \<Longrightarrow> same_buffer w w2" for w w1 w2 by (rule same_buffer_trans)
qed (simp_all add: on_cqe_same Uring_SyncFile_same, simp_all add: same_buffer_def uring_answers_def)

text \<open>Operations that also send the buffer.\<close>

locale uring_rel = uring_ring +
  assumes R_send: "iu_ring_inited w \<Longrightarrow> iu_aof_buf w \<noteq> [] \<Longrightarrow> R w (snd (send_buffer w))"
begin

lemma R_FlushBuffer: "R w (snd (FlushBuffer w))"
proof (cases "\<not> iu_fd w \<or> \<not> iu_ring_inited w \<or> iu_aof_buf w = [] \<or> iu_io_failed w")
  case False
  let ?p = "if kMaxPending \<le> length (iu_pending w) then WaitForPendingSlot w else (True, w)"
  obtain ok w1 where p: "?p = (ok, w1)" by fastforce
  obtain got w2 where q: "obtain_sqe w1 = (got, w2)" by fastforce
  have "snd ?p = w1" using p by simp
  then have 1: "R w w1" "same_buffer w w1"
    using R_WaitForPendingSlot [of w] same.R_WaitForPendingSlot [of w] R_refl same.R_refl by (auto split: if_splits)
  then have 2: "R w w2" "same_buffer w w2"
    using R_obtain [of w1] same.R_obtain [of w1] q R_trans same_buffer_trans by (metis snd_conv)+
  then have "R w2 (snd (send_buffer w2))" using False by (intro R_send) (auto simp: same_buffer_def)
  with 2(1) have "R w (snd (send_buffer w2))" by (rule R_trans)
  with 1 2 False p q show ?thesis by (simp add: FlushBuffer_def del: if_split)
qed (auto simp: FlushBuffer_def R_refl)

lemma R_flush_if_any: "R w (snd (flush_if_any w))"
  by (simp add: flush_if_any_def R_refl R_FlushBuffer)

lemma R_make_room: "R w (snd (make_room n w))"
proof -
  obtain a1 w1 where 1: "FlushBuffer w = (a1, w1)" by fastforce
  obtain a2 w2 where 2: "WaitForPendingSlot w1 = (a2, w2)" by fastforce
  obtain a3 w3 where 3: "FlushBuffer w2 = (a3, w3)" by fastforce
  have r: "R w w1" "R w1 w2" "R w2 w3"
    using R_FlushBuffer [of w] R_WaitForPendingSlot [of w1] R_FlushBuffer [of w2] 1 2 3 by simp_all
  then have "R w w2" "R w w3" by (blast intro: R_trans)+
  with r(1) 1 2 3 show ?thesis by (simp add: make_room_def R_refl split: bool.split)
qed

lemma R_Flush: "R w (snd (Uring_Flush w))"
proof -
  obtain a1 w1 where 1: "flush_if_any w = (a1, w1)" by fastforce
  obtain a2 w2 where 2: "DrainPending 200 w1 = (a2, w2)" by fastforce
  obtain a3 w3 where 3: "Uring_SyncFile w2 = (a3, w3)" by fastforce
  have r: "R w w1" "R w1 w2" "R w2 w3" using R_flush_if_any [of w] R_drain [of w1 200] R_sync [of w2] 1 2 3 by simp_all
  then have "R w w2" "R w w3" by (blast intro: R_trans)+
  moreover from this have "R w (w2\<lparr>iu_io_failed := True\<rparr>)" "R w (w3\<lparr>iu_io_failed := True\<rparr>)" by (blast intro: R_trans R_failed)+
  ultimately show ?thesis using r(1) 1 2 3 by (simp add: Uring_Flush_def R_refl split: bool.split)
qed

lemma R_timed_sync: "R w (timed_sync now w)"
proof -
  obtain a1 w1 where 1: "flush_if_any w = (a1, w1)" by fastforce
  let ?w2 = "if iu_pending w1 = [] then w1 else snd (DrainPending 50 w1)"
  obtain a3 w3 where 3: "Uring_SyncFile ?w2 = (a3, w3)" by fastforce
  have r: "R w w1" "R w1 ?w2" "R ?w2 w3"
    using R_flush_if_any [of w] R_drain [of w1 50] R_sync [of ?w2] 1 3 R_refl by simp_all
  then have "R w ?w2" "R w w3" by (blast intro: R_trans)+
  moreover from this have "R w (w3\<lparr>iu_io_failed := True\<rparr>)" by (blast intro: R_trans R_failed)
  moreover have "timed_sync now w \<in> {w, ?w2, w3, w3\<lparr>iu_io_failed := True\<rparr>}"
    unfolding timed_sync_def Let_def 1 snd_conv 3 prod.case by (simp only: insert_iff split: if_split) blast
  ultimately show ?thesis using R_refl [of w] by (metis insert_iff empty_iff)
qed

lemma R_Poll: "R w (Uring_Poll w)"
proof -
  obtain now w1 where 1: "steady_now (PeekCompletions w) = (now, w1)" by fastforce
  have "R w w1" using R_peek [of w] R_calls(4) [of "PeekCompletions w"] 1 R_trans by (metis snd_conv)
  moreover have "R w1 (timed_flush now w1)" by (simp add: timed_flush_def R_refl R_FlushBuffer)
  moreover have "R (timed_flush now w1) (timed_sync now (timed_flush now w1))" by (rule R_timed_sync)
  ultimately have "R w (timed_sync now (timed_flush now w1))" by (blast intro: R_trans)
  with 1 show ?thesis by (simp add: Uring_Poll_def R_refl)
qed

end

section \<open>What is in the file\<close>

text \<open>The requests lie one behind the other, from an offset on.\<close>

fun laid_out :: "nat \<Rightarrow> (nat \<times> bytes) list \<Rightarrow> bool" where
  "laid_out b [] \<longleftrightarrow> True"
| "laid_out b ((off, data) # xs) \<longleftrightarrow> off = b \<and> laid_out (b + length data) xs"

lemma laid_out_append:
  "laid_out b (xs @ [(off, data)]) \<longleftrightarrow> laid_out b xs \<and> off = b + length (concat (map snd xs))"
  by (induction b xs rule: laid_out.induct) auto

text \<open>Every completion so far was that of the oldest write, and for all of it. The kernel promises neither.\<close>

definition tidy :: "(nat option \<times> int \<times> nat) list \<Rightarrow> bool" where
  "tidy seen \<longleftrightarrow> (\<forall>(i, res, rem) \<in> set seen. i = Some 0 \<and> res = int rem)"

lemma tidy_append [simp]: "tidy (xs @ [(i, res, rem)]) \<longleftrightarrow> tidy xs \<and> i = Some 0 \<and> res = int rem"
  by (auto simp: tidy_def)

abbreviation sent_data :: "InlineIoUringAofWriter \<Rightarrow> bytes list" where
  "sent_data w \<equiv> map snd (iu_sent w)"

definition requests_ok :: "bytes \<Rightarrow> InlineIoUringAofWriter \<Rightarrow> bool" where
  "requests_ok disk w \<longleftrightarrow> concat (sent_data w) @ iu_aof_buf w = iu_log w \<and> laid_out (length disk) (iu_sent w)
     \<and> iu_aof_offset w = length disk + length (concat (sent_data w))"

definition flight_ok :: "InlineIoUringAofWriter \<Rightarrow> bool" where
  "flight_ok w \<longleftrightarrow> (\<forall>p \<in> set (iu_pending w). pw_bytes_total p = length (pw_buf p) \<and> pw_bytes_written p < pw_bytes_total p)"

definition tidy_file :: "bytes \<Rightarrow> InlineIoUringAofWriter \<Rightarrow> bool" where
  "tidy_file disk w \<longleftrightarrow> (\<exists>k \<le> length (iu_sent w). iu_file w = disk @ concat (take k (sent_data w))
     \<and> (iu_ring_inited w \<longrightarrow> map pw_buf (iu_pending w) = drop k (sent_data w) \<and> (\<forall>p \<in> set (iu_pending w). pw_bytes_written p = 0))
     \<and> (\<not> iu_dirty w \<longrightarrow> iu_durable w = length (iu_file w)))"

definition uring_inv :: "bytes \<Rightarrow> InlineIoUringAofWriter \<Rightarrow> bool" where
  "uring_inv disk w \<longleftrightarrow> requests_ok disk w \<and> flight_ok w \<and> (tidy (iu_seen w) \<longrightarrow> tidy_file disk w)"

lemma FindPending_Some: "FindPending ud ps = Some i \<Longrightarrow> i < length ps"
  by (induction ps arbitrary: i) (auto split: if_splits)

lemma requests_ok_same: "same_buffer w w' \<Longrightarrow> requests_ok disk w' = requests_ok disk w"
  by (simp add: same_buffer_def requests_ok_def)

text \<open>What stays in flight after a completion was so before, or is the rest of a write that was cut short.\<close>

lemma RemovePending_subset: "set (iu_pending (RemovePending i w)) \<subseteq> set (iu_pending w)"
  by (auto simp: RemovePending_def dest: in_set_takeD in_set_dropD)

lemma resubmit_pending: "set (iu_pending (resubmit i pw w)) \<subseteq> set (iu_pending w)"
  using RemovePending_subset
  by (auto simp: resubmit_def io_uring_get_sqe_def io_uring_submit_def RemovePending_def split: list.splits if_splits
      dest: in_set_takeD in_set_dropD)

lemma on_cqe_flight:
  assumes "flight_ok w"
  shows "flight_ok (on_cqe x w)"
proof -
  obtain ud res where x: "x = (ud, res)" by fastforce
  show ?thesis
  proof (cases "FindPending ud (iu_pending w)")
    case None
    then show ?thesis using assms by (auto simp: on_cqe_def x stale_landed_def landed_def flight_ok_def split: option.split)
  next
    case (Some i)
    let ?pw = "iu_pending w ! i"
    let ?pw1 = "?pw\<lparr>pw_bytes_written := pw_bytes_written ?pw + nat res\<rparr>"
    have i: "?pw \<in> set (iu_pending w)" using FindPending_Some [OF Some] by simp
    let ?w2 = "landed (drop (pw_bytes_written ?pw) (pw_buf ?pw)) res
       (w\<lparr>iu_seen := iu_seen w @ [(Some i, res, pw_bytes_total ?pw - pw_bytes_written ?pw)]\<rparr>)"
    have "set (iu_pending (resubmit i ?pw1 (?w2\<lparr>iu_pending := (iu_pending ?w2)[i := ?pw1]\<rparr>))) \<subseteq> insert ?pw1 (set (iu_pending w))"
      using resubmit_pending [of i ?pw1 "?w2\<lparr>iu_pending := (iu_pending ?w2)[i := ?pw1]\<rparr>"] set_update_subset_insert
      by (fastforce simp: landed_def)
    moreover have "set (iu_pending (RemovePending i (?w2\<lparr>iu_io_failed := True\<rparr>))) \<subseteq> set (iu_pending w)"
      "set (iu_pending (RemovePending i ?w2)) \<subseteq> set (iu_pending w)"
      "set (iu_pending (RemovePending i (?w2\<lparr>iu_dirty := True\<rparr>))) \<subseteq> set (iu_pending w)"
      using RemovePending_subset [of i "?w2\<lparr>iu_io_failed := True\<rparr>"] RemovePending_subset [of i ?w2]
        RemovePending_subset [of i "?w2\<lparr>iu_dirty := True\<rparr>"] by (simp_all add: landed_def)
    ultimately show ?thesis
      using assms i unfolding flight_ok_def on_cqe_def x prod.case Some option.case Let_def
      by (auto 0 3 split: if_splits)
  qed
qed

lemma resubmit_seen: "iu_seen (resubmit i pw w) = iu_seen w"
  by (simp add: resubmit_def io_uring_get_sqe_def io_uring_submit_def RemovePending_def split: list.split)

lemma on_cqe_seen:
  "iu_seen (on_cqe (ud, res) w) =
     iu_seen w @ [case FindPending ud (iu_pending w) of
                    None \<Rightarrow> (None, res, 0)
                  | Some i \<Rightarrow> (Some i, res, pw_bytes_total (iu_pending w ! i) - pw_bytes_written (iu_pending w ! i))]"
  by (simp add: on_cqe_def stale_landed_def landed_def resubmit_seen RemovePending_def Let_def split: option.split)

lemma on_cqe_tidy:
  assumes "flight_ok w" and "tidy (iu_seen w) \<longrightarrow> tidy_file disk w" and "iu_ring_inited w"
  shows "tidy (iu_seen (on_cqe x w)) \<longrightarrow> tidy_file disk (on_cqe x w)"
proof
  assume t: "tidy (iu_seen (on_cqe x w))"
  obtain ud res where x: "x = (ud, res)" by fastforce
  from t obtain i where i: "FindPending ud (iu_pending w) = Some i" by (auto simp: x on_cqe_seen split: option.splits)
  with t have w: "tidy (iu_seen w)" "i = 0" and res: "res = int (pw_bytes_total (iu_pending w ! i) - pw_bytes_written (iu_pending w ! i))"
    by (auto simp: x on_cqe_seen)
  from i obtain p ps where p: "iu_pending w = p # ps" by (cases "iu_pending w") auto
  from w(1) assms(2,3) obtain k where k: "k \<le> length (iu_sent w)" "iu_file w = disk @ concat (take k (sent_data w))"
    "map pw_buf (iu_pending w) = drop k (sent_data w)" "\<forall>p \<in> set (iu_pending w). pw_bytes_written p = 0"
    by (auto simp: tidy_file_def)
  have r: "res = int (length (pw_buf p))" "0 < length (pw_buf p)" "pw_bytes_written p = 0" "pw_bytes_total p = length (pw_buf p)"
    using res w(2) assms(1) k(4) by (auto simp: flight_ok_def p)
  have "k < length (iu_sent w)"
  proof (rule ccontr)
    assume "\<not> k < length (iu_sent w)"
    then have "drop k (sent_data w) = []" by simp
    with k(3) p show False by simp
  qed
  then have d: "drop k (sent_data w) = sent_data w ! k # drop (Suc k) (sent_data w)" "take (Suc k) (sent_data w) = take k (sent_data w) @ [sent_data w ! k]"
    using Cons_nth_drop_Suc [of k "sent_data w"] by (simp_all add: take_Suc_conv_app_nth)
  with k(3) p have pk: "pw_buf p = sent_data w ! k" "map pw_buf ps = drop (Suc k) (sent_data w)" by auto
  have c: "on_cqe x w = w\<lparr>iu_seen := iu_seen w @ [(Some 0, res, length (pw_buf p))], iu_file := iu_file w @ pw_buf p,
      iu_dirty := True, iu_pending := ps\<rparr>"
    unfolding x on_cqe_def prod.case i option.case Let_def using r w(2) p
    by (simp add: landed_def RemovePending_def)
  show "tidy_file disk (on_cqe x w)"
    unfolding tidy_file_def c using k d(2) pk p \<open>k < length (iu_sent w)\<close>
    by (intro exI [of _ "Suc k"]) simp
qed

lemma on_cqe_inv: "uring_inv disk w \<Longrightarrow> iu_ring_inited w \<Longrightarrow> uring_inv disk (on_cqe x w)"
  using on_cqe_flight on_cqe_tidy requests_ok_same [OF on_cqe_same] unfolding uring_inv_def by blast

lemma Uring_SyncFile_cases:
  obtains (none) "Uring_SyncFile w = (True, w)" "iu_fsync w = kNo \<or> \<not> iu_fd w \<or> \<not> iu_dirty w"
  | (fails) ss where "Uring_SyncFile w = (False, w\<lparr>iu_syncs := ss\<rparr>)"
  | (done_) ss t ts where "Uring_SyncFile w = (True, w\<lparr>iu_syncs := ss, iu_durable := length (iu_file w), iu_clock := ts,
      iu_dirty := False, iu_last_fsync := t\<rparr>)"
proof (cases "iu_fsync w = kNo \<or> \<not> iu_fd w \<or> \<not> iu_dirty w")
  case True
  then show ?thesis by (intro none) (auto simp: Uring_SyncFile_def)
next
  case go: False
  show ?thesis
  proof (cases "iu_syncs w")
    case Nil
    have "w = w\<lparr>iu_syncs := []\<rparr>" using Nil by simp
    with go Nil show ?thesis by (intro fails [of "[]"]) (simp add: Uring_SyncFile_def fdatasync_def)
  next
    case (Cons a ss)
    have c: "steady_now v = (fst (steady_now v), v\<lparr>iu_clock := tl (iu_clock v)\<rparr>)" for v
      by (simp add: steady_now_def split: list.split)
    show ?thesis
    proof (cases a)
      case True
      let ?v = "w\<lparr>iu_syncs := ss, iu_durable := length (iu_file w)\<rparr>"
      have "Uring_SyncFile w = (case steady_now ?v of (t, w2) \<Rightarrow> (True, w2\<lparr>iu_dirty := False, iu_last_fsync := t\<rparr>))"
        using go Cons True by (auto simp: Uring_SyncFile_def fdatasync_def)
      then show ?thesis using done_ [where ss = ss and ts = "tl (iu_clock w)" and t = "fst (steady_now ?v)"] by (subst (asm) c) simp
    next
      case False
      with go Cons show ?thesis by (intro fails [of ss]) (simp add: Uring_SyncFile_def fdatasync_def)
    qed
  qed
qed

lemma Uring_SyncFile_inv:
  assumes "uring_inv disk w"
  shows "uring_inv disk (snd (Uring_SyncFile w))"
proof -
  have r: "requests_ok disk (snd (Uring_SyncFile w))"
    using assms requests_ok_same [OF Uring_SyncFile_same] by (simp add: uring_inv_def)
  show ?thesis
    using assms r by (cases w rule: Uring_SyncFile_cases) (auto simp: uring_inv_def flight_ok_def tidy_file_def)
qed

text \<open>The outcome of sending the buffer.\<close>

lemma send_buffer_cases:
  fixes w
  assumes "iu_aof_buf w \<noteq> []"
  obtains (refused) ss st where "send_buffer w = (False, w\<lparr>iu_submits := ss, iu_next_user_data := (iu_next_user_data w + 1) mod 2 ^ 64, iu_stale := st\<rparr>)"
  | (sent) ss t ts where "send_buffer w = (True, w\<lparr>iu_aof_buf := [], iu_next_user_data := (iu_next_user_data w + 1) mod 2 ^ 64,
      iu_aof_offset := iu_aof_offset w + length (iu_aof_buf w),
      iu_pending := iu_pending w @ [\<lparr>pw_buf = iu_aof_buf w, pw_bytes_total = length (iu_aof_buf w), pw_bytes_written = 0,
        pw_offset = iu_aof_offset w, pw_user_data = iu_next_user_data w\<rparr>],
      iu_submits := ss, iu_clock := ts, iu_last_flush := t, iu_sent := iu_sent w @ [(iu_aof_offset w, iu_aof_buf w)]\<rparr>)"
proof (cases "iu_submits w")
  case Nil
  have "send_buffer w = (False, w\<lparr>iu_submits := [], iu_next_user_data := (iu_next_user_data w + 1) mod 2 ^ 64,
      iu_stale := iu_stale w @ [(iu_next_user_data w, iu_aof_buf w)]\<rparr>)"
    using Nil by (simp add: send_buffer_def io_uring_submit_def Let_def)
  then show ?thesis by (rule refused)
next
  case (Cons a ss)
  show ?thesis
  proof (cases a)
    case False
    with Cons have "send_buffer w = (False, w\<lparr>iu_submits := ss, iu_next_user_data := (iu_next_user_data w + 1) mod 2 ^ 64,
        iu_stale := iu_stale w @ [(iu_next_user_data w, iu_aof_buf w)]\<rparr>)"
      by (simp add: send_buffer_def io_uring_submit_def Let_def)
    then show ?thesis by (rule refused)
  next
    case True
    show ?thesis
      by (cases "iu_clock w") (rule sent [where ss = ss and t = 0 and ts = "[]"] sent [where ss = ss and t = "hd (iu_clock w)" and ts = "tl (iu_clock w)"],
        use Cons True in \<open>simp add: send_buffer_def io_uring_submit_def steady_now_def Let_def\<close>)+
  qed
qed

lemma send_buffer_inv:
  assumes "uring_inv disk w" and "iu_aof_buf w \<noteq> []"
  shows "uring_inv disk (snd (send_buffer w))"
  using assms(2)
proof (cases w rule: send_buffer_cases)
  case (refused ss st)
  with assms(1) show ?thesis by (auto simp: uring_inv_def requests_ok_def flight_ok_def tidy_file_def)
next
  case (sent ss t ts)
  have "concat (sent_data w) @ iu_aof_buf w = iu_log w" using assms(1) by (simp add: uring_inv_def requests_ok_def)
  then have "length (concat (sent_data w)) + length (iu_aof_buf w) = length (iu_log w)" by (metis length_append)
  then have "requests_ok disk (snd (send_buffer w))"
    using assms(1) unfolding sent by (simp add: uring_inv_def requests_ok_def laid_out_append)
  moreover have "flight_ok (snd (send_buffer w))" using assms unfolding sent by (auto simp: uring_inv_def flight_ok_def)
  moreover have "tidy_file disk (snd (send_buffer w))" if "tidy (iu_seen w)"
  proof -
    from assms(1) that obtain k where "k \<le> length (iu_sent w)" "iu_file w = disk @ concat (take k (sent_data w))"
      "iu_ring_inited w \<longrightarrow> map pw_buf (iu_pending w) = drop k (sent_data w) \<and> (\<forall>p \<in> set (iu_pending w). pw_bytes_written p = 0)"
      "\<not> iu_dirty w \<longrightarrow> iu_durable w = length (iu_file w)" by (auto simp: uring_inv_def tidy_file_def)
    then show ?thesis unfolding sent by (auto simp: tidy_file_def intro!: exI [of _ k])
  qed
  moreover have "iu_seen (snd (send_buffer w)) = iu_seen w" unfolding sent by simp
  ultimately show ?thesis by (simp add: uring_inv_def)
qed

text \<open>Every operation that puts nothing into the buffer keeps the log and the invariant.\<close>

definition keeps_log :: "bytes \<Rightarrow> InlineIoUringAofWriter \<Rightarrow> InlineIoUringAofWriter \<Rightarrow> bool" where
  "keeps_log disk w w' \<longleftrightarrow> iu_fsync w' = iu_fsync w \<and> iu_fd w' = iu_fd w \<and> iu_ring_inited w' = iu_ring_inited w
     \<and> iu_stopped w' = iu_stopped w \<and> (iu_io_failed w \<longrightarrow> iu_io_failed w') \<and> iu_log w' = iu_log w
     \<and> (uring_inv disk w \<longrightarrow> uring_inv disk w')"

lemma kept_same: "same_buffer w w' \<Longrightarrow> (uring_inv disk w \<Longrightarrow> uring_inv disk w') \<Longrightarrow> keeps_log disk w w'"
  by (simp add: keeps_log_def same_buffer_def)

lemma uring_inv_answers [simp]: "uring_inv disk (uring_answers a b c d e f w) = uring_inv disk w"
  by (simp add: uring_answers_def uring_inv_def requests_ok_def flight_ok_def tidy_file_def)

lemma send_buffer_kept:
  assumes "iu_aof_buf w \<noteq> []"
  shows "keeps_log disk w (snd (send_buffer w))"
proof -
  have "uring_inv disk w \<longrightarrow> uring_inv disk (snd (send_buffer w))" using assms by (blast intro: send_buffer_inv)
  with assms show ?thesis by (cases w rule: send_buffer_cases) (simp_all add: keeps_log_def)
qed

interpretation kept: uring_rel "keeps_log disk" for disk
proof
  show "keeps_log disk w w1 \<Longrightarrow> keeps_log disk w1 w2 \<Longrightarrow> keeps_log disk w w2" for w w1 w2 by (simp add: keeps_log_def)
  show "keeps_log disk w (uring_answers sqes submits waits cqes syncs clock w)" for w sqes submits waits cqes syncs clock
    by (simp add: keeps_log_def) (simp add: uring_answers_def)
  show "iu_ring_inited w \<Longrightarrow> keeps_log disk w (on_cqe x w)" for w x by (intro kept_same on_cqe_same on_cqe_inv)
  show "keeps_log disk w (snd (Uring_SyncFile w))" for w by (intro kept_same Uring_SyncFile_same Uring_SyncFile_inv)
  show "keeps_log disk w (w\<lparr>iu_io_failed := True\<rparr>)" for w
    by (auto simp: keeps_log_def uring_inv_def requests_ok_def flight_ok_def tidy_file_def)
  show "iu_aof_buf w \<noteq> [] \<Longrightarrow> keeps_log disk w (snd (send_buffer w))" for w by (rule send_buffer_kept)
qed (simp_all add: keeps_log_def)

text \<open>A frame adds a part of itself to the log, all of it when it is accepted.\<close>

definition logs :: "bytes \<Rightarrow> bytes \<Rightarrow> InlineIoUringAofWriter \<Rightarrow> InlineIoUringAofWriter \<Rightarrow> bool" where
  "logs disk p w w' \<longleftrightarrow> iu_fsync w' = iu_fsync w \<and> iu_fd w' = iu_fd w \<and> iu_ring_inited w' = iu_ring_inited w
     \<and> iu_stopped w' = iu_stopped w \<and> (iu_io_failed w \<longrightarrow> iu_io_failed w') \<and> iu_log w' = iu_log w @ p
     \<and> (uring_inv disk w \<longrightarrow> uring_inv disk w')"

lemma logs_kept: "logs disk [] w w' \<longleftrightarrow> keeps_log disk w w'"
  by (simp add: logs_def keeps_log_def)

lemma logs_trans: "logs disk p w w1 \<Longrightarrow> logs disk q w1 w2 \<Longrightarrow> logs disk (p @ q) w w2"
  by (simp add: logs_def)

lemma logs_then: "logs disk p w w1 \<Longrightarrow> keeps_log disk w1 w2 \<Longrightarrow> logs disk p w w2"
  and kept_then: "keeps_log disk w w1 \<Longrightarrow> logs disk p w1 w2 \<Longrightarrow> logs disk p w w2"
  by (simp_all add: logs_def keeps_log_def)

lemma append_buf_logs: "logs disk p w (append_buf p w)"
  by (auto simp: logs_def append_buf_def uring_inv_def requests_ok_def flight_ok_def tidy_file_def)

lemma flush_pieces_logs:
  "flush_pieces data w = (ok, w') \<Longrightarrow> \<exists>p. prefix p data \<and> logs disk p w w' \<and> (ok \<longrightarrow> p = data)"
proof (induction data w arbitrary: ok w' rule: flush_pieces.induct)
  case (1 data w)
  let ?d = "take kSoftFlush data"
  obtain ok1 w1 where f: "FlushBuffer (append_buf ?d w) = (ok1, w1)" by fastforce
  have l: "logs disk ?d w w1" using append_buf_logs kept.R_FlushBuffer [of disk "append_buf ?d w"] f logs_then by (metis snd_conv)
  consider "data = []" | "data \<noteq> []" "\<not> ok1" | "data \<noteq> []" "ok1" by blast
  then show ?case
  proof cases
    case 1
    with "1.prems" show ?thesis by (simp add: flush_pieces.simps logs_kept kept.R_refl)
  next
    case 2
    with "1.prems" f have "ok = False" "w' = w1" by (simp_all add: flush_pieces.simps [of data])
    with l show ?thesis by (auto intro: take_is_prefix)
  next
    case 3
    with "1.prems" f have "flush_pieces (drop kSoftFlush data) w1 = (ok, w')" by (simp add: flush_pieces.simps [of data])
    with "1.IH" [OF _ f [symmetric]] 3 obtain p where p: "prefix p (drop kSoftFlush data)" "logs disk p w1 w'"
      "ok \<longrightarrow> p = drop kSoftFlush data" by auto
    have "prefix (?d @ p) data" using p(1) by (metis append_take_drop_id same_prefix_prefix)
    with l p show ?thesis by (intro exI [of _ "?d @ p"]) (auto intro: logs_trans)
  qed
qed

lemma Enqueue_logs:
  assumes "Uring_Enqueue w frame = (ok, w')"
  shows "\<exists>p. prefix p frame \<and> logs disk p w w' \<and> (ok \<longrightarrow> p = frame \<and> frame \<noteq> []) \<and> (length frame \<le> kHardCap \<longrightarrow> p = [] \<or> p = frame)"
proof (cases "iu_stopped w \<or> iu_io_failed w \<or> frame = []")
  case True
  with assms have "ok = False" "w' = w" by (auto simp: Uring_Enqueue_def split: if_splits)
  then show ?thesis by (intro exI [of _ "[]"]) (simp add: logs_kept kept.R_refl)
next
  case go: False
  show ?thesis
  proof (cases "kHardCap < length frame")
    case big: True
    obtain ok1 w1 where 1: "flush_if_any w = (ok1, w1)" by fastforce
    obtain ok2 w2 where 2: "flush_pieces frame w1 = (ok2, w2)" by fastforce
    have k: "keeps_log disk w w1" using kept.R_flush_if_any [of disk w] 1 by simp
    obtain p where p: "prefix p frame" "logs disk p w1 w2" "ok2 \<longrightarrow> p = frame" using flush_pieces_logs [OF 2] by blast
    have l: "logs disk p w w2" "logs disk p w (snd (Uring_SyncFile w2))"
      using k p(2) kept.R_sync by (blast intro: kept_then logs_then)+
    show ?thesis
    proof (cases "ok1 \<and> ok2")
      case True
      then have "w' = w2 \<or> w' = snd (Uring_SyncFile w2)" using assms go big 1 2
        by (auto simp: Uring_Enqueue_def split: if_splits)
      with l p True go big show ?thesis by (intro exI [of _ p]) auto
    next
      case False
      then have "\<not> ok \<and> (w' = w1 \<or> w' = w2)" using assms go big 1 2 by (auto simp: Uring_Enqueue_def split: bool.splits)
      with k l(1) p(1) big show ?thesis by (metis Nil_prefix logs_kept not_le)
    qed
  next
    case small: False
    obtain ok1 w1 where 1: "make_room (length frame) w = (ok1, w1)" by fastforce
    let ?w2 = "append_buf frame w1"
    let ?f = "if kSoftFlush \<le> length (iu_aof_buf ?w2) then FlushBuffer ?w2 else (True, ?w2)"
    obtain ok3 w3 where 3: "?f = (ok3, w3)" by fastforce
    obtain ok4 w4 where 4: "flush_if_any w3 = (ok4, w4)" by fastforce
    have k: "keeps_log disk w w1" using kept.R_make_room [of disk w "length frame"] 1 by simp
    have "keeps_log disk ?w2 w3" using 3 kept.R_FlushBuffer [of disk ?w2] kept.R_refl [of disk ?w2] by (auto split: if_splits)
    then have l3: "logs disk frame w w3" using k append_buf_logs by (blast intro: kept_then logs_then)
    then have l4: "logs disk frame w w4" "logs disk frame w (snd (Uring_SyncFile w4))"
      using kept.R_flush_if_any [of disk w3] 4 kept.R_sync by (auto intro: logs_then)
    have e: "Uring_Enqueue w frame = (if \<not> ok1 then (False, w1) else if \<not> ok3 then (False, w3)
        else if iu_fsync w3 \<noteq> kAlways then (True, w3) else if \<not> ok4 then (False, w4) else Uring_SyncFile w4)"
      using go small 1 3 4 by (simp add: Uring_Enqueue_def Let_def split: bool.split)
    have "(w' = w1 \<and> \<not> ok) \<or> w' \<in> {w3, w4, snd (Uring_SyncFile w4)}" using assms unfolding e by (auto split: if_splits)
    then have "\<exists>p. (p = [] \<or> p = frame) \<and> logs disk p w w' \<and> (ok \<longrightarrow> p = frame)"
      using k l3 l4 logs_kept by blast
    with go show ?thesis by (metis Nil_prefix prefix_order.refl)
  qed
qed

section \<open>Runs\<close>

text \<open>The writer as it is made, over what the path holds; then any operations with any answers of the kernel.\<close>

definition uring_start :: "bytes \<Rightarrow> InlineIoUringAofWriter \<Rightarrow> bool" where
  "uring_start disk w \<longleftrightarrow> (\<exists>ui fsync interval now. TryMakeIoUringAofWriter ui disk fsync interval now = Some w)"

inductive uring_step :: "InlineIoUringAofWriter \<Rightarrow> InlineIoUringAofWriter \<Rightarrow> bool" where
  enqueue: "Uring_Enqueue (uring_answers sq su wa cq sy cl w) frame = (ok, w') \<Longrightarrow> uring_step w w'"
| flush: "Uring_Flush (uring_answers sq su wa cq sy cl w) = (ok, w') \<Longrightarrow> uring_step w w'"
| poll: "uring_step w (Uring_Poll (uring_answers sq su wa cq sy cl w))"
| stop: "uring_step w (Uring_Stop (uring_answers sq su wa cq sy cl w))"

interpretation uring: transition_system "uring_start disk" uring_step for disk .

definition uring_ok :: "bytes \<Rightarrow> InlineIoUringAofWriter \<Rightarrow> bool" where
  "uring_ok disk w \<longleftrightarrow> uring_inv disk w \<and> (iu_stopped w \<or> iu_fd w \<and> iu_ring_inited w)"

lemma uring_ok_answers [simp]: "uring_ok disk (uring_answers sq su wa cq sy cl w) = uring_ok disk w"
  by (simp add: uring_ok_def) (simp add: uring_answers_def)

lemma uring_start_ok: "uring_start disk w \<Longrightarrow> uring_ok disk w"
  by (auto simp: uring_start_def TryMakeIoUringAofWriter_def Uring_Init_def Uring_new_def uring_ok_def uring_inv_def
      requests_ok_def flight_ok_def tidy_file_def Let_def split: if_splits)

lemma kept_ok: "uring_ok disk w \<Longrightarrow> keeps_log disk w w' \<Longrightarrow> uring_ok disk w'"
  and logs_ok: "uring_ok disk w \<Longrightarrow> logs disk p w w' \<Longrightarrow> uring_ok disk w'"
  by (simp_all add: uring_ok_def keeps_log_def logs_def)

lemma Stop_ok:
  assumes "uring_ok disk w"
  shows "uring_ok disk (Uring_Stop w)"
proof (cases "iu_stopped w")
  case False
  let ?v = "w\<lparr>iu_stopped := True\<rparr>"
  have "uring_ok disk ?v" using assms by (auto simp: uring_ok_def uring_inv_def requests_ok_def flight_ok_def tidy_file_def)
  with kept.R_Flush [of disk ?v] have "uring_inv disk (snd (Uring_Flush ?v))" "iu_stopped (snd (Uring_Flush ?v))"
    by (simp_all add: keeps_log_def uring_ok_def)
  with False show ?thesis
    by (auto simp: Uring_Stop_def Let_def uring_ok_def uring_inv_def requests_ok_def flight_ok_def tidy_file_def)
qed (use assms in \<open>simp add: Uring_Stop_def\<close>)

lemma uring_step_ok: "uring_ok disk w \<Longrightarrow> uring_step w w' \<Longrightarrow> uring_ok disk w'"
proof (erule uring_step.cases)
  fix sq su wa cq sy cl u frame ok u'
  assume w: "uring_ok disk w" "w = u" "w' = u'" "Uring_Enqueue (uring_answers sq su wa cq sy cl u) frame = (ok, u')"
  from Enqueue_logs [OF w(4)] obtain p where "logs disk p (uring_answers sq su wa cq sy cl u) u'" by blast
  with w show ?thesis by (metis logs_ok uring_ok_answers)
next
  fix sq su wa cq sy cl u ok u'
  assume w: "uring_ok disk w" "w = u" "w' = u'" "Uring_Flush (uring_answers sq su wa cq sy cl u) = (ok, u')"
  with kept.R_Flush [of disk "uring_answers sq su wa cq sy cl u"] show ?thesis by (metis kept_ok snd_conv uring_ok_answers)
next
  fix sq su wa cq sy cl u
  assume "uring_ok disk w" "w = u" "w' = Uring_Poll (uring_answers sq su wa cq sy cl u)"
  then show ?thesis using kept.R_Poll kept_ok uring_ok_answers by metis
next
  fix sq su wa cq sy cl u
  assume "uring_ok disk w" "w = u" "w' = Uring_Stop (uring_answers sq su wa cq sy cl u)"
  then show ?thesis using Stop_ok uring_ok_answers by metis
qed

lemma uring_run_ok: "uring_start disk w0 \<Longrightarrow> uring_step\<^sup>*\<^sup>* w0 w \<Longrightarrow> uring_ok disk w"
  using uring.reachable_invariant [of disk w "uring_ok disk"] uring_start_ok uring_step_ok
  unfolding uring.reachable_def by blast

lemma uring_file_prefix:
  assumes "uring_start disk w0" and "uring_step\<^sup>*\<^sup>* w0 w" and "tidy (iu_seen w)"
  shows "prefix (iu_file w) (disk @ iu_log w)"
proof -
  have inv: "uring_inv disk w" using uring_run_ok [OF assms(1,2)] by (simp add: uring_ok_def)
  with assms(3) obtain k where k: "iu_file w = disk @ concat (take k (sent_data w))" by (auto simp: uring_inv_def tidy_file_def)
  have "concat (sent_data w) = concat (take k (sent_data w)) @ concat (drop k (sent_data w))"
    by (metis append_take_drop_id concat_append)
  with inv k show ?thesis by (simp add: uring_inv_def requests_ok_def) (metis append.assoc prefixI)
qed

text \<open>A writer made on an empty file.\<close>

definition sample_uring :: "AofFsyncPolicy \<Rightarrow> InlineIoUringAofWriter" where
  "sample_uring fsync = (Uring_new [] fsync 0 0)\<lparr>iu_fd := True, iu_ring_inited := True\<rparr>"

lemma sample_uring_start: "uring_start [] (sample_uring fsync)"
proof -
  have "TryMakeIoUringAofWriter \<lparr>ui_create_directories = True, ui_open = True, ui_lseek = True, ui_queue_init = True\<rparr> [] fsync 0 0
      = Some (sample_uring fsync)"
    by (simp add: TryMakeIoUringAofWriter_def Uring_Init_def sample_uring_def Uring_new_def Let_def)
  then show ?thesis unfolding uring_start_def by blast
qed

text \<open>
  C28. What the inline writer hands to the kernel is its log. In every run, whatever the kernel answers, the
  writes submitted, one behind the other from the old end of the file on, and then the buffer make up the bytes
  logged so far; a frame that \<^verbatim>\<open>Enqueue\<close> accepts joins the log behind the others, of a refused one it keeps
  all or nothing when the frame is not above the cap, and a front part otherwise; and as long as
  the kernel has completed the writes in order and in full, the file holds a front part of the log behind what it held.
\<close>

theorem uring_writes_follow_log:
  assumes "uring_start disk w0" and "uring_step\<^sup>*\<^sup>* w0 w"
    and "Uring_Enqueue (uring_answers sq su wa cq sy cl w) frame = (ok, w')"
  shows "concat (map snd (iu_sent w)) @ iu_aof_buf w = iu_log w \<and> laid_out (length disk) (iu_sent w)
    \<and> (\<exists>p. prefix p frame \<and> iu_log w' = iu_log w @ p \<and> (ok \<longrightarrow> p = frame \<and> frame \<noteq> [])
          \<and> (length frame \<le> kHardCap \<longrightarrow> p = [] \<or> p = frame))
    \<and> (tidy (iu_seen w) \<longrightarrow> prefix (iu_file w) (disk @ iu_log w))"
proof -
  have inv: "uring_inv disk w" using uring_run_ok [OF assms(1,2)] by (simp add: uring_ok_def)
  have "iu_log (uring_answers sq su wa cq sy cl w) = iu_log w" by (simp add: uring_answers_def)
  then have "\<exists>p. prefix p frame \<and> iu_log w' = iu_log w @ p \<and> (ok \<longrightarrow> p = frame \<and> frame \<noteq> [])
          \<and> (length frame \<le> kHardCap \<longrightarrow> p = [] \<or> p = frame)"
    using Enqueue_logs [OF assms(3), of disk] by (auto simp: logs_def)
  moreover have "prefix (iu_file w) (disk @ iu_log w)" if "tidy (iu_seen w)" using assms(1,2) that by (rule uring_file_prefix)
  ultimately show ?thesis using inv by (simp add: uring_inv_def requests_ok_def)
qed

lemma DrainPending_True: "DrainPending n w = (True, w') \<Longrightarrow> iu_pending w' = []"
  by (induction n w rule: DrainPending.induct) (auto simp: Let_def split: if_splits prod.splits)

lemma flush_if_any_True:
  assumes "flush_if_any w = (True, w')" and "iu_fd w" and "iu_ring_inited w" and "\<not> iu_io_failed w"
  shows "iu_aof_buf w' = []"
proof (cases "iu_aof_buf w = []")
  case False
  let ?p = "if kMaxPending \<le> length (iu_pending w) then WaitForPendingSlot w else (True, w)"
  obtain ok w1 where p: "?p = (ok, w1)" by fastforce
  obtain got w2 where q: "obtain_sqe w1 = (got, w2)" by fastforce
  have s: "send_buffer w2 = (True, w')" using assms False p q by (auto simp: flush_if_any_def FlushBuffer_def split: if_splits)
  have "same_buffer w w1" using same.R_WaitForPendingSlot [of w] same.R_refl [of w] p by (auto split: if_splits)
  moreover have "same_buffer w1 w2" using same.R_obtain [of w1] q by simp
  ultimately have "iu_aof_buf w2 \<noteq> []" using False by (simp add: same_buffer_def)
  then show ?thesis using s by (cases w2 rule: send_buffer_cases) auto
qed (use assms in \<open>simp add: flush_if_any_def\<close>)

text \<open>
  C27. Flushing the inline writer makes the log durable, if the kernel is tidy. When \<^verbatim>\<open>Flush\<close> returns true before
  \<^verbatim>\<open>Stop\<close> in any run in which every completion was in order and in full, the file holds what it held at first
  and then all bytes logged, nothing is buffered or in flight, and unless the policy is \<^verbatim>\<open>no\<close> a sync has
  covered all of it.
\<close>

theorem uring_flush_durable:
  assumes "uring_start disk w0" and "uring_step\<^sup>*\<^sup>* w0 w" and "\<not> iu_stopped w"
    and "Uring_Flush (uring_answers sq su wa cq sy cl w) = (True, w')" and "tidy (iu_seen w')"
  shows "iu_file w' = disk @ iu_log w \<and> iu_log w' = iu_log w \<and> iu_aof_buf w' = [] \<and> iu_pending w' = []
    \<and> (iu_fsync w' \<noteq> kNo \<longrightarrow> iu_durable w' = length (iu_file w'))"
proof -
  let ?v = "uring_answers sq su wa cq sy cl w"
  have v: "uring_inv disk ?v" "iu_fd ?v" "iu_ring_inited ?v" "iu_log ?v = iu_log w"
    using uring_run_ok [OF assms(1,2)] assms(3) by (simp_all add: uring_ok_def) (simp_all add: uring_answers_def)
  have k: "keeps_log disk ?v w'" using kept.R_Flush [of disk ?v] assms(4) by simp
  then have i: "uring_inv disk w'" "iu_ring_inited w'" "iu_log w' = iu_log w" using v by (simp_all add: keeps_log_def)
  obtain a1 w1 where 1: "flush_if_any ?v = (a1, w1)" by fastforce
  obtain a2 w2 where 2: "DrainPending 200 w1 = (a2, w2)" by fastforce
  obtain a3 w3 where 3: "Uring_SyncFile w2 = (a3, w3)" by fastforce
  have nf: "\<not> iu_io_failed ?v" and a: "a1" "a2"
    and e: "if iu_fsync w2 = kNo then w' = w2 else a3 \<and> w' = w3"
    using assms(4) 1 2 3 by (auto simp: Uring_Flush_def split: if_splits bool.splits)
  have b1: "iu_aof_buf w1 = []" using flush_if_any_True [of ?v w1] 1 a v nf by simp
  have s2: "same_buffer w1 w2" using same.R_drain [of w1 200] 2 by simp
  have p2: "iu_pending w2 = []" using DrainPending_True [of 200 w1 w2] 2 a by simp
  have "iu_fd w2" using kept.R_flush_if_any [of disk ?v] 1 s2 v by (simp add: keeps_log_def same_buffer_def)
  then have d: "iu_fsync w' \<noteq> kNo \<longrightarrow> \<not> iu_dirty w'" and w': "iu_aof_buf w' = []" "iu_pending w' = []"
    using e 3 b1 s2 p2 by (cases w2 rule: Uring_SyncFile_cases; auto simp: same_buffer_def split: if_splits)+
  have "tidy_file disk w'" using i(1) assms(5) by (simp add: uring_inv_def)
  then obtain n where n: "iu_file w' = disk @ concat (take n (sent_data w'))"
    "iu_ring_inited w' \<longrightarrow> map pw_buf (iu_pending w') = drop n (sent_data w') \<and> (\<forall>p \<in> set (iu_pending w'). pw_bytes_written p = 0)"
    "\<not> iu_dirty w' \<longrightarrow> iu_durable w' = length (iu_file w')" unfolding tidy_file_def by blast
  then have "drop n (sent_data w') = []" using i(2) w'(2) by simp
  then have "take n (sent_data w') = sent_data w'" by simp
  with n i w' d show ?thesis by (simp add: uring_inv_def requests_ok_def)
qed

subsection \<open>The policies\<close>

text \<open>A writer at rest that can send a frame at once, and what it becomes.\<close>

definition ready_to_send :: "InlineIoUringAofWriter \<Rightarrow> bool" where
  "ready_to_send w \<longleftrightarrow> iu_fsync w = kAlways \<and> iu_fd w \<and> iu_ring_inited w \<and> \<not> iu_stopped w \<and> \<not> iu_io_failed w
     \<and> iu_aof_buf w = [] \<and> \<not> iu_dirty w \<and> length (iu_pending w) < kMaxPending"

definition request_of :: "bytes \<Rightarrow> InlineIoUringAofWriter \<Rightarrow> PendingWrite" where
  "request_of frame w = \<lparr>pw_buf = frame, pw_bytes_total = length frame, pw_bytes_written = 0, pw_offset = iu_aof_offset w,
     pw_user_data = iu_next_user_data w\<rparr>"

definition in_flight :: "bytes \<Rightarrow> InlineIoUringAofWriter \<Rightarrow> InlineIoUringAofWriter" where
  "in_flight frame w = w\<lparr>iu_aof_buf := [], iu_log := iu_log w @ frame, iu_sqes := tl (iu_sqes w), iu_submits := tl (iu_submits w),
     iu_clock := tl (iu_clock w), iu_last_flush := fst (steady_now w),
     iu_next_user_data := (iu_next_user_data w + 1) mod 2 ^ 64, iu_aof_offset := iu_aof_offset w + length frame,
     iu_pending := iu_pending w @ [request_of frame w], iu_sent := iu_sent w @ [(iu_aof_offset w, frame)]\<rparr>"

lemma FlushBuffer_sends:
  assumes "ready_to_send w" and "frame \<noteq> []" and "iu_sqes w = True # sq" and "iu_submits w = True # su"
  shows "FlushBuffer (append_buf frame w) = (True, in_flight frame w)"
  using assms
  by (simp add: FlushBuffer_def ready_to_send_def append_buf_def obtain_sqe_def io_uring_get_sqe_def send_buffer_def
      io_uring_submit_def steady_now_def in_flight_def request_of_def Let_def split: list.split)

lemma Enqueue_sends:
  assumes "ready_to_send w" and "frame \<noteq> []" and "length frame \<le> kHardCap"
    and "iu_sqes w = True # sq" and "iu_submits w = True # su"
  shows "Uring_Enqueue w frame = (True, in_flight frame w)"
proof -
  have b: "iu_aof_buf (append_buf frame w) = frame" "make_room (length frame) w = (True, w)"
    "iu_fsync (append_buf frame w) = kAlways"
    using assms by (simp_all add: append_buf_def ready_to_send_def make_room_def)
  have s: "iu_fsync (in_flight frame w) = kAlways" "flush_if_any (in_flight frame w) = (True, in_flight frame w)"
    "Uring_SyncFile (in_flight frame w) = (True, in_flight frame w)"
    using assms(1) by (simp_all add: in_flight_def ready_to_send_def flush_if_any_def Uring_SyncFile_def)
  note f = FlushBuffer_sends [OF assms(1,2,4,5)]
  show ?thesis using assms(1-3) b s f
    by (simp add: Uring_Enqueue_def ready_to_send_def Let_def flush_if_any_def)
qed

lemma sample_uring_ready: "ready_to_send (uring_answers sq su wa cq sy cl (sample_uring kAlways))"
  by (simp add: ready_to_send_def uring_answers_def sample_uring_def Uring_new_def kMaxPending_def)

text \<open>
  C30. The policy \<^verbatim>\<open>always\<close> does not wait for the disk. A frame given to the inline writer at rest is accepted
  as soon as its write is submitted: not a byte of it need be in the file, and \<^verbatim>\<open>fdatasync\<close> has not been called.
\<close>

theorem uring_always_acknowledges_unsynced:
  assumes "ready_to_send w" and "frame \<noteq> []" and "length frame \<le> kHardCap"
    and "iu_sqes w = True # sq" and "iu_submits w = True # su"
  shows "\<exists>w'. Uring_Enqueue w frame = (True, w') \<and> iu_file w' = iu_file w \<and> iu_durable w' = iu_durable w
    \<and> iu_syncs w' = iu_syncs w \<and> iu_pending w' = iu_pending w @ [request_of frame w]"
  using Enqueue_sends [OF assms] by (simp add: in_flight_def)

theorem uring_always_acknowledges_unsynced_witness:
  "\<exists>w'. Uring_Enqueue (uring_answers [True] [True] [] [] [True] [5] (sample_uring kAlways)) ''ab'' = (True, w')
    \<and> iu_file w' = [] \<and> iu_durable w' = 0 \<and> iu_syncs w' = [True]"
  using uring_always_acknowledges_unsynced [OF sample_uring_ready [of "[True]" "[True]" "[]" "[]" "[True]" "[5]"], of "''ab''" "[]" "[]"]
  by (auto simp: uring_answers_def sample_uring_def Uring_new_def kHardCap_def)

text \<open>Flushing it when the kernel completes its write.\<close>

lemma Flush_sent:
  assumes "ready_to_send w" and "iu_pending w = []" and "frame \<noteq> []"
  obtains w' where "Uring_Flush (uring_answers [] [] [] [[(iu_next_user_data w, int (length frame))]] [True] [6] (in_flight frame w)) = (True, w')"
    "iu_file w' = iu_file w @ frame" "iu_seen w' = iu_seen w @ [(Some 0, int (length frame), length frame)]" "iu_fsync w' = kAlways"
    "iu_durable w' = length (iu_file w')" "iu_log w' = iu_log w @ frame"
proof -
  let ?v = "uring_answers [] [] [] [[(iu_next_user_data w, int (length frame))]] [True] [6] (in_flight frame w)"
  let ?p = "request_of frame w"
  have v: "iu_pending ?v = [?p]" "iu_aof_buf ?v = []" "iu_ring_inited ?v" "iu_fd ?v" "iu_fsync ?v = kAlways" "\<not> iu_io_failed ?v"
    "iu_cqes ?v = [[(iu_next_user_data w, int (length frame))]]" "iu_file ?v = iu_file w" "iu_syncs ?v = [True]" "iu_seen ?v = iu_seen w"
    using assms by (simp_all add: in_flight_def uring_answers_def ready_to_send_def)
  have p: "pw_user_data ?p = iu_next_user_data w" "pw_buf ?p = frame" "pw_bytes_total ?p = length frame" "pw_bytes_written ?p = 0"
    by (simp_all add: request_of_def)
  let ?c = "?v\<lparr>iu_cqes := [], iu_seen := iu_seen w @ [(Some 0, int (length frame), length frame)], iu_file := iu_file w @ frame,
      iu_dirty := True, iu_pending := []\<rparr>"
  have "on_cqe (iu_next_user_data w, int (length frame)) (?v\<lparr>iu_cqes := []\<rparr>) = ?c"
    using v p assms(3) by (simp add: on_cqe_def Let_def landed_def RemovePending_def)
  then have "PeekCompletions ?v = ?c" using v by (simp add: PeekCompletions_def)
  then have d: "DrainPending 200 ?v = (True, ?c)" using v(1) by (simp add: eval_nat_numeral)
  obtain w' where w': "Uring_SyncFile ?c = (True, w')" "iu_seen w' = iu_seen ?c" "iu_fsync w' = kAlways" "\<not> iu_io_failed w'"
    "iu_file w' = iu_file ?c" "iu_durable w' = length (iu_file ?c)" "iu_log w' = iu_log ?c"
    using v by (cases ?c rule: Uring_SyncFile_cases) (simp_all add: Uring_SyncFile_def fdatasync_def split: prod.splits)
  then have "Uring_Flush ?v = (True, w')" using d v by (simp add: Uring_Flush_def flush_if_any_def)
  moreover have "iu_log ?c = iu_log w @ frame" by (simp add: uring_answers_def in_flight_def)
  ultimately show ?thesis using w' that by simp
qed

definition sample_sent :: InlineIoUringAofWriter where
  "sample_sent = in_flight ''ab'' (uring_answers [True] [True] [] [] [] [5] (sample_uring kAlways))"

lemma sample_sent_step: "uring_step\<^sup>*\<^sup>* (sample_uring kAlways) sample_sent"
proof (rule r_into_rtranclp)
  have "Uring_Enqueue (uring_answers [True] [True] [] [] [] [5] (sample_uring kAlways)) ''ab'' = (True, sample_sent)"
    unfolding sample_sent_def
    by (rule Enqueue_sends [OF sample_uring_ready]) (simp_all add: kHardCap_def uring_answers_def)
  then show "uring_step (sample_uring kAlways) sample_sent" by (rule enqueue)
qed

theorem uring_writes_follow_log_witness:
  "\<exists>w'. Uring_Enqueue (uring_answers [True] [True] [] [] [] [5] (sample_uring kAlways)) ''ab'' = (True, w')
    \<and> iu_log w' = iu_log (sample_uring kAlways) @ ''ab''"
proof -
  obtain w' where e: "Uring_Enqueue (uring_answers [True] [True] [] [] [] [5] (sample_uring kAlways)) ''ab'' = (True, w')"
    using Enqueue_sends [OF sample_uring_ready [of "[True]" "[True]" "[]" "[]" "[]" "[5]"], of "''ab''" "[]" "[]"]
    by (simp add: kHardCap_def uring_answers_def)
  from uring_writes_follow_log [OF sample_uring_start rtranclp.rtrancl_refl e] e show ?thesis by blast
qed

theorem uring_flush_durable_witness:
  "\<exists>w'. Uring_Flush (uring_answers [] [] [] [[(1, 2)]] [True] [6] sample_sent) = (True, w')
    \<and> iu_file w' = ''ab'' \<and> iu_durable w' = 2"
proof -
  let ?v = "uring_answers [True] [True] [] [] [] [5] (sample_uring kAlways)"
  have v: "iu_pending ?v = []" "iu_next_user_data ?v = 1" "iu_file ?v = []" "iu_seen ?v = []"
    by (simp_all add: uring_answers_def sample_uring_def Uring_new_def)
  have s: "\<not> iu_stopped sample_sent" "iu_log sample_sent = ''ab''"
    by (simp_all add: sample_sent_def in_flight_def uring_answers_def sample_uring_def Uring_new_def)
  have "''ab'' \<noteq> []" by simp
  from Flush_sent [OF sample_uring_ready v(1) this] obtain w' where
    f: "Uring_Flush (uring_answers [] [] [] [[(iu_next_user_data ?v, int (length ''ab''))]] [True] [6] (in_flight ''ab'' ?v)) = (True, w')"
    and w'2: "iu_seen w' = iu_seen ?v @ [(Some 0, int (length ''ab''), length ''ab'')]" "iu_fsync w' = kAlways" by metis
  have "[[(iu_next_user_data ?v, int (length ''ab''))]] = [[(1, 2)]]" using v(2) by simp
  with f have f2: "Uring_Flush (uring_answers [] [] [] [[(1, 2)]] [True] [6] sample_sent) = (True, w')"
    unfolding sample_sent_def by (simp only:)
  have w': "Uring_Flush (uring_answers [] [] [] [[(1, 2)]] [True] [6] sample_sent) = (True, w')"
    "iu_seen w' = [(Some 0, 2, 2)]" "iu_fsync w' = kAlways" using f2 w'2 v(4) by simp_all
  then have "tidy (iu_seen w')" by (simp add: tidy_def)
  from uring_flush_durable [OF sample_uring_start sample_sent_step s(1) w'(1) this] s(2) w'(1,3) show ?thesis by simp
qed

text \<open>The answers for two frames and the completions that follow, the first of them short by some bytes.\<close>

definition short_write_answers ::
  "nat \<Rightarrow> bytes \<Rightarrow> bytes \<Rightarrow> InlineIoUringAofWriter \<Rightarrow> InlineIoUringAofWriter" where
  "short_write_answers n a b w = uring_answers [True, True, True] [True, True, True] []
     [[(iu_next_user_data w, int n), (iu_next_user_data w + 1, int (length b)), (iu_next_user_data w, int (length a - n))]]
     [True] [1, 2, 3] w"

text \<open>
  C31. A short write tears frames apart. With the policy \<^verbatim>\<open>always\<close> two frames are accepted; the kernel writes
  only a part of the first, as it may, then all of the second, and then the rest of the first that the writer submits again.
  Because the file is open for appending, the rest lands behind the second frame whatever offset the writer
  asks for; yet \<^verbatim>\<open>Flush\<close> reports success.
\<close>

theorem uring_short_write_tears:
  assumes "ready_to_send w" and "iu_pending w = []" and "iu_next_user_data w < 2 ^ 64 - 1"
    and "0 < n" and "n < length a" and "length a \<le> kHardCap" and "b \<noteq> []" and "length b \<le> kHardCap"
  shows "\<exists>w1 w2 w3. Uring_Enqueue (short_write_answers n a b w) a = (True, w1) \<and> Uring_Enqueue w1 b = (True, w2)
    \<and> Uring_Flush w2 = (True, w3) \<and> iu_log w3 = iu_log w @ a @ b
    \<and> iu_file w3 = iu_file w @ take n a @ b @ drop n a \<and> iu_durable w3 = length (iu_file w3)"
proof -
  let ?v = "short_write_answers n a b w"
  let ?w1 = "in_flight a ?v"
  let ?w2 = "in_flight b ?w1"
  let ?u = "iu_next_user_data w"
  have u: "(?u + 1) mod 2 ^ 64 = ?u + 1" using assms(3) by simp
  have "ready_to_send ?v" "a \<noteq> []" "iu_sqes ?v = [True, True, True]" "iu_submits ?v = [True, True, True]"
    using assms by (auto simp: ready_to_send_def short_write_answers_def uring_answers_def)
  then have 1: "Uring_Enqueue ?v a = (True, ?w1)" using assms(6) by (intro Enqueue_sends)
  have "ready_to_send ?w1" "iu_sqes ?w1 = [True, True]" "iu_submits ?w1 = [True, True]"
    using assms by (auto simp: ready_to_send_def short_write_answers_def uring_answers_def in_flight_def kMaxPending_def)
  then have 2: "Uring_Enqueue ?w1 b = (True, ?w2)" using assms(7,8) by (intro Enqueue_sends)
  have f: "flush_if_any ?w2 = (True, ?w2)" by (simp add: flush_if_any_def in_flight_def)
  let ?pa = "request_of a ?v"
  let ?pb = "request_of b ?w1"
  have w2: "iu_pending ?w2 = [?pa, ?pb]" "iu_ring_inited ?w2" "iu_fd ?w2" "iu_fsync ?w2 = kAlways" "\<not> iu_io_failed ?w2"
    "iu_cqes ?w2 = [[(?u, int n), (?u + 1, int (length b)), (?u, int (length a - n))]]" "iu_file ?w2 = iu_file w"
    "iu_syncs ?w2 = [True]" "iu_clock ?w2 = [3]" "iu_sqes ?w2 = [True]" "iu_submits ?w2 = [True]" "iu_log ?w2 = iu_log w @ a @ b"
    using assms(1,2) by (auto simp: ready_to_send_def short_write_answers_def uring_answers_def in_flight_def)
  have ud: "pw_user_data ?pa = ?u" "pw_user_data ?pb = ?u + 1"
    using u by (simp_all add: request_of_def short_write_answers_def uring_answers_def in_flight_def)
  have pw: "pw_buf ?pa = a" "pw_bytes_total ?pa = length a" "pw_bytes_written ?pa = 0"
    "pw_buf ?pb = b" "pw_bytes_total ?pb = length b" "pw_bytes_written ?pb = 0" by (simp_all add: request_of_def)
  let ?c0 = "?w2\<lparr>iu_cqes := []\<rparr>"
  let ?pa1 = "?pa\<lparr>pw_bytes_written := n\<rparr>"
  let ?c1 = "?c0\<lparr>iu_seen := iu_seen ?w2 @ [(Some 0, int n, length a)], iu_file := iu_file w @ take n a,
      iu_pending := [?pa1, ?pb], iu_sqes := [], iu_submits := []\<rparr>"
  have c1: "on_cqe (?u, int n) ?c0 = ?c1"
    using assms(4,5) w2 ud pw
    by (simp add: on_cqe_def Let_def landed_def resubmit_def io_uring_get_sqe_def io_uring_submit_def)
  let ?c2 = "?c1\<lparr>iu_seen := iu_seen ?c1 @ [(Some 1, int (length b), length b)], iu_file := iu_file w @ take n a @ b,
      iu_dirty := True, iu_pending := [?pa1]\<rparr>"
  have c2: "on_cqe (?u + 1, int (length b)) ?c1 = ?c2"
    using assms(7) ud pw by (simp add: on_cqe_def Let_def landed_def RemovePending_def)
  let ?c3 = "?c2\<lparr>iu_seen := iu_seen ?c2 @ [(Some 0, int (length a - n), length a - n)],
      iu_file := iu_file w @ take n a @ b @ drop n a, iu_pending := []\<rparr>"
  have c3: "on_cqe (?u, int (length a - n)) ?c2 = ?c3"
    using assms(5) ud pw by (simp add: on_cqe_def Let_def landed_def RemovePending_def)
  have "PeekCompletions ?w2 = ?c3" using w2(2,6) c1 c2 c3 by (simp add: PeekCompletions_def del: One_nat_def)
  then have d: "DrainPending 200 ?w2 = (True, ?c3)" using w2(1) by (simp add: eval_nat_numeral)
  have "Uring_SyncFile ?c3 = (True, ?c3\<lparr>iu_syncs := [], iu_durable := length (iu_file ?c3), iu_clock := [], iu_dirty := False,
      iu_last_fsync := 3\<rparr>)"
    using w2 by (simp add: Uring_SyncFile_def fdatasync_def steady_now_def)
  then have "Uring_Flush ?w2 = (True, ?c3\<lparr>iu_syncs := [], iu_durable := length (iu_file ?c3), iu_clock := [], iu_dirty := False,
      iu_last_fsync := 3\<rparr>)"
    using f d w2(4,5) by (simp add: Uring_Flush_def)
  with 1 2 w2(12) show ?thesis by simp
qed

theorem uring_short_write_tears_witness:
  "\<exists>w1 w2 w3. Uring_Enqueue (short_write_answers 1 ''abc'' ''xy'' (sample_uring kAlways)) ''abc'' = (True, w1)
    \<and> Uring_Enqueue w1 ''xy'' = (True, w2) \<and> Uring_Flush w2 = (True, w3) \<and> iu_log w3 = ''abcxy'' \<and> iu_file w3 = ''axybc''"
proof -
  have "ready_to_send (sample_uring kAlways)" "iu_pending (sample_uring kAlways) = []"
    "iu_next_user_data (sample_uring kAlways) < 2 ^ 64 - 1" "iu_log (sample_uring kAlways) = []" "iu_file (sample_uring kAlways) = []"
    by (simp_all add: ready_to_send_def sample_uring_def Uring_new_def kMaxPending_def)
  with uring_short_write_tears [of "sample_uring kAlways" 1 "''abc''" "''xy''"] show ?thesis by (auto simp: kHardCap_def)
qed

lemma resubmit_clock: "iu_clock (resubmit i pw w) = iu_clock w"
  by (simp add: resubmit_def io_uring_get_sqe_def io_uring_submit_def RemovePending_def split: list.split)

lemma on_cqe_clock: "iu_clock (on_cqe (ud, res) w) = iu_clock w"
  by (simp add: on_cqe_def stale_landed_def landed_def resubmit_clock RemovePending_def Let_def split: option.split)

lemma PeekCompletions_clock: "iu_clock (PeekCompletions w) = iu_clock w"
proof -
  have "iu_clock (fold on_cqe cs v) = iu_clock v" for cs v by (induction cs arbitrary: v) (auto simp: on_cqe_clock)
  then show ?thesis by (simp add: PeekCompletions_def split: list.split)
qed



end
