(* ===== verification/Spec2Isabelle.thy ===== *)
theory Spec2Isabelle
  imports MasterRuns SlaveSync AofLive Startup EventLoop IoUringRuns
begin

text \<open>
  \<^bold>\<open>Vemory\<close> is an in-memory key/value store and semantic cache that speaks RESP. A request travels from the
  connection's read buffer through the RESP decoder and the command table to a store; writes pass through
  one function, \<^verbatim>\<open>ApplyMutation\<close>, which evicts when the cache is full, appends the write to the AOF and
  feeds the replicas; at start-up the AOF is replayed through the same function.

  \<^bold>\<open>Theories, bottom up.\<close>

  \<^item> Vemory_Prelude: bytes, decimal and little-endian numerals, \<^verbatim>\<open>strtoll\<close>, the unordered-map model \<open>umap\<close>
    (an association list with distinct keys; its list order stands for the container's unspecified
    iteration order) and the collections \<open>umap_simps\<close> and \<open>wf_intros\<close>.
  \<^item> Resp: RespEncode.cc and RespDecode.cc. Round trip, finality of verdicts, incomplete input, progress.
  \<^item> Float32: \<^verbatim>\<open>strtof\<close> and comparison of 32-bit floats as rationals with infinities and NaN.
  \<^item> Request: CommandType.cc, RequestContext.cc, \<^verbatim>\<open>EncodeWriteCommand\<close>. Write frames lose nothing.
  \<^item> Stdio: the \<^verbatim>\<open>FILE*\<close> operations the persistence code uses, with a device that can run full.
  \<^item> KvStore: KvStore.cc, with the interface \<open>keyed_store\<close> (last write wins, overlapping replay), dump and
    the two loaders.
  \<^item> LruOrder: LruOrder.h with list nodes by address, and the interface \<open>recency_order\<close>.
  \<^item> VNodeStorage, VNodeCodec: VNodeStorage.cc and RespVNodeCodec.cc; 16-bit ids with a wrapping counter.
  \<^item> UsearchIndex: USearchEmbedIndex.cc. The vendored usearch library is the parameter \<open>usearch_api\<close>, a
    record of its operations; \<open>usearch_total\<close> names the only assumption made of it (with memory available
    its operations succeed), and only where a property says so. \<open>flat_api\<close> is an instance.
  \<^item> VNodeIndex: VNodeIndex.cc, the cache proper. The invariant \<open>vi_wf\<close> ties storage, access order and index
    together.
  \<^item> Backlog: ReplicationBacklog.cc, the ring refined to the stream of all bytes fed.
  \<^item> Wal: the virtual class \<^verbatim>\<open>AofWriter\<close> as a table of operations and WalManager.cc over it.
    \<open>aof_logs\<close> and \<open>aof_healthy\<close> state what its header promises; \<open>memory_writer\<close> is an instance.
  \<^item> Mutation: MutationApply.cc with eviction; Replay: \<^verbatim>\<open>WalManager::Replay\<close> and the relation \<open>logs_step\<close>
    between what a mutation changes and what it logs.
  \<^item> Snapshot: RdbFormat.h, MappedFile.cc, SnapshotManager.cc: the file format, saving through a temporary file,
    both loaders, and the background save as a transition system over the forked child.
  \<^item> Dispatch: HandlerRegister.cc, CommandHandler.cc and the five dispatchers.
  \<^item> Protocol: MessageBuffer.h, RespProtocolHandler.cc, ProtocolExecutor.cc.
  \<^item> TcpConn: TcpConnection.cc. The interface \<open>transfer_owner\<close> says what the write loop relies on of the owner of a
    file transfer; its output is a stream that only grows.
  \<^item> ReplicationMaster: ReplicationMaster.cc and the invariant that every operation keeps; MasterRuns: the runs
    of the master (PSYNC, frames, partial writes, saves) as a transition system and what replicas receive.
  \<^item> ReplicationSlave: ReplicationSlave.cc, the parser of the synchronisation stream and the link; SlaveLink: the
    invariant of its runs (a way on is never lost, but for one case); SlaveSync: what a full and a partial
    resynchronisation give, however the bytes are cut, and what some lost links and errors do.
  \<^item> Config, Settings: Config.cc, the INI file and the command line, with their bounds, errors and a round trip.
  \<^item> AofThread: BlockingQueue.h and ThreadAofWriter.cc, client and flush thread interleaved step by step;
    AofInv, AofRuns, AofLive: its invariant, what is in the file and synced, and that no call waits for ever.
  \<^item> IoUring: IoUringAofWriter.cc, the default AOF writer; IoUringRuns: the locales \<open>uring_ring\<close> and
    \<open>uring_rel\<close> lift a property of the single accesses to all operations; what is logged, submitted, written and
    synced, and where the writer promises more than it keeps.
  \<^item> Server, Startup: \<^verbatim>\<open>main\<close> (Vemory.cc), \<^verbatim>\<open>MakeAofWriter\<close> (AofWriter.cc) and TcpServer.cc; how the start
    ends and which data wins.
  \<^item> Timer, EventLoop: Timer.h, EventLoop.h and the callbacks of the process' two timers. The interface
    \<open>timer_user\<close> says what the loop over due timers relies on of its callbacks.
  \<^item> This theory: restart from the AOF, and the recovery of a server from what a crash left of it, for both writers.

  \<^bold>\<open>State and effects.\<close> Objects are records passed through and returned; a nullable pointer is an option; a
  status enum is a datatype, an escaping C++ exception an extra constructor of it. Machine integers are
  words where they can wrap (ids), naturals where they count bytes in memory. What the kernel, the clock and the
  other side of a connection answer is an input: a list consumed by the calls, an argument of a step, or a record of
  answers. Runs are transition systems (locale \<open>transition_system\<close>) over such steps, for the saving child, the
  master, the replica, the threads of the AOF writer and the inline writer.

  \<^bold>\<open>Loops.\<close> Loops are structural or have a measure; the three whose termination depends on an invariant
  (eviction, the two backlog loops) are partial functions into option and are proved to return. A pass over the
  timers consumes clock readings and is proved to end when there are more of them than timers; the loops of the
  inline writer that wait for completions have the retry bounds of the code; the flush thread is proved to drain within 10249
  of its steps, by a measure of the outstanding work.

  \<^bold>\<open>Simplifications.\<close> Bytes that \<^verbatim>\<open>fwrite\<close> accepted count as in the file, and whether \<^verbatim>\<open>fflush\<close> succeeds is an
  input. Whether \<^verbatim>\<open>reserve\<close> gets its memory at the start is an input. Timers and list nodes get addresses that are never
  used again. For the inline writer the file grows when a completion is seen, in the order of the completions, and
  \<^verbatim>\<open>fdatasync\<close> covers exactly what has been seen; a write whose submission failed and that goes out later carries the
  bytes it had when it was prepared.

  \<^bold>\<open>Not modelled:\<close> TcpConnector.cc and Logging.cc (sockets and log sinks: system calls with no logic of their own;
  the outcome of connecting is an input of the replica), the registration of descriptors with epoll, ringbuffer.h, lrucache.h and
  ThreadPool.h (no code of the server uses them) and third_party/.
\<close>

section \<open>Restart from the AOF\<close>

text \<open>A server that starts empty with the AOF on, for concrete runs.\<close>

definition empty_engine :: "nat \<Rightarrow> (flat_index, bytes, unit) engine" where
  "empty_engine max_entries =
     \<lparr>en_index = Some (VNodeIndex_new 4 max_entries), en_kv = Some [],
      en_wal = Some (WalManager_new (\<lambda>_. []) ''data'' True), en_repl = None\<rparr>"

lemma empty_engine_wf: "en_log_wf (empty_engine m)" "wal_at (\<lambda>w. w) (empty_engine m) []"
proof -
  have "vi_log_wf (VNodeIndex_new 4 m)"
    by (simp add: vi_log_wf_def vi_fresh_def keys_fit_def) (simp add: VNodeIndex_new_def VNodeStorage_empty_def umap_simps)
  then show "en_log_wf (empty_engine m)" by (simp add: en_log_wf_def empty_engine_def)
  show "wal_at (\<lambda>w. w) (empty_engine m) []" by (simp add: wal_at_def empty_engine_def WalManager_new_def)
qed



text \<open>
  A log cut off in the middle of its last frame, as after a crash, is replayed up to the last complete
  frame: the incomplete tail is ignored, and the result is the one of the complete frames alone.
\<close>

lemma aof_truncated_tail_ignored:
  assumes "\<forall>c \<in> set cs. write_ok c" and "replay_ctxs cl cs e = Some e'" and "write_ok c"
    and "strict_prefix p (the (EncodeWriteCommand c))"
    and "wm_enabled m" and "en_index e \<noteq> None" and "en_kv e \<noteq> None"
  shows "WalManager_Replay cl m (Some (concat (map (the \<circ> EncodeWriteCommand) cs) @ p)) e =
     Some (RpStatus WmOk, e')"
proof -
  have frame: "the (EncodeWriteCommand c) = write_frame c" if "write_ok c" for c
    using that EncodeWriteCommand_tokens by (simp add: write_ok_def)
  have frames: "map (the \<circ> EncodeWriteCommand) cs = map write_frame cs"
    using assms(1) frame by simp
  show ?thesis
    unfolding frames using replay_loop_truncated [OF assms(1-3)] assms(4-7) frame [OF assms(3)]
    by (simp add: WalManager_Replay_def)
qed

section \<open>Restart after a crash\<close>

text \<open>A server that starts on a part, from the beginning, of a log of complete frames.\<close>

lemma start_on_part_of_log:
  assumes "prefix part (concat (map (the \<circ> EncodeWriteCommand) all))" and "\<forall>c \<in> set all. write_ok c"
    and "cf_aof cfg" and "cf_persistence_dir cfg \<noteq> []" and "\<not> cf_load_on_startup cfg" and "\<not> cf_slaveof cfg"
    and "mc_reserve mc (cf_kv_reserve cfg)" and "mc_files mc (cf_persistence_dir cfg @ ''/appendonly.aof'') = Some part"
    and "e0 = server_engine mc cfg (VNodeIndex_new (cf_default_capacity cfg) (cf_max_entries cfg)) []"
    and "replay_ctxs (mc_classes mc) all e0 \<noteq> None"
  shows "\<exists>k sv. k \<le> length all \<and> start_server mc cfg = SvRunning sv
     \<and> replay_ctxs (mc_classes mc) (take k all) e0 = Some (ch_engine (sv_commands sv))
     \<and> length (concat (map (the \<circ> EncodeWriteCommand) (take k all))) \<le> length part
     \<and> (k < length all \<longrightarrow> length part < length (concat (map (the \<circ> EncodeWriteCommand) (take (Suc k) all))))"
proof -
  let ?f = "the \<circ> EncodeWriteCommand"
  from replay_cut_log [OF assms(2,10,1)] obtain k e' where k: "k \<le> length all"
    "replay_ctxs (mc_classes mc) (take k all) e0 = Some e'"
    "replay_loop (mc_classes mc) part e0 = Some (RpStatus WmOk, e')"
    "length (concat (map ?f (take k all))) \<le> length part"
    "k < length all \<longrightarrow> length part < length (concat (map ?f (take (Suc k) all)))" by auto
  have "replay_on_start mc (server_wal mc cfg) e0 = SvRunning e'"
    using k(3) unfolding assms(9) by (simp add: replay_on_start_ok [OF assms(3,4,8)])
  then obtain sv where sv: "start_server mc cfg = SvRunning sv" "sv_commands sv = CommandHandler_new e' (Some ()) (cf_slaveof cfg)"
    using assms(5-7) unfolding assms(9)
    by (simp add: start_server_def outcome_bind_def load_on_start_def start_slave_def)
  then have "ch_engine (sv_commands sv) = e'" by (simp add: CommandHandler_new_def Let_def)
  with k(1,2,4,5) sv(1) show ?thesis by blast
qed

text \<open>
  C3. A crash loses no more of the AOF than the file system does. Take a writer thread that appends to a log of
  complete frames, stop it anywhere in any run, failures included, keep any part of the file from its beginning
  (at the least what was synced), and start a server on it that loads no snapshot: the server runs, and its stores
  are those of replaying the frames that lie whole in the part kept; a frame cut in two is ignored.
\<close>

theorem server_recovers_after_crash:
  assumes "aof_step\<^sup>*\<^sup>* (ThreadAofWriter_new (concat (map (the \<circ> EncodeWriteCommand) old)) fs now) w"
    and "ta_accepted w = map (the \<circ> EncodeWriteCommand) cs" and "n \<le> length (aof_contents w)"
    and "\<forall>c \<in> set (old @ cs). write_ok c"
    and "cf_aof cfg" and "cf_persistence_dir cfg \<noteq> []" and "\<not> cf_load_on_startup cfg" and "\<not> cf_slaveof cfg"
    and "mc_reserve mc (cf_kv_reserve cfg)"
    and "mc_files mc (cf_persistence_dir cfg @ ''/appendonly.aof'') = Some (take n (aof_contents w))"
    and "e0 = server_engine mc cfg (VNodeIndex_new (cf_default_capacity cfg) (cf_max_entries cfg)) []"
    and "replay_ctxs (mc_classes mc) (old @ cs) e0 \<noteq> None"
  shows "\<exists>k sv. k \<le> length (old @ cs) \<and> start_server mc cfg = SvRunning sv
     \<and> replay_ctxs (mc_classes mc) (take k (old @ cs)) e0 = Some (ch_engine (sv_commands sv))
     \<and> length (concat (map (the \<circ> EncodeWriteCommand) (take k (old @ cs)))) \<le> n
     \<and> (k < length (old @ cs) \<longrightarrow> n < length (concat (map (the \<circ> EncodeWriteCommand) (take (Suc k) (old @ cs)))))"
proof -
  from aof_run_prefix [OF assms(1)] assms(2) have "prefix (aof_contents w) (concat (map (the \<circ> EncodeWriteCommand) (old @ cs)))"
    by auto
  then have "prefix (take n (aof_contents w)) (concat (map (the \<circ> EncodeWriteCommand) (old @ cs)))"
    using take_is_prefix prefix_order.order_trans by blast
  from start_on_part_of_log [OF this assms(4-12)] assms(3) show ?thesis by simp
qed

text \<open>The frame of one command accepted and written.\<close>

definition written_acts :: "bytes \<Rightarrow> aof_act list" where
  "written_acts x = [AEnqueue x, AClient good_disk, AClient good_disk, AFlush good_disk, AFlush good_disk, AFlush good_disk,
     AFlush good_disk]"

theorem server_recovers_after_crash_witness:
  "\<exists>w k sv. aof_acts (written_acts (the (EncodeWriteCommand sample_set))) (ThreadAofWriter_new [] kAlways 0) = Some w \<and> k \<le> 1
     \<and> start_server (sample_machine (take 3 (aof_contents w))) aof_config = SvRunning sv
     \<and> replay_ctxs sample_classes (take k [sample_set])
         (server_engine (sample_machine (take 3 (aof_contents w))) aof_config (VNodeIndex_new 1024 0) []) =
         Some (ch_engine (sv_commands sv))"
proof -
  let ?x = "the (EncodeWriteCommand sample_set)"
  have x: "?x \<noteq> []" "length ?x \<le> 1000" "3 \<le> length ?x"
    using sample_write_fields(1) by (simp_all add: EncodeWriteCommand_tokens write_ok_def resp_array_def sample_set_def write_tokens.simps
        resp_bulk_def crlf_def dec_of_nat.simps)
  obtain w where w: "aof_acts (written_acts ?x) (ThreadAofWriter_new (concat (map (the \<circ> EncodeWriteCommand) [])) kAlways 0) = Some w"
    "ta_accepted w = map (the \<circ> EncodeWriteCommand) [sample_set]" "aof_contents w = ?x"
    using x by (simp add: written_acts_def aof_eval)
  let ?mc = "sample_machine (take 3 (aof_contents w))"
  have r: "replay_ctxs (mc_classes ?mc) ([] @ [sample_set]) (server_engine ?mc aof_config (VNodeIndex_new 1024 0) []) \<noteq> None"
    by (simp add: ApplyMutation_def apply_set_def sample_set_def server_engine_def KvStore_Set_def um_find_def um_emplace_def)
  have "\<exists>k sv. k \<le> length ([] @ [sample_set]) \<and> start_server ?mc aof_config = SvRunning sv
     \<and> replay_ctxs (mc_classes ?mc) (take k ([] @ [sample_set])) (server_engine ?mc aof_config (VNodeIndex_new 1024 0) []) = Some (ch_engine (sv_commands sv))
     \<and> length (concat (map (the \<circ> EncodeWriteCommand) (take k ([] @ [sample_set])))) \<le> 3
     \<and> (k < length ([] @ [sample_set]) \<longrightarrow> 3 < length (concat (map (the \<circ> EncodeWriteCommand) (take (Suc k) ([] @ [sample_set])))))"
    using x(3) w(3) sample_write_fields(1) r
    by (intro server_recovers_after_crash [OF aof_acts_steps [OF w(1)] w(2)])
      (simp_all add: aof_config_def Config_init_def sample_machine_def)
  with w(1) show ?thesis by (auto simp: sample_machine_def)
qed



end
